(* ===== verification/Prelude.thy ===== *)
theory Prelude
  imports Complex_Main "HOL-Library.AList" "HOL-Library.Sublist" "HOL-Library.Char_ord"
begin

text \<open>
  Shared vocabulary of the development: results that may fail, the Python standard library
  the sources use (strings, slices, dictionaries in insertion order), and the generic
  lemmas the component theories share.

  A Python string is a list of code points; the model keeps the code points below 256 and
  uses HOL's type of strings for them. A Python dictionary whose insertion order matters is
  an association list updated with the library's \<open>AList.update\<close>, which overwrites a key
  in place and appends a new one; a dictionary that is only looked up is a map.
  Timestamps are integers, microseconds since the epoch, UTC.
\<close>

section \<open>Results\<close>

text \<open>A call that may raise: \<open>Inl\<close> the exception, \<open>Inr\<close> the value.\<close>

fun bind_result :: "'e + 'a \<Rightarrow> ('a \<Rightarrow> 'e + 'b) \<Rightarrow> 'e + 'b" where
  "bind_result (Inl e) f = Inl e"
| "bind_result (Inr x) f = f x"

definition is_ok :: "'e + 'a \<Rightarrow> bool" where
  "is_ok r = (case r of Inl _ \<Rightarrow> False | Inr _ \<Rightarrow> True)"

lemma is_ok_simps [simp]: "is_ok (Inr x)" "\<not> is_ok (Inl e)"
  by (simp_all add: is_ok_def)

lemma is_ok_iff: "is_ok r \<longleftrightarrow> (\<exists>x. r = Inr x)"
  by (cases r) auto

lemma bind_result_Inr_iff:
  "bind_result r f = Inr y \<longleftrightarrow> (\<exists>x. r = Inr x \<and> f x = Inr y)"
  by (cases r) auto

section \<open>JSON values\<close>

text \<open>
  What the sources type as \<open>Any\<close> inside a dictionary: a JSON value. \<open>JTime\<close> stands for
  the ISO rendering of a timestamp.
\<close>

datatype json =
    JNull
  | JBool bool
  | JInt int
  | JString string
  | JTime int
  | JList "json list"
  | JObject "(string \<times> json) list"

definition opt_json :: "('a \<Rightarrow> json) \<Rightarrow> 'a option \<Rightarrow> json" where
  "opt_json f x = (case x of None \<Rightarrow> JNull | Some v \<Rightarrow> f v)"

section \<open>Strings\<close>

definition startswith :: "string \<Rightarrow> string \<Rightarrow> bool" where
  "startswith s p = prefix p s"

definition endswith :: "string \<Rightarrow> string \<Rightarrow> bool" where
  "endswith s p = suffix p s"

text \<open>\<open>sub in s\<close>: \<open>sub\<close> occurs in \<open>s\<close> as a contiguous part.\<close>

fun occurs_in :: "string \<Rightarrow> string \<Rightarrow> bool" where
  "occurs_in p [] = (p = [])"
| "occurs_in p (c # cs) = (prefix p (c # cs) \<or> occurs_in p cs)"

lemma occurs_in_iff: "occurs_in p s \<longleftrightarrow> (\<exists>xs ys. s = xs @ p @ ys)"
proof (induction s)
  case Nil
  then show ?case by simp
next
  case (Cons c cs)
  have "(\<exists>xs ys. c # cs = xs @ p @ ys) \<longleftrightarrow>
      prefix p (c # cs) \<or> (\<exists>xs ys. cs = xs @ p @ ys)"
    by (metis Cons_eq_append_conv append_Cons prefixI prefix_def append_Nil)
  with Cons.IH show ?case by simp
qed

text \<open>\<open>str.isspace\<close> on the code points below 256.\<close>

definition py_space :: "char \<Rightarrow> bool" where
  "py_space c = (let n = of_char c :: nat in
     (9 \<le> n \<and> n \<le> 13) \<or> (28 \<le> n \<and> n \<le> 32) \<or> n = 133 \<or> n = 160)"

text \<open>\<open>not s.strip()\<close>: the string is empty or white space only.\<close>

definition blank :: "string \<Rightarrow> bool" where
  "blank s = list_all py_space s"

text \<open>\<open>s.strip()\<close>.\<close>

definition py_strip :: "string \<Rightarrow> string" where
  "py_strip s = rev (dropWhile py_space (rev (dropWhile py_space s)))"

text \<open>\<open>s.rsplit("/", 1)[-1]\<close>: what follows the last slash.\<close>

definition after_last_slash :: "string \<Rightarrow> string" where
  "after_last_slash s = rev (takeWhile (\<lambda>c. c \<noteq> CHR ''/'') (rev s))"

lemma takeWhile_stop: "\<not> P y \<Longrightarrow> takeWhile P (xs @ y # ys) = takeWhile P xs"
  by (induction xs) auto

lemma after_last_slash_append:
  "after_last_slash (d @ CHR ''/'' # b) = after_last_slash b"
  by (simp add: after_last_slash_def takeWhile_stop)

text \<open>\<open>s.split("/")\<close>.\<close>

fun split_slash :: "string \<Rightarrow> string list" where
  "split_slash [] = [[]]"
| "split_slash (c # cs) =
     (if c = CHR ''/'' then [] # split_slash cs
      else (case split_slash cs of [] \<Rightarrow> [[c]] | w # ws \<Rightarrow> (c # w) # ws))"

text \<open>\<open>repr\<close> of a string whose code points are below 256.\<close>

definition hex_digit :: "nat \<Rightarrow> char" where
  "hex_digit n = (if n < 10 then char_of (48 + n) else char_of (87 + n))"

definition printable :: "char \<Rightarrow> bool" where
  "printable c = (let n = of_char c :: nat in (32 \<le> n \<and> n \<le> 126) \<or> (161 \<le> n \<and> n \<noteq> 173))"

definition backslash :: char where
  "backslash = char_of (92 :: nat)"

definition single_quote :: char where
  "single_quote = char_of (39 :: nat)"

definition repr_char :: "char \<Rightarrow> char \<Rightarrow> string" where
  "repr_char quote c =
     (let n = of_char c :: nat in
      if c = quote \<or> c = backslash then [backslash, c]
      else if n = 9 then [backslash, CHR ''t'']
      else if n = 10 then [backslash, CHR ''n'']
      else if n = 13 then [backslash, CHR ''r'']
      else if printable c then [c]
      else [backslash, CHR ''x'', hex_digit (n div 16), hex_digit (n mod 16)])"

definition py_repr :: "string \<Rightarrow> string" where
  "py_repr s =
     (let quote = (if single_quote \<in> set s \<and> CHR 0x22 \<notin> set s then CHR 0x22 else single_quote)
      in quote # concat (map (repr_char quote) s) @ [quote])"

text \<open>\<open>str\<close> of a list of strings, from their representations.\<close>

fun join_comma :: "string list \<Rightarrow> string" where
  "join_comma [] = []"
| "join_comma [x] = x"
| "join_comma (x # y # zs) = x @ '', '' @ join_comma (y # zs)"

definition py_list_repr :: "string list \<Rightarrow> string" where
  "py_list_repr xs = ''['' @ join_comma (map py_repr xs) @ '']''"

section \<open>Slices\<close>

text \<open>\<open>xs[:n]\<close>: a negative bound counts from the end.\<close>

definition slice_to :: "'a list \<Rightarrow> int \<Rightarrow> 'a list" where
  "slice_to xs n = (if 0 \<le> n then take (nat n) xs else take (nat (int (length xs) + n)) xs)"

lemma slice_to_prefix: "prefix (slice_to xs n) xs"
  by (simp add: slice_to_def take_is_prefix)

lemma set_slice_to: "set (slice_to xs n) \<subseteq> set xs"
  by (rule set_mono_prefix) (rule slice_to_prefix)

lemma distinct_slice_to: "distinct xs \<Longrightarrow> distinct (slice_to xs n)"
  by (simp add: slice_to_def)

lemma slice_to_nonempty: "1 \<le> n \<Longrightarrow> xs \<noteq> [] \<Longrightarrow> slice_to xs n \<noteq> []"
  by (simp add: slice_to_def)

lemma slice_to_zero [simp]: "slice_to xs 0 = []"
  by (simp add: slice_to_def)

section \<open>Lists\<close>

lemma distinct_append_fresh: "distinct xs \<Longrightarrow> x \<notin> set xs \<Longrightarrow> distinct (xs @ [x])"
  by simp

lemma filter_filter_weaken:
  "(\<And>x. x \<in> set xs \<Longrightarrow> Q x \<Longrightarrow> P x) \<Longrightarrow> filter Q xs = filter Q (filter P xs)"
  by (induction xs) auto

lemma distinct_map_filter_weaken:
  assumes "distinct (map f (filter P xs))" and "\<And>x. x \<in> set xs \<Longrightarrow> Q x \<Longrightarrow> P x"
  shows "distinct (map f (filter Q xs))"
proof -
  have "filter Q xs = filter Q (filter P xs)"
    by (rule filter_filter_weaken) (rule assms(2))
  then show ?thesis using assms(1) by (metis distinct_map_filter)
qed

lemma length_filter_less_if:
  assumes "\<And>x. x \<in> set xs \<Longrightarrow> Q x \<Longrightarrow> P x" and "y \<in> set xs" and "P y" and "\<not> Q y"
  shows "length (filter Q xs) < length (filter P xs)"
proof -
  have "filter Q xs = filter Q (filter P xs)"
    by (rule filter_filter_weaken) (rule assms(1))
  moreover have "y \<in> set (filter P xs)" using assms(2,3) by simp
  then have "length (filter Q (filter P xs)) < length (filter P xs)"
    using assms(4) by (rule length_filter_less)
  ultimately show ?thesis by simp
qed

section \<open>Dictionaries\<close>

text \<open>\<open>{k: v for ...}\<close>: insertion order, the last value of a repeated key.\<close>

definition dict_of :: "('k \<times> 'v) list \<Rightarrow> ('k \<times> 'v) list" where
  "dict_of xs = fold (\<lambda>(k, v). AList.update k v) xs []"

lemma dict_of_snoc: "dict_of (xs @ [(k, v)]) = AList.update k v (dict_of xs)"
  by (simp add: dict_of_def)

lemma map_of_dict_of [simp]: "map_of (dict_of xs) = map_of (rev xs)"
  by (induction xs rule: rev_induct) (auto simp: dict_of_snoc update_conv' dict_of_def fun_eq_iff)

lemma distinct_dict_of [simp]: "distinct (map fst (dict_of xs))"
  by (induction xs rule: rev_induct) (auto simp: dict_of_snoc distinct_update dict_of_def)

lemma set_keys_dict_of [simp]: "fst ` set (dict_of xs) = fst ` set xs"
proof -
  have "fst ` set (dict_of xs) = dom (map_of (dict_of xs))" by (simp only: dom_map_of_conv_image_fst)
  also have "\<dots> = fst ` set xs" by (simp add: dom_map_of_conv_image_fst)
  finally show ?thesis .
qed

lemma update_fresh: "k \<notin> fst ` set xs \<Longrightarrow> AList.update k v xs = xs @ [(k, v)]"
  by (induction xs) auto

lemma dict_of_distinct: "distinct (map fst xs) \<Longrightarrow> dict_of xs = xs"
proof (induction xs rule: rev_induct)
  case Nil
  then show ?case by (simp add: dict_of_def)
next
  case (snoc x xs)
  then show ?case by (cases x) (simp add: dict_of_snoc update_fresh)
qed

end
