(* ===== verification/Dfs_Cycle.thy ===== *)
theory Dfs_Cycle
  imports Prelude
begin

text \<open>
  The three-colour depth-first cycle check that both \<open>core/config/pipeline_schema.py\<close>
  (\<open>_validate_no_cycles\<close>) and \<open>runtime/pipeline_dag.py\<close> (\<open>PipelineDAG._validate_no_cycles\<close>)
  write out, and its correctness: it accepts exactly the graphs whose edges stay inside the
  node set and that have no cycle, and what it reports on rejection is real.

  The recursion depth is bounded by fuel, \<open>None\<close> when it runs out; \<open>check_all_total\<close> shows
  that as much fuel as there are nodes is enough. The mutable \<open>state\<close> dictionary is a map
  passed along, the mutable \<open>stack\<close> is the path from the root of the current search.
\<close>

section \<open>The search\<close>

datatype colour = White | Grey | Black

datatype dfs_error =
    Unknown_Dep string string
  | Cycle_Found "string list"

type_synonym adjacency = "string \<rightharpoonup> string list"
type_synonym colours = "string \<rightharpoonup> colour"

definition deps_of :: "adjacency \<Rightarrow> string \<Rightarrow> string list" where
  "deps_of adj x = (case adj x of None \<Rightarrow> [] | Some ds \<Rightarrow> ds)"

text \<open>\<open>[*stack[stack.index(dep):], dep]\<close>\<close>

definition cycle_path :: "string list \<Rightarrow> string \<Rightarrow> string list" where
  "cycle_path stack dep = dropWhile (\<lambda>x. x \<noteq> dep) stack @ [dep]"

function (sequential)
  visit :: "nat \<Rightarrow> adjacency \<Rightarrow> string \<Rightarrow> string list \<Rightarrow> colours \<Rightarrow> (dfs_error + colours) option" and
  visit_deps :: "nat \<Rightarrow> adjacency \<Rightarrow> string \<Rightarrow> string list \<Rightarrow> string list \<Rightarrow> colours \<Rightarrow>
    (dfs_error + colours) option"
where
  "visit 0 adj node stack st = None"
| "visit (Suc n) adj node stack st =
     (case visit_deps n adj node (deps_of adj node) (stack @ [node]) (st(node \<mapsto> Grey)) of
        None \<Rightarrow> None
      | Some (Inl e) \<Rightarrow> Some (Inl e)
      | Some (Inr st') \<Rightarrow> Some (Inr (st'(node \<mapsto> Black))))"
| "visit_deps n adj node [] stack st = Some (Inr st)"
| "visit_deps n adj node (d # ds) stack st =
     (case st d of
        None \<Rightarrow> Some (Inl (Unknown_Dep node d))
      | Some Grey \<Rightarrow> Some (Inl (Cycle_Found (cycle_path stack d)))
      | Some Black \<Rightarrow> visit_deps n adj node ds stack st
      | Some White \<Rightarrow>
          (case visit n adj d stack st of
             None \<Rightarrow> None
           | Some (Inl e) \<Rightarrow> Some (Inl e)
           | Some (Inr st') \<Rightarrow> visit_deps n adj node ds stack st'))"
  by pat_completeness auto
termination
  by (relation "measures
      [case_sum (\<lambda>(n, adj, node, stack, st). n) (\<lambda>(n, adj, node, ds, stack, st). n),
       case_sum (\<lambda>(n, adj, node, stack, st). 0) (\<lambda>(n, adj, node, ds, stack, st). Suc (length ds))]")
    auto

text \<open>The outer loop over the nodes, each visited unless a search has reached it.\<close>

fun visit_all :: "nat \<Rightarrow> adjacency \<Rightarrow> string list \<Rightarrow> colours \<Rightarrow> (dfs_error + colours) option" where
  "visit_all n adj [] st = Some (Inr st)"
| "visit_all n adj (k # ks) st =
     (if st k = Some White then
        (case visit n adj k [] st of
           None \<Rightarrow> None
         | Some (Inl e) \<Rightarrow> Some (Inl e)
         | Some (Inr st') \<Rightarrow> visit_all n adj ks st')
      else visit_all n adj ks st)"

definition all_white :: "string list \<Rightarrow> colours" where
  "all_white keys = (\<lambda>k. if k \<in> set keys then Some White else None)"

definition check_all :: "adjacency \<Rightarrow> string list \<Rightarrow> (dfs_error + colours) option" where
  "check_all adj keys = visit_all (length keys) adj keys (all_white keys)"

section \<open>What the search maintains\<close>

definition edges :: "adjacency \<Rightarrow> (string \<times> string) set" where
  "edges adj = {(x, d). d \<in> set (deps_of adj x)}"

definition with_colour :: "colours \<Rightarrow> colour \<Rightarrow> string set" where
  "with_colour st c = {x. st x = Some c}"

text \<open>The finished nodes: closed under the edges, and free of cycles.\<close>

definition finished_ok :: "adjacency \<Rightarrow> colours \<Rightarrow> bool" where
  "finished_ok adj st \<longleftrightarrow>
     edges adj `` with_colour st Black \<subseteq> with_colour st Black \<and>
     acyclic (edges adj \<inter> with_colour st Black \<times> with_colour st Black)"

definition is_cycle :: "adjacency \<Rightarrow> string list \<Rightarrow> bool" where
  "is_cycle adj c \<longleftrightarrow>
     2 \<le> length c \<and> hd c = last c \<and> successively (\<lambda>x y. (x, y) \<in> edges adj) c"

definition error_ok :: "adjacency \<Rightarrow> string set \<Rightarrow> dfs_error \<Rightarrow> bool" where
  "error_ok adj keys e =
     (case e of
        Unknown_Dep x d \<Rightarrow> (x, d) \<in> edges adj \<and> d \<notin> keys
      | Cycle_Found c \<Rightarrow> is_cycle adj c)"

definition search_pre :: "adjacency \<Rightarrow> string list \<Rightarrow> colours \<Rightarrow> bool" where
  "search_pre adj stack st \<longleftrightarrow>
     finished_ok adj st \<and> with_colour st Grey \<subseteq> set stack \<and>
     successively (\<lambda>x y. (x, y) \<in> edges adj) stack"

definition search_post :: "adjacency \<Rightarrow> colours \<Rightarrow> string set \<Rightarrow> dfs_error + colours \<Rightarrow> bool" where
  "search_post adj st done r =
     (case r of
        Inl e \<Rightarrow> error_ok adj (dom st) e
      | Inr st' \<Rightarrow>
          finished_ok adj st' \<and> dom st' = dom st \<and>
          with_colour st Black \<union> done \<subseteq> with_colour st' Black \<and>
          with_colour st' Grey = with_colour st Grey \<and>
          with_colour st' White \<subseteq> with_colour st White)"

lemma acyclic_insert_source:
  assumes closed: "E `` B \<subseteq> B" and ac: "acyclic (E \<inter> B \<times> B)" and x: "x \<notin> B" and out: "E `` {x} \<subseteq> B"
  shows "acyclic (E \<inter> insert x B \<times> insert x B)"
proof -
  let ?R = "E \<inter> insert x B \<times> insert x B"
  have step: "(a, b) \<in> ?R \<Longrightarrow> b \<in> B" for a b using closed out by blast
  have inB: "(a, b) \<in> ?R\<^sup>+ \<Longrightarrow> b \<in> B" for a b by (induction rule: trancl_induct) (use step in blast)+
  have stay: "(a, b) \<in> ?R\<^sup>+ \<Longrightarrow> a \<in> B \<Longrightarrow> (a, b) \<in> (E \<inter> B \<times> B)\<^sup>+" for a b
  proof (induction rule: trancl_induct)
    case (base b)
    then have "(a, b) \<in> E \<inter> B \<times> B" using closed by blast
    then show ?case by blast
  next
    case (step b c)
    then have "(b, c) \<in> E \<inter> B \<times> B" using inB closed by blast
    with step show ?case by (blast intro: trancl_into_trancl)
  qed
  show ?thesis
  proof (rule acyclicI, intro allI notI)
    fix a assume "(a, a) \<in> ?R\<^sup>+"
    then have "(a, a) \<in> (E \<inter> B \<times> B)\<^sup>+" using inB stay by blast
    with ac show False by (simp add: acyclic_def)
  qed
qed

lemma successively_trancl:
  "successively (\<lambda>x y. (x, y) \<in> E) (x # y # zs) \<Longrightarrow> (x, last (y # zs)) \<in> E\<^sup>+"
proof (induction zs arbitrary: x y)
  case Nil
  then show ?case by auto
next
  case (Cons z zs)
  then have "(x, y) \<in> E" "(y, last (z # zs)) \<in> E\<^sup>+" by auto
  then have "(x, last (z # zs)) \<in> E\<^sup>+" by (rule trancl_into_trancl2)
  then show ?case by simp
qed

lemma is_cycle_not_acyclic: "is_cycle adj c \<Longrightarrow> \<not> acyclic (edges adj)"
proof -
  assume c: "is_cycle adj c"
  then obtain x y zs where xyz: "c = x # y # zs"
    by (auto simp: is_cycle_def numeral_2_eq_2 Suc_le_length_iff)
  with c have "successively (\<lambda>x y. (x, y) \<in> edges adj) (x # y # zs)" and x: "x = last (y # zs)"
    by (auto simp: is_cycle_def)
  from this(1) have "(x, last (y # zs)) \<in> (edges adj)\<^sup>+" by (rule successively_trancl)
  with x have "(x, x) \<in> (edges adj)\<^sup>+" by simp
  then show ?thesis by (auto simp: acyclic_def)
qed

lemma cycle_path_is_cycle:
  assumes "successively (\<lambda>x y. (x, y) \<in> edges adj) (stack @ [d])" and "d \<in> set stack"
  shows "is_cycle adj (cycle_path stack d)"
proof -
  obtain xs ys where split: "stack = xs @ d # ys" "d \<notin> set xs"
    using assms(2) by (blast dest: split_list_first)
  then have "dropWhile (\<lambda>x. x \<noteq> d) stack = d # ys" by (auto simp: dropWhile_append)
  with assms(1) split show ?thesis
    by (auto simp: cycle_path_def is_cycle_def successively_append_iff)
qed

section \<open>Correctness of one visit\<close>

lemma with_colour_upd:
  "with_colour (st(x \<mapsto> c)) c' = (if c = c' then insert x (with_colour st c') else with_colour st c' - {x})"
  by (auto simp: with_colour_def)

lemma search_post_trans:
  assumes "search_post adj st D (Inr st')" and "search_post adj st' D' r"
  shows "search_post adj st (D \<union> D') r"
  using assms by (auto simp: search_post_def split: sum.splits)

lemma search_pre_post:
  "search_pre adj stack st \<Longrightarrow> search_post adj st D (Inr st') \<Longrightarrow> search_pre adj stack st'"
  by (simp add: search_pre_def search_post_def)

lemma successively_snoc:
  "successively P (xs @ [x]) \<Longrightarrow> P x y \<Longrightarrow> successively P ((xs @ [x]) @ [y])"
  by (simp add: successively_append_iff)

text \<open>Finishing a node whose dependencies are all finished.\<close>

lemma finish_node:
  assumes "search_post adj (st(node \<mapsto> Grey)) (set (deps_of adj node)) (Inr st')"
    and "st node = Some White" and "finished_ok adj st"
  shows "search_post adj st {node} (Inr (st'(node \<mapsto> Black)))"
proof -
  let ?B = "with_colour st' Black"
  from assms have fin: "finished_ok adj st'" and out: "edges adj `` {node} \<subseteq> ?B"
    and grey: "with_colour st' Grey = insert node (with_colour st Grey)"
    by (auto simp: search_post_def edges_def with_colour_upd)
  have node: "node \<notin> ?B"
  proof
    assume "node \<in> ?B"
    moreover have "node \<in> with_colour st' Grey" using grey by simp
    ultimately show False by (simp add: with_colour_def)
  qed
  have "acyclic (edges adj \<inter> insert node ?B \<times> insert node ?B)"
    using fin node out by (intro acyclic_insert_source) (auto simp: finished_ok_def)
  then have "finished_ok adj (st'(node \<mapsto> Black))"
    using fin out by (auto simp: finished_ok_def with_colour_upd)
  moreover have "node \<notin> with_colour st Grey" using assms(2) by (simp add: with_colour_def)
  moreover have "dom (st(node \<mapsto> Grey)) = dom st" using assms(2) by auto
  ultimately show ?thesis
    using assms(1,2) grey by (auto simp: search_post_def with_colour_upd)
qed

lemma visit_correct:
  "search_pre adj (stack @ [node]) (st(node \<mapsto> Grey)) \<Longrightarrow> st node = Some White \<Longrightarrow> finished_ok adj st \<Longrightarrow>
     visit n adj node stack st = Some r \<Longrightarrow> search_post adj st {node} r"
  "search_pre adj (pre @ [node]) st \<Longrightarrow> set ds \<subseteq> set (deps_of adj node) \<Longrightarrow>
     visit_deps n adj node ds (pre @ [node]) st = Some r \<Longrightarrow> search_post adj st (set ds) r"
proof (induction n adj node stack st and n adj node ds "pre @ [node]" st
    arbitrary: r and r pre rule: visit_visit_deps.induct)
  case (1 adj node stack st)
  then show ?case by simp
next
  case (2 n adj node stack st)
  from "2.prems"(4) obtain r' where
    r': "visit_deps n adj node (deps_of adj node) (stack @ [node]) (st(node \<mapsto> Grey)) = Some r'"
    and r: "r = (case r' of Inl e \<Rightarrow> Inl e | Inr st' \<Rightarrow> Inr (st'(node \<mapsto> Black)))"
    by (auto split: option.splits sum.splits)
  have post: "search_post adj (st(node \<mapsto> Grey)) (set (deps_of adj node)) r'"
    using "2.prems"(1) r' by (intro "2.hyps") (assumption | simp)+
  have dom: "insert node (dom st) = dom st" using "2.prems"(2) by auto
  show ?case
  proof (cases r')
    case (Inl e)
    with post r dom show ?thesis by (simp add: search_post_def)
  next
    case (Inr st')
    with finish_node [OF post [unfolded Inr] "2.prems"(2,3)] r show ?thesis by simp
  qed
next
  case (3 n adj node st)
  then show ?case by (auto simp: search_post_def search_pre_def)
next
  case (4 n adj node d ds st)
  have edge: "(node, d) \<in> edges adj" using "4.prems"(2) by (simp add: edges_def)
  have path: "successively (\<lambda>x y. (x, y) \<in> edges adj) ((pre @ [node]) @ [d])"
    using "4.prems"(1) edge by (intro successively_snoc) (simp_all add: search_pre_def)
  show ?case
  proof (cases "st d")
    case None
    with 4 edge show ?thesis by (auto simp: search_post_def error_ok_def)
  next
    case (Some c)
    show ?thesis
    proof (cases c)
      case Grey
      with Some "4.prems"(1) have "d \<in> set (pre @ [node])"
        by (auto simp: search_pre_def with_colour_def)
      with Some Grey "4.prems"(3) cycle_path_is_cycle [OF path] show ?thesis
        by (auto simp: search_post_def error_ok_def)
    next
      case Black
      with Some have "search_post adj st {d} (Inr st)"
        using "4.prems"(1) by (auto simp: search_post_def search_pre_def with_colour_def)
      moreover have "search_post adj st (set ds) r"
        using Some Black "4.prems" by (intro "4.hyps"(3)) auto
      ultimately have "search_post adj st ({d} \<union> set ds) r" by (rule search_post_trans)
      then show ?thesis by simp
    next
      case White
      with Some "4.prems"(3) obtain r' where
        r': "visit n adj d (pre @ [node]) st = Some r'"
        and r: "(case r' of Inl e \<Rightarrow> Some (Inl e) | Inr st' \<Rightarrow> visit_deps n adj node ds (pre @ [node]) st') = Some r"
        by (auto split: option.splits sum.splits)
      have "with_colour (st(d \<mapsto> Grey)) Grey \<subseteq> set ((pre @ [node]) @ [d])"
        using "4.prems"(1) by (auto simp: search_pre_def with_colour_upd)
      moreover have "finished_ok adj (st(d \<mapsto> Grey))"
        using "4.prems"(1) Some White
        by (simp add: search_pre_def finished_ok_def with_colour_upd) (simp add: with_colour_def)
      ultimately have "search_pre adj ((pre @ [node]) @ [d]) (st(d \<mapsto> Grey))"
        using path by (simp add: search_pre_def)
      then have post: "search_post adj st {d} r'"
        using Some White r' "4.prems"(1) by (intro "4.hyps"(1)) (auto simp: search_pre_def)
      show ?thesis
      proof (cases r')
        case (Inl e)
        with r have "r = Inl e" by simp
        with post Inl show ?thesis by (simp add: search_post_def)
      next
        case (Inr st')
        with post have pre': "search_pre adj (pre @ [node]) st'"
          using "4.prems"(1) search_pre_post by blast
        have "search_post adj st' (set ds) r"
          using Some White r' Inr r pre' "4.prems"(2) by (intro "4.hyps"(2)) auto
        with post [unfolded Inr] have "search_post adj st ({d} \<union> set ds) r" by (rule search_post_trans)
        then show ?thesis by simp
      qed
    qed
  qed
qed

section \<open>Fuel\<close>

text \<open>A search never whitens a node, so the unvisited nodes bound the depth of the recursion.\<close>

lemma visit_white:
  "visit n adj node stack st = Some (Inr st') \<Longrightarrow> with_colour st' White \<subseteq> with_colour st White"
  "visit_deps n adj node ds stack st = Some (Inr st') \<Longrightarrow> with_colour st' White \<subseteq> with_colour st White"
proof (induction n adj node stack st and n adj node ds stack st
    arbitrary: st' and st' rule: visit_visit_deps.induct)
  case (2 n adj node stack st)
  then obtain st'' where
    "visit_deps n adj node (deps_of adj node) (stack @ [node]) (st(node \<mapsto> Grey)) = Some (Inr st'')"
    and st': "st' = st''(node \<mapsto> Black)"
    by (auto split: option.splits sum.splits)
  with "2.IH" have "with_colour st'' White \<subseteq> with_colour (st(node \<mapsto> Grey)) White" by blast
  with st' show ?case by (simp only: with_colour_upd) auto
next
  case (4 n adj node d ds stack st)
  from "4.prems" show ?case
    by (auto split: option.splits sum.splits colour.splits dest: "4.IH")
qed auto

lemma finite_with_colour: "finite (dom st) \<Longrightarrow> finite (with_colour st c)"
  by (rule finite_subset [of _ "dom st"]) (auto simp: with_colour_def)

lemma visit_finite:
  "visit n adj node stack st = Some (Inr st') \<Longrightarrow> finite (dom st) \<Longrightarrow> finite (dom st')"
  "visit_deps n adj node ds stack st = Some (Inr st') \<Longrightarrow> finite (dom st) \<Longrightarrow> finite (dom st')"
proof (induction n adj node stack st and n adj node ds stack st
    arbitrary: st' and st' rule: visit_visit_deps.induct)
  case (2 n adj node stack st)
  then obtain st'' where
    "visit_deps n adj node (deps_of adj node) (stack @ [node]) (st(node \<mapsto> Grey)) = Some (Inr st'')"
    and st': "st' = st''(node \<mapsto> Black)"
    by (auto split: option.splits sum.splits)
  moreover have "finite (dom (st(node \<mapsto> Grey)))" using "2.prems"(2) by (simp only: dom_fun_upd) simp
  ultimately have "finite (dom st'')" using "2.IH" by blast
  with st' show ?case by (simp only: dom_fun_upd) simp
next
  case (4 n adj node d ds stack st)
  from "4.prems" show ?case
    by (auto split: option.splits sum.splits colour.splits dest: "4.IH")
qed auto

lemma visit_enough:
  "finite (dom st) \<Longrightarrow> st node = Some White \<Longrightarrow> card (with_colour st White) \<le> n \<Longrightarrow>
     visit n adj node stack st \<noteq> None"
  "finite (dom st) \<Longrightarrow> card (with_colour st White) \<le> n \<Longrightarrow> visit_deps n adj node ds stack st \<noteq> None"
proof (induction n adj node stack st and n adj node ds stack st rule: visit_visit_deps.induct)
  case (1 adj node stack st)
  then show ?case using finite_with_colour [of st White] by (auto simp: with_colour_def)
next
  case (2 n adj node stack st)
  have "with_colour st White = insert node (with_colour (st(node \<mapsto> Grey)) White)"
    using "2.prems"(2) by (auto simp: with_colour_def)
  moreover have "node \<notin> with_colour (st(node \<mapsto> Grey)) White" by (simp add: with_colour_def)
  ultimately have "card (with_colour (st(node \<mapsto> Grey)) White) \<le> n"
    using "2.prems" by (simp add: finite_with_colour)
  then have "visit_deps n adj node (deps_of adj node) (stack @ [node]) (st(node \<mapsto> Grey)) \<noteq> None"
    by (rule "2.IH" [rotated]) (use "2.prems"(1) in \<open>simp only: dom_fun_upd, simp\<close>)
  then show ?case by (auto split: option.splits sum.splits)
next
  case (4 n adj node d ds stack st)
  have rec: "visit_deps n adj node ds stack st' \<noteq> None"
    if "st d = Some White" "visit n adj d stack st = Some (Inr st')" for st'
  proof (rule "4.IH"(2))
    show "card (with_colour st' White) \<le> n"
      using visit_white(1) [OF that(2)] "4.prems" card_mono finite_with_colour le_trans by metis
  qed (use that "4.prems" visit_finite(1) [OF that(2)] in \<open>auto\<close>)
  have "visit n adj d stack st \<noteq> None" if "st d = Some White"
    using "4.IH"(1) that "4.prems" by simp
  then show ?case using rec "4.IH"(3) "4.prems"
    by (auto split: option.splits sum.splits colour.splits)
qed auto

section \<open>The whole check\<close>

lemma visit_all_enough:
  "finite (dom st) \<Longrightarrow> card (with_colour st White) \<le> n \<Longrightarrow> visit_all n adj ks st \<noteq> None"
proof (induction ks arbitrary: st)
  case (Cons k ks)
  have "visit_all n adj ks st' \<noteq> None" if "visit n adj k [] st = Some (Inr st')" for st'
  proof (rule Cons.IH)
    show "finite (dom st')" using visit_finite(1) [OF that] Cons.prems(1) .
    show "card (with_colour st' White) \<le> n"
      using card_mono [OF finite_with_colour visit_white(1) [OF that]] Cons.prems by simp
  qed
  moreover have "st k = Some White \<Longrightarrow> visit n adj k [] st \<noteq> None"
    using visit_enough(1) Cons.prems by blast
  ultimately show ?case using Cons by (auto split: option.splits sum.splits)
qed simp

lemma visit_all_correct:
  assumes "search_pre adj [] st" and "set ks \<subseteq> dom st" and "visit_all n adj ks st = Some r"
  shows "search_post adj st (set ks) r"
  using assms
proof (induction ks arbitrary: st)
  case Nil
  then show ?case by (auto simp: search_post_def search_pre_def)
next
  case (Cons k ks)
  have fin: "finished_ok adj st" and grey: "with_colour st Grey = {}"
    using Cons.prems(1) by (auto simp: search_pre_def)
  show ?case
  proof (cases "st k = Some White")
    case True
    with Cons.prems(3) obtain r' where r': "visit n adj k [] st = Some r'"
      and r: "(case r' of Inl e \<Rightarrow> Some (Inl e) | Inr st' \<Rightarrow> visit_all n adj ks st') = Some r"
      by (auto split: option.splits sum.splits)
    have "with_colour (st(k \<mapsto> Grey)) Grey \<subseteq> {k}" using grey by (simp only: with_colour_upd) simp
    moreover have "finished_ok adj (st(k \<mapsto> Grey))"
      using fin True by (simp add: finished_ok_def with_colour_upd) (simp add: with_colour_def)
    ultimately have "search_pre adj ([] @ [k]) (st(k \<mapsto> Grey))" by (simp add: search_pre_def)
    then have post: "search_post adj st {k} r'" using True fin r' by (rule visit_correct(1))
    show ?thesis
    proof (cases r')
      case (Inl e)
      with r have "r = Inl e" by simp
      with post Inl show ?thesis by (simp add: search_post_def)
    next
      case (Inr st')
      have "search_pre adj [] st'" using search_pre_post [OF Cons.prems(1) post [unfolded Inr]] .
      moreover have "set ks \<subseteq> dom st'" using post Inr Cons.prems(2) by (simp add: search_post_def)
      ultimately have "search_post adj st' (set ks) r" using r Inr by (intro Cons.IH) simp_all
      with post [unfolded Inr] have "search_post adj st ({k} \<union> set ks) r" by (rule search_post_trans)
      then show ?thesis by simp
    qed
  next
    case False
    have "st k \<noteq> None" using Cons.prems(2) by auto
    with False grey have "st k = Some Black"
      by (cases "st k") (auto simp: with_colour_def intro: colour.exhaust)
    then have "search_post adj st {k} (Inr st)" using fin by (simp add: search_post_def with_colour_def)
    moreover have "search_post adj st (set ks) r" using False Cons.prems by (intro Cons.IH) auto
    ultimately have "search_post adj st ({k} \<union> set ks) r" by (rule search_post_trans)
    then show ?thesis by simp
  qed
qed

lemma all_white_colours [simp]:
  "with_colour (all_white keys) White = set keys" "with_colour (all_white keys) Grey = {}"
  "with_colour (all_white keys) Black = {}" "dom (all_white keys) = set keys"
  by (auto simp: all_white_def with_colour_def split: if_splits)

lemma check_all_total: "check_all adj keys \<noteq> None"
  unfolding check_all_def by (rule visit_all_enough) (simp_all add: card_length)

lemma check_all_post: "check_all adj keys = Some r \<Longrightarrow> search_post adj (all_white keys) (set keys) r"
  unfolding check_all_def
  by (rule visit_all_correct) (simp_all add: search_pre_def finished_ok_def acyclic_def)

text \<open>A rejection is real: the reported edge dangles, the reported path is a cycle.\<close>

lemma check_all_error: "check_all adj keys = Some (Inl e) \<Longrightarrow> error_ok adj (set keys) e"
  by (drule check_all_post) (simp add: search_post_def)

definition closed_graph :: "adjacency \<Rightarrow> string list \<Rightarrow> bool" where
  "closed_graph adj keys = list_all (\<lambda>k. list_all (\<lambda>d. d \<in> set keys) (deps_of adj k)) keys"

lemma edges_source: "(x, d) \<in> edges adj \<Longrightarrow> x \<in> dom adj"
  by (cases "adj x") (auto simp: edges_def deps_of_def)

lemma closed_graph_edges:
  "dom adj \<subseteq> set keys \<Longrightarrow> closed_graph adj keys \<longleftrightarrow> (\<forall>(x, d) \<in> edges adj. x \<in> set keys \<and> d \<in> set keys)"
  using edges_source by (fastforce simp: closed_graph_def edges_def list_all_iff)

text \<open>The check accepts exactly the acyclic graphs without dangling edges.\<close>

lemma check_all_accepts:
  assumes "dom adj \<subseteq> set keys"
  shows "(\<exists>st. check_all adj keys = Some (Inr st)) \<longleftrightarrow> closed_graph adj keys \<and> acyclic (edges adj)"
proof
  assume "\<exists>st. check_all adj keys = Some (Inr st)"
  then obtain st where "search_post adj (all_white keys) (set keys) (Inr st)" using check_all_post by blast
  then have fin: "finished_ok adj st" and black: "set keys \<subseteq> with_colour st Black" and dom: "dom st = set keys"
    by (auto simp: search_post_def)
  then have black: "with_colour st Black = set keys" by (auto simp: with_colour_def)
  have src: "(x, d) \<in> edges adj \<Longrightarrow> x \<in> set keys" for x d
    using assms edges_source by blast
  with fin black have closed: "\<forall>(x, d) \<in> edges adj. x \<in> set keys \<and> d \<in> set keys"
    by (fastforce simp: finished_ok_def)
  then have "edges adj \<inter> set keys \<times> set keys = edges adj" by auto
  with fin black closed show "closed_graph adj keys \<and> acyclic (edges adj)"
    by (simp add: finished_ok_def closed_graph_edges [OF assms])
next
  assume ok: "closed_graph adj keys \<and> acyclic (edges adj)"
  obtain r where r: "check_all adj keys = Some r" using check_all_total by blast
  show "\<exists>st. check_all adj keys = Some (Inr st)"
  proof (cases r)
    case (Inl e)
    with r have "error_ok adj (set keys) e" using check_all_error by blast
    with ok show ?thesis
      by (cases e) (auto simp: error_ok_def closed_graph_edges [OF assms] dest: is_cycle_not_acyclic)
  qed (use r in simp)
qed

end
