(* ===== verification/Component_Locator.thy ===== *)
theory Component_Locator
  imports Prelude "HOL-Library.List_Lexorder"
begin

text \<open>
  Name to code-path resolution (\<open>integrations/component_locator.py\<close>), the fixed control-plane
  paths (\<open>core/config/paths.py\<close>) and the runtime's wrappers (\<open>runtime/component_resolution.py\<close>).

  The file system is the argument \<open>fs\<close>: what \<open>Path.is_dir\<close>, \<open>Path.is_file\<close>, \<open>Path.exists\<close>,
  \<open>Path.iterdir\<close> and \<open>Path.expanduser\<close> answer. Paths are POSIX paths, a root flag and the
  segments; joining drops empty and \<open>.\<close> segments and keeps \<open>..\<close>, and an absolute right
  operand replaces the left one, as \<open>pathlib\<close> does.
\<close>

section \<open>Paths and the file system\<close>

record path =
  absolute :: bool
  segments :: "string list"

definition path_of :: "string \<Rightarrow> path" where
  "path_of s = \<lparr>absolute = startswith s ''/'',
                segments = filter (\<lambda>w. w \<noteq> [] \<and> w \<noteq> ''.'') (split_slash s)\<rparr>"

definition path_join :: "path \<Rightarrow> string \<Rightarrow> path" where
  "path_join p s =
     (let q = path_of s in
      if absolute q then q else p\<lparr>segments := segments p @ segments q\<rparr>)"

definition path_name :: "path \<Rightarrow> string" where
  "path_name p = (if segments p = [] then [] else last (segments p))"

record filesystem =
  fs_is_dir :: "path \<Rightarrow> bool"
  fs_is_file :: "path \<Rightarrow> bool"
  fs_exists :: "path \<Rightarrow> bool"
  fs_iterdir :: "path \<Rightarrow> string list"
  fs_expanduser :: "path \<Rightarrow> path option"

record project_paths =
  root :: path
  carve_dir :: path
  el_dir :: path
  pipelines_dir :: path
  scratch_dir :: path
  dlt_config_dir :: path

text \<open>The argument is the resolved root.\<close>

definition from_root :: "path \<Rightarrow> project_paths" where
  "from_root r =
     \<lparr>root = r, carve_dir = path_join r ''carve'', el_dir = path_join r ''el'',
      pipelines_dir = path_join r ''pipelines'', scratch_dir = path_join r ''.carve'',
      dlt_config_dir = path_join r ''.dlt''\<rparr>"

definition workspaces_dir :: "project_paths \<Rightarrow> path" where
  "workspaces_dir ps = path_join (scratch_dir ps) ''workspaces''"

section \<open>Component blocks\<close>

datatype component_type = DLT | DBT

datatype component_mode = Same_Repo | Separate_Local | Separate_Remote

record component_config =
  cc_type :: component_type
  cc_mode :: component_mode
  cc_url :: "string option"
  cc_branch :: "string option"
  cc_path :: "string option"
  cc_ref :: "string option"
  cc_sync_mode :: string
  cc_sync_before_run :: bool
  cc_dbt_backend :: "string option"
  cc_dbt_engine :: "string option"
  cc_dbt_version :: "string option"
  cc_dbt_env :: "string option"
  cc_dbt_path :: "string option"
  cc_profiles_dir :: "string option"
  cc_worker_label :: "string option"

type_synonym components = "string \<rightharpoonup> component_config"

record resolved_component =
  rc_name :: string
  rc_type :: component_type
  rc_code_path :: path
  rc_ref :: "string option"

datatype resolution_error =
    Path_Missing string path
  | No_Such_Component string
  | No_Dbt_Project
  | Multiple_Dbt_Projects "path list"
  | Wrong_Type string component_type
  | Assertion_Failed
  | No_Home_Directory

section \<open>Slugs\<close>

definition lower_char :: "char \<Rightarrow> char" where
  "lower_char c =
     (let n = of_char c :: nat in
      if (65 \<le> n \<and> n \<le> 90) \<or> (192 \<le> n \<and> n \<le> 222 \<and> n \<noteq> 215) then char_of (n + 32) else c)"

definition strip_by :: "(char \<Rightarrow> bool) \<Rightarrow> string \<Rightarrow> string" where
  "strip_by P s = rev (dropWhile P (rev (dropWhile P s)))"

definition is_lower :: "char \<Rightarrow> bool" where
  "is_lower c = (let n = of_char c :: nat in 97 \<le> n \<and> n \<le> 122)"

definition is_digit :: "char \<Rightarrow> bool" where
  "is_digit c = (let n = of_char c :: nat in 48 \<le> n \<and> n \<le> 57)"

definition slug_char :: "char \<Rightarrow> bool" where
  "slug_char c \<longleftrightarrow> is_lower c \<or> is_digit c"

text \<open>\<open>_SLUG_KEEP_RE.sub("-", s)\<close>: every maximal run of other characters becomes one dash.\<close>

fun collapse_runs :: "bool \<Rightarrow> string \<Rightarrow> string" where
  "collapse_runs in_run [] = []"
| "collapse_runs in_run (c # cs) =
     (if slug_char c then c # collapse_runs False cs
      else if in_run then collapse_runs True cs
      else CHR ''-'' # collapse_runs True cs)"

definition slug_keep :: "string \<Rightarrow> string" where
  "slug_keep s = strip_by (\<lambda>c. c = CHR ''-'') (collapse_runs False s)"

text \<open>\<open>_SCHEME_RE\<close>, anchored at the start of the text.\<close>

definition scheme_char :: "char \<Rightarrow> bool" where
  "scheme_char c \<longleftrightarrow> is_lower c \<or> is_digit c \<or> c \<in> set ''+.-''"

definition drop_scheme :: "string \<Rightarrow> string" where
  "drop_scheme s =
     (case s of
        [] \<Rightarrow> s
      | c # cs \<Rightarrow>
          if is_lower c \<and> prefix ''://'' (dropWhile scheme_char cs)
          then drop 3 (dropWhile scheme_char cs) else s)"

definition drop_userinfo :: "string \<Rightarrow> string" where
  "drop_userinfo s =
     (if CHR ''@'' \<in> set s then drop 1 (dropWhile (\<lambda>c. c \<noteq> CHR ''@'') s) else s)"

text \<open>\<open>re.sub(r":(\d+)(?=/)", "/", text)\<close>\<close>

function strip_ports :: "string \<Rightarrow> string" where
  "strip_ports [] = []"
| "strip_ports (c # cs) =
     (if c = CHR '':'' \<and> takeWhile is_digit cs \<noteq> [] \<and> prefix ''/'' (dropWhile is_digit cs)
      then CHR ''/'' # strip_ports (dropWhile is_digit cs)
      else c # strip_ports cs)"
  by pat_completeness auto
termination
  by (relation "measure length") (auto simp: le_imp_less_Suc length_dropWhile_le)

definition drop_git_suffix :: "string \<Rightarrow> string" where
  "drop_git_suffix s = (if endswith s ''.git'' then take (length s - 4) s else s)"

definition slugify :: "string \<Rightarrow> string" where
  "slugify url =
     slug_keep (drop_git_suffix (strip_ports (drop_userinfo (drop_scheme
       (map lower_char (strip_by py_space url))))))"

definition slug_segment :: "string \<Rightarrow> string" where
  "slug_segment value =
     (let s = slug_keep (map lower_char (strip_by py_space value)) in
      if s = [] then ''default'' else s)"

text \<open>\<open>a or b\<close> on optional strings: the empty string is as good as none.\<close>

definition or_else :: "string option \<Rightarrow> string \<Rightarrow> string" where
  "or_else x y = (case x of None \<Rightarrow> y | Some s \<Rightarrow> if s = [] then y else s)"

definition workspace_dirname :: "string \<Rightarrow> string option \<Rightarrow> string option \<Rightarrow> string" where
  "workspace_dirname url ref branch =
     slugify url @ ''-'' @ slug_segment (or_else ref (or_else branch ''default''))"

section \<open>Detecting the dbt project\<close>

definition dbt_candidates :: "filesystem \<Rightarrow> project_paths \<Rightarrow> path list" where
  "dbt_candidates fs ps =
     (let r = root ps;
          children = (if fs_is_dir fs r then sort (fs_iterdir fs r) else [])
      in (if fs_is_file fs (path_join r ''dbt_project.yml'') then [r] else []) @
         map (path_join r)
           (filter (\<lambda>n. fs_is_dir fs (path_join r n) \<and> \<not> startswith n ''.'' \<and>
                        n \<notin> set [''el'', ''pipelines'', ''carve''] \<and>
                        fs_is_file fs (path_join (path_join r n) ''dbt_project.yml''))
             children))"

definition detect_dbt_project ::
  "filesystem \<Rightarrow> project_paths \<Rightarrow> bool \<Rightarrow> resolution_error + path option" where
  "detect_dbt_project fs ps required =
     (case dbt_candidates fs ps of
        [p] \<Rightarrow> Inr (Some p)
      | [] \<Rightarrow> if required then Inl No_Dbt_Project else Inr None
      | qs \<Rightarrow> Inl (Multiple_Dbt_Projects (map (\<lambda>q. path_join q ''dbt_project.yml'') qs)))"

definition dbt_component_name :: "path \<Rightarrow> project_paths \<Rightarrow> string" where
  "dbt_component_name p ps = (if p = root ps then ''dbt'' else path_name p)"

section \<open>Resolution\<close>

text \<open>With \<open>required=True\<close> a detection that returns has found a project.\<close>

fun required_path :: "resolution_error + path option \<Rightarrow> resolution_error + path" where
  "required_path (Inl e) = Inl e"
| "required_path (Inr None) = Inl No_Dbt_Project"
| "required_path (Inr (Some p)) = Inr p"

definition resolve_block ::
  "filesystem \<Rightarrow> project_paths \<Rightarrow> string \<Rightarrow> component_config \<Rightarrow> resolution_error + resolved_component" where
  "resolve_block fs ps name block =
     (let resolved = (\<lambda>p r. \<lparr>rc_name = name, rc_type = cc_type block, rc_code_path = p, rc_ref = r\<rparr>) in
      case cc_mode block of
        Same_Repo \<Rightarrow>
          (case cc_type block of
             DLT \<Rightarrow> Inr (resolved (path_join (el_dir ps) name) None)
           | DBT \<Rightarrow> bind_result (required_path (detect_dbt_project fs ps True)) (\<lambda>p. Inr (resolved p None)))
      | Separate_Local \<Rightarrow>
          (case cc_path block of
             None \<Rightarrow> Inl Assertion_Failed
           | Some raw \<Rightarrow>
               (case fs_expanduser fs (path_of raw) of
                  None \<Rightarrow> Inl No_Home_Directory
                | Some code_path \<Rightarrow>
                    if fs_exists fs code_path then Inr (resolved code_path None)
                    else Inl (Path_Missing name code_path)))
      | Separate_Remote \<Rightarrow>
          (case cc_url block of
             None \<Rightarrow> Inl Assertion_Failed
           | Some url \<Rightarrow>
               Inr (resolved (path_join (workspaces_dir ps)
                               (workspace_dirname url (cc_ref block) (cc_branch block)))
                      (cc_ref block))))"

definition resolve_convention ::
  "filesystem \<Rightarrow> project_paths \<Rightarrow> string \<Rightarrow> resolution_error + resolved_component" where
  "resolve_convention fs ps name =
     (let el_path = path_join (el_dir ps) name in
      if fs_is_dir fs el_path
      then Inr \<lparr>rc_name = name, rc_type = DLT, rc_code_path = el_path, rc_ref = None\<rparr>
      else bind_result (detect_dbt_project fs ps False) (\<lambda>found.
        case found of
          Some dbt_path \<Rightarrow>
            if name = dbt_component_name dbt_path ps
            then Inr \<lparr>rc_name = name, rc_type = DBT, rc_code_path = dbt_path, rc_ref = None\<rparr>
            else Inl (No_Such_Component name)
        | None \<Rightarrow> Inl (No_Such_Component name)))"

definition resolve_component ::
  "filesystem \<Rightarrow> project_paths \<Rightarrow> components \<Rightarrow> string \<Rightarrow> resolution_error + resolved_component" where
  "resolve_component fs ps components name =
     (case components name of
        Some block \<Rightarrow> resolve_block fs ps name block
      | None \<Rightarrow> resolve_convention fs ps name)"

definition discover_components ::
  "filesystem \<Rightarrow> project_paths \<Rightarrow> resolution_error + resolved_component list" where
  "discover_components fs ps =
     (let children = (if fs_is_dir fs (el_dir ps) then sort (fs_iterdir fs (el_dir ps)) else []);
          found = map (\<lambda>n. \<lparr>rc_name = n, rc_type = DLT, rc_code_path = path_join (el_dir ps) n, rc_ref = None\<rparr>)
                    (filter (\<lambda>n. fs_is_dir fs (path_join (el_dir ps) n) \<and> \<not> startswith n ''.'') children)
      in bind_result (detect_dbt_project fs ps False) (\<lambda>dbt.
           case dbt of
             None \<Rightarrow> Inr found
           | Some p \<Rightarrow>
               Inr (found @ [\<lparr>rc_name = dbt_component_name p ps, rc_type = DBT,
                              rc_code_path = p, rc_ref = None\<rparr>])))"

text \<open>The wrappers the step executors call.\<close>

definition resolve_dlt_component ::
  "filesystem \<Rightarrow> project_paths \<Rightarrow> components \<Rightarrow> string \<Rightarrow> resolution_error + resolved_component" where
  "resolve_dlt_component fs ps components name =
     bind_result (resolve_component fs ps components name) (\<lambda>resolved.
       if rc_type resolved = DLT then Inr resolved else Inl (Wrong_Type name (rc_type resolved)))"

definition resolve_dbt_component ::
  "filesystem \<Rightarrow> project_paths \<Rightarrow> components \<Rightarrow> string option \<Rightarrow> resolution_error + resolved_component" where
  "resolve_dbt_component fs ps components name =
     (case name of
        None \<Rightarrow>
          bind_result (required_path (detect_dbt_project fs ps True)) (\<lambda>p.
            Inr \<lparr>rc_name = dbt_component_name p ps, rc_type = DBT, rc_code_path = p, rc_ref = None\<rparr>)
      | Some n \<Rightarrow>
          bind_result (resolve_component fs ps components n) (\<lambda>resolved.
            if rc_type resolved = DBT then Inr resolved else Inl (Wrong_Type n (rc_type resolved))))"

section \<open>Slugs are safe path segments\<close>

definition slug_alphabet :: "char \<Rightarrow> bool" where
  "slug_alphabet c \<longleftrightarrow> slug_char c \<or> c = CHR ''-''"

lemma set_strip_by: "set (strip_by P s) \<subseteq> set s"
  by (auto simp: strip_by_def dest!: set_dropWhileD)

lemma collapse_runs_alphabet: "c \<in> set (collapse_runs b s) \<Longrightarrow> slug_alphabet c"
  by (induction b s rule: collapse_runs.induct) (auto simp: slug_alphabet_def split: if_splits)

lemma slug_keep_alphabet: "c \<in> set (slug_keep s) \<Longrightarrow> slug_alphabet c"
  using set_strip_by collapse_runs_alphabet by (fastforce simp: slug_keep_def)

lemma slug_segment_alphabet: "c \<in> set (slug_segment s) \<Longrightarrow> slug_alphabet c"
proof -
  have "list_all slug_alphabet ''default''" by code_simp
  then show "c \<in> set (slug_segment s) \<Longrightarrow> slug_alphabet c"
    using slug_keep_alphabet by (auto simp: slug_segment_def Let_def list_all_iff split: if_splits)
qed

lemma workspace_dirname_alphabet: "c \<in> set (workspace_dirname url ref branch) \<Longrightarrow> slug_alphabet c"
proof -
  have "slug_alphabet (CHR ''-'')" by (simp add: slug_alphabet_def)
  then show "c \<in> set (workspace_dirname url ref branch) \<Longrightarrow> slug_alphabet c"
    using slug_keep_alphabet slug_segment_alphabet
    by (auto simp: workspace_dirname_def slugify_def)
qed

lemma slug_alphabet_excludes: "\<not> slug_alphabet (CHR ''/'')" "\<not> slug_alphabet (CHR ''.'')"
  by code_simp+

lemma split_slash_single: "CHR ''/'' \<notin> set s \<Longrightarrow> split_slash s = [s]"
  by (induction s) auto

lemma path_join_segment:
  assumes "s \<noteq> []" and "\<And>c. c \<in> set s \<Longrightarrow> slug_alphabet c"
  shows "path_join p s = p\<lparr>segments := segments p @ [s]\<rparr>"
proof -
  have "CHR ''/'' \<notin> set s" and "CHR ''.'' \<notin> set s" using assms(2) slug_alphabet_excludes by blast+
  then have "split_slash s = [s]" and "s \<noteq> ''.''" and "\<not> prefix ''/'' s"
    by (auto simp: split_slash_single prefix_def)
  with assms(1) show ?thesis by (simp add: path_join_def path_of_def startswith_def Let_def)
qed

text \<open>
  A separate-remote component resolves inside the workspace cache: its code path is
  \<open>workspaces_dir\<close> extended by exactly one segment, which contains only lower-case letters,
  digits and dashes, whatever the git URL, ref and branch are; and it carries the pin.
\<close>
theorem remote_stays_in_cache:
  assumes "components name = Some block" and "cc_mode block = Separate_Remote" and "cc_url block = Some url"
  shows "\<exists>seg. resolve_component fs ps components name =
           Inr \<lparr>rc_name = name, rc_type = cc_type block,
                rc_code_path = (workspaces_dir ps)\<lparr>segments := segments (workspaces_dir ps) @ [seg]\<rparr>,
                rc_ref = cc_ref block\<rparr>
         \<and> seg \<noteq> [] \<and> list_all slug_alphabet seg"
proof -
  let ?seg = "workspace_dirname url (cc_ref block) (cc_branch block)"
  have ne: "?seg \<noteq> []" by (simp add: workspace_dirname_def)
  have alphabet: "list_all slug_alphabet ?seg" by (simp add: list_all_iff workspace_dirname_alphabet)
  have "path_join (workspaces_dir ps) ?seg =
      (workspaces_dir ps)\<lparr>segments := segments (workspaces_dir ps) @ [?seg]\<rparr>"
    using ne workspace_dirname_alphabet by (rule path_join_segment)
  then have "resolve_component fs ps components name =
      Inr \<lparr>rc_name = name, rc_type = cc_type block,
           rc_code_path = (workspaces_dir ps)\<lparr>segments := segments (workspaces_dir ps) @ [?seg]\<rparr>,
           rc_ref = cc_ref block\<rparr>"
    using assms by (simp add: resolve_component_def resolve_block_def Let_def)
  with ne alphabet show ?thesis by blast
qed

definition empty_fs :: filesystem where
  "empty_fs = \<lparr>fs_is_dir = (\<lambda>p. False), fs_is_file = (\<lambda>p. False), fs_exists = (\<lambda>p. False),
               fs_iterdir = (\<lambda>p. []), fs_expanduser = Some\<rparr>"

definition remote_block :: "string \<Rightarrow> string option \<Rightarrow> component_config" where
  "remote_block url ref =
     \<lparr>cc_type = DLT, cc_mode = Separate_Remote, cc_url = Some url, cc_branch = None, cc_path = None,
      cc_ref = ref, cc_sync_mode = ''hard'', cc_sync_before_run = True, cc_dbt_backend = None,
      cc_dbt_engine = None, cc_dbt_version = None, cc_dbt_env = None, cc_dbt_path = None,
      cc_profiles_dir = None, cc_worker_label = None\<rparr>"

definition demo_paths :: project_paths where
  "demo_paths = from_root (path_of ''/srv/app'')"

lemma remote_stays_in_cache_witness:
  "\<exists>seg. resolve_component empty_fs demo_paths
       [''stripe'' \<mapsto> remote_block ''git@github.com:Acme/../etc.git'' (Some ''../../v1'')] ''stripe'' =
     Inr \<lparr>rc_name = ''stripe'', rc_type = DLT,
          rc_code_path = (workspaces_dir demo_paths)\<lparr>segments := segments (workspaces_dir demo_paths) @ [seg]\<rparr>,
          rc_ref = Some ''../../v1''\<rparr>
     \<and> seg \<noteq> [] \<and> list_all slug_alphabet seg"
  using remote_stays_in_cache
    [of "[''stripe'' \<mapsto> remote_block ''git@github.com:Acme/../etc.git'' (Some ''../../v1'')]" "''stripe''"
      "remote_block ''git@github.com:Acme/../etc.git'' (Some ''../../v1'')"
      "''git@github.com:Acme/../etc.git''" empty_fs demo_paths]
  by (simp add: remote_block_def)

text \<open>
  two different repositories can share one workspace directory: the slug keeps the host,
  organisation and repository segments but not where one ends, so a dash in a name is
  indistinguishable from a separator, against the promise that distinct repositories stay
  distinct.
\<close>
theorem slug_merges_distinct_repos:
  "workspace_dirname ''https://github.com/acme/data-el.git'' None (Some ''main'') =
   workspace_dirname ''https://github.com/acme-data/el.git'' None (Some ''main'')"
  by code_simp

section \<open>Discovery and resolution agree\<close>

lemma detect_not_required:
  "detect_dbt_project fs ps False = Inr found \<Longrightarrow>
     (case found of None \<Rightarrow> dbt_candidates fs ps = [] | Some p \<Rightarrow> dbt_candidates fs ps = [p])"
  by (auto simp: detect_dbt_project_def split: list.splits)

text \<open>
  what \<open>discover_components\<close> lists, \<open>resolve_component\<close> finds: with no block of that name,
  a listed component resolves to itself, unless it is the dbt project and a dlt directory
  under \<open>el/\<close> has the same name (the dlt convention is tried first).
\<close>
theorem discovered_resolves:
  assumes "discover_components fs ps = Inr found" and "c \<in> set found" and "components (rc_name c) = None"
    and "rc_type c = DLT \<or> \<not> fs_is_dir fs (path_join (el_dir ps) (rc_name c))"
  shows "resolve_component fs ps components (rc_name c) = Inr c"
proof -
  from assms(1) obtain dbt where dbt: "detect_dbt_project fs ps False = Inr dbt"
    by (auto simp: discover_components_def bind_result_Inr_iff Let_def)
  have "(rc_type c = DLT \<and> fs_is_dir fs (path_join (el_dir ps) (rc_name c)) \<and>
         rc_code_path c = path_join (el_dir ps) (rc_name c) \<and> rc_ref c = None) \<or>
        (\<exists>p. dbt = Some p \<and> c = \<lparr>rc_name = dbt_component_name p ps, rc_type = DBT,
                              rc_code_path = p, rc_ref = None\<rparr>)"
    using assms(1,2) dbt
    by (cases dbt) (auto simp: discover_components_def Let_def)
  then show ?thesis
  proof (elim disjE exE conjE)
    assume "rc_type c = DLT" "fs_is_dir fs (path_join (el_dir ps) (rc_name c))"
      "rc_code_path c = path_join (el_dir ps) (rc_name c)" "rc_ref c = None"
    with assms(3) show ?thesis
      by (simp add: resolve_component_def resolve_convention_def Let_def)
  next
    fix p assume "dbt = Some p"
      and "c = \<lparr>rc_name = dbt_component_name p ps, rc_type = DBT, rc_code_path = p, rc_ref = None\<rparr>"
    with assms(3,4) dbt show ?thesis
      by (simp add: resolve_component_def resolve_convention_def Let_def)
  qed
qed

definition demo_fs :: filesystem where
  "demo_fs = \<lparr>fs_is_dir = (\<lambda>p. p \<in> {path_of ''/srv/app'', path_of ''/srv/app/el'', path_of ''/srv/app/el/zeta''}),
              fs_is_file = (\<lambda>p. p = path_of ''/srv/app/dbt_project.yml''),
              fs_exists = (\<lambda>p. True),
              fs_iterdir = (\<lambda>p. if p = path_of ''/srv/app'' then [''el'', ''dbt_project.yml'']
                                else if p = path_of ''/srv/app/el'' then [''zeta''] else []),
              fs_expanduser = Some\<rparr>"

definition zeta :: resolved_component where
  "zeta = \<lparr>rc_name = ''zeta'', rc_type = DLT, rc_code_path = path_of ''/srv/app/el/zeta'', rc_ref = None\<rparr>"

lemma discover_demo:
  "discover_components demo_fs demo_paths =
     Inr [zeta, \<lparr>rc_name = ''dbt'', rc_type = DBT, rc_code_path = path_of ''/srv/app'', rc_ref = None\<rparr>]"
  by code_simp

lemma discovered_resolves_witness:
  "resolve_component demo_fs demo_paths Map.empty ''zeta'' = Inr zeta"
  using discovered_resolves [OF discover_demo, of zeta Map.empty] by (simp add: zeta_def)

end
