(* ===== verification/Pipeline_Schema.thy ===== *)
theory Pipeline_Schema
  imports Dfs_Cycle Component_Locator
begin

text \<open>
  The pipeline definition and its loader (\<open>core/config/pipeline_schema.py\<close>): the data a
  validated \<open>pipelines/<name>.toml\<close> holds, the cross-field validation pass in the order
  \<open>load_pipeline\<close> runs it, and the reduction of the components' worker labels to one.

  \<open>tomllib\<close>, pydantic's \<open>Pipeline.model_validate\<close> and \<open>croniter.is_valid\<close> are not part of the
  repository: they are the fields of the argument \<open>lib\<close>. The recursion limit of the
  interpreter, which bounds the depth of the cycle check, is not modelled.
\<close>

section \<open>The data\<close>

datatype failure_kind = Fail | Warn | Continue | Retry | Skip_Downstream

datatype backoff_kind = Exponential | Linear | Fixed

record failure_mode =
  fm_mode :: failure_kind
  fm_max_attempts :: int
  fm_backoff :: backoff_kind
  fm_initial_delay :: rat
  fm_max_delay :: rat

definition default_failure_mode :: failure_mode where
  "default_failure_mode =
     \<lparr>fm_mode = Fail, fm_max_attempts = 1, fm_backoff = Exponential,
      fm_initial_delay = 5, fm_max_delay = 300\<rparr>"

datatype write_disposition = Append | Replace | Merge

datatype dbt_command = Build | Run | Test | Snapshot | Seed

datatype step_config =
    Dlt_Step string "write_disposition option" "string list option"
  | Dbt_Step "string option" dbt_command "string option" "string option" "(string \<times> json) list" bool
  | Sql_Step string string

record pipeline_step =
  step_id :: string
  depends_on :: "string list"
  failure_mode :: failure_mode
  jinja_vars :: "(string \<times> string) list"
  step_config :: step_config

datatype step_type = Dlt_Type | Dbt_Type | Sql_Type

fun config_type :: "step_config \<Rightarrow> step_type" where
  "config_type (Dlt_Step c w r) = Dlt_Type"
| "config_type (Dbt_Step c cmd s e v f) = Dbt_Type"
| "config_type (Sql_Step f c) = Sql_Type"

text \<open>\<open>step.component\<close>; a sql step has none.\<close>

fun config_component :: "step_config \<Rightarrow> string option" where
  "config_component (Dlt_Step c w r) = Some c"
| "config_component (Dbt_Step c cmd s e v f) = c"
| "config_component (Sql_Step f c) = None"

record pipeline_meta =
  pm_description :: string
  pm_owner :: string

record seed_schedule =
  seed_cron :: string
  seed_timezone :: string
  seed_target :: string

record pipeline =
  pl_name :: string
  pl_meta :: pipeline_meta
  pl_seed_schedule :: "seed_schedule option"
  pl_steps :: "pipeline_step list"

datatype pipeline_error =
    Unparsable_Toml
  | Unreadable_File
  | Artifact_Key "json option" nat
  | Schema_Violation string
  | Duplicate_Step_Id string
  | Unknown_Dependency string string
  | Dependency_Cycle "string list"
  | Key_Error string
  | Invalid_Cron string
  | No_Single_Dbt_Project string resolution_error
  | Unresolved_Component string string resolution_error
  | Component_Type_Mismatch string string component_type
  | Escaped_Exception resolution_error
  | Conflicting_Worker_Labels "string list"
  | Recursion_Fuel

record loader_lib =
  lib_read_toml :: "path \<Rightarrow> pipeline_error + (string \<times> json) list"
  lib_model_validate :: "(string \<times> json) list \<Rightarrow> pipeline_error + pipeline"
  lib_cron_valid :: "string \<Rightarrow> bool"

section \<open>The validation passes\<close>

text \<open>A pass returns nothing or raises. A step without an id is reported by its index.\<close>

definition reject_artifact_key :: "(string \<times> json) list \<Rightarrow> pipeline_error + unit" where
  "reject_artifact_key raw =
     (case map_of raw ''steps'' of
        Some (JList steps) \<Rightarrow>
          (case List.find (\<lambda>(i, step). case step of JObject kv \<Rightarrow> ''artifact'' \<in> fst ` set kv | _ \<Rightarrow> False)
                  (zip [0..<length steps] steps) of
             Some (i, JObject kv) \<Rightarrow>
               Inl (Artifact_Key (map_of kv ''id'') i)
           | _ \<Rightarrow> Inr ())
      | _ \<Rightarrow> Inr ())"

fun validate_unique_ids :: "string set \<Rightarrow> pipeline_step list \<Rightarrow> pipeline_error + unit" where
  "validate_unique_ids seen [] = Inr ()"
| "validate_unique_ids seen (s # ss) =
     (if step_id s \<in> seen then Inl (Duplicate_Step_Id (step_id s))
      else validate_unique_ids (insert (step_id s) seen) ss)"

definition validate_depends_on :: "pipeline_step list \<Rightarrow> pipeline_error + unit" where
  "validate_depends_on steps =
     (case List.find (\<lambda>(i, d). d \<notin> step_id ` set steps)
             (concat (map (\<lambda>s. map (Pair (step_id s)) (depends_on s)) steps)) of
        Some (i, d) \<Rightarrow> Inl (Unknown_Dependency i d)
      | None \<Rightarrow> Inr ())"

text \<open>A dictionary comprehension over the steps: a later step with the same id overwrites.\<close>

definition step_dict :: "(pipeline_step \<Rightarrow> 'a) \<Rightarrow> pipeline_step list \<Rightarrow> (string \<times> 'a) list" where
  "step_dict f steps = dict_of (map (\<lambda>s. (step_id s, f s)) steps)"

definition validate_no_cycles :: "pipeline_step list \<Rightarrow> pipeline_error + unit" where
  "validate_no_cycles steps =
     (let adjacency = step_dict depends_on steps in
      case check_all (map_of adjacency) (map fst adjacency) of
        None \<Rightarrow> Inl Recursion_Fuel
      | Some (Inl (Unknown_Dep x d)) \<Rightarrow> Inl (Key_Error d)
      | Some (Inl (Cycle_Found c)) \<Rightarrow> Inl (Dependency_Cycle c)
      | Some (Inr _) \<Rightarrow> Inr ())"

definition validate_cron :: "loader_lib \<Rightarrow> pipeline \<Rightarrow> pipeline_error + unit" where
  "validate_cron lib p =
     (case pl_seed_schedule p of
        None \<Rightarrow> Inr ()
      | Some s \<Rightarrow>
          if lib_cron_valid lib (seed_cron s) then Inr () else Inl (Invalid_Cron (seed_cron s)))"

fun type_matches :: "step_config \<Rightarrow> component_type \<Rightarrow> bool" where
  "type_matches (Dlt_Step c w r) t = (t = DLT)"
| "type_matches (Dbt_Step c cmd s e v f) t = (t = DBT)"
| "type_matches (Sql_Step f c) t = False"

text \<open>
  The failures that are no \<open>ComponentResolutionError\<close> escape the handler: a failed assertion
  and the \<open>RuntimeError\<close> of \<open>expanduser\<close>.
\<close>

definition resolution_error_caught :: "resolution_error \<Rightarrow> bool" where
  "resolution_error_caught e \<longleftrightarrow> e \<noteq> Assertion_Failed \<and> e \<noteq> No_Home_Directory"

definition validate_component ::
  "filesystem \<Rightarrow> project_paths \<Rightarrow> components \<Rightarrow> pipeline_step \<Rightarrow> pipeline_error + unit" where
  "validate_component fs ps comps step =
     (case step_config step of
        Sql_Step f c \<Rightarrow> Inr ()
      | cfg \<Rightarrow>
          (case config_component cfg of
             None \<Rightarrow>
               (case detect_dbt_project fs ps True of
                  Inl e \<Rightarrow> Inl (No_Single_Dbt_Project (step_id step) e)
                | Inr _ \<Rightarrow> Inr ())
           | Some name \<Rightarrow>
               (case resolve_component fs ps comps name of
                  Inl e \<Rightarrow>
                    if resolution_error_caught e then Inl (Unresolved_Component (step_id step) name e)
                    else Inl (Escaped_Exception e)
                | Inr r \<Rightarrow>
                    if type_matches cfg (rc_type r) then Inr ()
                    else Inl (Component_Type_Mismatch (step_id step) name (rc_type r)))))"

text \<open>A pass over the steps stops at the first one that raises.\<close>

fun for_each :: "('a \<Rightarrow> 'e + unit) \<Rightarrow> 'a list \<Rightarrow> 'e + unit" where
  "for_each f [] = Inr ()"
| "for_each f (x # xs) = bind_result (f x) (\<lambda>_. for_each f xs)"

definition validate_components_resolve ::
  "filesystem \<Rightarrow> project_paths \<Rightarrow> components \<Rightarrow> pipeline_step list \<Rightarrow> pipeline_error + unit" where
  "validate_components_resolve fs ps comps steps = for_each (validate_component fs ps comps) steps"

section \<open>Worker labels\<close>

text \<open>The label a step contributes, if its component is a labelled block.\<close>

definition step_label :: "components \<Rightarrow> pipeline_step \<Rightarrow> string option" where
  "step_label comps step =
     (case config_component (step_config step) of
        None \<Rightarrow> None
      | Some name \<Rightarrow>
          (case comps name of None \<Rightarrow> None | Some block \<Rightarrow> cc_worker_label block))"

definition step_labels :: "components \<Rightarrow> pipeline_step list \<Rightarrow> string list" where
  "step_labels comps steps = remdups (List.map_filter (step_label comps) steps)"

definition resolve_required_label ::
  "pipeline \<Rightarrow> components \<Rightarrow> pipeline_error + string option" where
  "resolve_required_label p comps =
     (case step_labels comps (pl_steps p) of
        [] \<Rightarrow> Inr None
      | [l] \<Rightarrow> Inr (Some l)
      | ls \<Rightarrow> Inl (Conflicting_Worker_Labels (sort ls)))"

definition validate_worker_labels :: "pipeline \<Rightarrow> components \<Rightarrow> pipeline_error + unit" where
  "validate_worker_labels p comps = bind_result (resolve_required_label p comps) (\<lambda>_. Inr ())"

section \<open>The loader\<close>

text \<open>\<open>Path.stem\<close>: the last segment without its last suffix.\<close>

definition path_stem :: "path \<Rightarrow> string" where
  "path_stem p =
     (let n = path_name p; ext = takeWhile (\<lambda>c. c \<noteq> CHR ''.'') (rev n);
          base = take (length n - length ext - 1) n
      in if CHR ''.'' \<in> set n \<and> ext \<noteq> [] \<and> base \<noteq> [] then base else n)"

definition validate_pipeline ::
  "loader_lib \<Rightarrow> filesystem \<Rightarrow> project_paths \<Rightarrow> components \<Rightarrow> pipeline \<Rightarrow> pipeline_error + pipeline" where
  "validate_pipeline lib fs ps comps p =
     bind_result (validate_unique_ids {} (pl_steps p)) (\<lambda>_.
     bind_result (validate_depends_on (pl_steps p)) (\<lambda>_.
     bind_result (validate_no_cycles (pl_steps p)) (\<lambda>_.
     bind_result (validate_cron lib p) (\<lambda>_.
     bind_result (validate_components_resolve fs ps comps (pl_steps p)) (\<lambda>_.
     bind_result (validate_worker_labels p comps) (\<lambda>_. Inr p))))))"

definition load_pipeline ::
  "loader_lib \<Rightarrow> filesystem \<Rightarrow> project_paths \<Rightarrow> components \<Rightarrow> path \<Rightarrow> pipeline_error + pipeline" where
  "load_pipeline lib fs ps comps path =
     bind_result (lib_read_toml lib path) (\<lambda>raw.
     bind_result (reject_artifact_key raw) (\<lambda>_.
     bind_result (lib_model_validate lib (AList.update ''name'' (JString (path_stem path)) raw)) (\<lambda>p.
     validate_pipeline lib fs ps comps p)))"

section \<open>What each pass checks\<close>

lemma bind_unit_iff: "bind_result r f = Inr y \<longleftrightarrow> r = Inr () \<and> f () = Inr y" for r :: "'e + unit"
  by (cases r) auto

lemma validate_unique_ids_ok:
  "validate_unique_ids seen ss = Inr () \<longleftrightarrow> distinct (map step_id ss) \<and> step_id ` set ss \<inter> seen = {}"
  by (induction ss arbitrary: seen) auto

lemma validate_unique_ids_member:
  "validate_unique_ids seen ss = Inl e \<Longrightarrow> \<exists>i \<in> step_id ` set ss. e = Duplicate_Step_Id i"
  by (induction ss arbitrary: seen) (auto split: if_splits)

lemma validate_unique_ids_err:
  "validate_unique_ids {} ss = Inl e \<Longrightarrow>
     \<exists>i \<in> step_id ` set ss. e = Duplicate_Step_Id i \<and> \<not> distinct (map step_id ss)"
  using validate_unique_ids_member validate_unique_ids_ok [of "{}" ss] by fastforce

lemma for_each_ok: "for_each f xs = Inr () \<longleftrightarrow> (\<forall>x \<in> set xs. f x = Inr ())"
  by (induction xs) (auto simp: bind_unit_iff)

lemma for_each_err: "for_each f xs = Inl e \<Longrightarrow> \<exists>x \<in> set xs. f x = Inl e"
proof (induction xs)
  case (Cons x xs)
  then show ?case by (cases "f x") auto
qed simp

lemma find_none: "List.find P xs = None \<longleftrightarrow> (\<forall>x \<in> set xs. \<not> P x)"
  by (induction xs) auto

lemma find_some: "List.find P xs = Some x \<Longrightarrow> x \<in> set xs \<and> P x"
  by (induction xs) (auto split: if_splits)

text \<open>The step graph: an edge from a step to each of its dependencies.\<close>

definition deps_closed :: "pipeline_step list \<Rightarrow> bool" where
  "deps_closed steps \<longleftrightarrow> (\<forall>s \<in> set steps. set (depends_on s) \<subseteq> step_id ` set steps)"

definition step_edges :: "pipeline_step list \<Rightarrow> (string \<times> string) set" where
  "step_edges steps = {(step_id s, d) |s d. s \<in> set steps \<and> d \<in> set (depends_on s)}"

lemma validate_depends_on_ok: "validate_depends_on steps = Inr () \<longleftrightarrow> deps_closed steps"
proof (cases "validate_depends_on steps = Inr ()")
  case True
  then show ?thesis
    by (fastforce simp: validate_depends_on_def deps_closed_def find_none split: option.splits)
next
  case False
  then obtain i d where "List.find (\<lambda>(i, d). d \<notin> step_id ` set steps)
      (concat (map (\<lambda>s. map (Pair (step_id s)) (depends_on s)) steps)) = Some (i, d)"
    by (auto simp: validate_depends_on_def split: option.splits)
  from find_some [OF this] False show ?thesis by (auto simp: deps_closed_def)
qed

lemma validate_depends_on_err:
  "validate_depends_on steps = Inl e \<Longrightarrow>
     \<exists>i d. e = Unknown_Dependency i d \<and> (i, d) \<in> step_edges steps \<and> d \<notin> step_id ` set steps"
  by (auto simp: validate_depends_on_def step_edges_def split: option.splits dest!: find_some)

lemma step_dict_distinct:
  "distinct (map step_id steps) \<Longrightarrow> step_dict f steps = map (\<lambda>s. (step_id s, f s)) steps"
  by (simp add: step_dict_def dict_of_distinct comp_def)

lemma step_dict_keys [simp]: "fst ` set (step_dict f steps) = step_id ` set steps"
  by (simp add: step_dict_def image_image)

lemma distinct_step_dict [simp]: "distinct (map fst (step_dict f steps))"
  by (simp add: step_dict_def)

lemma edges_step_dict:
  assumes "distinct (map step_id steps)"
  shows "edges (map_of (step_dict depends_on steps)) = step_edges steps"
proof -
  have "map_of (step_dict depends_on steps) x = Some ds \<longleftrightarrow>
      (\<exists>s \<in> set steps. step_id s = x \<and> depends_on s = ds)" for x ds
    using assms by (auto simp: step_dict_distinct map_of_eq_Some_iff comp_def)
  then show ?thesis
    by (fastforce simp: edges_def deps_of_def step_edges_def split: option.splits)
qed

lemma validate_no_cycles_ok:
  assumes "distinct (map step_id steps)" and "deps_closed steps"
  shows "validate_no_cycles steps = Inr () \<longleftrightarrow> acyclic (step_edges steps)"
proof -
  let ?adj = "step_dict depends_on steps"
  have dom: "dom (map_of ?adj) \<subseteq> set (map fst ?adj)"
    by (simp add: dom_map_of_conv_image_fst)
  have "closed_graph (map_of ?adj) (map fst ?adj)"
    using assms(2) by (auto simp: closed_graph_edges [OF dom] edges_step_dict [OF assms(1)]
      step_edges_def deps_closed_def)
  with check_all_accepts [OF dom]
  have "(\<exists>st. check_all (map_of ?adj) (map fst ?adj) = Some (Inr st)) \<longleftrightarrow> acyclic (step_edges steps)"
    by (simp add: edges_step_dict [OF assms(1)])
  moreover have "validate_no_cycles steps = Inr () \<longleftrightarrow>
      (\<exists>st. check_all (map_of ?adj) (map fst ?adj) = Some (Inr st))"
    by (simp add: validate_no_cycles_def Let_def split: option.split sum.split dfs_error.split)
  ultimately show ?thesis by simp
qed

lemma validate_no_cycles_err:
  assumes "distinct (map step_id steps)" and "deps_closed steps" and "validate_no_cycles steps = Inl e"
  shows "\<exists>c. e = Dependency_Cycle c \<and> is_cycle (map_of (step_dict depends_on steps)) c"
proof -
  let ?adj = "step_dict depends_on steps"
  obtain r where r: "check_all (map_of ?adj) (map fst ?adj) = Some r"
    using check_all_total by blast
  with assms(3) obtain d where d: "r = Inl d"
    by (cases r) (auto simp: validate_no_cycles_def)
  with r have ok: "error_ok (map_of ?adj) (set (map fst ?adj)) d" using check_all_error by blast
  show ?thesis
  proof (cases d)
    case (Unknown_Dep x y)
    with ok assms(2) show ?thesis
      by (auto simp: error_ok_def edges_step_dict [OF assms(1)] step_edges_def deps_closed_def)
  next
    case (Cycle_Found c)
    with ok r d assms(3) show ?thesis by (auto simp: validate_no_cycles_def error_ok_def)
  qed
qed

text \<open>At most one label: any two labelled steps agree.\<close>

definition single_label :: "components \<Rightarrow> pipeline_step list \<Rightarrow> bool" where
  "single_label comps steps \<longleftrightarrow>
     (\<forall>s \<in> set steps. \<forall>t \<in> set steps. \<forall>a b.
        step_label comps s = Some a \<longrightarrow> step_label comps t = Some b \<longrightarrow> a = b)"

lemma set_step_labels: "l \<in> set (step_labels comps steps) \<longleftrightarrow> (\<exists>s \<in> set steps. step_label comps s = Some l)"
  by (force simp: step_labels_def List.map_filter_def)

lemma resolve_required_label_ok:
  "(\<exists>l. resolve_required_label p comps = Inr l) \<longleftrightarrow> single_label comps (pl_steps p)"
proof -
  have single: "single_label comps (pl_steps p) \<longleftrightarrow>
      (\<forall>a \<in> set (step_labels comps (pl_steps p)). \<forall>b \<in> set (step_labels comps (pl_steps p)). a = b)"
    unfolding single_label_def set_step_labels Ball_def by blast
  have "distinct (step_labels comps (pl_steps p))" by (simp add: step_labels_def)
  with single show ?thesis
    by (cases "step_labels comps (pl_steps p)" rule: remdups_adj.cases)
       (simp_all add: resolve_required_label_def)
qed

lemma resolve_required_label_value:
  "resolve_required_label p comps = Inr (Some l) \<Longrightarrow> \<exists>s \<in> set (pl_steps p). step_label comps s = Some l"
  "resolve_required_label p comps = Inr None \<Longrightarrow> s \<in> set (pl_steps p) \<Longrightarrow> step_label comps s = None"
proof -
  assume "resolve_required_label p comps = Inr (Some l)"
  then have "step_labels comps (pl_steps p) = [l]"
    by (simp add: resolve_required_label_def split: list.splits)
  then show "\<exists>s \<in> set (pl_steps p). step_label comps s = Some l"
    using set_step_labels [of l comps "pl_steps p"] by simp
next
  assume "resolve_required_label p comps = Inr None" and s: "s \<in> set (pl_steps p)"
  then have "step_labels comps (pl_steps p) = []"
    by (simp add: resolve_required_label_def split: list.splits)
  then show "step_label comps s = None"
    using s set_step_labels [of _ comps "pl_steps p"] by (cases "step_label comps s") auto
qed

definition component_ok :: "filesystem \<Rightarrow> project_paths \<Rightarrow> components \<Rightarrow> pipeline_step \<Rightarrow> bool" where
  "component_ok fs ps comps step \<longleftrightarrow>
     (case step_config step of
        Sql_Step f c \<Rightarrow> True
      | Dlt_Step name w r \<Rightarrow> is_ok (resolve_dlt_component fs ps comps name)
      | Dbt_Step name cmd s e v f \<Rightarrow> is_ok (resolve_dbt_component fs ps comps name))"

lemma detect_required: "detect_dbt_project fs ps True \<noteq> Inr None"
  by (auto simp: detect_dbt_project_def split: list.splits)

lemma validate_component_ok: "validate_component fs ps comps step = Inr () \<longleftrightarrow> component_ok fs ps comps step"
proof (cases "step_config step")
  case (Dlt_Step name w r)
  then show ?thesis
    by (cases "resolve_component fs ps comps name")
       (auto simp: validate_component_def component_ok_def resolve_dlt_component_def)
next
  case (Dbt_Step name cmd s e v f)
  show ?thesis
  proof (cases name)
    case None
    with None Dbt_Step show ?thesis
      using detect_required [of fs ps]
      by (cases "detect_dbt_project fs ps True"; cases "projr (detect_dbt_project fs ps True)")
         (auto simp: validate_component_def component_ok_def resolve_dbt_component_def)
  next
    case (Some n)
    with Dbt_Step show ?thesis
      by (cases "resolve_component fs ps comps n")
         (auto simp: validate_component_def component_ok_def resolve_dbt_component_def)
  qed
next
  case (Sql_Step f c)
  then show ?thesis by (simp add: validate_component_def component_ok_def)
qed

section \<open>The loader accepts exactly the well-formed pipelines\<close>

definition cron_ok :: "loader_lib \<Rightarrow> pipeline \<Rightarrow> bool" where
  "cron_ok lib p = (case pl_seed_schedule p of None \<Rightarrow> True | Some s \<Rightarrow> lib_cron_valid lib (seed_cron s))"

definition pipeline_ok ::
  "loader_lib \<Rightarrow> filesystem \<Rightarrow> project_paths \<Rightarrow> components \<Rightarrow> pipeline \<Rightarrow> bool" where
  "pipeline_ok lib fs ps comps p \<longleftrightarrow>
     distinct (map step_id (pl_steps p)) \<and> deps_closed (pl_steps p) \<and> acyclic (step_edges (pl_steps p)) \<and>
     cron_ok lib p \<and> list_all (component_ok fs ps comps) (pl_steps p) \<and> single_label comps (pl_steps p)"

lemma validate_cron_ok: "validate_cron lib p = Inr () \<longleftrightarrow> cron_ok lib p"
  by (simp add: validate_cron_def cron_ok_def split: option.split)

lemma validate_components_ok:
  "validate_components_resolve fs ps comps steps = Inr () \<longleftrightarrow> list_all (component_ok fs ps comps) steps"
  by (simp add: validate_components_resolve_def for_each_ok validate_component_ok list_all_iff)

lemma validate_worker_labels_ok: "validate_worker_labels p comps = Inr () \<longleftrightarrow> single_label comps (pl_steps p)"
  using resolve_required_label_ok [of p comps]
  by (cases "resolve_required_label p comps") (auto simp: validate_worker_labels_def)

lemma validate_pipeline_iff:
  "validate_pipeline lib fs ps comps p = Inr q \<longleftrightarrow> q = p \<and> pipeline_ok lib fs ps comps p"
  using validate_no_cycles_ok [of "pl_steps p"]
  by (auto simp: validate_pipeline_def bind_unit_iff pipeline_ok_def validate_unique_ids_ok
    validate_depends_on_ok validate_cron_ok validate_components_ok validate_worker_labels_ok)

text \<open>
  \<open>load_pipeline\<close> returns a pipeline exactly when the file parses, no step uses the retired
  key, the schema accepts the table with the file's stem injected as the name, and the result
  is well formed: distinct step ids, no dangling dependency, no dependency cycle, a valid cron
  expression, every dlt and dbt step resolvable by the resolver the executors call with the
  type the step needs, and at most one worker label.
\<close>
theorem load_pipeline_accepts:
  "load_pipeline lib fs ps comps path = Inr p \<longleftrightarrow>
     (\<exists>raw. lib_read_toml lib path = Inr raw \<and> reject_artifact_key raw = Inr () \<and>
        lib_model_validate lib (AList.update ''name'' (JString (path_stem path)) raw) = Inr p) \<and>
     pipeline_ok lib fs ps comps p"
  by (auto simp: load_pipeline_def bind_result_Inr_iff bind_unit_iff validate_pipeline_iff)

text \<open>What each error of the validation pass says about the pipeline.\<close>

definition pipeline_error_real :: "filesystem \<Rightarrow> project_paths \<Rightarrow> components \<Rightarrow> pipeline \<Rightarrow> pipeline_error \<Rightarrow> bool" where
  "pipeline_error_real fs ps comps p e =
     (let steps = pl_steps p in
      (case e of
        Duplicate_Step_Id i \<Rightarrow> \<not> distinct (map step_id steps) \<and> i \<in> step_id ` set steps
      | Unknown_Dependency i d \<Rightarrow> (i, d) \<in> step_edges steps \<and> d \<notin> step_id ` set steps
      | Dependency_Cycle c \<Rightarrow>
          2 \<le> length c \<and> hd c = last c \<and> successively (\<lambda>x y. (x, y) \<in> step_edges steps) c
      | Invalid_Cron c \<Rightarrow> (\<exists>s. pl_seed_schedule p = Some s \<and> seed_cron s = c)
      | No_Single_Dbt_Project i r \<Rightarrow> detect_dbt_project fs ps True = Inl r
      | Unresolved_Component i n r \<Rightarrow> resolve_component fs ps comps n = Inl r
      | Component_Type_Mismatch i n t \<Rightarrow>
          (\<exists>r. resolve_component fs ps comps n = Inr r \<and> rc_type r = t)
      | Escaped_Exception r \<Rightarrow> r = Assertion_Failed \<or> r = No_Home_Directory
      | Conflicting_Worker_Labels ls \<Rightarrow> 2 \<le> length ls \<and> distinct ls \<and> sorted ls \<and>
          set ls = set (step_labels comps steps)
      | _ \<Rightarrow> False))"

lemma validate_component_err:
  "validate_component fs ps comps s = Inl e \<Longrightarrow> pipeline_error_real fs ps comps p e"
  by (auto simp: validate_component_def pipeline_error_real_def resolution_error_caught_def Let_def
    split: step_config.splits option.splits sum.splits if_splits)

lemma resolve_required_label_err:
  assumes "resolve_required_label p comps = Inl e"
  shows "pipeline_error_real fs ps comps p e"
proof -
  let ?ls = "step_labels comps (pl_steps p)"
  have "distinct ?ls" by (simp add: step_labels_def)
  moreover from assms have "2 \<le> length ?ls \<and> e = Conflicting_Worker_Labels (sort ?ls)"
    by (auto simp: resolve_required_label_def split: list.splits)
  ultimately show ?thesis by (simp add: pipeline_error_real_def Let_def)
qed

lemma bind_unit_err: "bind_result r f = Inl e \<longleftrightarrow> r = Inl e \<or> r = Inr () \<and> f () = Inl e" for r :: "'e + unit"
  by (cases r) auto

text \<open>
  every error of the validation pass is real: a duplicate id is duplicated, an unknown
  dependency is named by that step and exists nowhere, a reported cycle is a path along the
  dependencies that returns to where it starts, a component failure is what the locator
  answers for that name, and conflicting labels are the two or more labels the components
  carry. In particular the bare \<open>KeyError\<close> of the cycle check never surfaces and its depth
  bound is never reached.
\<close>
theorem validation_errors_are_real:
  assumes "validate_pipeline lib fs ps comps p = Inl e"
  shows "pipeline_error_real fs ps comps p e"
proof -
  let ?steps = "pl_steps p"
  have "validate_unique_ids {} ?steps = Inl e \<or>
    distinct (map step_id ?steps) \<and> validate_depends_on ?steps = Inl e \<or>
    distinct (map step_id ?steps) \<and> deps_closed ?steps \<and> validate_no_cycles ?steps = Inl e \<or>
    validate_cron lib p = Inl e \<or> validate_components_resolve fs ps comps ?steps = Inl e \<or>
    validate_worker_labels p comps = Inl e"
    using assms
    by (auto simp: validate_pipeline_def bind_unit_err validate_unique_ids_ok validate_depends_on_ok)
  then show ?thesis
  proof (elim disjE conjE)
    assume "validate_unique_ids {} ?steps = Inl e"
    from validate_unique_ids_err [OF this] show ?thesis by (auto simp: pipeline_error_real_def)
  next
    assume "validate_depends_on ?steps = Inl e"
    from validate_depends_on_err [OF this] show ?thesis by (auto simp: pipeline_error_real_def)
  next
    assume d: "distinct (map step_id ?steps)"
      and "deps_closed ?steps" "validate_no_cycles ?steps = Inl e"
    from validate_no_cycles_err [OF this] show ?thesis
      by (auto simp: pipeline_error_real_def is_cycle_def edges_step_dict [OF d])
  next
    assume "validate_cron lib p = Inl e"
    then show ?thesis
      by (auto simp: validate_cron_def pipeline_error_real_def split: option.splits if_splits)
  next
    assume "validate_components_resolve fs ps comps ?steps = Inl e"
    then show ?thesis
      using for_each_err validate_component_err by (fastforce simp: validate_components_resolve_def)
  next
    assume "validate_worker_labels p comps = Inl e"
    then have "resolve_required_label p comps = Inl e"
      by (cases "resolve_required_label p comps") (auto simp: validate_worker_labels_def)
    then show ?thesis by (rule resolve_required_label_err)
  qed
qed

definition sql_step :: "string \<Rightarrow> string list \<Rightarrow> pipeline_step" where
  "sql_step i ds = \<lparr>step_id = i, depends_on = ds, failure_mode = default_failure_mode, jinja_vars = [],
                    step_config = Sql_Step ''q.sql'' ''wh''\<rparr>"

definition pipeline_of :: "pipeline_step list \<Rightarrow> pipeline" where
  "pipeline_of steps = \<lparr>pl_name = ''demo'', pl_meta = \<lparr>pm_description = [], pm_owner = []\<rparr>,
                        pl_seed_schedule = None, pl_steps = steps\<rparr>"

definition demo_lib :: loader_lib where
  "demo_lib = \<lparr>lib_read_toml = (\<lambda>p. Inr []), lib_model_validate = (\<lambda>r. Inl (Schema_Violation ''steps'')),
               lib_cron_valid = (\<lambda>s. True)\<rparr>"

lemma validation_errors_are_real_witness:
  "pipeline_error_real empty_fs demo_paths Map.empty
     (pipeline_of [sql_step ''a'' [], sql_step ''b'' [''a'', ''d''], sql_step ''c'' [''b''], sql_step ''d'' [''c'']])
     (Dependency_Cycle [''b'', ''d'', ''c'', ''b''])"
  by (rule validation_errors_are_real [of demo_lib]) code_simp

end
