(* ===== verification/Pipeline_DAG.thy ===== *)
theory Pipeline_DAG
  imports Pipeline_Schema
begin

text \<open>
  The step graph the executor walks (\<open>runtime/pipeline_dag.py\<close>): construction with its cycle
  check and Kahn's algorithm, readiness, and the transitive dependents of a step.

  The dictionaries keyed by step id are association lists in insertion order, built the way
  the comprehensions build them (a repeated id overwrites in place). The set of dependencies
  of a step is the list of its distinct dependencies: its iteration order, which Python does
  not fix, decides nothing but which of several errors is reported.
\<close>

section \<open>The graph\<close>

record pipeline_dag =
  dag_steps :: "(string \<times> pipeline_step) list"
  dag_deps :: "(string \<times> string list) list"
  dag_order :: "string list"

datatype dag_error =
    Dag_Unknown_Dependency string string
  | Dag_Cycle "string list"
  | Dag_Fuel

type_synonym dep_dict = "(string \<times> string list) list"

definition deps_in :: "dep_dict \<Rightarrow> string \<Rightarrow> string list" where
  "deps_in deps x = deps_of (map_of deps) x"

text \<open>The reverse edges, in the insertion order of the dictionary.\<close>

definition dependents :: "dep_dict \<Rightarrow> string \<Rightarrow> string list" where
  "dependents deps x = map fst (filter (\<lambda>(sid, ds). x \<in> set ds) deps)"

definition dag_validate_no_cycles :: "dep_dict \<Rightarrow> dag_error + unit" where
  "dag_validate_no_cycles deps =
     (case check_all (map_of deps) (map fst deps) of
        None \<Rightarrow> Inl Dag_Fuel
      | Some (Inl (Unknown_Dep x d)) \<Rightarrow> Inl (Dag_Unknown_Dependency x d)
      | Some (Inl (Cycle_Found c)) \<Rightarrow> Inl (Dag_Cycle c)
      | Some (Inr _) \<Rightarrow> Inr ())"

text \<open>\<open>{step.id: i for i, step in enumerate(steps)}\<close>\<close>

definition declaration_index :: "pipeline_step list \<Rightarrow> string \<Rightarrow> nat" where
  "declaration_index steps x =
     (case map_of (dict_of (zip (map step_id steps) [0..<length steps])) x of
        Some i \<Rightarrow> i | None \<Rightarrow> 0)"

fun insert_sorted :: "(string \<Rightarrow> nat) \<Rightarrow> string \<Rightarrow> string list \<Rightarrow> string list" where
  "insert_sorted index item [] = [item]"
| "insert_sorted index item (x # xs) =
     (if index x > index item then item # x # xs else x # insert_sorted index item xs)"

text \<open>The inner loop over the dependents of an emitted node.\<close>

fun release :: "string list \<Rightarrow> (string \<Rightarrow> int) \<Rightarrow> (string \<Rightarrow> int) \<times> string list" where
  "release [] indegree = (indegree, [])"
| "release (d # ds) indegree =
     (let indegree' = indegree(d := indegree d - 1);
          (indegree'', newly_ready) = release ds indegree'
      in (indegree'', if indegree' d = 0 then d # newly_ready else newly_ready))"

fun kahn :: "nat \<Rightarrow> dep_dict \<Rightarrow> (string \<Rightarrow> nat) \<Rightarrow> string list \<Rightarrow> (string \<Rightarrow> int) \<Rightarrow> string list \<Rightarrow>
    string list option" where
  "kahn n deps index [] indegree order = Some order"
| "kahn 0 deps index (node # ready) indegree order = None"
| "kahn (Suc n) deps index (node # ready) indegree order =
     (let (indegree', newly_ready) = release (dependents deps node) indegree in
      kahn n deps index
        (fold (insert_sorted index) (sort_key index newly_ready) ready)
        indegree' (order @ [node]))"

definition compute_topological_order :: "dep_dict \<Rightarrow> (string \<Rightarrow> nat) \<Rightarrow> string list option" where
  "compute_topological_order deps index =
     (let indegree = (\<lambda>x. int (length (deps_in deps x)));
          ready = sort_key index (filter (\<lambda>x. indegree x = 0) (map fst deps))
      in kahn (length deps) deps index ready indegree [])"

definition new_dag :: "pipeline \<Rightarrow> dag_error + pipeline_dag" where
  "new_dag p =
     (let deps = step_dict (\<lambda>s. remdups (depends_on s)) (pl_steps p) in
      bind_result (dag_validate_no_cycles deps) (\<lambda>_.
        case compute_topological_order deps (declaration_index (pl_steps p)) of
          None \<Rightarrow> Inl Dag_Fuel
        | Some order \<Rightarrow>
            Inr \<lparr>dag_steps = step_dict (\<lambda>s. s) (pl_steps p), dag_deps = deps, dag_order = order\<rparr>))"

definition dag_step :: "pipeline_dag \<Rightarrow> string \<Rightarrow> pipeline_step option" where
  "dag_step dag x = map_of (dag_steps dag) x"

section \<open>Readiness\<close>

definition ready_ids :: "pipeline_dag \<Rightarrow> string set \<Rightarrow> string list" where
  "ready_ids dag resolved =
     filter (\<lambda>x. x \<notin> resolved \<and> set (deps_in (dag_deps dag) x) \<subseteq> resolved) (dag_order dag)"

definition ready_steps :: "pipeline_dag \<Rightarrow> string set \<Rightarrow> string set \<Rightarrow> string set \<Rightarrow> pipeline_step list" where
  "ready_steps dag completed failed skipped =
     map (\<lambda>x. the (dag_step dag x)) (ready_ids dag (completed \<union> failed \<union> skipped))"

section \<open>Transitive dependents\<close>

text \<open>The frontier is a stack: \<open>pop\<close> takes its last element.\<close>

function downstream_loop :: "dep_dict \<Rightarrow> string list \<Rightarrow> string set \<Rightarrow> string set" where
  "downstream_loop deps frontier result =
     (if frontier = [] then result
      else if last frontier \<in> result then downstream_loop deps (butlast frontier) result
      else downstream_loop deps (butlast frontier @ dependents deps (last frontier))
             (insert (last frontier) result))"
  by pat_completeness auto

lemma dependents_keys: "set (dependents deps x) \<subseteq> fst ` set deps"
  by (auto simp: dependents_def)

definition loop_universe :: "dep_dict \<times> string list \<times> string set \<Rightarrow> string set" where
  "loop_universe = (\<lambda>(deps, frontier, result). (fst ` set deps \<union> set frontier) - result)"

termination downstream_loop
proof (relation "measures [\<lambda>x. card (loop_universe x), \<lambda>(deps, frontier, result). length frontier]")
  fix deps :: dep_dict and frontier :: "string list" and result :: "string set"
  assume ne: "frontier \<noteq> []" and seen: "last frontier \<in> result"
  have "loop_universe (deps, butlast frontier, result) \<subseteq> loop_universe (deps, frontier, result)"
    by (auto simp: loop_universe_def dest: in_set_butlastD)
  then have "card (loop_universe (deps, butlast frontier, result)) \<le> card (loop_universe (deps, frontier, result))"
    by (rule card_mono [rotated]) (simp add: loop_universe_def)
  with ne show "((deps, butlast frontier, result), (deps, frontier, result))
      \<in> measures [\<lambda>x. card (loop_universe x), \<lambda>(deps, frontier, result). length frontier]"
    by (simp add: le_less)
next
  fix deps :: dep_dict and frontier :: "string list" and result :: "string set"
  assume ne: "frontier \<noteq> []" and new: "last frontier \<notin> result"
  let ?x = "(deps, butlast frontier @ dependents deps (last frontier), insert (last frontier) result)"
  have "loop_universe ?x \<subset> loop_universe (deps, frontier, result)"
  proof
    show "loop_universe ?x \<subseteq> loop_universe (deps, frontier, result)"
      using dependents_keys by (fastforce simp: loop_universe_def dest: in_set_butlastD)
    show "loop_universe ?x \<noteq> loop_universe (deps, frontier, result)"
      using ne new by (auto simp: loop_universe_def)
  qed
  then have "card (loop_universe ?x) < card (loop_universe (deps, frontier, result))"
    by (rule psubset_card_mono [rotated]) (simp add: loop_universe_def)
  then show "(?x, (deps, frontier, result))
      \<in> measures [\<lambda>x. card (loop_universe x), \<lambda>(deps, frontier, result). length frontier]"
    by simp
qed simp

declare downstream_loop.simps [simp del]

definition downstream_of :: "pipeline_dag \<Rightarrow> string \<Rightarrow> string set" where
  "downstream_of dag x = downstream_loop (dag_deps dag) (dependents (dag_deps dag) x) {}"

section \<open>Transitive dependents: correctness\<close>

lemma set_dependents:
  "distinct (map fst deps) \<Longrightarrow> set (dependents deps x) = {t. (t, x) \<in> edges (map_of deps)}"
proof -
  assume d: "distinct (map fst deps)"
  have "t \<in> set (dependents deps x) \<longleftrightarrow> (\<exists>ds. (t, ds) \<in> set deps \<and> x \<in> set ds)" for t
    by (force simp: dependents_def)
  also have "\<dots> t \<longleftrightarrow> (\<exists>ds. map_of deps t = Some ds \<and> x \<in> set ds)" for t
    using d by simp
  also have "\<dots> t \<longleftrightarrow> (t, x) \<in> edges (map_of deps)" for t
    by (cases "map_of deps t") (simp_all add: edges_def deps_of_def)
  finally show ?thesis by blast
qed

lemma distinct_dependents: "distinct (map fst deps) \<Longrightarrow> distinct (dependents deps x)"
  by (simp add: dependents_def distinct_map_filter)

lemma downstream_loop_done: "downstream_loop deps [] result = result"
  by (subst downstream_loop.simps) simp

lemma downstream_loop_seen:
  "frontier \<noteq> [] \<Longrightarrow> last frontier \<in> result \<Longrightarrow>
     downstream_loop deps frontier result = downstream_loop deps (butlast frontier) result"
  by (subst downstream_loop.simps) simp

lemma downstream_loop_new:
  "frontier \<noteq> [] \<Longrightarrow> last frontier \<notin> result \<Longrightarrow>
     downstream_loop deps frontier result =
     downstream_loop deps (butlast frontier @ dependents deps (last frontier)) (insert (last frontier) result)"
  by (subst downstream_loop.simps) simp

lemma downstream_loop_sound:
  assumes "distinct (map fst deps)" and "\<And>t. t \<in> set frontier \<union> result \<Longrightarrow> (t, x) \<in> (edges (map_of deps))\<^sup>+"
  shows "t \<in> downstream_loop deps frontier result \<Longrightarrow> (t, x) \<in> (edges (map_of deps))\<^sup>+"
  using assms
proof (induction deps frontier result arbitrary: t rule: downstream_loop.induct)
  case (1 deps frontier result)
  consider "frontier = []" | "frontier \<noteq> []" "last frontier \<in> result"
    | "frontier \<noteq> []" "last frontier \<notin> result" by blast
  then show ?case
  proof cases
    case 1
    with "1.prems" show ?thesis by (simp add: downstream_loop_done)
  next
    case 2
    have "t \<in> downstream_loop deps (butlast frontier) result"
      using "1.prems"(1) downstream_loop_seen [OF 2] by simp
    moreover have "\<And>u. u \<in> set (butlast frontier) \<union> result \<Longrightarrow> (u, x) \<in> (edges (map_of deps))\<^sup>+"
      using "1.prems"(3) by (auto dest: in_set_butlastD)
    ultimately show ?thesis using "1.IH"(1) [OF 2] "1.prems"(2) by blast
  next
    case 3
    have "(u, x) \<in> (edges (map_of deps))\<^sup>+"
      if "u \<in> set (butlast frontier @ dependents deps (last frontier)) \<union> insert (last frontier) result" for u
    proof (cases "u \<in> set (dependents deps (last frontier))")
      case True
      then have "(u, last frontier) \<in> edges (map_of deps)"
        using set_dependents "1.prems"(2) by auto
      moreover have "(last frontier, x) \<in> (edges (map_of deps))\<^sup>+" using "1.prems"(3) 3 by auto
      ultimately show ?thesis by (rule trancl_into_trancl2)
    next
      case other: False
      with that 3 "1.prems"(3) show ?thesis by (auto dest: in_set_butlastD)
    qed
    moreover have "t \<in> downstream_loop deps (butlast frontier @ dependents deps (last frontier))
        (insert (last frontier) result)"
      using "1.prems"(1) downstream_loop_new [OF 3] by simp
    ultimately show ?thesis using "1.IH"(2) [OF 3] "1.prems"(2) by blast
  qed
qed

lemma downstream_loop_closed:
  assumes "\<And>u. u \<in> result \<Longrightarrow> set (dependents deps u) \<subseteq> result \<union> set frontier"
  shows "set frontier \<union> result \<subseteq> downstream_loop deps frontier result \<and>
    (\<forall>u \<in> downstream_loop deps frontier result. set (dependents deps u) \<subseteq> downstream_loop deps frontier result)"
  using assms
proof (induction deps frontier result rule: downstream_loop.induct)
  case (1 deps frontier result)
  have split: "frontier \<noteq> [] \<Longrightarrow> set frontier = insert (last frontier) (set (butlast frontier))"
    by (metis append_butlast_last_id list.set(1) list.simps(15) set_append Un_insert_right sup_bot_right)
  show ?case
  proof (cases "frontier = []")
    case True
    with "1.prems" show ?thesis by (simp add: downstream_loop_done)
  next
    case False
    show ?thesis
    proof (cases "last frontier \<in> result")
      case True
      have "set (dependents deps u) \<subseteq> result \<union> set (butlast frontier)" if "u \<in> result" for u
        using "1.prems" [OF that] True split [OF False] by auto
      note ih = "1.IH"(1) [OF False True this]
      show ?thesis
        unfolding downstream_loop_seen [OF False True]
      proof (rule conjI)
        show "set frontier \<union> result \<subseteq> downstream_loop deps (butlast frontier) result"
          using ih [THEN conjunct1] True unfolding split [OF False] by auto
      qed (rule ih [THEN conjunct2])
    next
      case new: False
      have "set (dependents deps u) \<subseteq>
          insert (last frontier) result \<union> set (butlast frontier @ dependents deps (last frontier))"
        if "u \<in> insert (last frontier) result" for u
        using "1.prems" [of u] that split [OF False] by auto
      note ih = "1.IH"(2) [OF False new this]
      show ?thesis
        unfolding downstream_loop_new [OF False new]
      proof (rule conjI)
        show "set frontier \<union> result \<subseteq> downstream_loop deps
            (butlast frontier @ dependents deps (last frontier)) (insert (last frontier) result)"
          using ih [THEN conjunct1] unfolding split [OF False] by auto
      qed (rule ih [THEN conjunct2])
    qed
  qed
qed

lemma downstream_loop_trancl:
  assumes "distinct (map fst deps)"
  shows "downstream_loop deps (dependents deps x) {} = {t. (t, x) \<in> (edges (map_of deps))\<^sup>+}"
proof
  show "downstream_loop deps (dependents deps x) {} \<subseteq> {t. (t, x) \<in> (edges (map_of deps))\<^sup>+}"
    using downstream_loop_sound [OF assms, of "dependents deps x" "{}"] set_dependents [OF assms] by auto
  let ?D = "downstream_loop deps (dependents deps x) {}"
  have D: "set (dependents deps x) \<subseteq> ?D" "\<And>u. u \<in> ?D \<Longrightarrow> set (dependents deps u) \<subseteq> ?D"
    using downstream_loop_closed [of "{}" deps "dependents deps x"] by auto
  have "t \<in> ?D" if "(t, x) \<in> (edges (map_of deps))\<^sup>+" for t
    using that
  proof (induction rule: converse_trancl_induct)
    case (base t)
    with D(1) show ?case using set_dependents [OF assms] by auto
  next
    case (step t u)
    then have "t \<in> set (dependents deps u)" using set_dependents [OF assms] by auto
    with D(2) step.IH show ?case by blast
  qed
  then show "{t. (t, x) \<in> (edges (map_of deps))\<^sup>+} \<subseteq> ?D" by blast
qed

section \<open>Kahn's algorithm: correctness\<close>

text \<open>
  The reference for the order: repeatedly emit the least-indexed node whose dependencies have
  all been emitted.
\<close>

definition available :: "dep_dict \<Rightarrow> string set \<Rightarrow> string set" where
  "available deps emitted =
     {x \<in> fst ` set deps. x \<notin> emitted \<and> set (deps_in deps x) \<subseteq> emitted}"

fun greedy :: "dep_dict \<Rightarrow> (string \<Rightarrow> nat) \<Rightarrow> string set \<Rightarrow> string list \<Rightarrow> bool" where
  "greedy deps index emitted [] = True"
| "greedy deps index emitted (x # xs) =
     (x \<in> available deps emitted \<and> (\<forall>y \<in> available deps emitted. index x \<le> index y) \<and>
      greedy deps index (insert x emitted) xs)"

lemma greedy_snoc:
  "greedy deps index emitted (xs @ [x]) \<longleftrightarrow>
     greedy deps index emitted xs \<and> x \<in> available deps (emitted \<union> set xs) \<and>
     (\<forall>y \<in> available deps (emitted \<union> set xs). index x \<le> index y)"
  by (induction xs arbitrary: emitted) auto

lemma greedy_deps_emitted:
  "greedy deps index emitted xs \<Longrightarrow> x \<in> set xs \<Longrightarrow> set (deps_in deps x) \<subseteq> emitted \<union> set xs"
proof (induction xs arbitrary: emitted)
  case (Cons y ys)
  show ?case
  proof (cases "x = y")
    case True
    with Cons.prems show ?thesis by (auto simp: available_def)
  next
    case False
    with Cons.IH [of "insert y emitted"] Cons.prems
    have "set (deps_in deps x) \<subseteq> insert y emitted \<union> set ys" by simp
    then show ?thesis by simp
  qed
qed simp

lemma set_insert_sorted [simp]: "set (insert_sorted index x xs) = insert x (set xs)"
  by (induction xs) auto

lemma distinct_insert_sorted [simp]: "distinct (insert_sorted index x xs) \<longleftrightarrow> distinct (x # xs)"
  by (induction xs) auto

lemma sorted_insert_sorted:
  "sorted (map index xs) \<Longrightarrow> sorted (map index (insert_sorted index x xs))"
  by (induction xs) auto

lemma fold_insert_sorted:
  "sorted (map index xs) \<Longrightarrow> distinct (ys @ xs) \<Longrightarrow>
     set (fold (insert_sorted index) ys xs) = set ys \<union> set xs \<and>
     distinct (fold (insert_sorted index) ys xs) \<and> sorted (map index (fold (insert_sorted index) ys xs))"
  by (induction ys arbitrary: xs) (auto simp: sorted_insert_sorted)

lemma release_result:
  "distinct ds \<Longrightarrow> release ds indegree =
     (\<lambda>x. if x \<in> set ds then indegree x - 1 else indegree x, filter (\<lambda>x. indegree x = 1) ds)"
proof (induction ds arbitrary: indegree)
  case (Cons d ds)
  have "filter (\<lambda>x. (indegree(d := indegree d - 1)) x = 1) ds = filter (\<lambda>x. indegree x = 1) ds"
    using Cons.prems by (intro filter_cong) auto
  moreover have "release ds (indegree(d := indegree d - 1)) =
      (\<lambda>x. if x \<in> set ds then (indegree(d := indegree d - 1)) x - 1 else (indegree(d := indegree d - 1)) x,
       filter (\<lambda>x. (indegree(d := indegree d - 1)) x = 1) ds)"
    using Cons by simp
  ultimately show ?case using Cons.prems by (simp add: Let_def fun_eq_iff del: fun_upd_apply) auto
qed simp

definition kahn_inv :: "dep_dict \<Rightarrow> (string \<Rightarrow> nat) \<Rightarrow> string list \<Rightarrow> (string \<Rightarrow> int) \<Rightarrow> string list \<Rightarrow> bool" where
  "kahn_inv deps index ready indegree order \<longleftrightarrow>
     distinct order \<and> distinct ready \<and> set order \<subseteq> fst ` set deps \<and>
     sorted (map index ready) \<and> set ready = available deps (set order) \<and>
     (\<forall>x. indegree x = int (card (set (deps_in deps x) - set order))) \<and>
     greedy deps index {} order"

lemma card_remove_one:
  "finite A \<Longrightarrow> node \<notin> B \<Longrightarrow>
     int (card (A - insert node B)) = (if node \<in> A then int (card (A - B)) - 1 else int (card (A - B)))"
proof -
  assume fin: "finite A" and node: "node \<notin> B"
  show ?thesis
  proof (cases "node \<in> A")
    case True
    then have "A - B = insert node (A - insert node B)" using node by blast
    moreover have "node \<notin> A - insert node B" by simp
    ultimately have "card (A - B) = Suc (card (A - insert node B))"
      using fin by (metis card_insert_disjoint finite_Diff)
    with True show ?thesis by simp
  next
    case False
    then have "A - insert node B = A - B" by blast
    with False show ?thesis by simp
  qed
qed

lemma card_diff_one_iff:
  "finite A \<Longrightarrow> node \<in> A \<Longrightarrow> node \<notin> B \<Longrightarrow> card (A - B) = 1 \<longleftrightarrow> A \<subseteq> insert node B"
proof -
  assume A: "finite A" "node \<in> A" "node \<notin> B"
  then have "card (A - B) = Suc (card (A - insert node B))"
    using card_remove_one [of A node B] by simp
  then have "card (A - B) = 1 \<longleftrightarrow> A - insert node B = {}" using A(1) by simp
  then show ?thesis by blast
qed

text \<open>Emitting the head of the ready list.\<close>

lemma kahn_inv_step:
  assumes keys: "distinct (map fst deps)" and inv: "kahn_inv deps index (node # ready) indegree order"
    and rel: "release (dependents deps node) indegree = (indegree', newly)"
  shows "kahn_inv deps index (fold (insert_sorted index) (sort_key index newly) ready) indegree' (order @ [node])"
proof -
  let ?D = "dependents deps node"
  have node: "node \<in> available deps (set order)" and ready: "set (node # ready) = available deps (set order)"
    using inv by (auto simp: kahn_inv_def)
  then have fresh: "node \<notin> set order" "node \<in> fst ` set deps" by (auto simp: available_def)
  have D: "t \<in> set ?D \<longleftrightarrow> node \<in> set (deps_in deps t)" for t
    using set_dependents [OF keys] by (auto simp: edges_def deps_in_def)
  have Dkeys: "t \<in> set ?D \<Longrightarrow> t \<in> fst ` set deps" for t using dependents_keys by fastforce
  have deg: "indegree x = int (card (set (deps_in deps x) - set order))" for x
    using inv by (simp add: kahn_inv_def)
  have rr: "indegree' = (\<lambda>x. if x \<in> set ?D then indegree x - 1 else indegree x)"
    "newly = filter (\<lambda>x. indegree x = 1) ?D"
    using rel release_result [OF distinct_dependents [OF keys]] by auto
  have newly: "t \<in> set newly \<longleftrightarrow> t \<in> set ?D \<and> set (deps_in deps t) \<subseteq> insert node (set order)" for t
    using card_diff_one_iff [of "set (deps_in deps t)" node "set order"] fresh D
    by (auto simp: rr(2) deg)
  have old: "t \<in> set order \<Longrightarrow> set (deps_in deps t) \<subseteq> set order" for t
    using greedy_deps_emitted inv by (fastforce simp: kahn_inv_def)
  have avail: "available deps (set (order @ [node])) = set newly \<union> set ready"
  proof (rule set_eqI)
    fix t
    have dist: "node \<notin> set ready" using inv by (simp add: kahn_inv_def)
    show "t \<in> available deps (set (order @ [node])) \<longleftrightarrow> t \<in> set newly \<union> set ready"
    proof (cases "node \<in> set (deps_in deps t)")
      case True
      then have "t \<notin> set ready" "t \<notin> set order" "t \<noteq> node"
        using ready old fresh node by (auto simp: available_def)
      with True newly D Dkeys show ?thesis by (auto simp: available_def)
    next
      case False
      then have "t \<notin> set newly" using newly D by blast
      with False dist ready show ?thesis by (auto simp: available_def)
    qed
  qed
  have disj: "distinct (sort_key index newly @ ready)"
  proof -
    have "t \<notin> set ready" if "t \<in> set newly" for t
    proof
      assume "t \<in> set ready"
      then have "set (deps_in deps t) \<subseteq> set order" using ready by (auto simp: available_def)
      moreover have "node \<in> set (deps_in deps t)" using that newly D by blast
      ultimately show False using fresh by blast
    qed
    then have "set newly \<inter> set ready = {}" by blast
    then show ?thesis using inv rr(2) distinct_dependents [OF keys] by (auto simp: kahn_inv_def)
  qed
  have sorted: "sorted (map index ready)" and least: "\<forall>y \<in> set ready. index node \<le> index y"
    using inv by (auto simp: kahn_inv_def)
  have "indegree' x = int (card (set (deps_in deps x) - set (order @ [node])))" for x
    using card_remove_one [of "set (deps_in deps x)" node "set order"] fresh D by (simp add: rr(1) deg)
  moreover have "greedy deps index {} (order @ [node])"
    using inv node least ready by (auto simp: greedy_snoc kahn_inv_def)
  moreover have "distinct (order @ [node])" "set (order @ [node]) \<subseteq> fst ` set deps"
    using inv fresh by (auto simp: kahn_inv_def)
  ultimately show ?thesis
    using fold_insert_sorted [OF sorted disj] avail unfolding kahn_inv_def by simp
qed

lemma kahn_inv_result:
  assumes "distinct (map fst deps)" and "kahn_inv deps index ready indegree order"
    and "length deps \<le> n + length order"
  shows "\<exists>order' indegree'. kahn n deps index ready indegree order = Some order' \<and>
    kahn_inv deps index [] indegree' order'"
  using assms
proof (induction n deps index ready indegree order rule: kahn.induct)
  case (1 n deps index indegree order)
  then show ?case by auto
next
  case (2 deps index node ready indegree order)
  then have inv: "distinct order" "set order \<subseteq> fst ` set deps" "node \<in> available deps (set order)"
    by (auto simp: kahn_inv_def)
  then have "set order \<subset> fst ` set deps" by (auto simp: available_def)
  then have "card (set order) < card (fst ` set deps)" by (simp add: psubset_card_mono)
  also have "\<dots> \<le> length deps" by (metis card_image_le card_length finite_set le_trans)
  finally show ?case using 2 inv by (simp add: distinct_card)
next
  case (3 n deps index node ready indegree order)
  obtain indegree' newly where rel: "release (dependents deps node) indegree = (indegree', newly)"
    by fastforce
  have "kahn_inv deps index (fold (insert_sorted index) (sort_key index newly) ready) indegree' (order @ [node])"
    using "3.prems"(1,2) rel by (rule kahn_inv_step)
  then show ?case using "3.IH" [OF rel [symmetric]] "3.prems"(1,3) rel by simp
qed

lemma kahn_inv_start:
  "distinct (map fst deps) \<Longrightarrow> (\<And>x. distinct (deps_in deps x)) \<Longrightarrow>
     kahn_inv deps index
       (sort_key index (filter (\<lambda>x. int (length (deps_in deps x)) = 0) (map fst deps)))
       (\<lambda>x. int (length (deps_in deps x))) []"
  by (auto simp: kahn_inv_def available_def distinct_card)

lemma acyclic_nodes_available:
  assumes "acyclic (edges (map_of deps))" and "closed_graph (map_of deps) (map fst deps)"
    and "available deps E = {}"
  shows "fst ` set deps \<subseteq> E"
proof (rule ccontr)
  have dom: "dom (map_of deps) \<subseteq> set (map fst deps)" by (simp add: dom_map_of_conv_image_fst)
  have edges: "(x, d) \<in> edges (map_of deps) \<Longrightarrow> x \<in> fst ` set deps \<and> d \<in> fst ` set deps" for x d
    using assms(2) closed_graph_edges [OF dom] by auto
  then have "edges (map_of deps) \<subseteq> fst ` set deps \<times> fst ` set deps" by auto
  then have "finite (edges (map_of deps))" by (rule finite_subset) simp
  then have wf: "wf ((edges (map_of deps))\<inverse>)" using assms(1) by (simp add: finite_acyclic_wf_converse)
  assume "\<not> fst ` set deps \<subseteq> E"
  then obtain y where "y \<in> fst ` set deps - E" by blast
  with wf obtain x where x: "x \<in> fst ` set deps - E"
    and min: "\<And>d. (d, x) \<in> (edges (map_of deps))\<inverse> \<Longrightarrow> d \<notin> fst ` set deps - E"
    by (rule wfE_min) blast
  have "set (deps_in deps x) \<subseteq> E"
  proof
    fix d assume "d \<in> set (deps_in deps x)"
    then have "(x, d) \<in> edges (map_of deps)" by (simp add: edges_def deps_in_def)
    then show "d \<in> E" using min edges by blast
  qed
  with x have "x \<in> available deps E" by (simp add: available_def)
  with assms(3) show False by simp
qed

lemma topological_order_correct:
  assumes "distinct (map fst deps)" and "\<And>x. distinct (deps_in deps x)"
    and "acyclic (edges (map_of deps))" and "closed_graph (map_of deps) (map fst deps)"
  shows "\<exists>order. compute_topological_order deps index = Some order \<and> distinct order \<and>
    set order = fst ` set deps \<and> greedy deps index {} order"
proof -
  obtain order indegree where k: "compute_topological_order deps index = Some order"
    and inv: "kahn_inv deps index [] indegree order"
    using kahn_inv_result [OF assms(1) kahn_inv_start [OF assms(1,2)], of "length deps" index]
    by (auto simp: compute_topological_order_def Let_def)
  have "available deps (set order) = {}" using inv by (simp add: kahn_inv_def)
  with assms(3,4) have "fst ` set deps \<subseteq> set order" by (rule acyclic_nodes_available)
  with k inv show ?thesis by (auto simp: kahn_inv_def)
qed

section \<open>Construction\<close>

definition dag_edges :: "pipeline_dag \<Rightarrow> (string \<times> string) set" where
  "dag_edges dag = {(x, d). d \<in> set (deps_in (dag_deps dag) x)}"

lemma dag_edges_edges: "dag_edges dag = edges (map_of (dag_deps dag))"
  by (simp add: dag_edges_def edges_def deps_in_def)

definition pipeline_deps :: "pipeline_step list \<Rightarrow> dep_dict" where
  "pipeline_deps steps = step_dict (\<lambda>s. remdups (depends_on s)) steps"

lemma step_dict_map:
  "step_dict (\<lambda>s. f (g s)) steps = map (\<lambda>(k, v). (k, f v)) (step_dict g steps)"
proof (induction steps rule: rev_induct)
  case (snoc s steps)
  have "AList.update k (f v) (map (\<lambda>(k, v). (k, f v)) al) = map (\<lambda>(k, v). (k, f v)) (AList.update k v al)"
    for k v and al :: "(string \<times> _) list"
    by (induction al) auto
  with snoc show ?case by (simp add: step_dict_def dict_of_snoc)
qed (simp add: step_dict_def dict_of_def)

lemma distinct_pipeline_deps [simp]: "distinct (map fst (pipeline_deps steps))"
  by (simp add: pipeline_deps_def)

lemma pipeline_deps_keys [simp]: "fst ` set (pipeline_deps steps) = step_id ` set steps"
  by (simp add: pipeline_deps_def)

lemma deps_in_pipeline:
  "deps_in (pipeline_deps steps) x = remdups (deps_in (step_dict depends_on steps) x)"
  by (simp add: pipeline_deps_def step_dict_map [of remdups depends_on] deps_in_def deps_of_def
    map_of_map split: option.split)

lemma edges_pipeline_deps: "edges (map_of (pipeline_deps steps)) = edges (map_of (step_dict depends_on steps))"
  using deps_in_pipeline by (simp add: edges_def deps_in_def)

text \<open>Well-formed graphs: those the constructor returns.\<close>

definition dag_wf :: "pipeline_dag \<Rightarrow> bool" where
  "dag_wf dag \<longleftrightarrow> (\<exists>p. new_dag p = Inr dag)"

lemma dag_validate_iff:
  "dag_validate_no_cycles (pipeline_deps steps) = Inr () \<longleftrightarrow>
     closed_graph (map_of (pipeline_deps steps)) (map fst (pipeline_deps steps)) \<and>
     acyclic (edges (map_of (pipeline_deps steps)))"
proof -
  have dom: "dom (map_of (pipeline_deps steps)) \<subseteq> set (map fst (pipeline_deps steps))"
    by (simp add: dom_map_of_conv_image_fst)
  show ?thesis
    unfolding check_all_accepts [OF dom, symmetric]
    by (simp add: dag_validate_no_cycles_def split: option.split sum.split dfs_error.split)
qed

lemma new_dag_result:
  assumes "new_dag p = Inr dag"
  shows "dag_steps dag = step_dict (\<lambda>s. s) (pl_steps p)" and "dag_deps dag = pipeline_deps (pl_steps p)"
    and "distinct (dag_order dag)" and "set (dag_order dag) = step_id ` set (pl_steps p)"
    and "greedy (dag_deps dag) (declaration_index (pl_steps p)) {} (dag_order dag)"
    and "acyclic (dag_edges dag)"
proof -
  let ?deps = "pipeline_deps (pl_steps p)"
  have v: "dag_validate_no_cycles ?deps = Inr ()"
    using assms by (simp add: new_dag_def bind_unit_iff Let_def pipeline_deps_def)
  then have g: "acyclic (edges (map_of ?deps))" "closed_graph (map_of ?deps) (map fst ?deps)"
    by (simp_all only: dag_validate_iff)
  have "\<And>x. distinct (deps_in ?deps x)" by (simp add: deps_in_pipeline)
  from topological_order_correct [OF distinct_pipeline_deps this g] obtain order where
    "compute_topological_order ?deps (declaration_index (pl_steps p)) = Some order" "distinct order"
    "set order = fst ` set ?deps" "greedy ?deps (declaration_index (pl_steps p)) {} order" by blast
  with assms v g show "dag_steps dag = step_dict (\<lambda>s. s) (pl_steps p)" "dag_deps dag = ?deps"
    "distinct (dag_order dag)" "set (dag_order dag) = step_id ` set (pl_steps p)"
    "greedy (dag_deps dag) (declaration_index (pl_steps p)) {} (dag_order dag)" "acyclic (dag_edges dag)"
    by (auto simp: new_dag_def pipeline_deps_def Let_def dag_edges_edges)
qed

lemma new_dag_succeeds:
  assumes "distinct (map step_id (pl_steps p))"
  shows "(\<exists>dag. new_dag p = Inr dag) \<longleftrightarrow> deps_closed (pl_steps p) \<and> acyclic (step_edges (pl_steps p))"
proof -
  let ?deps = "pipeline_deps (pl_steps p)"
  have dom: "dom (map_of ?deps) \<subseteq> set (map fst ?deps)"
    by (simp add: dom_map_of_conv_image_fst)
  have edges: "edges (map_of ?deps) = step_edges (pl_steps p)"
    by (simp add: edges_pipeline_deps edges_step_dict [OF assms])
  have closed: "closed_graph (map_of ?deps) (map fst ?deps) \<longleftrightarrow> deps_closed (pl_steps p)"
    unfolding closed_graph_edges [OF dom] edges by (auto simp: step_edges_def deps_closed_def)
  have dist: "\<And>x. distinct (deps_in ?deps x)" by (simp add: deps_in_pipeline)
  show ?thesis
  proof
    assume "\<exists>dag. new_dag p = Inr dag"
    then have "dag_validate_no_cycles ?deps = Inr ()"
      by (auto simp: new_dag_def bind_unit_iff Let_def pipeline_deps_def)
    then show "deps_closed (pl_steps p) \<and> acyclic (step_edges (pl_steps p))"
      by (simp only: dag_validate_iff edges closed)
  next
    assume "deps_closed (pl_steps p) \<and> acyclic (step_edges (pl_steps p))"
    then have g: "closed_graph (map_of ?deps) (map fst ?deps)" "acyclic (edges (map_of ?deps))"
      by (simp_all only: edges closed)
    from topological_order_correct [OF distinct_pipeline_deps dist g(2,1)]
    obtain order where "compute_topological_order ?deps (declaration_index (pl_steps p)) = Some order"
      by blast
    moreover have "dag_validate_no_cycles ?deps = Inr ()" using g by (simp only: dag_validate_iff)
    ultimately show "\<exists>dag. new_dag p = Inr dag"
      by (simp add: new_dag_def Let_def pipeline_deps_def)
  qed
qed

text \<open>
  for a pipeline with distinct step ids, constructing the graph succeeds exactly when every
  dependency names a step and the dependencies have no cycle.
\<close>
theorem construction_validates:
  assumes "distinct (map step_id (pl_steps p))"
  shows "(\<exists>dag. new_dag p = Inr dag) \<longleftrightarrow> deps_closed (pl_steps p) \<and> acyclic (step_edges (pl_steps p))"
  using assms by (rule new_dag_succeeds)

definition diamond :: pipeline where
  "diamond = pipeline_of [sql_step ''d'' [''b'', ''c''], sql_step ''c'' [''a''], sql_step ''b'' [''a''], sql_step ''a'' []]"

definition diamond_dag :: pipeline_dag where
  "diamond_dag =
     \<lparr>dag_steps = step_dict (\<lambda>s. s) (pl_steps diamond), dag_deps = pipeline_deps (pl_steps diamond),
      dag_order = [''a'', ''c'', ''b'', ''d'']\<rparr>"

lemma new_dag_diamond: "new_dag diamond = Inr diamond_dag"
  by code_simp

lemma construction_validates_witness: "deps_closed (pl_steps diamond) \<and> acyclic (step_edges (pl_steps diamond))"
proof -
  have "distinct (map step_id (pl_steps diamond))" by code_simp
  from construction_validates [OF this] new_dag_diamond show ?thesis by blast
qed

text \<open>
  The topological order of a constructed graph lists every step exactly once, and it is the
  greedy order: each entry is, among the steps not yet listed whose dependencies are all
  listed, the one declared first. So dependencies precede their dependents and ties are broken
  by declaration order.
\<close>
theorem topological_order_is_greedy:
  assumes "new_dag p = Inr dag"
  shows "distinct (dag_order dag) \<and> set (dag_order dag) = step_id ` set (pl_steps p) \<and>
    greedy (dag_deps dag) (declaration_index (pl_steps p)) {} (dag_order dag)"
  using new_dag_result [OF assms] by simp

lemma topological_order_is_greedy_witness:
  "greedy (dag_deps diamond_dag) (declaration_index (pl_steps diamond)) {} [''a'', ''c'', ''b'', ''d'']"
  using topological_order_is_greedy [OF new_dag_diamond] by (simp add: diamond_dag_def)

lemma downstream_of_trancl:
  "dag_wf dag \<Longrightarrow> downstream_of dag x = {t. (t, x) \<in> (dag_edges dag)\<^sup>+}"
  using new_dag_result(2) downstream_loop_trancl
  by (fastforce simp: dag_wf_def downstream_of_def dag_edges_edges)

text \<open>
  \<open>downstream_of\<close> computes exactly the transitive dependents of a step, and never the step
  itself.
\<close>
theorem downstream_is_transitive:
  assumes "new_dag p = Inr dag"
  shows "downstream_of dag x = {t. (t, x) \<in> (dag_edges dag)\<^sup>+} \<and> x \<notin> downstream_of dag x"
proof -
  have "dag_wf dag" using assms by (auto simp: dag_wf_def)
  then show ?thesis
    using downstream_of_trancl new_dag_result(6) [OF assms] by (auto simp: acyclic_def)
qed

lemma downstream_is_transitive_witness:
  "downstream_of diamond_dag ''c'' = {t. (t, ''c'') \<in> (dag_edges diamond_dag)\<^sup>+} \<and>
   ''c'' \<notin> downstream_of diamond_dag ''c''"
  by (rule downstream_is_transitive) (rule new_dag_diamond)

section \<open>The interface the executor walks\<close>

text \<open>
  What the walk relies on: the steps come in an order that lists dependencies first, and the
  set skipped with a step is its transitive dependents.
\<close>

locale step_graph =
  fixes nodes :: "'d \<Rightarrow> string list"
    and deps :: "'d \<Rightarrow> string \<Rightarrow> string list"
    and down :: "'d \<Rightarrow> string \<Rightarrow> string set"
    and wf :: "'d \<Rightarrow> bool"
  assumes nodes_distinct: "wf d \<Longrightarrow> distinct (nodes d)"
    and deps_before: "wf d \<Longrightarrow> nodes d = xs @ x # ys \<Longrightarrow> set (deps d x) \<subseteq> set xs"
    and foreign_deps: "wf d \<Longrightarrow> x \<notin> set (nodes d) \<Longrightarrow> deps d x = []"
    and down_iff: "wf d \<Longrightarrow> t \<in> down d x \<longleftrightarrow> (t, x) \<in> {(a, b). b \<in> set (deps d a)}\<^sup>+"
begin

lemma down_step: "wf d \<Longrightarrow> x \<in> set (deps d t) \<Longrightarrow> t \<in> down d x"
  by (auto simp: down_iff)

lemma down_trans: "wf d \<Longrightarrow> t \<in> down d x \<Longrightarrow> x \<in> down d y \<Longrightarrow> t \<in> down d y"
  by (auto simp: down_iff intro: trancl_trans)

lemma down_first:
  assumes "wf d" and "t \<in> down d x"
  obtains u where "u \<in> set (deps d t)" and "u = x \<or> u \<in> down d x"
  using assms by (auto simp: down_iff elim: converse_tranclE)

lemma down_nodes: "wf d \<Longrightarrow> down d x \<subseteq> set (nodes d)"
proof
  fix t assume "wf d" and "t \<in> down d x"
  then obtain u where "u \<in> set (deps d t)" by (rule down_first)
  with \<open>wf d\<close> foreign_deps show "t \<in> set (nodes d)" by fastforce
qed

text \<open>Some unresolved node has all its dependencies resolved.\<close>

lemma some_ready:
  assumes "wf d" and "\<not> set (nodes d) \<subseteq> R"
  shows "\<exists>x \<in> set (nodes d). x \<notin> R \<and> set (deps d x) \<subseteq> R"
proof -
  from assms(2) obtain xs x ys where "nodes d = xs @ x # ys" "x \<notin> R" "set xs \<subseteq> R"
    using split_list_first_prop [of "nodes d" "\<lambda>x. x \<notin> R"] by blast
  then show ?thesis using deps_before [OF assms(1)] by fastforce
qed

text \<open>
  The invariant of the walk: a resolved node has all its ancestors resolved, or it was skipped
  together with everything downstream of it.
\<close>

definition settled :: "'d \<Rightarrow> string set \<Rightarrow> string set \<Rightarrow> bool" where
  "settled d R S \<longleftrightarrow>
     S \<subseteq> R \<and> (\<forall>s \<in> R. (\<forall>u. s \<in> down d u \<longrightarrow> u \<in> R) \<or> (s \<in> S \<and> down d s \<subseteq> S))"

lemma ready_ancestors:
  assumes "wf d" and "settled d R S" and "x \<notin> R" and "set (deps d x) \<subseteq> R" and "x \<in> down d u"
  shows "u \<in> R"
proof -
  obtain v where v: "v \<in> set (deps d x)" "v = u \<or> v \<in> down d u" using assms(1,5) by (rule down_first)
  have "x \<in> down d v" using assms(1) v(1) by (rule down_step)
  with v assms(2-4) show ?thesis by (auto simp: settled_def)
qed

text \<open>Two ready nodes are unrelated: neither is downstream of the other, nor of itself.\<close>

lemma ready_unrelated:
  assumes "wf d" and "settled d R S" and "x \<notin> R" and "set (deps d x) \<subseteq> R" and "y \<notin> R"
  shows "x \<notin> down d y"
  using ready_ancestors [OF assms(1-4)] assms(5) by blast

text \<open>Nothing downstream of an unresolved node has run.\<close>

lemma settledD:
  "settled d R S \<Longrightarrow> s \<in> R \<Longrightarrow> (\<forall>u. s \<in> down d u \<longrightarrow> u \<in> R) \<or> (s \<in> S \<and> down d s \<subseteq> S)"
  by (simp add: settled_def)

lemma downstream_not_run:
  assumes "settled d R S" and "y \<notin> R" and "t \<in> down d y" and "t \<in> R"
  shows "t \<in> S"
  using settledD [OF assms(1,4)] assms(2,3) by blast

lemma settled_run:
  assumes "settled d R S" and "\<And>u. x \<in> down d u \<Longrightarrow> u \<in> R"
  shows "settled d (insert x R) S" and "settled d (insert x R) (insert x S)"
proof -
  have S: "S \<subseteq> R" using assms(1) by (simp add: settled_def)
  have *: "(\<forall>u. s \<in> down d u \<longrightarrow> u \<in> insert x R) \<or> (s \<in> S \<and> down d s \<subseteq> S)" if "s \<in> insert x R" for s
    using that settledD [OF assms(1), of s] assms(2) by blast
  with S show "settled d (insert x R) S" by (auto simp: settled_def)
  from * S show "settled d (insert x R) (insert x S)" unfolding settled_def by blast
qed

lemma settled_skip:
  assumes "wf d" and "settled d R S"
  shows "settled d (R \<union> down d x) (S \<union> down d x)"
  unfolding settled_def
proof (intro conjI ballI)
  show "S \<union> down d x \<subseteq> R \<union> down d x" using assms(2) by (auto simp: settled_def)
  fix s assume "s \<in> R \<union> down d x"
  then consider "s \<in> R" | "s \<in> down d x" by blast
  then show "(\<forall>u. s \<in> down d u \<longrightarrow> u \<in> R \<union> down d x) \<or> (s \<in> S \<union> down d x \<and> down d s \<subseteq> S \<union> down d x)"
  proof cases
    case 1
    from settledD [OF assms(2) this] show ?thesis by blast
  next
    case 2
    then have "down d s \<subseteq> down d x" using down_trans [OF assms(1)] by blast
    with 2 show ?thesis by blast
  qed
qed

end

lemma greedy_split:
  "greedy deps index E (xs @ x # ys) \<Longrightarrow> set (deps_in deps x) \<subseteq> E \<union> set xs"
proof (induction xs arbitrary: E)
  case Nil
  then show ?case by (auto simp: available_def)
next
  case (Cons a xs)
  from Cons.IH [of "insert a E"] Cons.prems show ?case by simp
qed

lemma deps_foreign: "x \<notin> fst ` set deps \<Longrightarrow> deps_in deps x = []"
proof -
  assume "x \<notin> fst ` set deps"
  then have "map_of deps x = None" by (simp add: map_of_eq_None_iff)
  then show ?thesis by (simp add: deps_in_def deps_of_def)
qed

interpretation dag: step_graph dag_order "\<lambda>d. deps_in (dag_deps d)" downstream_of dag_wf
proof unfold_locales
  fix d x xs ys t
  assume d: "dag_wf d"
  then obtain p where p: "new_dag p = Inr d" by (auto simp: dag_wf_def)
  note r = new_dag_result [OF p]
  show "distinct (dag_order d)" by (rule r)
  show "dag_order d = xs @ x # ys \<Longrightarrow> set (deps_in (dag_deps d) x) \<subseteq> set xs"
    using r(5) greedy_split by fastforce
  show "x \<notin> set (dag_order d) \<Longrightarrow> deps_in (dag_deps d) x = []"
    using r(2,4) by (intro deps_foreign) simp
  show "t \<in> downstream_of d x \<longleftrightarrow> (t, x) \<in> {(a, b). b \<in> set (deps_in (dag_deps d) a)}\<^sup>+"
    using downstream_of_trancl [OF d] by (simp add: dag_edges_def)
qed

end
