(* ===== verification/Execute_Pipeline.thy ===== *)
theory Execute_Pipeline
  imports Pipeline_DAG
begin

text \<open>
  The walk over the step graph: the failure modes (\<open>runtime/failure_modes.py\<close>), the step
  executor seam (\<open>runtime/step_executor.py\<close>), the cross-step template context
  (\<open>runtime/jinja_context.py\<close>), and \<open>execute_pipeline\<close> with its retry loop
  (\<open>runtime/execute_pipeline.py\<close>).

  The step executors, the template engine and the step sink are arguments, the fields of
  \<open>lib\<close>: what a call with that step and that attempt number returns or raises (each step is
  launched once per attempt, so these determine the call). An exception is the string it
  renders to. The steps of one wave run concurrently and read the same results, which do not
  change before the wave is over, so their outcomes are taken together; when several raise, the
  model reports the first in wave order, where \<open>asyncio.gather\<close> reports the first in time.
  Delays are rationals, where the code has floats.

  The wave loop gets fuel, \<open>None\<close> when it runs out; one more than the number of steps is enough
  when at least one slot is available, and no fuel is enough when none is.
\<close>

section \<open>Results and run context\<close>

datatype step_status = Succeeded | Failed | Skipped

record step_result =
  sr_status :: step_status
  sr_outputs :: "(string \<times> json) list"
  sr_log_lines :: "string list"
  sr_error_message :: "string option"
  sr_duration_ms :: int
  sr_started_at :: "int option"
  sr_finished_at :: "int option"

definition new_result :: "step_status \<Rightarrow> string option \<Rightarrow> step_result" where
  "new_result st msg =
     \<lparr>sr_status = st, sr_outputs = [], sr_log_lines = [], sr_error_message = msg,
      sr_duration_ms = 0, sr_started_at = None, sr_finished_at = None\<rparr>"

definition skipped_result :: step_result where
  "skipped_result = new_result Skipped None"

record pipeline_run =
  run_pipeline :: string
  run_target :: string
  run_trigger :: string
  run_id :: string
  run_started_at :: int

section \<open>The template context\<close>

record step_namespace =
  sn_outputs :: "(string \<times> json) list"
  sn_status :: step_status
  sn_started_at :: "int option"
  sn_finished_at :: "int option"

record jinja_context =
  jc_steps :: "string \<rightharpoonup> step_namespace"
  jc_run :: pipeline_run
  jc_env :: "(string \<times> string) list"

text \<open>The tuple of exposed environment variables is empty.\<close>

definition EXPOSED_ENV_KEYS :: "string list" where
  "EXPOSED_ENV_KEYS = []"

definition make_jinja_context ::
  "(string \<rightharpoonup> string) \<Rightarrow> pipeline_run \<Rightarrow> (string \<rightharpoonup> step_result) \<Rightarrow> jinja_context" where
  "make_jinja_context environ run results =
     \<lparr>jc_steps = (\<lambda>i. map_option (\<lambda>r.
        \<lparr>sn_outputs = sr_outputs r, sn_status = sr_status r,
         sn_started_at = sr_started_at r, sn_finished_at = sr_finished_at r\<rparr>) (results i)),
      jc_run = run,
      jc_env = List.map_filter (\<lambda>k. map_option (Pair k) (environ k)) EXPOSED_ENV_KEYS\<rparr>"

text \<open>What rendering one template may raise: a template error, or anything else.\<close>

datatype render_error = Template_Error string | Other_Error string

fun render_step_vars ::
  "(string \<Rightarrow> jinja_context \<Rightarrow> render_error + string) \<Rightarrow> string \<Rightarrow> jinja_context \<Rightarrow> (string \<times> string) list \<Rightarrow>
     string + (string \<times> string) list" where
  "render_step_vars render i ctx [] = Inr []"
| "render_step_vars render i ctx ((name, template) # vars) =
     (case render template ctx of
        Inl (Template_Error msg) \<Rightarrow>
          Inl (''Failed to render jinja_var '' @ py_repr name @ '' on step '' @ py_repr i @ '': '' @ msg)
      | Inl (Other_Error msg) \<Rightarrow> Inl msg
      | Inr v \<Rightarrow> bind_result (render_step_vars render i ctx vars) (\<lambda>vs. Inr ((name, v) # vs)))"

section \<open>Executors and the sink\<close>

type_synonym executor = "pipeline_step \<Rightarrow> nat \<Rightarrow> string + step_result"

record walk_lib =
  lib_registry :: "step_type \<rightharpoonup> executor"
  lib_render :: "string \<Rightarrow> jinja_context \<Rightarrow> render_error + string"
  lib_environ :: "string \<rightharpoonup> string"
  lib_step_started :: "pipeline_step \<Rightarrow> nat \<Rightarrow> string option"
  lib_step_finished :: "pipeline_step \<Rightarrow> step_result \<Rightarrow> nat \<Rightarrow> string option"

text \<open>What the sink and the sleeper see.\<close>

datatype step_event =
    Step_Started string nat
  | Step_Finished string step_result nat
  | Slept rat

fun step_type_name :: "step_type \<Rightarrow> string" where
  "step_type_name Dlt_Type = ''dlt''"
| "step_type_name Dbt_Type = ''dbt''"
| "step_type_name Sql_Type = ''sql''"

text \<open>The \<open>KeyError\<close> of a failed lookup renders as the representation of its message.\<close>

definition registry_lookup :: "(step_type \<rightharpoonup> executor) \<Rightarrow> step_type \<Rightarrow> string + executor" where
  "registry_lookup reg t =
     (case reg t of
        Some ex \<Rightarrow> Inr ex
      | None \<Rightarrow> Inl (py_repr (''No step executor registered for step type '' @ py_repr (step_type_name t) @
                  ''. Registered: '' @
                  py_list_repr (map step_type_name (filter (\<lambda>u. reg u \<noteq> None) [Dbt_Type, Dlt_Type, Sql_Type])) @
                  ''.'')))"

definition launch_step ::
  "walk_lib \<Rightarrow> pipeline_run \<Rightarrow> (string \<rightharpoonup> step_result) \<Rightarrow> pipeline_step \<Rightarrow> nat \<Rightarrow>
     step_event list \<times> (string + step_result)" where
  "launch_step lib run results step attempt =
     (case render_step_vars (lib_render lib) (step_id step)
             (make_jinja_context (lib_environ lib) run results) (jinja_vars step) of
        Inl msg \<Rightarrow> ([], Inr (new_result Failed (Some msg)))
      | Inr rendered \<Rightarrow>
          (let step' = step\<lparr>jinja_vars := rendered\<rparr>; started = [Step_Started (step_id step) attempt] in
           case lib_step_started lib step' attempt of
             Some e \<Rightarrow> (started, Inl e)
           | None \<Rightarrow>
               (let result =
                  (case bind_result (registry_lookup (lib_registry lib) (config_type (step_config step')))
                          (\<lambda>ex. ex step' attempt) of
                     Inl e \<Rightarrow> new_result Failed (Some (''step launch failed: '' @ e))
                   | Inr r \<Rightarrow> r);
                  events = started @ [Step_Finished (step_id step) result attempt]
                in (case lib_step_finished lib step' result attempt of
                      Some e \<Rightarrow> (events, Inl e)
                    | None \<Rightarrow> (events, Inr result)))))"

section \<open>Retry\<close>

text \<open>
  The delay before the attempt after \<open>attempt\<close>. Doubling an integer 1024 times leaves the range
  of a float: the product then raises \<open>OverflowError\<close>.
\<close>

definition backoff_delay :: "backoff_kind \<Rightarrow> nat \<Rightarrow> rat \<Rightarrow> rat \<Rightarrow> string + rat" where
  "backoff_delay backoff attempt initial max_delay =
     (case backoff of
        Fixed \<Rightarrow> Inr (min initial max_delay)
      | Linear \<Rightarrow> Inr (min (initial * of_nat attempt) max_delay)
      | Exponential \<Rightarrow>
          if 1024 \<le> attempt - 1 then Inl ''int too large to convert to float''
          else Inr (min (initial * 2 ^ (attempt - 1)) max_delay))"

text \<open>\<open>left\<close> counts the attempts after this one.\<close>

fun run_attempts ::
  "walk_lib \<Rightarrow> pipeline_run \<Rightarrow> (string \<rightharpoonup> step_result) \<Rightarrow> pipeline_step \<Rightarrow> nat \<Rightarrow> nat \<Rightarrow>
     step_event list \<times> (string + step_result)" where
  "run_attempts lib run results step attempt left =
     (let (events, outcome) = launch_step lib run results step attempt in
      case outcome of
        Inl e \<Rightarrow> (events, Inl e)
      | Inr r \<Rightarrow>
          if sr_status r = Succeeded then (events, Inr r)
          else (case left of
                  0 \<Rightarrow> (events, Inr r)
                | Suc left' \<Rightarrow>
                    (let fm = failure_mode step in
                     case backoff_delay (fm_backoff fm) attempt (fm_initial_delay fm) (fm_max_delay fm) of
                       Inl e \<Rightarrow> (events, Inl e)
                     | Inr d \<Rightarrow>
                         (let (events', outcome') = run_attempts lib run results step (Suc attempt) left'
                          in (events @ Slept d # events', outcome')))))"

declare run_attempts.simps [simp del]

definition max_attempts :: "failure_mode \<Rightarrow> nat" where
  "max_attempts fm = nat (max (if fm_mode fm = Retry then fm_max_attempts fm else 1) 1)"

definition run_step_with_retry ::
  "walk_lib \<Rightarrow> pipeline_run \<Rightarrow> (string \<rightharpoonup> step_result) \<Rightarrow> pipeline_step \<Rightarrow>
     step_event list \<times> (string + step_result)" where
  "run_step_with_retry lib run results step =
     run_attempts lib run results step 1 (max_attempts (failure_mode step) - 1)"

section \<open>Failure modes\<close>

record run_state =
  rs_completed :: "string set"
  rs_failed :: "string set"
  rs_skipped :: "string set"
  rs_halted :: bool
  rs_tolerated_failures :: "string list"
  rs_warnings :: "string list"

definition initial_run_state :: run_state where
  "initial_run_state =
     \<lparr>rs_completed = {}, rs_failed = {}, rs_skipped = {}, rs_halted = False,
      rs_tolerated_failures = [], rs_warnings = []\<rparr>"

definition apply_failure_mode ::
  "pipeline_step \<Rightarrow> step_result \<Rightarrow> pipeline_dag \<Rightarrow> run_state \<Rightarrow> run_state" where
  "apply_failure_mode step result dag st =
     (let i = step_id step;
          failed = st\<lparr>rs_failed := insert i (rs_failed st)\<rparr>;
          tolerated = failed\<lparr>rs_tolerated_failures := rs_tolerated_failures st @ [i]\<rparr>
      in case sr_status result of
           Succeeded \<Rightarrow> st\<lparr>rs_completed := insert i (rs_completed st)\<rparr>
         | Skipped \<Rightarrow> st\<lparr>rs_skipped := insert i (rs_skipped st)\<rparr>
         | Failed \<Rightarrow>
             (case fm_mode (failure_mode step) of
                Fail \<Rightarrow> failed\<lparr>rs_halted := True\<rparr>
              | Retry \<Rightarrow> failed\<lparr>rs_halted := True\<rparr>
              | Warn \<Rightarrow>
                  tolerated\<lparr>rs_warnings := rs_warnings st @
                    [''step '' @ py_repr i @ '' failed under mode=warn: '' @
                     or_else (sr_error_message result) ''(no error message)'']\<rparr>
              | Continue \<Rightarrow> tolerated
              | Skip_Downstream \<Rightarrow> tolerated\<lparr>rs_skipped := rs_skipped st \<union> downstream_of dag i\<rparr>))"

datatype run_status = Run_Succeeded | Run_Failed | Run_Partial

definition derive_run_status :: "run_state \<Rightarrow> run_status" where
  "derive_run_status st =
     (if rs_halted st then Run_Failed
      else if rs_tolerated_failures st \<noteq> [] \<or> rs_skipped st \<noteq> {} then Run_Partial
      else Run_Succeeded)"

section \<open>The walk\<close>

text \<open>\<open>ws_launched\<close> is history: the launched steps in the order their results were applied.\<close>

record walk_state =
  ws_run :: run_state
  ws_outputs :: "string \<rightharpoonup> (string \<times> json) list"
  ws_results :: "string \<rightharpoonup> step_result"
  ws_events :: "step_event list"
  ws_launched :: "string list"

definition initial_walk_state :: walk_state where
  "initial_walk_state =
     \<lparr>ws_run = initial_run_state, ws_outputs = Map.empty, ws_results = Map.empty, ws_events = [],
      ws_launched = []\<rparr>"

definition resolved :: "run_state \<Rightarrow> string set" where
  "resolved st = rs_completed st \<union> rs_failed st \<union> rs_skipped st"

definition walk_ready :: "pipeline_dag \<Rightarrow> run_state \<Rightarrow> pipeline_step list" where
  "walk_ready dag st = ready_steps dag (rs_completed st) (rs_failed st) (rs_skipped st)"

text \<open>Folding one result of a wave into the state.\<close>

definition fold_result :: "pipeline_dag \<Rightarrow> pipeline_step \<times> step_result \<Rightarrow> walk_state \<Rightarrow> walk_state" where
  "fold_result dag = (\<lambda>(step, result) st.
     let before = rs_skipped (ws_run st);
         run' = apply_failure_mode step result dag (ws_run st);
         results = (ws_results st)(step_id step \<mapsto> result)
     in st\<lparr>ws_run := run',
           ws_outputs := (if sr_status result = Succeeded
                          then (ws_outputs st)(step_id step \<mapsto> sr_outputs result) else ws_outputs st),
           ws_results := (\<lambda>i. if i \<in> rs_skipped run' - before \<and> results i = None
                              then Some skipped_result else results i),
           ws_launched := ws_launched st @ [step_id step]\<rparr>)"

text \<open>The outcomes of a wave, or the exception that escapes it.\<close>

fun gather :: "(step_event list \<times> (string + step_result)) list \<Rightarrow> step_event list \<times> (string + step_result list)" where
  "gather [] = ([], Inr [])"
| "gather ((ev, Inl e) # rest) = (ev @ fst (gather rest), Inl e)"
| "gather ((ev, Inr r) # rest) =
     (ev @ fst (gather rest), bind_result (snd (gather rest)) (\<lambda>rs. Inr (r # rs)))"

fun walk ::
  "nat \<Rightarrow> walk_lib \<Rightarrow> pipeline_run \<Rightarrow> pipeline_dag \<Rightarrow> int \<Rightarrow> walk_state \<Rightarrow> (string + walk_state) option" where
  "walk n lib run dag slots st =
     (if rs_halted (ws_run st) then Some (Inr st)
      else if walk_ready dag (ws_run st) = [] then Some (Inr st)
      else (case n of
              0 \<Rightarrow> None
            | Suc m \<Rightarrow>
                (let wave = slice_to (walk_ready dag (ws_run st)) slots;
                     (events, outcome) = gather (map (run_step_with_retry lib run (ws_results st)) wave);
                     st' = st\<lparr>ws_events := ws_events st @ events\<rparr>
                 in case outcome of
                      Inl e \<Rightarrow> Some (Inl e)
                    | Inr rs \<Rightarrow> walk m lib run dag slots (fold (fold_result dag) (zip wave rs) st'))))"

declare walk.simps [simp del]

record run_result =
  rr_status :: run_status
  rr_completed :: "string set"
  rr_failed :: "string set"
  rr_skipped :: "string set"
  rr_outputs :: "string \<rightharpoonup> (string \<times> json) list"
  rr_warnings :: "string list"

definition from_run_state :: "run_state \<Rightarrow> (string \<rightharpoonup> (string \<times> json) list) \<Rightarrow> run_result" where
  "from_run_state st outputs =
     \<lparr>rr_status = derive_run_status st, rr_completed = rs_completed st, rr_failed = rs_failed st,
      rr_skipped = rs_skipped st, rr_outputs = outputs, rr_warnings = rs_warnings st\<rparr>"

datatype execute_error =
    Load_Failed pipeline_error
  | Dag_Failed dag_error
  | Raised string

definition DEFAULT_AVAILABLE_SLOTS :: int where
  "DEFAULT_AVAILABLE_SLOTS = 4"

text \<open>\<open>given\<close> is the \<open>pipeline\<close> argument; without one the pipeline is loaded by name.\<close>

definition execute_pipeline ::
  "nat \<Rightarrow> loader_lib \<Rightarrow> walk_lib \<Rightarrow> filesystem \<Rightarrow> project_paths \<Rightarrow> components \<Rightarrow> pipeline_run \<Rightarrow>
     pipeline option \<Rightarrow> int \<Rightarrow> (execute_error + run_result) option" where
  "execute_pipeline n llib lib fs ps comps run given slots =
     (let loaded =
        (case given of
           Some p \<Rightarrow> Inr p
         | None \<Rightarrow> load_pipeline llib fs ps comps (path_join (pipelines_dir ps) (run_pipeline run @ ''.toml'')))
      in case loaded of
           Inl e \<Rightarrow> Some (Inl (Load_Failed e))
         | Inr p \<Rightarrow>
             (case new_dag p of
                Inl e \<Rightarrow> Some (Inl (Dag_Failed e))
              | Inr dag \<Rightarrow>
                  (case walk n lib run dag slots initial_walk_state of
                     None \<Rightarrow> None
                   | Some (Inl e) \<Rightarrow> Some (Inl (Raised e))
                   | Some (Inr st) \<Rightarrow> Some (Inr (from_run_state (ws_run st) (ws_outputs st))))))"

section \<open>The invariant of the walk\<close>

definition halting :: "pipeline_dag \<Rightarrow> string \<Rightarrow> bool" where
  "halting dag i =
     (case dag_step dag i of
        None \<Rightarrow> False
      | Some s \<Rightarrow> fm_mode (failure_mode s) = Fail \<or> fm_mode (failure_mode s) = Retry)"

definition skipping :: "pipeline_dag \<Rightarrow> string \<Rightarrow> bool" where
  "skipping dag i =
     (case dag_step dag i of None \<Rightarrow> False | Some s \<Rightarrow> fm_mode (failure_mode s) = Skip_Downstream)"

definition partition_inv :: "pipeline_dag \<Rightarrow> run_state \<Rightarrow> bool" where
  "partition_inv dag r \<longleftrightarrow>
     resolved r \<subseteq> set (dag_order dag) \<and>
     rs_completed r \<inter> rs_failed r = {} \<and> rs_completed r \<inter> rs_skipped r = {} \<and>
     rs_failed r \<inter> rs_skipped r = {}"

definition status_inv :: "pipeline_dag \<Rightarrow> run_state \<Rightarrow> bool" where
  "status_inv dag r \<longleftrightarrow>
     (rs_halted r \<longleftrightarrow> (\<exists>i \<in> rs_failed r. halting dag i)) \<and>
     set (rs_tolerated_failures r) = {i \<in> rs_failed r. \<not> halting dag i} \<and>
     (\<forall>i \<in> rs_failed r. skipping dag i \<longrightarrow> downstream_of dag i \<subseteq> rs_skipped r)"

fun expected_status :: "run_state \<Rightarrow> string \<Rightarrow> step_status \<Rightarrow> bool" where
  "expected_status r i Succeeded = (i \<in> rs_completed r)"
| "expected_status r i Failed = (i \<in> rs_failed r)"
| "expected_status r i Skipped = (i \<in> rs_skipped r)"

definition results_inv :: "walk_state \<Rightarrow> bool" where
  "results_inv st \<longleftrightarrow>
     dom (ws_outputs st) = rs_completed (ws_run st) \<and> dom (ws_results st) = resolved (ws_run st) \<and>
     (\<forall>i res. ws_results st i = Some res \<longrightarrow> expected_status (ws_run st) i (sr_status res))"

text \<open>Each launched step comes after its dependencies, unless they were skipped.\<close>

definition launch_inv :: "pipeline_dag \<Rightarrow> walk_state \<Rightarrow> bool" where
  "launch_inv dag st \<longleftrightarrow>
     distinct (ws_launched st) \<and> set (ws_launched st) \<subseteq> resolved (ws_run st) \<and>
     rs_completed (ws_run st) \<union> rs_failed (ws_run st) \<subseteq> set (ws_launched st) \<and>
     (\<forall>xs i ys. ws_launched st = xs @ i # ys \<longrightarrow>
        set (deps_in (dag_deps dag) i) \<subseteq> set xs \<union> rs_skipped (ws_run st))"

definition walk_inv :: "pipeline_dag \<Rightarrow> walk_state \<Rightarrow> bool" where
  "walk_inv dag st \<longleftrightarrow>
     dag.settled dag (resolved (ws_run st)) (rs_skipped (ws_run st)) \<and> partition_inv dag (ws_run st) \<and>
     status_inv dag (ws_run st) \<and> results_inv st \<and> launch_inv dag st"

lemma walk_inv_initial: "walk_inv dag initial_walk_state"
  by (simp add: walk_inv_def initial_walk_state_def initial_run_state_def resolved_def dag.settled_def
    partition_inv_def status_inv_def results_inv_def launch_inv_def)

text \<open>A step whose result may be applied: unresolved, all its ancestors resolved.\<close>

definition launchable :: "pipeline_dag \<Rightarrow> string set \<Rightarrow> pipeline_step \<Rightarrow> bool" where
  "launchable dag R s \<longleftrightarrow>
     dag_step dag (step_id s) = Some s \<and> step_id s \<in> set (dag_order dag) \<and> step_id s \<notin> R \<and>
     (\<forall>u. step_id s \<in> downstream_of dag u \<longrightarrow> u \<in> R)"

text \<open>What a result does to the three sets.\<close>

definition skips :: "pipeline_dag \<Rightarrow> pipeline_step \<Rightarrow> step_result \<Rightarrow> string set" where
  "skips dag s res =
     (if sr_status res = Failed \<and> fm_mode (failure_mode s) = Skip_Downstream then downstream_of dag (step_id s)
      else {})"

lemma apply_sets:
  "rs_completed (apply_failure_mode s res dag r) =
     (if sr_status res = Succeeded then insert (step_id s) (rs_completed r) else rs_completed r)"
  "rs_failed (apply_failure_mode s res dag r) =
     (if sr_status res = Failed then insert (step_id s) (rs_failed r) else rs_failed r)"
  "rs_skipped (apply_failure_mode s res dag r) =
     (if sr_status res = Skipped then insert (step_id s) (rs_skipped r) else rs_skipped r \<union> skips dag s res)"
  by (simp_all add: apply_failure_mode_def skips_def Let_def split: step_status.split failure_kind.split)

lemma apply_resolved:
  "resolved (apply_failure_mode s res dag r) = insert (step_id s) (resolved r) \<union> skips dag s res"
proof -
  have "skips dag s res = {}" if "sr_status res = Skipped" using that by (simp add: skips_def)
  then show ?thesis by (cases "sr_status res") (auto simp: resolved_def apply_sets)
qed

lemma apply_flags:
  assumes "dag_step dag (step_id s) = Some s"
  shows "rs_halted (apply_failure_mode s res dag r) =
      (rs_halted r \<or> sr_status res = Failed \<and> halting dag (step_id s))"
    and "rs_tolerated_failures (apply_failure_mode s res dag r) =
      rs_tolerated_failures r @ (if sr_status res = Failed \<and> \<not> halting dag (step_id s) then [step_id s] else [])"
  using assms
  by (simp_all add: apply_failure_mode_def halting_def Let_def split: step_status.split failure_kind.split)

lemma skips_downstream: "skips dag s res \<subseteq> downstream_of dag (step_id s)"
  by (simp add: skips_def)

lemma launch_facts:
  assumes "dag_wf dag" and "walk_inv dag st" and "launchable dag (resolved (ws_run st)) s"
  shows "step_id s \<notin> resolved (ws_run st)" and "step_id s \<notin> downstream_of dag (step_id s)"
    and "downstream_of dag (step_id s) \<inter> (rs_completed (ws_run st) \<union> rs_failed (ws_run st)) = {}"
    and "set (deps_in (dag_deps dag) (step_id s)) \<subseteq> resolved (ws_run st)"
    and "downstream_of dag (step_id s) \<subseteq> set (dag_order dag)"
proof -
  let ?x = "step_id s" and ?R = "resolved (ws_run st)"
  show x: "?x \<notin> ?R" using assms(3) by (simp add: launchable_def)
  have anc: "\<And>u. ?x \<in> downstream_of dag u \<Longrightarrow> u \<in> ?R" using assms(3) by (simp add: launchable_def)
  with x show "?x \<notin> downstream_of dag ?x" by blast
  have "t \<in> rs_skipped (ws_run st)" if "t \<in> downstream_of dag ?x" "t \<in> ?R" for t
    using dag.downstream_not_run [OF _ x that] assms(2) by (simp add: walk_inv_def)
  moreover have "(rs_completed (ws_run st) \<union> rs_failed (ws_run st)) \<inter> rs_skipped (ws_run st) = {}"
    using assms(2) by (simp add: walk_inv_def partition_inv_def Int_Un_distrib2)
  ultimately show "downstream_of dag ?x \<inter> (rs_completed (ws_run st) \<union> rs_failed (ws_run st)) = {}"
    unfolding resolved_def by blast
  show "set (deps_in (dag_deps dag) ?x) \<subseteq> ?R"
    using anc dag.down_step [OF assms(1)] by blast
  show "downstream_of dag ?x \<subseteq> set (dag_order dag)" by (rule dag.down_nodes [OF assms(1)])
qed

lemma fold_settled:
  assumes "dag_wf dag" and "walk_inv dag st" and "launchable dag (resolved (ws_run st)) s"
  shows "dag.settled dag (resolved (apply_failure_mode s res dag (ws_run st)))
    (rs_skipped (apply_failure_mode s res dag (ws_run st)))"
proof -
  let ?R = "resolved (ws_run st)" and ?S = "rs_skipped (ws_run st)" and ?x = "step_id s"
  have settled: "dag.settled dag ?R ?S" using assms(2) by (simp add: walk_inv_def)
  have anc: "\<And>u. ?x \<in> downstream_of dag u \<Longrightarrow> u \<in> ?R" using assms(3) by (simp add: launchable_def)
  note run = dag.settled_run [OF settled anc]
  consider "sr_status res = Skipped" "skips dag s res = {}"
    | "sr_status res \<noteq> Skipped" "skips dag s res = {}"
    | "sr_status res \<noteq> Skipped" "skips dag s res = downstream_of dag ?x"
    by (cases "sr_status res"; cases "fm_mode (failure_mode s) = Skip_Downstream") (auto simp: skips_def)
  then show ?thesis
  proof cases
    case 1
    with run(2) show ?thesis by (simp add: apply_resolved apply_sets)
  next
    case 2
    with run(1) show ?thesis by (simp add: apply_resolved apply_sets)
  next
    case 3
    with dag.settled_skip [OF assms(1) run(1), of ?x] show ?thesis by (simp add: apply_resolved apply_sets)
  qed
qed

lemma fold_partition:
  assumes "dag_wf dag" and "walk_inv dag st" and "launchable dag (resolved (ws_run st)) s"
  shows "partition_inv dag (apply_failure_mode s res dag (ws_run st))"
proof -
  note f = launch_facts [OF assms]
  have p: "partition_inv dag (ws_run st)" using assms(2) by (simp add: walk_inv_def)
  have x: "step_id s \<in> set (dag_order dag)" using assms(3) by (simp add: launchable_def)
  have sk: "skips dag s res \<subseteq> set (dag_order dag)" using skips_downstream f(5) by fast
  have disj: "skips dag s res \<inter> (rs_completed (ws_run st) \<union> rs_failed (ws_run st)) = {}"
    "step_id s \<notin> skips dag s res"
    using skips_downstream [of dag s res] f(2,3) by blast+
  have fresh: "step_id s \<notin> rs_completed (ws_run st)" "step_id s \<notin> rs_failed (ws_run st)"
    "step_id s \<notin> rs_skipped (ws_run st)" using f(1) by (simp_all add: resolved_def)
  show ?thesis
    using p x sk disj fresh
    by (cases "sr_status res") (auto simp: partition_inv_def apply_resolved apply_sets)
qed

lemma fold_status:
  assumes "dag_wf dag" and "walk_inv dag st" and "launchable dag (resolved (ws_run st)) s"
  shows "status_inv dag (apply_failure_mode s res dag (ws_run st))"
proof -
  have step: "dag_step dag (step_id s) = Some s" using assms(3) by (simp add: launchable_def)
  have fresh: "step_id s \<notin> rs_failed (ws_run st)"
    using launch_facts(1) [OF assms] by (simp add: resolved_def)
  have st: "status_inv dag (ws_run st)" using assms(2) by (simp add: walk_inv_def)
  have "skipping dag (step_id s) \<longleftrightarrow> fm_mode (failure_mode s) = Skip_Downstream"
    using step by (simp add: skipping_def)
  then show ?thesis
    using st step fresh
    by (cases "sr_status res") (auto simp: status_inv_def apply_flags apply_sets skips_def)
qed

lemma expected_status_apply:
  assumes "partition_inv dag r" and "step_id s \<notin> resolved r" and "i \<in> resolved r"
    and "skips dag s res \<inter> (rs_completed r \<union> rs_failed r) = {}"
  shows "expected_status r i k \<Longrightarrow> expected_status (apply_failure_mode s res dag r) i k"
  using assms by (cases k) (auto simp: apply_sets)

lemma fold_results:
  assumes "dag_wf dag" and "walk_inv dag st" and "launchable dag (resolved (ws_run st)) s"
  shows "results_inv (fold_result dag (s, res) st)"
proof -
  let ?r' = "apply_failure_mode s res dag (ws_run st)" and ?x = "step_id s"
  note f = launch_facts [OF assms]
  have inv: "partition_inv dag (ws_run st)" and ri: "results_inv st"
    using assms(2) by (simp_all add: walk_inv_def)
  have sk: "skips dag s res \<inter> (rs_completed (ws_run st) \<union> rs_failed (ws_run st)) = {}"
    using skips_downstream [of dag s res] f(3) by blast
  have new: "rs_skipped ?r' - rs_skipped (ws_run st) =
      (if sr_status res = Skipped then {?x} else skips dag s res - rs_skipped (ws_run st))"
    using f(1) by (auto simp: apply_sets resolved_def)
  have raw: "ws_results (fold_result dag (s, res) st) i =
      (if i \<in> rs_skipped ?r' - rs_skipped (ws_run st) \<and> ((ws_results st)(?x \<mapsto> res)) i = None
       then Some skipped_result else ((ws_results st)(?x \<mapsto> res)) i)" for i
    by (simp add: fold_result_def Let_def)
  have res: "ws_results (fold_result dag (s, res) st) =
      (\<lambda>i. if i = ?x then Some res
           else if i \<in> skips dag s res \<and> ws_results st i = None then Some skipped_result
           else ws_results st i)"
  proof
    fix i
    have "ws_results st i \<noteq> None" if "i \<in> rs_skipped (ws_run st)"
      using that ri by (auto simp: results_inv_def resolved_def)
    moreover have "skips dag s res = {}" if "sr_status res = Skipped" using that by (simp add: skips_def)
    ultimately show "ws_results (fold_result dag (s, res) st) i =
        (if i = ?x then Some res
         else if i \<in> skips dag s res \<and> ws_results st i = None then Some skipped_result
         else ws_results st i)"
      unfolding raw new by (cases "i = ?x") auto
  qed
  have run: "ws_run (fold_result dag (s, res) st) = ?r'" by (simp add: fold_result_def Let_def)
  have dom: "dom (ws_results (fold_result dag (s, res) st)) = resolved ?r'"
    using ri by (auto simp: res apply_resolved results_inv_def dom_def split: if_splits)
  have out: "dom (ws_outputs (fold_result dag (s, res) st)) = rs_completed ?r'"
    using ri by (auto simp: fold_result_def Let_def results_inv_def apply_sets)
  have "expected_status ?r' i (sr_status q)" if q: "ws_results (fold_result dag (s, res) st) i = Some q" for i q
  proof -
    consider "i = ?x" "q = res" | "i \<noteq> ?x" "i \<in> skips dag s res" "q = skipped_result"
      | "i \<noteq> ?x" "ws_results st i = Some q"
      using q unfolding res by (metis option.inject)
    then show ?thesis
    proof cases
      case 1
      then show ?thesis by (cases "sr_status res") (simp_all add: apply_sets)
    next
      case 2
      then have "sr_status res \<noteq> Skipped" by (auto simp: skips_def)
      with 2 show ?thesis by (simp add: skipped_result_def new_result_def apply_sets)
    next
      case 3
      then have "expected_status (ws_run st) i (sr_status q)" and "i \<in> resolved (ws_run st)"
        using ri by (auto simp: results_inv_def)
      then show ?thesis using expected_status_apply [OF inv f(1) _ sk] by blast
    qed
  qed
  with dom out run show ?thesis by (simp add: results_inv_def)
qed

lemma fold_launch:
  assumes "dag_wf dag" and "walk_inv dag st" and "launchable dag (resolved (ws_run st)) s"
  shows "launch_inv dag (fold_result dag (s, res) st)"
proof -
  let ?x = "step_id s" and ?r' = "apply_failure_mode s res dag (ws_run st)"
  note f = launch_facts [OF assms]
  have l: "launch_inv dag st" using assms(2) by (simp add: walk_inv_def)
  have sets: "rs_skipped (ws_run st) \<subseteq> rs_skipped ?r'" "resolved (ws_run st) \<subseteq> resolved ?r'" "?x \<in> resolved ?r'"
    "rs_completed ?r' \<union> rs_failed ?r' \<subseteq> insert ?x (rs_completed (ws_run st) \<union> rs_failed (ws_run st))"
    by (auto simp: apply_sets apply_resolved)
  have R: "resolved (ws_run st) \<subseteq> set (ws_launched st) \<union> rs_skipped (ws_run st)"
    using l by (auto simp: launch_inv_def resolved_def)
  have order: "set (deps_in (dag_deps dag) i) \<subseteq> set xs \<union> rs_skipped ?r'"
    if "ws_launched st @ [?x] = xs @ i # ys" for xs i ys
  proof (cases ys rule: rev_cases)
    case Nil
    with that have "xs = ws_launched st" "i = ?x" by simp_all
    with f(4) R sets(1) show ?thesis by blast
  next
    case (snoc ys' y)
    with that have "ws_launched st = xs @ i # ys'" by simp
    with l have "set (deps_in (dag_deps dag) i) \<subseteq> set xs \<union> rs_skipped (ws_run st)"
      by (simp add: launch_inv_def)
    with sets(1) show ?thesis by blast
  qed
  have eq: "ws_launched (fold_result dag (s, res) st) = ws_launched st @ [?x]"
    "ws_run (fold_result dag (s, res) st) = ?r'"
    by (simp_all add: fold_result_def Let_def)
  have "?x \<notin> set (ws_launched st)" using l f(1) by (auto simp: launch_inv_def)
  with l sets order show ?thesis unfolding launch_inv_def eq by auto
qed

lemma fold_result_inv:
  assumes "dag_wf dag" and "walk_inv dag st" and "launchable dag (resolved (ws_run st)) s"
  shows "walk_inv dag (fold_result dag (s, res) st)"
proof -
  have "ws_run (fold_result dag (s, res) st) = apply_failure_mode s res dag (ws_run st)"
    by (simp add: fold_result_def Let_def)
  with fold_settled [OF assms] fold_partition [OF assms] fold_status [OF assms] fold_results [OF assms]
    fold_launch [OF assms]
  show ?thesis by (simp add: walk_inv_def)
qed

section \<open>Waves\<close>

lemma dag_step_found:
  assumes "dag_wf dag" and "i \<in> set (dag_order dag)"
  shows "\<exists>s. dag_step dag i = Some s \<and> step_id s = i"
proof -
  obtain p where p: "new_dag p = Inr dag" using assms(1) by (auto simp: dag_wf_def)
  let ?al = "rev (map (\<lambda>s. (step_id s, s)) (pl_steps p))"
  have look: "dag_step dag i = map_of ?al i"
    using new_dag_result(1) [OF p] by (simp add: dag_step_def step_dict_def)
  have "i \<in> fst ` set ?al" using new_dag_result(4) [OF p] assms(2) by (simp add: image_image)
  then obtain s where "map_of ?al i = Some s" by (metis map_of_eq_None_iff not_None_eq)
  moreover from map_of_SomeD [OF this] have "step_id s = i" by auto
  ultimately show ?thesis using look by metis
qed

lemma walk_ready_ids:
  assumes "dag_wf dag"
  shows "map step_id (walk_ready dag r) = ready_ids dag (resolved r)"
proof -
  have "step_id (the (dag_step dag i)) = i" if "i \<in> set (ready_ids dag (resolved r))" for i
  proof -
    from that have "i \<in> set (dag_order dag)" by (simp add: ready_ids_def)
    from dag_step_found [OF assms this] show ?thesis by auto
  qed
  then have "map (\<lambda>i. step_id (the (dag_step dag i))) (ready_ids dag (resolved r)) = ready_ids dag (resolved r)"
    by (simp add: map_idI)
  then show ?thesis
    unfolding walk_ready_def ready_steps_def resolved_def by (simp add: comp_def)
qed

lemma ready_launchable:
  assumes "dag_wf dag" and "walk_inv dag st" and "s \<in> set (walk_ready dag (ws_run st))"
  shows "launchable dag (resolved (ws_run st)) s"
proof -
  let ?R = "resolved (ws_run st)"
  from assms(3) obtain i where i: "i \<in> set (ready_ids dag ?R)" and s: "s = the (dag_step dag i)"
    by (auto simp: walk_ready_def ready_steps_def resolved_def)
  then have ord: "i \<in> set (dag_order dag)" "i \<notin> ?R" "set (deps_in (dag_deps dag) i) \<subseteq> ?R"
    by (auto simp: ready_ids_def)
  obtain t where "dag_step dag i = Some t" "step_id t = i" using dag_step_found [OF assms(1) ord(1)] by blast
  with s have step: "dag_step dag (step_id s) = Some s" "step_id s = i" by auto
  have "u \<in> ?R" if "i \<in> downstream_of dag u" for u
    using dag.ready_ancestors [OF assms(1) _ ord(2,3) that] assms(2) unfolding walk_inv_def by blast
  with step ord show ?thesis by (simp add: launchable_def)
qed

lemma fold_run [simp]: "ws_run (fold_result dag (s, res) st) = apply_failure_mode s res dag (ws_run st)"
  by (simp add: fold_result_def Let_def)

lemma fold_wave:
  assumes "dag_wf dag" and "walk_inv dag st" and "\<And>s. s \<in> set wave \<Longrightarrow> launchable dag (resolved (ws_run st)) s"
    and "distinct (map step_id wave)" and "length rs = length wave"
  shows "walk_inv dag (fold (fold_result dag) (zip wave rs) st) \<and>
    resolved (ws_run st) \<union> step_id ` set wave \<subseteq> resolved (ws_run (fold (fold_result dag) (zip wave rs) st))"
  using assms(2-)
proof (induction wave arbitrary: rs st)
  case Nil
  then show ?case by simp
next
  case (Cons s wave)
  then obtain res rs' where rs: "rs = res # rs'" by (cases rs) auto
  let ?st = "fold_result dag (s, res) st"
  have ls: "launchable dag (resolved (ws_run st)) s" using Cons.prems(2) by simp
  have inv: "walk_inv dag ?st" using fold_result_inv [OF assms(1) Cons.prems(1) ls] .
  have R: "resolved (ws_run ?st) = insert (step_id s) (resolved (ws_run st)) \<union> skips dag s res"
    by (simp add: apply_resolved)
  have next_launch: "launchable dag (resolved (ws_run ?st)) t" if t: "t \<in> set wave" for t
  proof -
    have lt: "launchable dag (resolved (ws_run st)) t" using Cons.prems(2) t by simp
    have "step_id t \<in> step_id ` set wave" using t by (rule imageI)
    then have "step_id t \<noteq> step_id s" using Cons.prems(3) by auto
    moreover have "step_id t \<notin> downstream_of dag (step_id s)"
      using lt ls by (auto simp: launchable_def)
    ultimately show ?thesis
      using lt skips_downstream [of dag s res] unfolding R launchable_def by blast
  qed
  have "walk_inv dag (fold (fold_result dag) (zip wave rs') ?st) \<and>
    resolved (ws_run ?st) \<union> step_id ` set wave \<subseteq> resolved (ws_run (fold (fold_result dag) (zip wave rs') ?st))"
    using inv next_launch Cons.prems(3,4) rs by (intro Cons.IH) auto
  then show ?case using R rs by auto
qed

lemma gather_length: "snd (gather outs) = Inr rs \<Longrightarrow> length rs = length outs"
  by (induction outs arbitrary: rs rule: gather.induct) (auto simp: bind_result_Inr_iff)

lemma walk_inv_events [simp]: "walk_inv dag (st\<lparr>ws_events := ev\<rparr>) = walk_inv dag st"
  by (simp add: walk_inv_def results_inv_def launch_inv_def)

text \<open>One iteration of the loop.\<close>

lemma wave_step:
  assumes "dag_wf dag" and "walk_inv dag st" and "wave = slice_to (walk_ready dag (ws_run st)) slots"
    and "gather (map (run_step_with_retry lib run (ws_results st)) wave) = (events, Inr rs)"
    and "st' = fold (fold_result dag) (zip wave rs) (st\<lparr>ws_events := ws_events st @ events\<rparr>)"
  shows "walk_inv dag st'"
    and "resolved (ws_run st) \<union> step_id ` set wave \<subseteq> resolved (ws_run st')"
proof -
  let ?st = "st\<lparr>ws_events := ws_events st @ events\<rparr>"
  have len: "length rs = length wave" 
    using gather_length [of "map (run_step_with_retry lib run (ws_results st)) wave" rs] assms(4) by simp
  have "distinct (ready_ids dag (resolved (ws_run st)))"
    using dag.nodes_distinct [OF assms(1)] by (simp add: ready_ids_def)
  then have "distinct (map step_id (walk_ready dag (ws_run st)))"
    by (simp add: walk_ready_ids [OF assms(1)])
  then have d: "distinct (map step_id wave)"
    using assms(3) by (simp add: slice_to_def take_map [symmetric])
  have l: "launchable dag (resolved (ws_run ?st)) s" if "s \<in> set wave" for s
  proof -
    have "s \<in> set (walk_ready dag (ws_run st))" using that set_slice_to assms(3) by fast
    then show ?thesis using ready_launchable [OF assms(1,2)] by simp
  qed
  have "walk_inv dag ?st" using assms(2) by simp
  from fold_wave [OF assms(1) this l d len] show "walk_inv dag st'"
    "resolved (ws_run st) \<union> step_id ` set wave \<subseteq> resolved (ws_run st')"
    by (simp_all add: assms(5))
qed

lemma walk_correct:
  assumes "dag_wf dag"
  shows "walk n lib run dag slots st = Some (Inr st') \<Longrightarrow> walk_inv dag st \<Longrightarrow>
    walk_inv dag st' \<and> (rs_halted (ws_run st') \<or> walk_ready dag (ws_run st') = [])"
proof (induction n arbitrary: st)
  case 0
  then show ?case by (auto simp: walk.simps [of 0] split: if_splits)
next
  case (Suc n)
  show ?case
  proof (cases "rs_halted (ws_run st) \<or> walk_ready dag (ws_run st) = []")
    case True
    with Suc.prems show ?thesis by (auto simp: walk.simps [of "Suc n"] split: if_splits)
  next
    case False
    obtain events outcome where g: "gather (map (run_step_with_retry lib run (ws_results st))
        (slice_to (walk_ready dag (ws_run st)) slots)) = (events, outcome)" by fastforce
    with False Suc.prems(1) obtain rs where rs: "outcome = Inr rs"
      and w: "walk n lib run dag slots (fold (fold_result dag)
        (zip (slice_to (walk_ready dag (ws_run st)) slots) rs) (st\<lparr>ws_events := ws_events st @ events\<rparr>)) =
        Some (Inr st')"
      by (auto simp: walk.simps [of "Suc n"] Let_def split: sum.splits)
    from wave_step(1) [OF assms Suc.prems(2) refl g [unfolded rs] refl] show ?thesis
      by (rule Suc.IH [OF w])
  qed
qed

lemma walk_total:
  assumes "dag_wf dag" and "1 \<le> slots"
  shows "walk_inv dag st \<Longrightarrow> card (set (dag_order dag) - resolved (ws_run st)) \<le> n \<Longrightarrow>
    walk n lib run dag slots st \<noteq> None"
proof (induction n arbitrary: st)
  case 0
  then have "set (dag_order dag) \<subseteq> resolved (ws_run st)" by simp
  then have "ready_ids dag (resolved (ws_run st)) = []"
    by (auto simp: ready_ids_def filter_empty_conv)
  then have "walk_ready dag (ws_run st) = []"
    using walk_ready_ids [OF assms(1), of "ws_run st"] by simp
  then show ?case by (simp add: walk.simps [of 0])
next
  case (Suc n)
  show ?case
  proof (cases "rs_halted (ws_run st) \<or> walk_ready dag (ws_run st) = []")
    case True
    then show ?thesis by (auto simp: walk.simps [of "Suc n"])
  next
    case False
    let ?wave = "slice_to (walk_ready dag (ws_run st)) slots"
    obtain events outcome where g: "gather (map (run_step_with_retry lib run (ws_results st)) ?wave) = (events, outcome)"
      by fastforce
    show ?thesis
    proof (cases outcome)
      case (Inl e)
      with False g show ?thesis by (simp add: walk.simps [of "Suc n"] Let_def)
    next
      case (Inr rs)
      let ?st' = "fold (fold_result dag) (zip ?wave rs) (st\<lparr>ws_events := ws_events st @ events\<rparr>)"
      note step = wave_step [OF assms(1) Suc.prems(1) refl g [unfolded Inr] refl]
      have "?wave \<noteq> []" using slice_to_nonempty [OF assms(2)] False by blast
      then obtain s where s: "s \<in> set ?wave" by (cases ?wave) auto
      then have "s \<in> set (walk_ready dag (ws_run st))" using set_slice_to by fast
      from ready_launchable [OF assms(1) Suc.prems(1) this]
      have "step_id s \<in> set (dag_order dag) - resolved (ws_run st)" by (simp add: launchable_def)
      moreover have "step_id s \<in> resolved (ws_run ?st')" using step(2) s by blast
      ultimately have "set (dag_order dag) - resolved (ws_run ?st') \<subset> set (dag_order dag) - resolved (ws_run st)"
        using step(2) by blast
      then have "card (set (dag_order dag) - resolved (ws_run ?st')) < card (set (dag_order dag) - resolved (ws_run st))"
        by (rule psubset_card_mono [rotated]) simp
      then have "walk n lib run dag slots ?st' \<noteq> None" using step(1) Suc.prems(2) by (intro Suc.IH) auto
      with False g Inr show ?thesis by (simp add: walk.simps [of "Suc n"] Let_def)
    qed
  qed
qed

section \<open>Properties of a run\<close>

lemma execute_given:
  "execute_pipeline n llib lib fs ps comps run (Some p) slots = Some (Inr r) \<Longrightarrow>
     \<exists>dag st. new_dag p = Inr dag \<and> walk n lib run dag slots initial_walk_state = Some (Inr st) \<and>
       r = from_run_state (ws_run st) (ws_outputs st)"
  by (auto simp: execute_pipeline_def split: sum.splits option.splits)

lemma walk_final:
  assumes "new_dag p = Inr dag" and "walk n lib run dag slots initial_walk_state = Some (Inr st)"
  shows "walk_inv dag st"
    and "\<not> rs_halted (ws_run st) \<Longrightarrow> resolved (ws_run st) = step_id ` set (pl_steps p)"
    and "resolved (ws_run st) \<subseteq> step_id ` set (pl_steps p)"
proof -
  have wf: "dag_wf dag" using assms(1) by (auto simp: dag_wf_def)
  note w = walk_correct [OF wf assms(2) walk_inv_initial]
  show inv: "walk_inv dag st" using w by blast
  show sub: "resolved (ws_run st) \<subseteq> step_id ` set (pl_steps p)"
    using inv new_dag_result(4) [OF assms(1)] by (simp add: walk_inv_def partition_inv_def)
  show "resolved (ws_run st) = step_id ` set (pl_steps p)" if "\<not> rs_halted (ws_run st)"
  proof (rule ccontr)
    assume "resolved (ws_run st) \<noteq> step_id ` set (pl_steps p)"
    with sub have "\<not> set (dag_order dag) \<subseteq> resolved (ws_run st)"
      using new_dag_result(4) [OF assms(1)] by blast
    from dag.some_ready [OF wf this] have "ready_ids dag (resolved (ws_run st)) \<noteq> []"
      by (auto simp: ready_ids_def filter_empty_conv)
    moreover have "walk_ready dag (ws_run st) = []" using w that by blast
    ultimately show False using walk_ready_ids [OF wf, of "ws_run st"] by simp
  qed
qed

lemma walk_enough:
  assumes "new_dag p = Inr dag" and "1 \<le> slots" and "length (pl_steps p) \<le> n"
  shows "walk n lib run dag slots initial_walk_state \<noteq> None"
proof -
  have wf: "dag_wf dag" using assms(1) by (auto simp: dag_wf_def)
  have "card (set (dag_order dag) - resolved (ws_run initial_walk_state)) \<le> card (set (map step_id (pl_steps p)))"
    using new_dag_result(4) [OF assms(1)] by (simp add: card_mono)
  also have "\<dots> \<le> length (pl_steps p)" using card_length [of "map step_id (pl_steps p)"] by simp
  finally have "card (set (dag_order dag) - resolved (ws_run initial_walk_state)) \<le> n" using assms(3) by simp
  with walk_total [OF wf assms(2) walk_inv_initial] show ?thesis by blast
qed

text \<open>
  C10: with at least one slot, a run over a given pipeline always ends: as many iterations of the
  wave loop as there are steps are enough, whatever the executors, the sink and the templates
  do.
\<close>
theorem execute_terminates:
  assumes "1 \<le> slots" and "length (pl_steps p) \<le> n"
  shows "execute_pipeline n llib lib fs ps comps run (Some p) slots \<noteq> None"
proof (cases "new_dag p")
  case (Inl e)
  then show ?thesis by (simp add: execute_pipeline_def)
next
  case (Inr dag)
  with walk_enough [OF Inr assms, of lib run] show ?thesis
    by (simp add: execute_pipeline_def split: option.split sum.split)
qed

definition demo_run :: pipeline_run where
  "demo_run = \<lparr>run_pipeline = ''demo'', run_target = ''prod'', run_trigger = ''manual'', run_id = ''r1'',
               run_started_at = 0\<rparr>"

text \<open>Executors that succeed, except on the steps named.\<close>

definition failing_lib :: "string list \<Rightarrow> walk_lib" where
  "failing_lib bad =
     \<lparr>lib_registry = (\<lambda>t. Some (\<lambda>s n. if step_id s \<in> set bad then Inr (new_result Failed None)
                                   else Inr (new_result Succeeded None))),
      lib_render = (\<lambda>t c. Inr t), lib_environ = Map.empty,
      lib_step_started = (\<lambda>s n. None), lib_step_finished = (\<lambda>s r n. None)\<rparr>"

definition mode_step :: "string \<Rightarrow> string list \<Rightarrow> failure_kind \<Rightarrow> pipeline_step" where
  "mode_step i ds k = (sql_step i ds)\<lparr>failure_mode := default_failure_mode\<lparr>fm_mode := k\<rparr>\<rparr>"

definition demo_pipeline :: pipeline where
  "demo_pipeline = pipeline_of
     [mode_step ''a'' [] Skip_Downstream, mode_step ''b'' [''a''] Fail, mode_step ''c'' [''b''] Fail, mode_step ''x'' [] Warn]"

lemma execute_terminates_witness:
  "execute_pipeline 4 demo_lib (failing_lib [''a'']) empty_fs demo_paths Map.empty demo_run (Some demo_pipeline) 1 \<noteq> None"
  by (rule execute_terminates) code_simp+

text \<open>
  with no slot, a run of a pipeline that has a step never ends: every wave is empty and the
  loop starts over with the same state, whatever the fuel.
\<close>
theorem zero_slots_never_end:
  assumes "new_dag p = Inr dag" and "pl_steps p \<noteq> []"
  shows "execute_pipeline n llib lib fs ps comps run (Some p) 0 = None"
proof -
  have wf: "dag_wf dag" using assms(1) by (auto simp: dag_wf_def)
  have "\<not> set (dag_order dag) \<subseteq> {}" using assms(2) new_dag_result(4) [OF assms(1)] by auto
  from dag.some_ready [OF wf this] have "ready_ids dag {} \<noteq> []"
    by (auto simp: ready_ids_def filter_empty_conv)
  then have ready: "walk_ready dag initial_run_state \<noteq> []"
    using walk_ready_ids [OF wf, of initial_run_state] by (auto simp: resolved_def initial_run_state_def)
  have "walk n lib run dag 0 st = None" if "ws_run st = initial_run_state" for st
    using that
  proof (induction n arbitrary: st)
    case 0
    with ready show ?case by (simp add: walk.simps [of 0] initial_run_state_def)
  next
    case (Suc n)
    with ready show ?case by (simp add: walk.simps [of "Suc n"] Let_def initial_run_state_def)
  qed
  then show ?thesis using assms(1) by (simp add: execute_pipeline_def initial_walk_state_def)
qed

lemma zero_slots_never_end_witness:
  "execute_pipeline 1000 demo_lib (failing_lib []) empty_fs demo_paths Map.empty demo_run (Some diamond) 0 = None"
  by (rule zero_slots_never_end [OF new_dag_diamond]) code_simp

text \<open>
  C11: what a run returns partitions the steps: completed, failed and skipped are disjoint and
  name steps of the pipeline, outputs are recorded for exactly the completed steps, and unless
  the run has failed every step is in one of the three.
\<close>
theorem run_result_partitions:
  assumes "execute_pipeline n llib lib fs ps comps run (Some p) slots = Some (Inr r)"
  shows "rr_completed r \<inter> rr_failed r = {} \<and> rr_completed r \<inter> rr_skipped r = {} \<and>
    rr_failed r \<inter> rr_skipped r = {} \<and>
    rr_completed r \<union> rr_failed r \<union> rr_skipped r \<subseteq> step_id ` set (pl_steps p) \<and>
    dom (rr_outputs r) = rr_completed r \<and>
    (rr_status r \<noteq> Run_Failed \<longrightarrow>
       rr_completed r \<union> rr_failed r \<union> rr_skipped r = step_id ` set (pl_steps p))"
proof -
  from execute_given [OF assms] obtain dag st where d: "new_dag p = Inr dag"
    and w: "walk n lib run dag slots initial_walk_state = Some (Inr st)"
    and r: "r = from_run_state (ws_run st) (ws_outputs st)" by blast
  note fin = walk_final [OF d w]
  have parts: "partition_inv dag (ws_run st)" "results_inv st" using fin(1) by (simp_all add: walk_inv_def)
  have "rr_completed r \<union> rr_failed r \<union> rr_skipped r = resolved (ws_run st)"
    by (simp add: r from_run_state_def resolved_def)
  moreover have "rs_halted (ws_run st) \<longleftrightarrow> rr_status r = Run_Failed"
    by (simp add: r from_run_state_def derive_run_status_def)
  ultimately show ?thesis
    using parts fin(2,3) by (simp add: r from_run_state_def partition_inv_def results_inv_def)
qed

lemma demo_outcome:
  "\<exists>r. execute_pipeline 4 demo_lib (failing_lib [''a'']) empty_fs demo_paths Map.empty demo_run (Some demo_pipeline) 1
     = Some (Inr r) \<and> rr_status r = Run_Partial"
proof -
  have "(case execute_pipeline 4 demo_lib (failing_lib [''a'']) empty_fs demo_paths Map.empty demo_run
      (Some demo_pipeline) 1 of Some (Inr r) \<Rightarrow> rr_status r = Run_Partial | _ \<Rightarrow> False)"
    by code_simp
  then show ?thesis by (auto split: option.splits sum.splits)
qed

lemma run_result_partitions_witness:
  "\<exists>r. execute_pipeline 4 demo_lib (failing_lib [''a'']) empty_fs demo_paths Map.empty demo_run (Some demo_pipeline) 1
     = Some (Inr r) \<and> rr_completed r \<union> rr_failed r \<union> rr_skipped r = step_id ` set (pl_steps demo_pipeline)"
  using demo_outcome run_result_partitions by fastforce

text \<open>
  The status of a run over a pipeline with distinct ids: failed exactly when a step under
  \<open>fail\<close> or \<open>retry\<close> failed, succeeded exactly when every step completed.
\<close>
theorem run_status_meaning:
  assumes "execute_pipeline n llib lib fs ps comps run (Some p) slots = Some (Inr r)"
    and "distinct (map step_id (pl_steps p))"
  shows "(rr_status r = Run_Failed \<longleftrightarrow>
      (\<exists>s \<in> set (pl_steps p). step_id s \<in> rr_failed r \<and> fm_mode (failure_mode s) \<in> {Fail, Retry})) \<and>
    (rr_status r = Run_Succeeded \<longleftrightarrow> rr_completed r = step_id ` set (pl_steps p))"
proof -
  from execute_given [OF assms(1)] obtain dag st where d: "new_dag p = Inr dag"
    and w: "walk n lib run dag slots initial_walk_state = Some (Inr st)"
    and r: "r = from_run_state (ws_run st) (ws_outputs st)" by blast
  note fin = walk_final [OF d w]
  let ?F = "rs_failed (ws_run st)" and ?S = "rs_skipped (ws_run st)" and ?ids = "step_id ` set (pl_steps p)"
  have inv: "partition_inv dag (ws_run st)" "status_inv dag (ws_run st)"
    using fin(1) by (simp_all add: walk_inv_def)
  have step: "dag_step dag (step_id s) = Some s" if "s \<in> set (pl_steps p)" for s
    using that new_dag_result(1) [OF d] assms(2)
    by (simp add: dag_step_def step_dict_distinct map_of_eq_Some_iff comp_def)
  have F: "?F \<subseteq> ?ids" using fin(3) by (auto simp: resolved_def)
  have halt: "rs_halted (ws_run st) \<longleftrightarrow>
      (\<exists>s \<in> set (pl_steps p). step_id s \<in> ?F \<and> fm_mode (failure_mode s) \<in> {Fail, Retry})"
  proof -
    have "halting dag (step_id s) \<longleftrightarrow> fm_mode (failure_mode s) \<in> {Fail, Retry}" if "s \<in> set (pl_steps p)" for s
      using step [OF that] by (simp add: halting_def)
    moreover have "rs_halted (ws_run st) \<longleftrightarrow> (\<exists>i \<in> ?F. halting dag i)" using inv(2) by (simp add: status_inv_def)
    ultimately show ?thesis using F by blast
  qed
  have tol: "rs_tolerated_failures (ws_run st) = [] \<longleftrightarrow> (\<forall>i \<in> ?F. halting dag i)"
  proof -
    have "set (rs_tolerated_failures (ws_run st)) = {i \<in> ?F. \<not> halting dag i}"
      using inv(2) by (simp add: status_inv_def)
    then show ?thesis by (metis (no_types, lifting) empty_Collect_eq set_empty)
  qed
  have "rr_status r = Run_Succeeded \<longleftrightarrow> ?F = {} \<and> ?S = {}"
    using tol inv(2) by (auto simp: r from_run_state_def derive_run_status_def status_inv_def)
  also have "\<dots> \<longleftrightarrow> rr_completed r = ?ids"
  proof
    assume e: "?F = {} \<and> ?S = {}"
    then have "\<not> rs_halted (ws_run st)" using inv(2) by (simp add: status_inv_def)
    from fin(2) [OF this] e show "rr_completed r = ?ids" by (simp add: r from_run_state_def resolved_def)
  next
    assume "rr_completed r = ?ids"
    then show "?F = {} \<and> ?S = {}"
      using inv(1) fin(3) by (auto simp: r from_run_state_def partition_inv_def resolved_def)
  qed
  finally show ?thesis
    using halt by (simp add: r from_run_state_def derive_run_status_def)
qed

lemma run_status_meaning_witness:
  "\<exists>r. execute_pipeline 4 demo_lib (failing_lib [''a'']) empty_fs demo_paths Map.empty demo_run (Some demo_pipeline) 1
     = Some (Inr r) \<and> rr_completed r \<noteq> step_id ` set (pl_steps demo_pipeline)"
proof -
  have "distinct (map step_id (pl_steps demo_pipeline))" by code_simp
  with demo_outcome run_status_meaning [of 4 demo_lib "failing_lib [''a'']" empty_fs demo_paths Map.empty
      demo_run demo_pipeline 1]
  show ?thesis by fastforce
qed

text \<open>
  A failed \<open>skip_downstream\<close> step takes everything that transitively depends on it out of the
  run: all of it ends up skipped, none of it completed or failed.
\<close>
theorem skip_downstream_skips:
  assumes "execute_pipeline n llib lib fs ps comps run (Some p) slots = Some (Inr r)"
    and "distinct (map step_id (pl_steps p))" and "s \<in> set (pl_steps p)"
    and "fm_mode (failure_mode s) = Skip_Downstream" and "step_id s \<in> rr_failed r"
    and "(t, step_id s) \<in> (step_edges (pl_steps p))\<^sup>+"
  shows "t \<in> rr_skipped r \<and> t \<notin> rr_completed r \<and> t \<notin> rr_failed r"
proof -
  from execute_given [OF assms(1)] obtain dag st where d: "new_dag p = Inr dag"
    and w: "walk n lib run dag slots initial_walk_state = Some (Inr st)"
    and r: "r = from_run_state (ws_run st) (ws_outputs st)" by blast
  have inv: "partition_inv dag (ws_run st)" "status_inv dag (ws_run st)"
    using walk_final(1) [OF d w] by (simp_all add: walk_inv_def)
  have "dag_step dag (step_id s) = Some s"
    using assms(2,3) new_dag_result(1) [OF d]
    by (simp add: dag_step_def step_dict_distinct map_of_eq_Some_iff comp_def)
  with assms(4) have "skipping dag (step_id s)" by (simp add: skipping_def)
  with inv(2) assms(5) have "downstream_of dag (step_id s) \<subseteq> rr_skipped r"
    by (simp add: status_inv_def r from_run_state_def)
  moreover have "dag_edges dag = step_edges (pl_steps p)"
    using new_dag_result(2) [OF d] by (simp add: dag_edges_edges edges_pipeline_deps edges_step_dict [OF assms(2)])
  then have "t \<in> downstream_of dag (step_id s)"
    using assms(6) downstream_of_trancl [of dag] d by (auto simp: dag_wf_def)
  ultimately show ?thesis using inv(1) by (auto simp: partition_inv_def r from_run_state_def)
qed

lemma demo_failed:
  "\<exists>r. execute_pipeline 4 demo_lib (failing_lib [''a'']) empty_fs demo_paths Map.empty demo_run (Some demo_pipeline) 1
     = Some (Inr r) \<and> ''a'' \<in> rr_failed r"
proof -
  have "(case execute_pipeline 4 demo_lib (failing_lib [''a'']) empty_fs demo_paths Map.empty demo_run
      (Some demo_pipeline) 1 of Some (Inr r) \<Rightarrow> ''a'' \<in> rr_failed r | _ \<Rightarrow> False)"
    by code_simp
  then show ?thesis by (auto split: option.splits sum.splits)
qed

lemma step_edges_list:
  "step_edges steps = set (concat (map (\<lambda>s. map (Pair (step_id s)) (depends_on s)) steps))"
  by (auto simp: step_edges_def)

lemma skip_downstream_skips_witness:
  "\<exists>r. execute_pipeline 4 demo_lib (failing_lib [''a'']) empty_fs demo_paths Map.empty demo_run (Some demo_pipeline) 1
     = Some (Inr r) \<and> ''c'' \<in> rr_skipped r"
proof -
  let ?s = "mode_step ''a'' [] Skip_Downstream"
  have "distinct (map step_id (pl_steps demo_pipeline))" by code_simp
  moreover have "?s \<in> set (pl_steps demo_pipeline)" by (simp add: demo_pipeline_def pipeline_of_def)
  moreover have "fm_mode (failure_mode ?s) = Skip_Downstream" "step_id ?s = ''a''" by code_simp+
  moreover have "(''c'', ''b'') \<in> step_edges (pl_steps demo_pipeline)" "(''b'', ''a'') \<in> step_edges (pl_steps demo_pipeline)"
    unfolding step_edges_list by code_simp+
  then have "(''c'', ''a'') \<in> (step_edges (pl_steps demo_pipeline))\<^sup>+" by (meson trancl.simps)
  moreover note demo_failed
  ultimately show ?thesis using skip_downstream_skips [where p = demo_pipeline and s = ?s and t = "''c''"] by metis
qed


text \<open>
  every resolved step is in the template namespace with its real status, and only those: a
  completed step as succeeded, a failed one as failed, a skipped one as skipped.
\<close>
theorem namespace_is_complete:
  assumes "new_dag p = Inr dag" and "walk n lib run dag slots initial_walk_state = Some (Inr st)"
  shows "jc_steps (make_jinja_context environ run (ws_results st)) i = None \<and> i \<notin> resolved (ws_run st) \<or>
    (\<exists>ns. jc_steps (make_jinja_context environ run (ws_results st)) i = Some ns \<and>
       expected_status (ws_run st) i (sn_status ns) \<and>
       (\<forall>k. expected_status (ws_run st) i k \<longrightarrow> k = sn_status ns))"
proof (cases "ws_results st i")
  case None
  then show ?thesis
    using walk_final(1) [OF assms] by (auto simp: walk_inv_def results_inv_def make_jinja_context_def)
next
  case (Some res)
  have "partition_inv dag (ws_run st)" "results_inv st" using walk_final(1) [OF assms] by (simp_all add: walk_inv_def)
  then have e: "expected_status (ws_run st) i (sr_status res)" and "partition_inv dag (ws_run st)"
    using Some by (simp_all add: results_inv_def)
  then have unique: "expected_status (ws_run st) i k \<Longrightarrow> k = sr_status res" for k
    unfolding partition_inv_def by (cases k; cases "sr_status res"; simp; blast)
  from Some obtain ns where "jc_steps (make_jinja_context environ run (ws_results st)) i = Some ns"
    and "sn_status ns = sr_status res"
    by (simp add: make_jinja_context_def)
  with e unique show ?thesis by metis
qed

definition demo_dag :: pipeline_dag where
  "demo_dag = \<lparr>dag_steps = step_dict (\<lambda>s. s) (pl_steps demo_pipeline), dag_deps = pipeline_deps (pl_steps demo_pipeline),
               dag_order = [''a'', ''b'', ''c'', ''x'']\<rparr>"

lemma new_dag_demo: "new_dag demo_pipeline = Inr demo_dag"
  by code_simp

lemma walk_demo:
  "\<exists>st. walk 4 (failing_lib [''a'']) demo_run demo_dag 1 initial_walk_state = Some (Inr st) \<and>
     ws_launched st = [''a'', ''x''] \<and> ''c'' \<in> rs_skipped (ws_run st)"
proof -
  have "(case walk 4 (failing_lib [''a'']) demo_run demo_dag 1 initial_walk_state of
      Some (Inr st) \<Rightarrow> ws_launched st = [''a'', ''x''] \<and> ''c'' \<in> rs_skipped (ws_run st) | _ \<Rightarrow> False)"
    by code_simp
  then show ?thesis by (auto split: option.splits sum.splits)
qed


lemma namespace_is_complete_witness:
  "\<exists>st. walk 4 (failing_lib [''a'']) demo_run demo_dag 1 initial_walk_state = Some (Inr st) \<and>
     (\<exists>ns. jc_steps (make_jinja_context Map.empty demo_run (ws_results st)) ''c'' = Some ns \<and> sn_status ns = Skipped)"
proof -
  from walk_demo obtain st where w: "walk 4 (failing_lib [''a'']) demo_run demo_dag 1 initial_walk_state = Some (Inr st)"
    and c: "''c'' \<in> rs_skipped (ws_run st)" by blast
  then have "''c'' \<in> resolved (ws_run st)" "expected_status (ws_run st) ''c'' Skipped" by (simp_all add: resolved_def)
  with namespace_is_complete [OF new_dag_demo w, of Map.empty "''c''"] w show ?thesis by metis
qed

section \<open>Retry\<close>

lemma run_attempts_result:
  assumes "snd (run_attempts lib run results step a left) = Inr r"
  shows "\<exists>k \<le> left. snd (launch_step lib run results step (a + k)) = Inr r \<and>
    (sr_status r = Succeeded \<or> k = left) \<and>
    (\<forall>j < k. \<exists>q. snd (launch_step lib run results step (a + j)) = Inr q \<and> sr_status q \<noteq> Succeeded)"
  using assms
proof (induction left arbitrary: a)
  case 0
  then show ?case
    by (cases "launch_step lib run results step a") (auto simp: run_attempts.simps [of _ _ _ _ _ 0] split: sum.splits if_splits)
next
  case (Suc left)
  obtain ev out where l: "launch_step lib run results step a = (ev, out)" by fastforce
  with Suc.prems obtain q where q: "out = Inr q"
    by (auto simp: run_attempts.simps [of _ _ _ _ _ "Suc left"] split: sum.splits)
  show ?case
  proof (cases "sr_status q = Succeeded")
    case True
    with Suc.prems l q show ?thesis
      by (intro exI [of _ 0]) (simp add: run_attempts.simps [of _ _ _ _ _ "Suc left"])
  next
    case False
    have "snd (run_attempts lib run results step (Suc a) left) = Inr r"
      using Suc.prems l q False
      by (auto simp: run_attempts.simps [of _ _ _ _ _ "Suc left"] Let_def split: sum.splits prod.splits)
    from Suc.IH [OF this] obtain k where k: "k \<le> left"
      "snd (launch_step lib run results step (Suc a + k)) = Inr r" "sr_status r = Succeeded \<or> k = left"
      and before: "\<forall>j < k. \<exists>q. snd (launch_step lib run results step (Suc a + j)) = Inr q \<and> sr_status q \<noteq> Succeeded"
      by blast
    have "\<exists>q. snd (launch_step lib run results step (a + j)) = Inr q \<and> sr_status q \<noteq> Succeeded"
      if "j < Suc k" for j
      using that l q False before by (cases j) auto
    with k show ?thesis by (intro exI [of _ "Suc k"]) auto
  qed
qed

text \<open>
  the retry loop: what it returns is the result of attempt \<open>k\<close> for some \<open>k\<close> between 1 and the
  number of attempts the step's mode allows, all earlier attempts having ended without success,
  and it is a success or that last attempt. Outside \<open>retry\<close> mode there is exactly one attempt.
\<close>
theorem retry_returns_first_success_or_last:
  assumes "snd (run_step_with_retry lib run results step) = Inr r"
  shows "\<exists>k. 1 \<le> k \<and> k \<le> max_attempts (failure_mode step) \<and>
    snd (launch_step lib run results step k) = Inr r \<and>
    (sr_status r = Succeeded \<or> k = max_attempts (failure_mode step)) \<and>
    (\<forall>j. 1 \<le> j \<and> j < k \<longrightarrow>
       (\<exists>q. snd (launch_step lib run results step j) = Inr q \<and> sr_status q \<noteq> Succeeded)) \<and>
    (fm_mode (failure_mode step) \<noteq> Retry \<longrightarrow> k = 1)"
proof -
  have one: "1 \<le> max_attempts (failure_mode step)" by (simp add: max_attempts_def)
  from run_attempts_result [OF assms [unfolded run_step_with_retry_def]]
  obtain k where k: "k \<le> max_attempts (failure_mode step) - 1"
    "snd (launch_step lib run results step (1 + k)) = Inr r"
    "sr_status r = Succeeded \<or> k = max_attempts (failure_mode step) - 1"
    and before: "\<forall>j < k. \<exists>q. snd (launch_step lib run results step (1 + j)) = Inr q \<and> sr_status q \<noteq> Succeeded"
    by blast
  have "\<exists>q. snd (launch_step lib run results step j) = Inr q \<and> sr_status q \<noteq> Succeeded"
    if "1 \<le> j" "j < 1 + k" for j
    using before [rule_format, of "j - 1"] that by auto
  moreover have "fm_mode (failure_mode step) \<noteq> Retry \<longrightarrow> max_attempts (failure_mode step) = 1"
    by (simp add: max_attempts_def)
  ultimately show ?thesis using k one by (intro exI [of _ "1 + k"]) auto
qed

definition flaky_lib :: walk_lib where
  "flaky_lib = (failing_lib [])\<lparr>lib_registry :=
     (\<lambda>t. Some (\<lambda>s n. if n < 3 then Inl ''connection reset'' else Inr (new_result Succeeded None)))\<rparr>"

definition retry_step :: pipeline_step where
  "retry_step = (sql_step ''a'' [])\<lparr>failure_mode := default_failure_mode\<lparr>fm_mode := Retry, fm_max_attempts := 5\<rparr>\<rparr>"

lemma retry_returns_first_success_or_last_witness:
  "\<exists>k. 1 \<le> k \<and> k \<le> max_attempts (failure_mode retry_step) \<and>
    snd (launch_step flaky_lib demo_run Map.empty retry_step k) = Inr (new_result Succeeded None)"
proof -
  have "snd (run_step_with_retry flaky_lib demo_run Map.empty retry_step) = Inr (new_result Succeeded None)"
    by code_simp
  from retry_returns_first_success_or_last [OF this] show ?thesis by blast
qed

text \<open>
  the delay before a retry never exceeds the configured maximum, whatever the strategy, and
  with non-negative settings it is never negative; an exponential delay exists for every attempt
  up to the 1024th and no later, where the float product overflows and the exception escapes
  the walk.
\<close>
theorem backoff_delay_bounds:
  "(case backoff_delay b attempt initial max_delay of
      Inl _ \<Rightarrow> b = Exponential \<and> 1024 < attempt
    | Inr d \<Rightarrow> d \<le> max_delay \<and> (initial < 0 \<or> max_delay < 0 \<or> 0 \<le> d) \<and>
        \<not> (b = Exponential \<and> 1024 < attempt))"
  by (cases b) (auto simp: backoff_delay_def min_def not_less)

end
