(* ===== verification/State_Store.thy ===== *)
theory State_Store
  imports Prelude
begin

text \<open>
  The tables of the state store the runtime works on (\<open>core/state/models.py\<close>), the database
  constraints its code relies on, the event emitter (\<open>runtime/events.py\<close>) and the run rows of
  \<open>core/state/repository.py\<close>.

  A table is the list of its rows in insertion order; a value of type \<open>store\<close> is a committed
  state. A transaction is atomic: an operation returns the next committed state or raises and
  leaves the state as it was. The unique and foreign-key constraints are checked when a
  transaction writes; a violation is \<open>Integrity_Error\<close>. Times are microseconds. The ids the code
  draws with \<open>uuid4\<close> are arguments, and so is the instant \<open>now\<close>.

  Columns that no modelled operation reads or writes (token counts, cost, owner of a run) are
  left out.
\<close>

section \<open>Rows\<close>

datatype job_status = Job_Queued | Job_Claimed | Job_Running | Job_Succeeded | Job_Failed | Job_Cancelled | Job_Timed_Out

record job =
  j_id :: string
  j_pipeline :: string
  j_target :: string
  j_status :: job_status
  j_trigger :: string
  j_required_label :: "string option"
  j_scheduled_for :: "int option"
  j_tenant_id :: int
  j_run_id :: "string option"
  j_claimed_by :: "string option"
  j_claimed_at :: "int option"
  j_heartbeat_at :: "int option"
  j_started_at :: "int option"
  j_finished_at :: "int option"
  j_error_message :: "string option"
  j_created_at :: int

datatype run_row_status = Run_Row_Queued | Run_Row_Running | Run_Row_Success | Run_Row_Failed | Run_Row_Cancelled | Run_Row_Crashed

record run_row =
  r_id :: string
  r_kind :: string
  r_target_id :: string
  r_target :: "string option"
  r_pipeline_name :: "string option"
  r_parent_run_id :: "string option"
  r_status :: run_row_status
  r_started_at :: "int option"
  r_completed_at :: "int option"
  r_duration_ms :: "int option"
  r_error_message :: "string option"
  r_created_at :: int

datatype worker_status = Worker_Active | Worker_Stopped

record worker =
  w_id :: string
  w_host :: string
  w_pid :: int
  w_label :: "string option"
  w_tenant_id :: int
  w_status :: worker_status
  w_started_at :: int
  w_last_heartbeat_at :: int

datatype step_run_status = Step_Run_Running | Step_Run_Succeeded | Step_Run_Failed | Step_Run_Skipped

record step_run =
  sx_id :: string
  sx_run_id :: string
  sx_step_id :: string
  sx_step_type :: string
  sx_status :: step_run_status
  sx_attempt :: nat
  sx_outputs :: "(string \<times> json) list"
  sx_error_message :: "string option"
  sx_started_at :: "int option"
  sx_finished_at :: "int option"
  sx_duration_ms :: "int option"
  sx_created_at :: int

record schedule =
  s_id :: string
  s_pipeline :: string
  s_cron :: string
  s_target :: string
  s_paused :: bool
  s_paused_by :: "string option"
  s_pause_reason :: "string option"
  s_timezone :: string
  s_tenant_id :: int
  s_last_fired_at :: "int option"
  s_next_fires_at :: "int option"
  s_created_at :: int
  s_updated_at :: int

record schedule_change =
  sc_pipeline :: string
  sc_change_kind :: string
  sc_before :: "json option"
  sc_after :: json
  sc_actor_token_id :: "string option"
  sc_source :: string
  sc_reason :: "string option"
  sc_tenant_id :: int
  sc_changed_at :: int

record event =
  ev_kind :: string
  ev_payload :: "(string \<times> json) list"
  ev_tenant_id :: int

text \<open>
  \<open>db_emitter\<close>: \<open>None\<close> when no emitter is injected, otherwise whether its insert goes through.
  \<open>db_pipelines\<close> are the keys of the pipelines table.
\<close>

record store =
  db_jobs :: "job list"
  db_runs :: "run_row list"
  db_workers :: "worker list"
  db_step_runs :: "step_run list"
  db_schedules :: "schedule list"
  db_changes :: "schedule_change list"
  db_events :: "event list"
  db_pipelines :: "string list"
  db_emitter :: "bool option"

section \<open>Errors\<close>

datatype db_error =
    Queued_Job_Already_Exists string
  | Pipeline_Already_Running string
  | Not_Found string
  | Schedule_Not_Found string
  | Integrity_Error
  | Cron_Error string

section \<open>Constraints on the jobs table\<close>

definition pipeline_key :: "job \<Rightarrow> string \<times> int" where
  "pipeline_key j = (j_pipeline j, j_tenant_id j)"

definition with_status :: "job_status \<Rightarrow> job list \<Rightarrow> job list" where
  "with_status s js = filter (\<lambda>j. j_status j = s) js"

text \<open>
  The primary key, the two partial unique indexes (one queued and one running job per pipeline
  and tenant) and the foreign key to the runs table.
\<close>

definition one_per_pipeline :: "job_status \<Rightarrow> job list \<Rightarrow> bool" where
  "one_per_pipeline s js = distinct (map pipeline_key (with_status s js))"

definition jobs_ok :: "run_row list \<Rightarrow> job list \<Rightarrow> bool" where
  "jobs_ok runs js \<longleftrightarrow>
     distinct (map j_id js) \<and> one_per_pipeline Job_Queued js \<and> one_per_pipeline Job_Running js \<and>
     list_all (\<lambda>j. case j_run_id j of None \<Rightarrow> True | Some r \<Rightarrow> r \<in> set (map r_id runs)) js"

definition commit_jobs :: "store \<Rightarrow> job list \<Rightarrow> db_error + store" where
  "commit_jobs db js = (if jobs_ok (db_runs db) js then Inr (db\<lparr>db_jobs := js\<rparr>) else Inl Integrity_Error)"

text \<open>\<open>session.get\<close> and the update of one row by its primary key.\<close>

definition find_job :: "job list \<Rightarrow> string \<Rightarrow> job option" where
  "find_job js i = List.find (\<lambda>j. j_id j = i) js"

definition update_job :: "string \<Rightarrow> (job \<Rightarrow> job) \<Rightarrow> job list \<Rightarrow> job list" where
  "update_job i f js = map (\<lambda>j. if j_id j = i then f j else j) js"

section \<open>Events\<close>

text \<open>
  \<open>EventEmitter.emit\<close> behind the \<open>_emit\<close> seams: nothing without an emitter, and best effort with
  one, a failed insert being swallowed.
\<close>

definition emit_with :: "bool option \<Rightarrow> string \<Rightarrow> (string \<times> json) list \<Rightarrow> store \<Rightarrow> store" where
  "emit_with emitter kind payload db =
     (if emitter = Some True
      then db\<lparr>db_events := db_events db @ [\<lparr>ev_kind = kind, ev_payload = payload, ev_tenant_id = 1\<rparr>]\<rparr>
      else db)"

definition emit :: "string \<Rightarrow> (string \<times> json) list \<Rightarrow> store \<Rightarrow> store" where
  "emit kind payload db = emit_with (db_emitter db) kind payload db"

section \<open>Run rows\<close>

definition find_run :: "run_row list \<Rightarrow> string \<Rightarrow> run_row option" where
  "find_run rs i = List.find (\<lambda>r. r_id r = i) rs"

definition update_run :: "string \<Rightarrow> (run_row \<Rightarrow> run_row) \<Rightarrow> run_row list \<Rightarrow> run_row list" where
  "update_run i f rs = map (\<lambda>r. if r_id r = i then f r else r) rs"

definition create_run ::
  "store \<Rightarrow> string \<Rightarrow> int \<Rightarrow> string \<Rightarrow> string \<Rightarrow> string option \<Rightarrow> string option \<Rightarrow> string option \<Rightarrow>
     db_error + store" where
  "create_run db new_id now kind target_id pipeline_name target parent =
     (let row = \<lparr>r_id = new_id, r_kind = kind, r_target_id = target_id, r_target = target,
                 r_pipeline_name = pipeline_name, r_parent_run_id = parent, r_status = Run_Row_Queued,
                 r_started_at = None, r_completed_at = None, r_duration_ms = None,
                 r_error_message = None, r_created_at = now\<rparr>
      in if new_id \<in> set (map r_id (db_runs db))
            \<or> (case pipeline_name of None \<Rightarrow> False | Some p \<Rightarrow> p \<notin> set (db_pipelines db))
            \<or> (case parent of None \<Rightarrow> False | Some r \<Rightarrow> r \<noteq> new_id \<and> r \<notin> set (map r_id (db_runs db)))
         then Inl Integrity_Error
         else Inr (db\<lparr>db_runs := db_runs db @ [row]\<rparr>))"

fun run_terminal :: "run_row_status \<Rightarrow> bool" where
  "run_terminal Run_Row_Queued = False"
| "run_terminal Run_Row_Running = False"
| "run_terminal Run_Row_Success = True"
| "run_terminal Run_Row_Failed = True"
| "run_terminal Run_Row_Cancelled = True"
| "run_terminal Run_Row_Crashed = True"

text \<open>
  \<open>int(delta.total_seconds() * 1000)\<close>, truncation towards zero. The code goes through a float,
  whose rounding can make the result smaller by one; the model is exact.
\<close>

definition elapsed_ms :: "int \<Rightarrow> int" where
  "elapsed_ms d = (if 0 \<le> d then d div 1000 else - ((- d) div 1000))"

definition set_run_status :: "run_row_status \<Rightarrow> string option \<Rightarrow> int \<Rightarrow> run_row \<Rightarrow> run_row" where
  "set_run_status status error now r =
     (let started = (if status = Run_Row_Running \<and> r_started_at r = None then Some now else r_started_at r);
          message = (case error of None \<Rightarrow> r_error_message r | Some e \<Rightarrow> Some e);
          r1 = r\<lparr>r_status := status, r_error_message := message, r_started_at := started\<rparr>
      in if run_terminal status
         then r1\<lparr>r_completed_at := Some now,
                 r_duration_ms := (case started of None \<Rightarrow> r_duration_ms r | Some s \<Rightarrow> Some (elapsed_ms (now - s)))\<rparr>
         else r1)"

definition update_run_status ::
  "store \<Rightarrow> string \<Rightarrow> int \<Rightarrow> run_row_status \<Rightarrow> string option \<Rightarrow> db_error + store" where
  "update_run_status db run_id now status error =
     (case find_run (db_runs db) run_id of
        None \<Rightarrow> Inl (Not_Found run_id)
      | Some r \<Rightarrow> Inr (db\<lparr>db_runs := update_run run_id (set_run_status status error now) (db_runs db)\<rparr>))"

definition get_run :: "store \<Rightarrow> string \<Rightarrow> run_row option" where
  "get_run db i = find_run (db_runs db) i"

text \<open>Newest first; rows of the same instant in insertion order.\<close>

definition list_runs :: "store \<Rightarrow> run_row_status option \<Rightarrow> nat \<Rightarrow> string option \<Rightarrow> run_row list" where
  "list_runs db status limit pipeline_name =
     take limit (sort_key (\<lambda>r. - r_created_at r)
       (filter (\<lambda>r. (status = None \<or> status = Some (r_status r)) \<and>
                    (pipeline_name = None \<or> pipeline_name = r_pipeline_name r)) (db_runs db)))"

definition get_recovery_children :: "store \<Rightarrow> string \<Rightarrow> run_row list" where
  "get_recovery_children db parent =
     sort_key r_created_at (filter (\<lambda>r. r_parent_run_id r = Some parent) (db_runs db))"

definition attach_pipeline_to_run :: "store \<Rightarrow> string \<Rightarrow> string \<Rightarrow> db_error + store" where
  "attach_pipeline_to_run db run_id name =
     (case find_run (db_runs db) run_id of
        None \<Rightarrow> Inl (Not_Found run_id)
      | Some r \<Rightarrow>
          if name \<notin> set (db_pipelines db) then Inl Integrity_Error
          else Inr (db\<lparr>db_runs := update_run run_id (\<lambda>r. r\<lparr>r_pipeline_name := Some name\<rparr>) (db_runs db)\<rparr>))"

section \<open>Lemmas on tables\<close>

lemma emit_with_simps [simp]:
  "db_jobs (emit_with m k p db) = db_jobs db" "db_runs (emit_with m k p db) = db_runs db"
  "db_workers (emit_with m k p db) = db_workers db" "db_step_runs (emit_with m k p db) = db_step_runs db"
  "db_schedules (emit_with m k p db) = db_schedules db" "db_changes (emit_with m k p db) = db_changes db"
  "db_pipelines (emit_with m k p db) = db_pipelines db" "db_emitter (emit_with m k p db) = db_emitter db"
  by (simp_all add: emit_with_def)

lemma emit_simps [simp]:
  "db_jobs (emit k p db) = db_jobs db" "db_runs (emit k p db) = db_runs db"
  "db_workers (emit k p db) = db_workers db" "db_step_runs (emit k p db) = db_step_runs db"
  "db_schedules (emit k p db) = db_schedules db" "db_changes (emit k p db) = db_changes db"
  "db_pipelines (emit k p db) = db_pipelines db" "db_emitter (emit k p db) = db_emitter db"
  by (simp_all add: emit_def)

lemma find_job_Some: "find_job js i = Some j \<Longrightarrow> j \<in> set js \<and> j_id j = i"
  unfolding find_job_def by (induction js) (auto split: if_splits)

lemma find_job_None: "find_job js i = None \<longleftrightarrow> i \<notin> j_id ` set js"
  unfolding find_job_def by (induction js) auto

lemma find_job_iff:
  "distinct (map j_id js) \<Longrightarrow> find_job js i = Some j \<longleftrightarrow> j \<in> set js \<and> j_id j = i"
  unfolding find_job_def by (induction js) (auto simp: image_iff)

lemma map_id_update_job [simp]:
  "(\<And>j. j_id (f j) = j_id j) \<Longrightarrow> map j_id (update_job i f js) = map j_id js"
  by (simp add: update_job_def)

lemma find_job_update:
  "(\<And>j. j_id (f j) = j_id j) \<Longrightarrow>
     find_job (update_job i f js) k = (if k = i then map_option f (find_job js i) else find_job js k)"
  unfolding find_job_def update_job_def by (induction js) auto

lemma find_run_Some: "find_run rs i = Some r \<Longrightarrow> r \<in> set rs \<and> r_id r = i"
  unfolding find_run_def by (induction rs) (auto split: if_splits)

lemma find_run_None: "find_run rs i = None \<longleftrightarrow> i \<notin> r_id ` set rs"
  unfolding find_run_def by (induction rs) auto

lemma map_id_update_run [simp]:
  "(\<And>r. r_id (f r) = r_id r) \<Longrightarrow> map r_id (update_run i f rs) = map r_id rs"
  by (simp add: update_run_def)

lemma find_run_update:
  "(\<And>r. r_id (f r) = r_id r) \<Longrightarrow>
     find_run (update_run i f rs) k = (if k = i then map_option f (find_run rs i) else find_run rs k)"
  unfolding find_run_def update_run_def by (induction rs) auto

lemma set_run_status_id [simp]: "r_id (set_run_status status error now r) = r_id r"
  by (simp add: set_run_status_def Let_def)

lemma commit_jobs_Inr: "commit_jobs db js = Inr db' \<longleftrightarrow> jobs_ok (db_runs db) js \<and> db' = db\<lparr>db_jobs := js\<rparr>"
  by (auto simp: commit_jobs_def)

lemma commit_jobs_Inl: "commit_jobs db js = Inl e \<longleftrightarrow> \<not> jobs_ok (db_runs db) js \<and> e = Integrity_Error"
  by (auto simp: commit_jobs_def)

text \<open>The foreign key only gets easier when runs are added, and stays when they are updated.\<close>

lemma jobs_ok_runs:
  "jobs_ok runs js \<Longrightarrow> set (map r_id runs) \<subseteq> set (map r_id runs') \<Longrightarrow> jobs_ok runs' js"
  by (auto simp: jobs_ok_def list_all_iff split: option.splits)

end
