(* ===== verification/Job_Queue.thy ===== *)
theory Job_Queue
  imports State_Store "HOL-Library.Product_Lexorder"
begin

text \<open>
  The durable job queue (\<open>core/state/job_queue.py\<close>): enqueueing deduplicated by the partial
  unique index, the claim, the guarded and unguarded transitions, heartbeats, reclaiming,
  workers and step runs.

  Each method is one transaction. \<open>locked\<close> are the ids of the rows other transactions hold
  locked at that moment, which \<open>FOR UPDATE SKIP LOCKED\<close> passes over. Where the SQL order leaves
  ties open the model takes the row inserted first.
\<close>

section \<open>Enqueueing\<close>

definition new_job ::
  "string \<Rightarrow> int \<Rightarrow> string \<Rightarrow> string \<Rightarrow> string \<Rightarrow> int option \<Rightarrow> string option \<Rightarrow> int \<Rightarrow> job" where
  "new_job new_id now pipeline target trigger scheduled_for required_label tenant =
     \<lparr>j_id = new_id, j_pipeline = pipeline, j_target = target, j_status = Job_Queued, j_trigger = trigger,
      j_required_label = required_label, j_scheduled_for = scheduled_for, j_tenant_id = tenant,
      j_run_id = None, j_claimed_by = None, j_claimed_at = None, j_heartbeat_at = None,
      j_started_at = None, j_finished_at = None, j_error_message = None, j_created_at = now\<rparr>"

definition queued_conflict :: "job list \<Rightarrow> string \<Rightarrow> int \<Rightarrow> job option" where
  "queued_conflict js pipeline tenant =
     List.find (\<lambda>j. j_status j = Job_Queued \<and> j_pipeline j = pipeline \<and> j_tenant_id j = tenant) js"

definition queued_payload :: "string \<Rightarrow> string \<Rightarrow> string \<Rightarrow> string \<Rightarrow> int option \<Rightarrow> (string \<times> json) list" where
  "queued_payload job_id pipeline target trigger scheduled_for =
     [(''job_id'', JString job_id), (''pipeline'', JString pipeline), (''target'', JString target),
      (''trigger'', JString trigger), (''scheduled_for'', opt_json JTime scheduled_for)]"

definition enqueue_scheduled ::
  "store \<Rightarrow> string \<Rightarrow> int \<Rightarrow> string \<Rightarrow> string \<Rightarrow> int option \<Rightarrow> string option \<Rightarrow> int \<Rightarrow> db_error + store \<times> job" where
  "enqueue_scheduled db new_id now pipeline target scheduled_for required_label tenant =
     (case queued_conflict (db_jobs db) pipeline tenant of
        Some _ \<Rightarrow> Inl (Queued_Job_Already_Exists pipeline)
      | None \<Rightarrow>
          (let job = new_job new_id now pipeline target ''scheduled'' scheduled_for required_label tenant in
           bind_result (commit_jobs db (db_jobs db @ [job])) (\<lambda>db'.
             Inr (emit ''job.queued'' (queued_payload new_id pipeline target ''scheduled'' scheduled_for) db', job))))"

definition refresh_queued :: "string \<Rightarrow> string \<Rightarrow> string option \<Rightarrow> job \<Rightarrow> job" where
  "refresh_queued trigger target required_label j =
     j\<lparr>j_trigger := trigger, j_target := target, j_scheduled_for := None, j_required_label := required_label\<rparr>"

definition enqueue_manual ::
  "store \<Rightarrow> string \<Rightarrow> int \<Rightarrow> string \<Rightarrow> string \<Rightarrow> string \<Rightarrow> string option \<Rightarrow> int \<Rightarrow> db_error + store \<times> job" where
  "enqueue_manual db new_id now pipeline target trigger required_label tenant =
     (let (job, js) =
        (case queued_conflict (db_jobs db) pipeline tenant of
           Some j \<Rightarrow>
             (refresh_queued trigger target required_label j,
              update_job (j_id j) (refresh_queued trigger target required_label) (db_jobs db))
         | None \<Rightarrow>
             (let job = new_job new_id now pipeline target trigger None required_label tenant
              in (job, db_jobs db @ [job])))
      in bind_result (commit_jobs db js) (\<lambda>db'.
           Inr (emit ''job.queued'' (queued_payload (j_id job) pipeline target trigger None) db', job)))"

section \<open>The claim\<close>

definition claimable :: "string set \<Rightarrow> int \<Rightarrow> string option \<Rightarrow> int \<Rightarrow> job \<Rightarrow> bool" where
  "claimable locked now worker_label tenant j \<longleftrightarrow>
     j_status j = Job_Queued \<and> j_tenant_id j = tenant \<and>
     (case j_scheduled_for j of None \<Rightarrow> True | Some t \<Rightarrow> t \<le> now) \<and>
     (case j_required_label j of None \<Rightarrow> True | Some l \<Rightarrow> worker_label = Some l) \<and>
     j_id j \<notin> locked"

text \<open>\<open>ORDER BY scheduled_for ASC NULLS LAST, created_at ASC\<close>\<close>

definition claim_order :: "job \<Rightarrow> nat \<times> int \<times> int" where
  "claim_order j =
     (case j_scheduled_for j of None \<Rightarrow> (1, 0, j_created_at j) | Some t \<Rightarrow> (0, t, j_created_at j))"

definition claim_candidates :: "store \<Rightarrow> string set \<Rightarrow> string option \<Rightarrow> int \<Rightarrow> int \<Rightarrow> job list" where
  "claim_candidates db locked worker_label tenant now =
     sort_key claim_order (filter (claimable locked now worker_label tenant) (db_jobs db))"

definition set_claimed :: "string \<Rightarrow> int \<Rightarrow> job \<Rightarrow> job" where
  "set_claimed worker_id now j =
     j\<lparr>j_status := Job_Claimed, j_claimed_by := Some worker_id, j_claimed_at := Some now,
       j_heartbeat_at := Some now\<rparr>"

definition claim_next ::
  "store \<Rightarrow> string set \<Rightarrow> string \<Rightarrow> string option \<Rightarrow> int \<Rightarrow> int \<Rightarrow> db_error + store \<times> job option" where
  "claim_next db locked worker_id worker_label tenant now =
     (case claim_candidates db locked worker_label tenant now of
        [] \<Rightarrow> Inr (db, None)
      | j # _ \<Rightarrow>
          bind_result (commit_jobs db (update_job (j_id j) (set_claimed worker_id now) (db_jobs db))) (\<lambda>db'.
            Inr (emit ''job.claimed'' [(''job_id'', JString (j_id j)), (''worker_id'', JString worker_id)] db',
                 Some (set_claimed worker_id now j))))"

section \<open>Transitions\<close>

definition set_running :: "string \<Rightarrow> int \<Rightarrow> job \<Rightarrow> job" where
  "set_running run_id now j = j\<lparr>j_status := Job_Running, j_run_id := Some run_id, j_started_at := Some now\<rparr>"

text \<open>Every integrity error of the statement is reported as \<open>PipelineAlreadyRunning\<close>.\<close>

definition as_already_running :: "string \<Rightarrow> db_error + 'a \<Rightarrow> db_error + 'a" where
  "as_already_running subject r =
     (case r of Inl e \<Rightarrow> Inl (if e = Integrity_Error then Pipeline_Already_Running subject else e) | Inr x \<Rightarrow> Inr x)"

definition transition_to_running ::
  "store \<Rightarrow> string \<Rightarrow> string \<Rightarrow> string option \<Rightarrow> int \<Rightarrow> db_error + store \<times> bool" where
  "transition_to_running db job_id run_id expected now =
     (let promote = (\<lambda>subject. as_already_running subject
                      (commit_jobs db (update_job job_id (set_running run_id now) (db_jobs db))))
      in case expected of
           Some worker_id \<Rightarrow>
             (case find_job (db_jobs db) job_id of
                Some j \<Rightarrow>
                  if j_claimed_by j = Some worker_id \<and> j_status j = Job_Claimed
                  then bind_result (promote job_id) (\<lambda>db'. Inr (db', True)) else Inr (db, False)
              | None \<Rightarrow> Inr (db, False))
         | None \<Rightarrow>
             (case find_job (db_jobs db) job_id of
                None \<Rightarrow> Inl (Not_Found job_id)
              | Some j \<Rightarrow> bind_result (promote (j_pipeline j)) (\<lambda>db'. Inr (db', True))))"

definition set_finished :: "job_status \<Rightarrow> string option \<Rightarrow> int \<Rightarrow> job \<Rightarrow> job" where
  "set_finished status error now j =
     j\<lparr>j_status := status, j_finished_at := Some now,
       j_error_message := (case error of None \<Rightarrow> j_error_message j | Some e \<Rightarrow> Some e)\<rparr>"

definition mark_finished ::
  "store \<Rightarrow> string \<Rightarrow> job_status \<Rightarrow> string option \<Rightarrow> string option \<Rightarrow> int \<Rightarrow> db_error + store \<times> bool" where
  "mark_finished db job_id status error expected now =
     (let finish = commit_jobs db (update_job job_id (set_finished status error now) (db_jobs db))
      in case expected of
           Some worker_id \<Rightarrow>
             (case find_job (db_jobs db) job_id of
                Some j \<Rightarrow>
                  if j_claimed_by j = Some worker_id \<and> (j_status j = Job_Claimed \<or> j_status j = Job_Running)
                  then bind_result finish (\<lambda>db'. Inr (db', True)) else Inr (db, False)
              | None \<Rightarrow> Inr (db, False))
         | None \<Rightarrow>
             (case find_job (db_jobs db) job_id of
                None \<Rightarrow> Inl (Not_Found job_id)
              | Some j \<Rightarrow> bind_result finish (\<lambda>db'. Inr (db', True))))"

definition set_released :: "job \<Rightarrow> job" where
  "set_released j = j\<lparr>j_status := Job_Queued, j_claimed_by := None, j_claimed_at := None\<rparr>"

definition release_claim :: "store \<Rightarrow> string \<Rightarrow> db_error + store" where
  "release_claim db job_id =
     (case find_job (db_jobs db) job_id of
        None \<Rightarrow> Inl (Not_Found job_id)
      | Some j \<Rightarrow> commit_jobs db (update_job job_id set_released (db_jobs db)))"

definition update_heartbeat :: "store \<Rightarrow> string \<Rightarrow> string option \<Rightarrow> int \<Rightarrow> db_error + store" where
  "update_heartbeat db job_id expected now =
     (case find_job (db_jobs db) job_id of
        None \<Rightarrow> Inl (Not_Found job_id)
      | Some j \<Rightarrow>
          if expected \<noteq> None \<and> j_claimed_by j \<noteq> expected then Inr db
          else commit_jobs db (update_job job_id (\<lambda>j. j\<lparr>j_heartbeat_at := Some now\<rparr>) (db_jobs db)))"

section \<open>Reclaiming stale jobs\<close>

definition stale :: "string set \<Rightarrow> int \<Rightarrow> int \<Rightarrow> job \<Rightarrow> bool" where
  "stale locked cutoff tenant j \<longleftrightarrow>
     (j_status j = Job_Claimed \<or> j_status j = Job_Running) \<and> j_tenant_id j = tenant \<and>
     (case j_heartbeat_at j of None \<Rightarrow> False | Some h \<Rightarrow> h < cutoff) \<and> j_id j \<notin> locked"

definition set_reclaimed :: "job \<Rightarrow> job" where
  "set_reclaimed j =
     j\<lparr>j_status := Job_Queued, j_claimed_by := None, j_claimed_at := None, j_heartbeat_at := None\<rparr>"

definition reclaim_stale ::
  "store \<Rightarrow> string set \<Rightarrow> int \<Rightarrow> int \<Rightarrow> int \<Rightarrow>
     db_error + store \<times> (string \<times> string option \<times> string option) list" where
  "reclaim_stale db locked now threshold tenant =
     (let is_stale = stale locked (now - threshold) tenant in
      bind_result (commit_jobs db (map (\<lambda>j. if is_stale j then set_reclaimed j else j) (db_jobs db))) (\<lambda>db'.
        Inr (db', map (\<lambda>j. (j_id j, j_run_id j, j_claimed_by j)) (filter is_stale (db_jobs db)))))"

section \<open>Reads\<close>

definition get_job :: "store \<Rightarrow> string \<Rightarrow> job option" where
  "get_job db i = find_job (db_jobs db) i"

definition list_jobs :: "store \<Rightarrow> job_status option \<Rightarrow> int \<Rightarrow> nat \<Rightarrow> job list" where
  "list_jobs db status tenant limit =
     take limit (sort_key (\<lambda>j. - j_created_at j)
       (filter (\<lambda>j. j_tenant_id j = tenant \<and> (status = None \<or> status = Some (j_status j))) (db_jobs db)))"

section \<open>Workers\<close>

definition find_worker :: "store \<Rightarrow> string \<Rightarrow> worker option" where
  "find_worker db i = List.find (\<lambda>w. w_id w = i) (db_workers db)"

definition refresh_worker :: "string \<Rightarrow> int \<Rightarrow> string option \<Rightarrow> int \<Rightarrow> worker \<Rightarrow> worker" where
  "refresh_worker host pid label now w =
     w\<lparr>w_host := host, w_pid := pid, w_label := label, w_status := Worker_Active, w_last_heartbeat_at := now\<rparr>"

definition register_worker ::
  "store \<Rightarrow> string \<Rightarrow> string \<Rightarrow> int \<Rightarrow> string option \<Rightarrow> int \<Rightarrow> int \<Rightarrow> store" where
  "register_worker db worker_id host pid label tenant now =
     emit ''worker.registered''
       [(''worker_id'', JString worker_id), (''host'', JString host), (''pid'', JInt pid)]
       (case find_worker db worker_id of
          None \<Rightarrow> db\<lparr>db_workers := db_workers db @
            [\<lparr>w_id = worker_id, w_host = host, w_pid = pid, w_label = label, w_tenant_id = tenant,
              w_status = Worker_Active, w_started_at = now, w_last_heartbeat_at = now\<rparr>]\<rparr>
        | Some _ \<Rightarrow> db\<lparr>db_workers :=
            map (\<lambda>w. if w_id w = worker_id then refresh_worker host pid label now w else w) (db_workers db)\<rparr>)"

definition stop_worker :: "int \<Rightarrow> worker \<Rightarrow> worker" where
  "stop_worker now w = w\<lparr>w_status := Worker_Stopped, w_last_heartbeat_at := now\<rparr>"

definition unregister_worker :: "store \<Rightarrow> string \<Rightarrow> int \<Rightarrow> store" where
  "unregister_worker db worker_id now =
     (case find_worker db worker_id of
        None \<Rightarrow> db
      | Some w \<Rightarrow>
          emit ''worker.unregistered''
            [(''worker_id'', JString worker_id), (''host'', JString (w_host w)), (''pid'', JInt (w_pid w))]
            (db\<lparr>db_workers :=
               map (\<lambda>w. if w_id w = worker_id then stop_worker now w else w) (db_workers db)\<rparr>))"

definition list_workers :: "store \<Rightarrow> int \<Rightarrow> worker list" where
  "list_workers db tenant =
     sort_key (\<lambda>w. - w_started_at w) (filter (\<lambda>w. w_tenant_id w = tenant) (db_workers db))"

section \<open>Step runs\<close>

definition create_step_run ::
  "store \<Rightarrow> string \<Rightarrow> string \<Rightarrow> string \<Rightarrow> string \<Rightarrow> nat \<Rightarrow> int option \<Rightarrow> int \<Rightarrow> db_error + store" where
  "create_step_run db new_id run_id step_id step_type attempt started_at now =
     (let row = \<lparr>sx_id = new_id, sx_run_id = run_id, sx_step_id = step_id, sx_step_type = step_type,
                 sx_status = Step_Run_Running, sx_attempt = attempt, sx_outputs = [], sx_error_message = None,
                 sx_started_at = Some (case started_at of None \<Rightarrow> now | Some t \<Rightarrow> t),
                 sx_finished_at = None, sx_duration_ms = None, sx_created_at = now\<rparr>
      in if new_id \<in> set (map sx_id (db_step_runs db)) \<or> run_id \<notin> set (map r_id (db_runs db))
         then Inl Integrity_Error
         else Inr (db\<lparr>db_step_runs := db_step_runs db @ [row]\<rparr>))"

definition finish_step_run ::
  "store \<Rightarrow> string \<Rightarrow> step_run_status \<Rightarrow> (string \<times> json) list \<Rightarrow> string option \<Rightarrow> int option \<Rightarrow> int option \<Rightarrow> int \<Rightarrow>
     db_error + store" where
  "finish_step_run db step_run_id status outputs error finished_at duration_ms now =
     (if step_run_id \<notin> set (map sx_id (db_step_runs db)) then Inl (Not_Found step_run_id)
      else Inr (db\<lparr>db_step_runs :=
        map (\<lambda>s. if sx_id s = step_run_id
                 then s\<lparr>sx_status := status, sx_outputs := outputs, sx_error_message := error,
                        sx_finished_at := Some (case finished_at of None \<Rightarrow> now | Some t \<Rightarrow> t),
                        sx_duration_ms := duration_ms\<rparr>
                 else s) (db_step_runs db)\<rparr>))"

definition list_step_runs :: "store \<Rightarrow> string \<Rightarrow> step_run list" where
  "list_step_runs db run_id = sort_key sx_created_at (filter (\<lambda>s. sx_run_id s = run_id) (db_step_runs db))"

section \<open>The constraints under a change of rows\<close>

lemma one_per_pipeline_map:
  assumes "one_per_pipeline s js" and "\<And>j. j \<in> set js \<Longrightarrow> pipeline_key (g j) = pipeline_key j"
    and "\<And>j. j \<in> set js \<Longrightarrow> j_status (g j) = s \<Longrightarrow> j_status j = s"
  shows "one_per_pipeline s (map g js)"
proof -
  have "map pipeline_key (with_status s (map g js)) = map pipeline_key (filter (\<lambda>j. j_status (g j) = s) js)"
    using assms(2) by (simp add: with_status_def filter_map comp_def)
  moreover have "distinct (map pipeline_key (filter (\<lambda>j. j_status (g j) = s) js))"
    using assms(1,3) unfolding one_per_pipeline_def with_status_def by (rule distinct_map_filter_weaken)
  ultimately show ?thesis by (simp add: one_per_pipeline_def)
qed

lemma jobs_ok_map_intro:
  assumes "jobs_ok runs js" and "\<And>j. j_id (g j) = j_id j" and "\<And>j. j_run_id (g j) = j_run_id j"
    and "one_per_pipeline Job_Queued (map g js)" and "one_per_pipeline Job_Running (map g js)"
  shows "jobs_ok runs (map g js)"
  using assms by (simp add: jobs_ok_def list_all_iff comp_def)

lemma jobs_ok_map:
  assumes "jobs_ok runs js" and "\<And>j. j_id (g j) = j_id j" and "\<And>j. pipeline_key (g j) = pipeline_key j"
    and "\<And>j. j \<in> set js \<Longrightarrow> j_run_id (g j) = j_run_id j"
    and "\<And>j. j \<in> set js \<Longrightarrow> j_status (g j) = Job_Queued \<Longrightarrow> j_status j = Job_Queued"
    and "\<And>j. j \<in> set js \<Longrightarrow> j_status (g j) = Job_Running \<Longrightarrow> j_status j = Job_Running"
  shows "jobs_ok runs (map g js)"
  using assms one_per_pipeline_map [of Job_Queued js g] one_per_pipeline_map [of Job_Running js g]
  by (simp add: jobs_ok_def list_all_iff comp_def)

lemma jobs_ok_update:
  assumes "jobs_ok runs js" and "\<And>j. j_id (f j) = j_id j" and "\<And>j. pipeline_key (f j) = pipeline_key j"
    and "\<And>j. j_run_id (f j) = j_run_id j"
    and "\<And>j. j \<in> set js \<Longrightarrow> j_id j = i \<Longrightarrow> j_status (f j) = Job_Queued \<Longrightarrow> j_status j = Job_Queued"
    and "\<And>j. j \<in> set js \<Longrightarrow> j_id j = i \<Longrightarrow> j_status (f j) = Job_Running \<Longrightarrow> j_status j = Job_Running"
  shows "jobs_ok runs (update_job i f js)"
  unfolding update_job_def using assms by (intro jobs_ok_map) (auto split: if_splits)

lemma queued_conflict_None:
  "queued_conflict js p t = None \<longleftrightarrow> (p, t) \<notin> pipeline_key ` set (with_status Job_Queued js)"
  unfolding queued_conflict_def with_status_def pipeline_key_def by (induction js) auto

lemma queued_conflict_Some:
  "queued_conflict js p t = Some j \<Longrightarrow> j \<in> set js \<and> j_status j = Job_Queued \<and> j_pipeline j = p \<and> j_tenant_id j = t"
  unfolding queued_conflict_def by (induction js) (auto split: if_splits)

lemma jobs_ok_append:
  assumes "jobs_ok runs js" and "j_id k \<notin> j_id ` set js" and "j_status k = Job_Queued" and "j_run_id k = None"
    and "queued_conflict js (j_pipeline k) (j_tenant_id k) = None"
  shows "jobs_ok runs (js @ [k])"
  using assms
  by (auto simp: jobs_ok_def one_per_pipeline_def queued_conflict_None pipeline_key_def with_status_def)

text \<open>The queued jobs of one pipeline: none, or the one the index admits.\<close>

definition queued_for :: "job list \<Rightarrow> string \<Rightarrow> int \<Rightarrow> job list" where
  "queued_for js p t = filter (\<lambda>j. pipeline_key j = (p, t)) (with_status Job_Queued js)"

lemma distinct_map_filter_unique:
  "distinct (map f xs) \<Longrightarrow> x \<in> set xs \<Longrightarrow> f x = a \<Longrightarrow> filter (\<lambda>y. f y = a) xs = [x]"
  by (induction xs) (auto simp: filter_empty_conv image_iff)

lemma queued_for_conflict:
  assumes "one_per_pipeline Job_Queued js"
  shows "queued_for js p t = (case queued_conflict js p t of None \<Rightarrow> [] | Some j \<Rightarrow> [j])"
proof (cases "queued_conflict js p t")
  case None
  then have "queued_for js p t = []"
    unfolding queued_for_def queued_conflict_None by (auto simp: filter_empty_conv image_iff)
  with None show ?thesis by simp
next
  case (Some j)
  then have "j \<in> set (with_status Job_Queued js)" "pipeline_key j = (p, t)"
    by (auto simp: with_status_def pipeline_key_def dest: queued_conflict_Some)
  with assms Some show ?thesis
    by (simp add: queued_for_def one_per_pipeline_def distinct_map_filter_unique)
qed

section \<open>Enqueueing: properties\<close>

lemma enqueue_scheduled_result:
  assumes "jobs_ok (db_runs db) (db_jobs db)" and "new_id \<notin> j_id ` set (db_jobs db)"
  shows "enqueue_scheduled db new_id now p target sched label tenant =
    (if queued_for (db_jobs db) p tenant \<noteq> [] then Inl (Queued_Job_Already_Exists p)
     else Inr (emit ''job.queued'' (queued_payload new_id p target ''scheduled'' sched)
                 (db\<lparr>db_jobs := db_jobs db @ [new_job new_id now p target ''scheduled'' sched label tenant]\<rparr>),
               new_job new_id now p target ''scheduled'' sched label tenant))"
proof -
  have one: "one_per_pipeline Job_Queued (db_jobs db)" using assms(1) by (simp add: jobs_ok_def)
  show ?thesis
  proof (cases "queued_conflict (db_jobs db) p tenant")
    case None
    have "jobs_ok (db_runs db) (db_jobs db @ [new_job new_id now p target ''scheduled'' sched label tenant])"
      using assms None by (intro jobs_ok_append) (simp_all add: new_job_def)
    with None show ?thesis
      by (simp add: enqueue_scheduled_def queued_for_conflict [OF one] commit_jobs_def Let_def)
  next
    case (Some j)
    then show ?thesis by (simp add: enqueue_scheduled_def queued_for_conflict [OF one])
  qed
qed

text \<open>
  in a consistent store and with a fresh id, \<open>enqueue_scheduled\<close> has exactly two outcomes: if
  the pipeline has a queued job for the tenant it raises \<open>QueuedJobAlreadyExists\<close>, otherwise it
  appends the new queued job. No integrity error is possible, and a queued job is never
  duplicated.
\<close>
theorem enqueue_scheduled_dedups:
  assumes "jobs_ok (db_runs db) (db_jobs db)" and "new_id \<notin> j_id ` set (db_jobs db)"
  shows "enqueue_scheduled db new_id now p target sched label tenant =
    (if queued_for (db_jobs db) p tenant \<noteq> [] then Inl (Queued_Job_Already_Exists p)
     else Inr (emit ''job.queued'' (queued_payload new_id p target ''scheduled'' sched)
                 (db\<lparr>db_jobs := db_jobs db @ [new_job new_id now p target ''scheduled'' sched label tenant]\<rparr>),
               new_job new_id now p target ''scheduled'' sched label tenant))"
  using assms by (rule enqueue_scheduled_result)

definition empty_store :: store where
  "empty_store = \<lparr>db_jobs = [], db_runs = [], db_workers = [], db_step_runs = [], db_schedules = [],
                  db_changes = [], db_events = [], db_pipelines = [], db_emitter = Some True\<rparr>"

text \<open>A store with one scheduled job.\<close>

definition one_job_store :: store where
  "one_job_store = empty_store\<lparr>db_jobs := [new_job ''j1'' 5 ''sales'' ''prod'' ''scheduled'' (Some 5) None 1]\<rparr>"

lemma enqueue_scheduled_dedups_witness:
  "enqueue_scheduled one_job_store ''j2'' 9 ''sales'' ''prod'' (Some 9) None 1 =
     Inl (Queued_Job_Already_Exists ''sales'')"
proof -
  have "jobs_ok (db_runs one_job_store) (db_jobs one_job_store)" "''j2'' \<notin> j_id ` set (db_jobs one_job_store)"
    "queued_for (db_jobs one_job_store) ''sales'' 1 \<noteq> []" by code_simp+
  with enqueue_scheduled_dedups [of one_job_store "''j2''" 9 "''sales''" "''prod''" "Some 9" None 1]
  show ?thesis by simp
qed

text \<open>
  A manual trigger always succeeds and coalesces: afterwards the pipeline has exactly one
  queued job for the tenant, with the trigger's target and label and no due time; it keeps the
  id of the job that was queued before, if there was one.
\<close>
theorem enqueue_manual_coalesces:
  assumes "jobs_ok (db_runs db) (db_jobs db)" and "new_id \<notin> j_id ` set (db_jobs db)"
  shows "\<exists>db' j. enqueue_manual db new_id now p target trigger label tenant = Inr (db', j) \<and>
    queued_for (db_jobs db') p tenant = [j] \<and> jobs_ok (db_runs db') (db_jobs db') \<and>
    j_trigger j = trigger \<and> j_target j = target \<and> j_scheduled_for j = None \<and> j_required_label j = label \<and>
    j_id j = (case queued_for (db_jobs db) p tenant of [] \<Rightarrow> new_id | q # _ \<Rightarrow> j_id q)"
proof -
  have one: "one_per_pipeline Job_Queued (db_jobs db)" using assms(1) by (simp add: jobs_ok_def)
  show ?thesis
  proof (cases "queued_conflict (db_jobs db) p tenant")
    case None
    let ?j = "new_job new_id now p target trigger None label tenant"
    have ok: "jobs_ok (db_runs db) (db_jobs db @ [?j])"
      using assms None by (intro jobs_ok_append) (simp_all add: new_job_def)
    have "queued_for (db_jobs db @ [?j]) p tenant = [?j]"
      using queued_for_conflict [OF one, of p tenant] None
      by (simp add: queued_for_def with_status_def new_job_def pipeline_key_def)
    with ok None show ?thesis
      by (simp add: enqueue_manual_def commit_jobs_def Let_def queued_for_conflict [OF one]) (simp add: new_job_def)
  next
    case (Some q)
    let ?f = "refresh_queued trigger target label"
    note q = queued_conflict_Some [OF Some]
    have ok: "jobs_ok (db_runs db) (update_job (j_id q) ?f (db_jobs db))"
      using assms(1) by (intro jobs_ok_update) (simp_all add: refresh_queued_def pipeline_key_def)
    then have one': "one_per_pipeline Job_Queued (update_job (j_id q) ?f (db_jobs db))"
      by (simp add: jobs_ok_def)
    have mem: "?f q \<in> set (with_status Job_Queued (update_job (j_id q) ?f (db_jobs db)))"
      using q by (auto simp: with_status_def update_job_def refresh_queued_def)
    have "queued_for (update_job (j_id q) ?f (db_jobs db)) p tenant = [?f q]"
      unfolding queued_for_def
    proof (rule distinct_map_filter_unique)
      show "pipeline_key (?f q) = (p, tenant)" using q by (simp add: pipeline_key_def refresh_queued_def)
    qed (use one' mem in \<open>simp_all add: one_per_pipeline_def\<close>)
    with ok Some show ?thesis
      by (simp add: enqueue_manual_def commit_jobs_def Let_def queued_for_conflict [OF one]) (simp add: refresh_queued_def)
  qed
qed

lemma enqueue_manual_coalesces_witness:
  "\<exists>db' j. enqueue_manual one_job_store ''j2'' 9 ''sales'' ''dev'' ''manual'' None 1 = Inr (db', j) \<and>
     queued_for (db_jobs db') ''sales'' 1 = [j] \<and> j_id j = ''j1''"
proof -
  have "jobs_ok (db_runs one_job_store) (db_jobs one_job_store)" "''j2'' \<notin> j_id ` set (db_jobs one_job_store)"
    "map j_id (queued_for (db_jobs one_job_store) ''sales'' 1) = [''j1'']" by code_simp+
  with enqueue_manual_coalesces [of one_job_store "''j2''" 9 "''sales''" "''dev''" "''manual''" None 1]
  show ?thesis by (auto split: list.splits)
qed

section \<open>Claiming: properties\<close>

lemma jobs_ok_claim:
  "jobs_ok runs js \<Longrightarrow> jobs_ok runs (update_job i (set_claimed w now) js)"
  by (intro jobs_ok_update) (simp_all add: set_claimed_def pipeline_key_def)

lemma claim_candidates_set:
  "set (claim_candidates db locked label tenant now) =
     {j \<in> set (db_jobs db). claimable locked now label tenant j}"
  by (auto simp: claim_candidates_def)

lemma claim_candidates_least:
  "claim_candidates db locked label tenant now = j # rest \<Longrightarrow>
     k \<in> set (db_jobs db) \<Longrightarrow> claimable locked now label tenant k \<Longrightarrow> claim_order j \<le> claim_order k"
proof -
  assume c: "claim_candidates db locked label tenant now = j # rest"
    and k: "k \<in> set (db_jobs db)" "claimable locked now label tenant k"
  have "sorted (map claim_order (claim_candidates db locked label tenant now))"
    by (simp add: claim_candidates_def)
  moreover have "k \<in> set (j # rest)" 
    using k claim_candidates_set [of db locked label tenant now] c by auto
  ultimately show ?thesis using c by auto
qed

definition claim_result :: "store \<Rightarrow> string set \<Rightarrow> string \<Rightarrow> string option \<Rightarrow> int \<Rightarrow> int \<Rightarrow> store \<times> job option \<Rightarrow> bool" where
  "claim_result db locked w label tenant now res =
     (case res of
        (db', None) \<Rightarrow> db' = db \<and> (\<forall>k \<in> set (db_jobs db). \<not> claimable locked now label tenant k)
      | (db', Some j') \<Rightarrow>
          (\<exists>j \<in> set (db_jobs db). claimable locked now label tenant j \<and> j' = set_claimed w now j \<and>
             (\<forall>k \<in> set (db_jobs db). claimable locked now label tenant k \<longrightarrow> claim_order j \<le> claim_order k) \<and>
             db_jobs db' = update_job (j_id j) (set_claimed w now) (db_jobs db)))"

lemma claim_next_result:
  assumes "jobs_ok (db_runs db) (db_jobs db)"
  shows "\<exists>res. claim_next db locked w label tenant now = Inr res \<and> claim_result db locked w label tenant now res"
proof (cases "claim_candidates db locked label tenant now")
  case Nil
  then have "\<forall>k \<in> set (db_jobs db). \<not> claimable locked now label tenant k"
    using claim_candidates_set [of db locked label tenant now] by auto
  with Nil show ?thesis by (simp add: claim_next_def claim_result_def)
next
  case (Cons j rest)
  have j: "j \<in> set (db_jobs db)" "claimable locked now label tenant j"
    using claim_candidates_set [of db locked label tenant now] Cons by auto
  have least: "\<forall>k \<in> set (db_jobs db). claimable locked now label tenant k \<longrightarrow> claim_order j \<le> claim_order k"
    using claim_candidates_least [OF Cons] by blast
  have ok: "jobs_ok (db_runs db) (update_job (j_id j) (set_claimed w now) (db_jobs db))"
    using assms by (rule jobs_ok_claim)
  have "claim_next db locked w label tenant now =
      Inr (emit ''job.claimed'' [(''job_id'', JString (j_id j)), (''worker_id'', JString w)]
             (db\<lparr>db_jobs := update_job (j_id j) (set_claimed w now) (db_jobs db)\<rparr>),
           Some (set_claimed w now j))"
    using Cons ok by (simp add: claim_next_def commit_jobs_def)
  moreover have "claim_result db locked w label tenant now
      (emit ''job.claimed'' [(''job_id'', JString (j_id j)), (''worker_id'', JString w)]
         (db\<lparr>db_jobs := update_job (j_id j) (set_claimed w now) (db_jobs db)\<rparr>),
       Some (set_claimed w now j))"
    using j least by (auto simp: claim_result_def)
  ultimately show ?thesis by blast
qed

text \<open>
  In a consistent store a claim never raises. It returns nothing exactly when no unlocked job
  is queued, due, of the tenant and compatible with the worker's label; otherwise it claims one
  that comes first in the claim order and changes no other row.
\<close>
theorem claim_next_takes_the_first:
  assumes "jobs_ok (db_runs db) (db_jobs db)"
  shows "\<exists>res. claim_next db locked w label tenant now = Inr res \<and> claim_result db locked w label tenant now res"
  using assms by (rule claim_next_result)

lemma claim_next_takes_the_first_witness:
  "\<exists>res. claim_next one_job_store {} ''w1'' None 1 7 = Inr res \<and>
     claim_result one_job_store {} ''w1'' None 1 7 res"
  by (rule claim_next_takes_the_first) code_simp

lemma claim_next_Some:
  assumes "jobs_ok (db_runs db) (db_jobs db)" and "claim_next db locked w label tenant now = Inr (db', Some j')"
  obtains j where "j \<in> set (db_jobs db)" "claimable locked now label tenant j" "j' = set_claimed w now j"
    "\<forall>k \<in> set (db_jobs db). claimable locked now label tenant k \<longrightarrow> claim_order j \<le> claim_order k"
    "db_jobs db' = update_job (j_id j) (set_claimed w now) (db_jobs db)"
proof -
  from claim_next_result [OF assms(1), of locked w label tenant now] assms(2)
  have "claim_result db locked w label tenant now (db', Some j')" by auto
  then show ?thesis using that by (auto simp: claim_result_def)
qed

text \<open>
  A worker without a label only ever claims jobs without one, and a labelled worker only jobs
  without a label or with its own.
\<close>
lemma claim_respects_labels:
  assumes "jobs_ok (db_runs db) (db_jobs db)" and "claim_next db locked w label tenant now = Inr (db', Some j)"
  shows "j_required_label j = None \<or> label \<noteq> None \<and> j_required_label j = label"
proof -
  obtain k where "claimable locked now label tenant k" "j = set_claimed w now k"
    using assms by (rule claim_next_Some)
  then show ?thesis by (auto simp: claimable_def set_claimed_def split: option.splits)
qed

lemma claim_one_job:
  "claim_next one_job_store {} ''w1'' None 1 7 =
     Inr (emit ''job.claimed'' [(''job_id'', JString ''j1''), (''worker_id'', JString ''w1'')]
            (one_job_store\<lparr>db_jobs := map (set_claimed ''w1'' 7) (db_jobs one_job_store)\<rparr>),
          Some (set_claimed ''w1'' 7 (hd (db_jobs one_job_store))))"
proof -
  have "claim_candidates one_job_store {} None 1 7 = db_jobs one_job_store" by code_simp
  moreover have "jobs_ok [] (map (set_claimed ''w1'' 7) (db_jobs one_job_store))" by code_simp
  ultimately show ?thesis
    by (simp add: claim_next_def one_job_store_def empty_store_def commit_jobs_def update_job_def new_job_def)
qed

text \<open>
  manual jobs wait for scheduled ones: as long as some claimable job has a due time, no claim
  returns a job without one, although a manual trigger clears the due time so that the job runs
  as soon as possible (\<open>NULLS LAST\<close>).
\<close>
theorem scheduled_jobs_come_first:
  assumes "jobs_ok (db_runs db) (db_jobs db)" and "claim_next db locked w label tenant now = Inr (db', Some j)"
    and "k \<in> set (db_jobs db)" and "claimable locked now label tenant k" and "j_scheduled_for k = Some t"
  shows "j_scheduled_for j \<noteq> None"
proof -
  obtain i where i: "j = set_claimed w now i"
    and least: "\<forall>k \<in> set (db_jobs db). claimable locked now label tenant k \<longrightarrow> claim_order i \<le> claim_order k"
    using assms(1,2) by (rule claim_next_Some)
  from least assms(3,4) have "claim_order i \<le> claim_order k" by blast
  with assms(5) i show ?thesis
    by (auto simp: claim_order_def set_claimed_def split: option.splits)
qed

lemma scheduled_jobs_come_first_witness:
  "j_scheduled_for (set_claimed ''w1'' 7 (hd (db_jobs one_job_store))) \<noteq> None"
proof -
  let ?k = "hd (db_jobs one_job_store)"
  have "jobs_ok (db_runs one_job_store) (db_jobs one_job_store)" "?k \<in> set (db_jobs one_job_store)"
    "claimable {} 7 None 1 ?k" "j_scheduled_for ?k = Some 5" by code_simp+
  from scheduled_jobs_come_first [OF this(1) claim_one_job this(2-4)] show ?thesis .
qed

section \<open>Reclaiming: properties\<close>

lemma set_reclaimed_simps [simp]:
  "j_id (set_reclaimed j) = j_id j" "pipeline_key (set_reclaimed j) = pipeline_key j"
  "j_run_id (set_reclaimed j) = j_run_id j" "j_status (set_reclaimed j) = Job_Queued"
  by (simp_all add: set_reclaimed_def pipeline_key_def)

text \<open>
  when no pipeline of a stale job has another queued or stale job, one pass reclaims exactly
  the stale jobs: it returns each with the run and the worker it had, and every one of them is
  queued again without a claim or a heartbeat, every other row untouched.
\<close>
theorem reclaim_takes_all_stale:
  assumes "jobs_ok (db_runs db) (db_jobs db)"
    and "distinct (map pipeline_key (filter (\<lambda>j. j_status j = Job_Queued \<or> stale locked (now - threshold) tenant j) (db_jobs db)))"
  shows "reclaim_stale db locked now threshold tenant =
    Inr (db\<lparr>db_jobs := map (\<lambda>j. if stale locked (now - threshold) tenant j then set_reclaimed j else j) (db_jobs db)\<rparr>,
         map (\<lambda>j. (j_id j, j_run_id j, j_claimed_by j)) (filter (stale locked (now - threshold) tenant) (db_jobs db)))"
proof -
  let ?s = "stale locked (now - threshold) tenant"
  let ?g = "\<lambda>j. if ?s j then set_reclaimed j else j"
  have key: "pipeline_key (?g j) = pipeline_key j" for j by simp
  have "with_status Job_Queued (map ?g (db_jobs db)) = map ?g (filter (\<lambda>j. j_status j = Job_Queued \<or> ?s j) (db_jobs db))"
    unfolding with_status_def filter_map comp_def
    by (intro arg_cong [where f = "map ?g"] filter_cong) auto
  then have "one_per_pipeline Job_Queued (map ?g (db_jobs db))"
    using assms(2) by (simp add: one_per_pipeline_def comp_def key)
  moreover have "one_per_pipeline Job_Running (map ?g (db_jobs db))"
    using assms(1) by (intro one_per_pipeline_map) (auto simp: jobs_ok_def split: if_splits)
  ultimately have "jobs_ok (db_runs db) (map ?g (db_jobs db))"
    by (intro jobs_ok_map_intro [OF assms(1)]) simp_all
  then show ?thesis by (simp add: reclaim_stale_def Let_def commit_jobs_def)
qed

text \<open>A running job whose worker died at instant 10, and optionally the next scheduled one.\<close>

definition crashed_job :: job where
  "crashed_job = (new_job ''j1'' 5 ''sales'' ''prod'' ''scheduled'' (Some 5) None 1)
     \<lparr>j_status := Job_Running, j_claimed_by := Some ''w1'', j_heartbeat_at := Some 10, j_run_id := Some ''r1''\<rparr>"

definition other_crashed_job :: job where
  "other_crashed_job = crashed_job\<lparr>j_id := ''j3'', j_pipeline := ''costs''\<rparr>"

definition run_one :: run_row where
  "run_one = \<lparr>r_id = ''r1'', r_kind = ''pipeline'', r_target_id = ''j1'', r_target = Some ''prod'',
              r_pipeline_name = None, r_parent_run_id = None, r_status = Run_Row_Running,
              r_started_at = Some 6, r_completed_at = None, r_duration_ms = None,
              r_error_message = None, r_created_at = 6\<rparr>"

definition crashed_store :: store where
  "crashed_store = empty_store\<lparr>db_jobs := [crashed_job, other_crashed_job], db_runs := [run_one]\<rparr>"

definition crashed_and_queued_store :: store where
  "crashed_and_queued_store = empty_store\<lparr>db_runs := [run_one],
     db_jobs := [crashed_job, new_job ''j2'' 20 ''sales'' ''prod'' ''scheduled'' (Some 20) None 1, other_crashed_job]\<rparr>"

lemma reclaim_takes_all_stale_witness:
  "reclaim_stale crashed_store {} 100 60 1 =
     Inr (crashed_store\<lparr>db_jobs := [set_reclaimed crashed_job, set_reclaimed other_crashed_job]\<rparr>,
          [(''j1'', Some ''r1'', Some ''w1''), (''j3'', Some ''r1'', Some ''w1'')])"
proof -
  have "jobs_ok (db_runs crashed_store) (db_jobs crashed_store)"
    "distinct (map pipeline_key (filter (\<lambda>j. j_status j = Job_Queued \<or> stale {} (100 - 60) 1 j) (db_jobs crashed_store)))"
    "map (\<lambda>j. if stale {} (100 - 60) 1 j then set_reclaimed j else j) (db_jobs crashed_store) =
       [set_reclaimed crashed_job, set_reclaimed other_crashed_job]"
    "map (\<lambda>j. (j_id j, j_run_id j, j_claimed_by j)) (filter (stale {} (100 - 60) 1) (db_jobs crashed_store)) =
       [(''j1'', Some ''r1'', Some ''w1''), (''j3'', Some ''r1'', Some ''w1'')]"
    by code_simp+
  from reclaim_takes_all_stale [OF this(1,2)] this(3,4) show ?thesis by simp
qed

text \<open>
  one stale job whose pipeline already has the next job queued blocks the reaper: the single
  update would give the pipeline two queued jobs, the unique index rejects the whole statement,
  and none of the stale jobs of the tenant is reclaimed.
\<close>
theorem reclaim_blocked_by_queued_job:
  assumes "j \<in> set (db_jobs db)" and "stale locked (now - threshold) tenant j"
    and "q \<in> set (db_jobs db)" and "j_status q = Job_Queued" and "pipeline_key q = pipeline_key j"
  shows "reclaim_stale db locked now threshold tenant = Inl Integrity_Error"
proof -
  let ?s = "stale locked (now - threshold) tenant"
  let ?g = "\<lambda>k. if ?s k then set_reclaimed k else k"
  have nq: "\<not> ?s q" using assms(4) by (simp add: stale_def)
  have jq: "j \<noteq> q" using assms(2) nq by blast
  obtain A B where split: "db_jobs db = A @ j # B" using assms(1) by (blast dest: split_list)
  have "q \<in> set A \<or> q \<in> set B" using assms(3) jq split by auto
  then have "\<not> distinct (map pipeline_key (with_status Job_Queued (map ?g (A @ j # B))))"
  proof
    assume "q \<in> set A"
    then have "?g q \<in> set (with_status Job_Queued (map ?g A))" using assms(4) nq by (auto simp: with_status_def)
    then have "pipeline_key j \<in> pipeline_key ` set (with_status Job_Queued (map ?g A))"
      using nq assms(5) by (intro image_eqI [of _ _ "?g q"]) simp_all
    then show ?thesis using assms(2) by (auto simp: with_status_def)
  next
    assume "q \<in> set B"
    then have "?g q \<in> set (with_status Job_Queued (map ?g B))" using assms(4) nq by (auto simp: with_status_def)
    then have "pipeline_key j \<in> pipeline_key ` set (with_status Job_Queued (map ?g B))"
      using nq assms(5) by (intro image_eqI [of _ _ "?g q"]) simp_all
    then show ?thesis using assms(2) by (auto simp: with_status_def)
  qed
  then have "\<not> jobs_ok (db_runs db) (map ?g (db_jobs db))"
    using split by (simp add: jobs_ok_def one_per_pipeline_def)
  then show ?thesis by (simp add: reclaim_stale_def Let_def commit_jobs_def)
qed

lemma reclaim_blocked_by_queued_job_witness:
  "reclaim_stale crashed_and_queued_store {} 100 60 1 = Inl Integrity_Error"
proof -
  let ?q = "new_job ''j2'' 20 ''sales'' ''prod'' ''scheduled'' (Some 20) None 1"
  have "crashed_job \<in> set (db_jobs crashed_and_queued_store)" "stale {} (100 - 60) 1 crashed_job"
    "?q \<in> set (db_jobs crashed_and_queued_store)" "j_status ?q = Job_Queued"
    "pipeline_key ?q = pipeline_key crashed_job" by code_simp+
  then show ?thesis by (rule reclaim_blocked_by_queued_job)
qed

section \<open>Transitions: properties\<close>

lemma set_running_simps [simp]:
  "j_id (set_running r now j) = j_id j" "pipeline_key (set_running r now j) = pipeline_key j"
  "j_status (set_running r now j) = Job_Running" "j_run_id (set_running r now j) = Some r"
  by (simp_all add: set_running_def pipeline_key_def)

lemma update_job_split:
  assumes "distinct (map j_id js)" and "find_job js i = Some j"
  obtains A B where "js = A @ j # B" and "update_job i f js = A @ f j # B"
proof -
  have j: "j \<in> set js" "j_id j = i" using find_job_Some [OF assms(2)] by auto
  then obtain A B where split: "js = A @ j # B" by (blast dest: split_list)
  with assms(1) j have "i \<notin> j_id ` set A" "i \<notin> j_id ` set B" by (auto simp: image_iff)
  then have "update_job i f A = A" "update_job i f B = B"
    by (auto simp: update_job_def map_idI image_iff intro!: map_idI)
  with split j that show ?thesis by (simp add: update_job_def)
qed

lemma jobs_ok_promote:
  assumes "jobs_ok runs js" and "find_job js i = Some j" and "j_status j = Job_Claimed"
  shows "jobs_ok runs (update_job i (set_running r now) js) \<longleftrightarrow>
    r \<in> r_id ` set runs \<and> (\<forall>k \<in> set js. j_status k = Job_Running \<longrightarrow> pipeline_key k \<noteq> pipeline_key j)"
proof -
  have d: "distinct (map j_id js)" using assms(1) by (simp add: jobs_ok_def)
  obtain A B where js: "js = A @ j # B" and up: "update_job i (set_running r now) js = A @ set_running r now j # B"
    using d assms(2) by (rule update_job_split)
  have "(\<forall>k \<in> set js. j_status k = Job_Running \<longrightarrow> pipeline_key k \<noteq> pipeline_key j) \<longleftrightarrow>
      pipeline_key j \<notin> pipeline_key ` set (with_status Job_Running A) \<and>
      pipeline_key j \<notin> pipeline_key ` set (with_status Job_Running B)"
    using assms(3) unfolding js with_status_def image_iff by auto
  then show ?thesis
    using assms(1,3) unfolding up unfolding js
    by (auto simp: jobs_ok_def one_per_pipeline_def with_status_def)
qed

text \<open>
  promotion by the owner of a claim, in a consistent store: it succeeds and changes only that
  row if the run row exists and no job of the pipeline is running; otherwise it reports
  \<open>PipelineAlreadyRunning\<close>, also when the only fault is a missing run row. For anyone who does
  not hold the claim it is a no-op.
\<close>
theorem promotion_outcomes:
  assumes "jobs_ok (db_runs db) (db_jobs db)"
  shows "transition_to_running db i r (Some w) now =
    (case find_job (db_jobs db) i of
       None \<Rightarrow> Inr (db, False)
     | Some j \<Rightarrow>
         if j_claimed_by j \<noteq> Some w \<or> j_status j \<noteq> Job_Claimed then Inr (db, False)
         else if r \<in> r_id ` set (db_runs db) \<and>
                 (\<forall>k \<in> set (db_jobs db). j_status k = Job_Running \<longrightarrow> pipeline_key k \<noteq> pipeline_key j)
         then Inr (db\<lparr>db_jobs := update_job i (set_running r now) (db_jobs db)\<rparr>, True)
         else Inl (Pipeline_Already_Running i))"
proof (cases "find_job (db_jobs db) i")
  case None
  then show ?thesis by (simp add: transition_to_running_def Let_def)
next
  case (Some j)
  show ?thesis
  proof (cases "j_claimed_by j = Some w \<and> j_status j = Job_Claimed")
    case True
    then have "jobs_ok (db_runs db) (update_job i (set_running r now) (db_jobs db)) \<longleftrightarrow>
        r \<in> r_id ` set (db_runs db) \<and>
        (\<forall>k \<in> set (db_jobs db). j_status k = Job_Running \<longrightarrow> pipeline_key k \<noteq> pipeline_key j)"
      using jobs_ok_promote [OF assms Some] by blast
    with True Some show ?thesis
      by (simp add: transition_to_running_def Let_def commit_jobs_def as_already_running_def)
  next
    case False
    with Some show ?thesis by (auto simp: transition_to_running_def Let_def)
  qed
qed

definition claimed_store :: store where
  "claimed_store = one_job_store\<lparr>db_jobs := map (set_claimed ''w1'' 7) (db_jobs one_job_store)\<rparr>"

lemma promotion_outcomes_witness:
  "transition_to_running claimed_store ''j1'' ''r1'' (Some ''w1'') 8 = Inl (Pipeline_Already_Running ''j1'')"
proof -
  have "jobs_ok (db_runs claimed_store) (db_jobs claimed_store)"
    "find_job (db_jobs claimed_store) ''j1'' = Some (set_claimed ''w1'' 7 (hd (db_jobs one_job_store)))"
    "''r1'' \<notin> r_id ` set (db_runs claimed_store)"
    by code_simp+
  with promotion_outcomes [of claimed_store "''j1''" "''r1''" "''w1''" 8]
  show ?thesis by (simp add: set_claimed_def)
qed

section \<open>Ownership\<close>

text \<open>
  The contract of the guarded writes: an action of worker \<open>w\<close> leaves every row that is not
  claimed by \<open>w\<close> as it is.
\<close>

locale owned_rows =
  fixes row :: "'s \<Rightarrow> string \<Rightarrow> 'r option"
    and owner :: "'r \<Rightarrow> string option"
    and act :: "'a \<Rightarrow> string \<Rightarrow> 's \<Rightarrow> 's"
  assumes foreign_row: "row s i = Some r \<Longrightarrow> owner r \<noteq> Some w \<Longrightarrow> row (act a w s) i = Some r"
begin

lemma foreign_rows:
  "row s i = Some r \<Longrightarrow> owner r \<noteq> Some w \<Longrightarrow> row (fold (\<lambda>a. act a w) actions s) i = Some r"
  by (induction actions arbitrary: s) (auto simp: foreign_row)

text \<open>Any schedule of actions by several workers, none of which owns the row.\<close>

lemma foreign_rows_interleaved:
  assumes "row s i = Some r" and "list_all (\<lambda>(a, w). owner r \<noteq> Some w) actions"
  shows "row (fold (\<lambda>(a, w). act a w) actions s) i = Some r"
  using assms by (induction actions arbitrary: s) (auto simp: foreign_row)

end

text \<open>The writes a worker makes about a job it has claimed.\<close>

datatype guarded_write =
    Start_Write string string int
  | Finish_Write string job_status "string option" int
  | Beat_Write string int

definition committed :: "store \<Rightarrow> db_error + store \<times> 'a \<Rightarrow> store" where
  "committed db r = (case r of Inl e \<Rightarrow> db | Inr (db', x) \<Rightarrow> db')"

fun do_write :: "guarded_write \<Rightarrow> string \<Rightarrow> store \<Rightarrow> store" where
  "do_write (Start_Write i r now) w db = committed db (transition_to_running db i r (Some w) now)"
| "do_write (Finish_Write i status e now) w db = committed db (mark_finished db i status e (Some w) now)"
| "do_write (Beat_Write i now) w db = (case update_heartbeat db i (Some w) now of Inl e \<Rightarrow> db | Inr db' \<Rightarrow> db')"

lemma do_write_jobs:
  "db_jobs (do_write a w db) = db_jobs db \<or>
   (\<exists>i f j. (\<forall>k. j_id (f k) = j_id k) \<and> find_job (db_jobs db) i = Some j \<and> j_claimed_by j = Some w \<and>
      db_jobs (do_write a w db) = update_job i f (db_jobs db))"
proof (cases a)
  case (Start_Write i r now)
  have "db_jobs (do_write a w db) = db_jobs db \<or> (\<exists>j. find_job (db_jobs db) i = Some j \<and> j_claimed_by j = Some w \<and>
      db_jobs (do_write a w db) = update_job i (set_running r now) (db_jobs db))"
    using Start_Write by (simp add: transition_to_running_def committed_def Let_def as_already_running_def
      commit_jobs_def split: option.split)
  then show ?thesis using set_running_simps(1) by blast
next
  case (Finish_Write i status e now)
  have "j_id (set_finished status e now k) = j_id k" for k by (simp add: set_finished_def)
  moreover have "db_jobs (do_write a w db) = db_jobs db \<or> (\<exists>j. find_job (db_jobs db) i = Some j \<and> j_claimed_by j = Some w \<and>
      db_jobs (do_write a w db) = update_job i (set_finished status e now) (db_jobs db))"
    using Finish_Write by (simp add: mark_finished_def committed_def Let_def commit_jobs_def split: option.split)
  ultimately show ?thesis by blast
next
  case (Beat_Write i now)
  have "j_id (k\<lparr>j_heartbeat_at := Some now\<rparr>) = j_id k" for k :: job by simp
  moreover have "db_jobs (do_write a w db) = db_jobs db \<or> (\<exists>j. find_job (db_jobs db) i = Some j \<and> j_claimed_by j = Some w \<and>
      db_jobs (do_write a w db) = update_job i (\<lambda>k. k\<lparr>j_heartbeat_at := Some now\<rparr>) (db_jobs db))"
    using Beat_Write by (simp add: update_heartbeat_def commit_jobs_def split: option.split)
  ultimately show ?thesis by blast
qed

interpretation guarded: owned_rows "\<lambda>db :: store. find_job (db_jobs db)" j_claimed_by do_write
proof unfold_locales
  fix db :: store and i j w a
  assume row: "find_job (db_jobs db) i = Some j" and foreign: "j_claimed_by j \<noteq> Some w"
  from do_write_jobs [of a w db] show "find_job (db_jobs (do_write a w db)) i = Some j"
  proof (elim disjE exE conjE)
    fix k f q
    assume "\<forall>k. j_id (f k) = j_id k" "find_job (db_jobs db) k = Some q" "j_claimed_by q = Some w"
      "db_jobs (do_write a w db) = update_job k f (db_jobs db)"
    moreover from this(2,3) row foreign have "i \<noteq> k" by auto
    ultimately show ?thesis using row by (simp add: find_job_update)
  qed (use row in simp)
qed

text \<open>
  A zombie cannot stomp a new owner: no sequence of guarded writes (start, finish, heartbeat)
  by workers that do not hold the claim on a job changes its row.
\<close>
theorem zombies_never_stomp:
  assumes "find_job (db_jobs db) i = Some j" and "list_all (\<lambda>(a, w). j_claimed_by j \<noteq> Some w) writes"
  shows "find_job (db_jobs (fold (\<lambda>(a, w). do_write a w) writes db)) i = Some j"
  using assms by (rule guarded.foreign_rows_interleaved)

lemma zombies_never_stomp_witness:
  "find_job (db_jobs (fold (\<lambda>(a, w). do_write a w)
      [(Beat_Write ''j1'' 50, ''w2''), (Finish_Write ''j1'' Job_Failed None 51, ''w2'')] claimed_store)) ''j1'' =
   Some (set_claimed ''w1'' 7 (hd (db_jobs one_job_store)))"
  by (rule zombies_never_stomp) code_simp+

end
