(* ===== verification/Scheduler.thy ===== *)
theory Scheduler
  imports Job_Queue "HOL-Library.List_Lexorder"
begin

text \<open>
  Schedules and the scheduler: the cron wrapper (\<open>runtime/cron.py\<close>), the schedules repository
  with its audit trail (\<open>core/state/schedules.py\<close>), one pass of the scheduler
  (\<open>runtime/scheduler.py\<close>) and the boundary arithmetic of its clock (\<open>runtime/clock.py\<close>).

  \<open>croniter\<close> and \<open>zoneinfo\<close> are the fields of the argument \<open>cl\<close>; instants are aware and in UTC,
  so the zone of a computation is an argument of \<open>cl_get_next\<close> and \<open>cl_get_prev\<close>. What the
  lemmas use of croniter is the hypothesis \<open>cron_lib_ok\<close>: the next tick is later and the
  previous one earlier than the start.
\<close>

section \<open>Cron\<close>

record cron_lib =
  cl_is_valid :: "string \<Rightarrow> bool"
  cl_has_zone :: "string \<Rightarrow> bool"
  cl_get_next :: "string \<Rightarrow> string \<Rightarrow> int \<Rightarrow> int option"
  cl_get_prev :: "string \<Rightarrow> string \<Rightarrow> int \<Rightarrow> int option"

definition cron_lib_ok :: "cron_lib \<Rightarrow> bool" where
  "cron_lib_ok cl \<longleftrightarrow>
     (\<forall>c z t n. cl_get_next cl c z t = Some n \<longrightarrow> t < n) \<and>
     (\<forall>c z t p. cl_get_prev cl c z t = Some p \<longrightarrow> p < t)"

definition is_valid_cron :: "cron_lib \<Rightarrow> string \<Rightarrow> bool" where
  "is_valid_cron cl expr = cl_is_valid cl expr"

definition is_valid_timezone :: "cron_lib \<Rightarrow> string \<Rightarrow> bool" where
  "is_valid_timezone cl name = cl_has_zone cl name"

definition with_zone_and_cron :: "cron_lib \<Rightarrow> string \<Rightarrow> string \<Rightarrow> int option \<Rightarrow> db_error + int" where
  "with_zone_and_cron cl cron timezone tick =
     (if \<not> cl_has_zone cl timezone then Inl (Cron_Error timezone)
      else if \<not> cl_is_valid cl cron then Inl (Cron_Error cron)
      else case tick of None \<Rightarrow> Inl (Cron_Error cron) | Some t \<Rightarrow> Inr t)"

definition next_tick_after :: "cron_lib \<Rightarrow> string \<Rightarrow> int \<Rightarrow> string \<Rightarrow> db_error + int" where
  "next_tick_after cl cron after timezone =
     with_zone_and_cron cl cron timezone (cl_get_next cl cron timezone after)"

definition this_tick_at :: "cron_lib \<Rightarrow> string \<Rightarrow> int \<Rightarrow> string \<Rightarrow> db_error + int" where
  "this_tick_at cl cron now timezone =
     with_zone_and_cron cl cron timezone (cl_get_prev cl cron timezone (now + 1))"

section \<open>Schedules\<close>

definition schedule_key :: "schedule \<Rightarrow> string \<times> int" where
  "schedule_key s = (s_pipeline s, s_tenant_id s)"

text \<open>The check constraint on the origin of a pause.\<close>

definition pause_origin_ok :: "schedule \<Rightarrow> bool" where
  "pause_origin_ok s \<longleftrightarrow>
     (\<not> s_paused s \<and> s_paused_by s = None) \<or>
     (s_paused s \<and> (s_paused_by s = Some ''user'' \<or> s_paused_by s = Some ''recovery''))"

definition schedules_ok :: "schedule list \<Rightarrow> bool" where
  "schedules_ok ss \<longleftrightarrow>
     distinct (map s_id ss) \<and> distinct (map schedule_key ss) \<and> list_all pause_origin_ok ss"

definition commit_schedules :: "store \<Rightarrow> schedule list \<Rightarrow> db_error + store" where
  "commit_schedules db ss = (if schedules_ok ss then Inr (db\<lparr>db_schedules := ss\<rparr>) else Inl Integrity_Error)"

definition get_schedule :: "store \<Rightarrow> string \<Rightarrow> int \<Rightarrow> schedule option" where
  "get_schedule db pipeline tenant = List.find (\<lambda>s. schedule_key s = (pipeline, tenant)) (db_schedules db)"

definition list_all_schedules :: "store \<Rightarrow> int \<Rightarrow> schedule list" where
  "list_all_schedules db tenant = sort_key s_pipeline (filter (\<lambda>s. s_tenant_id s = tenant) (db_schedules db))"

definition is_due :: "int \<Rightarrow> int \<Rightarrow> schedule \<Rightarrow> bool" where
  "is_due now tenant s \<longleftrightarrow>
     s_tenant_id s = tenant \<and> \<not> s_paused s \<and>
     (case s_next_fires_at s of None \<Rightarrow> False | Some t \<Rightarrow> t \<le> now)"

definition list_due :: "store \<Rightarrow> int \<Rightarrow> int \<Rightarrow> schedule list" where
  "list_due db now tenant =
     sort_key (\<lambda>s. case s_next_fires_at s of None \<Rightarrow> 0 | Some t \<Rightarrow> t) (filter (is_due now tenant) (db_schedules db))"

definition snapshot :: "schedule \<Rightarrow> (string \<times> json) list" where
  "snapshot s =
     [(''cron'', JString (s_cron s)), (''target'', JString (s_target s)), (''timezone'', JString (s_timezone s)),
      (''paused'', JBool (s_paused s)), (''paused_by'', opt_json JString (s_paused_by s)),
      (''pause_reason'', opt_json JString (s_pause_reason s)),
      (''next_fires_at'', opt_json JTime (s_next_fires_at s))]"

definition cron_tz :: "schedule option \<Rightarrow> json" where
  "cron_tz s = (case s of None \<Rightarrow> JNull
     | Some s \<Rightarrow> JObject [(''cron'', JString (s_cron s)), (''timezone'', JString (s_timezone s))])"

record actor =
  ac_source :: string
  ac_reason :: "string option"
  ac_token_id :: "string option"

definition append_change ::
  "string \<Rightarrow> string \<Rightarrow> schedule option \<Rightarrow> schedule \<Rightarrow> actor \<Rightarrow> int \<Rightarrow> int \<Rightarrow> store \<Rightarrow> store" where
  "append_change pipeline kind before after actor tenant now db =
     db\<lparr>db_changes := db_changes db @
       [\<lparr>sc_pipeline = pipeline, sc_change_kind = kind,
         sc_before = map_option (\<lambda>s. JObject (snapshot s)) before, sc_after = JObject (snapshot after),
         sc_actor_token_id = ac_token_id actor, sc_source = ac_source actor, sc_reason = ac_reason actor,
         sc_tenant_id = tenant, sc_changed_at = now\<rparr>]\<rparr>"

definition update_schedule :: "string \<Rightarrow> (schedule \<Rightarrow> schedule) \<Rightarrow> schedule list \<Rightarrow> schedule list" where
  "update_schedule i f ss = map (\<lambda>s. if s_id s = i then f s else s) ss"

definition new_schedule :: "string \<Rightarrow> string \<Rightarrow> string \<Rightarrow> string \<Rightarrow> string \<Rightarrow> int \<Rightarrow> int \<Rightarrow> int \<Rightarrow> schedule" where
  "new_schedule new_id pipeline cron target timezone tenant next now =
     \<lparr>s_id = new_id, s_pipeline = pipeline, s_cron = cron, s_target = target, s_paused = False,
      s_paused_by = None, s_pause_reason = None, s_timezone = timezone, s_tenant_id = tenant,
      s_last_fired_at = None, s_next_fires_at = Some next, s_created_at = now, s_updated_at = now\<rparr>"

definition seed ::
  "cron_lib \<Rightarrow> store \<Rightarrow> string \<Rightarrow> int \<Rightarrow> string \<Rightarrow> string \<Rightarrow> string \<Rightarrow> string \<Rightarrow> int \<Rightarrow>
     db_error + store \<times> schedule" where
  "seed cl db new_id now pipeline cron target timezone tenant =
     bind_result (next_tick_after cl cron now timezone) (\<lambda>next.
       let actor = \<lparr>ac_source = ''seed'', ac_reason = None, ac_token_id = None\<rparr>;
           before = get_schedule db pipeline tenant;
           (after, ss, kind) =
             (case before of
                None \<Rightarrow>
                  (let s = new_schedule new_id pipeline cron target timezone tenant next now
                   in (s, db_schedules db @ [s], ''set_cron''))
              | Some s \<Rightarrow>
                  (let f = (\<lambda>s. s\<lparr>s_cron := cron, s_target := target, s_timezone := timezone,
                                  s_next_fires_at := Some next, s_updated_at := now\<rparr>)
                   in (f s, update_schedule (s_id s) f (db_schedules db), ''reseed'')))
       in bind_result (commit_schedules db ss) (\<lambda>db'.
            Inr (emit ''schedule.seeded''
                   [(''pipeline'', JString pipeline), (''cron'', JString cron), (''source'', JString ''seed'')]
                   (append_change pipeline kind before after actor tenant now db'), after)))"

definition set_last_fired :: "cron_lib \<Rightarrow> store \<Rightarrow> string \<Rightarrow> int \<Rightarrow> db_error + store" where
  "set_last_fired cl db schedule_id now =
     (case List.find (\<lambda>s. s_id s = schedule_id) (db_schedules db) of
        None \<Rightarrow> Inl (Schedule_Not_Found schedule_id)
      | Some s \<Rightarrow>
          (let anchor = (case s_next_fires_at s of Some t \<Rightarrow> t | None \<Rightarrow> now) in
           bind_result (next_tick_after cl (s_cron s) anchor (s_timezone s)) (\<lambda>next.
             commit_schedules db (update_schedule schedule_id
               (\<lambda>s. s\<lparr>s_last_fired_at := Some now, s_next_fires_at := Some next, s_updated_at := now\<rparr>)
               (db_schedules db)))))"

definition apply_pause :: "string option \<Rightarrow> schedule \<Rightarrow> schedule" where
  "apply_pause reason s = s\<lparr>s_paused := True, s_paused_by := Some ''user'', s_pause_reason := reason\<rparr>"

definition apply_resume :: "schedule \<Rightarrow> schedule" where
  "apply_resume s = s\<lparr>s_paused := False, s_paused_by := None, s_pause_reason := None\<rparr>"

definition mutate ::
  "store \<Rightarrow> string \<Rightarrow> string \<Rightarrow> string \<Rightarrow> actor \<Rightarrow> int \<Rightarrow> (schedule \<Rightarrow> schedule) \<Rightarrow> int \<Rightarrow>
     db_error + store \<times> schedule" where
  "mutate db pipeline kind emit_kind actor tenant apply now =
     (case get_schedule db pipeline tenant of
        None \<Rightarrow> Inl (Schedule_Not_Found pipeline)
      | Some s \<Rightarrow>
          (let f = (\<lambda>s. (apply s)\<lparr>s_updated_at := now\<rparr>) in
           bind_result (commit_schedules db (update_schedule (s_id s) f (db_schedules db))) (\<lambda>db'.
             Inr (emit emit_kind
                    [(''pipeline'', JString pipeline), (''actor_token_id'', opt_json JString (ac_token_id actor)),
                     (''source'', JString (ac_source actor)), (''reason'', opt_json JString (ac_reason actor))]
                    (append_change pipeline kind (Some s) (f s) actor tenant now db'), f s))))"

definition pause :: "store \<Rightarrow> string \<Rightarrow> actor \<Rightarrow> int \<Rightarrow> int \<Rightarrow> db_error + store \<times> schedule" where
  "pause db pipeline actor tenant now =
     mutate db pipeline ''pause'' ''schedule.paused'' actor tenant (apply_pause (ac_reason actor)) now"

definition resume :: "store \<Rightarrow> string \<Rightarrow> actor \<Rightarrow> int \<Rightarrow> int \<Rightarrow> db_error + store \<times> schedule" where
  "resume db pipeline actor tenant now =
     mutate db pipeline ''resume'' ''schedule.resumed'' actor tenant apply_resume now"

definition set_cron ::
  "cron_lib \<Rightarrow> store \<Rightarrow> string \<Rightarrow> int \<Rightarrow> string \<Rightarrow> string \<Rightarrow> string option \<Rightarrow> string option \<Rightarrow> actor \<Rightarrow> int \<Rightarrow>
     db_error + store \<times> schedule" where
  "set_cron cl db new_id now pipeline cron target timezone actor tenant =
     (let before = get_schedule db pipeline tenant;
          tz = (case timezone of Some z \<Rightarrow> z | None \<Rightarrow> (case before of Some s \<Rightarrow> s_timezone s | None \<Rightarrow> ''UTC''));
          tg = (case target of Some t \<Rightarrow> t | None \<Rightarrow> (case before of Some s \<Rightarrow> s_target s | None \<Rightarrow> ''prod''))
      in bind_result (next_tick_after cl cron now tz) (\<lambda>next.
           let (after, ss) =
                 (case before of
                    None \<Rightarrow>
                      (let s = new_schedule new_id pipeline cron tg tz tenant next now
                       in (s, db_schedules db @ [s]))
                  | Some s \<Rightarrow>
                      (let f = (\<lambda>s. s\<lparr>s_cron := cron, s_target := tg, s_timezone := tz,
                                      s_next_fires_at := Some next, s_updated_at := now\<rparr>)
                       in (f s, update_schedule (s_id s) f (db_schedules db))))
           in bind_result (commit_schedules db ss) (\<lambda>db'.
                Inr (emit ''schedule.changed''
                       [(''pipeline'', JString pipeline), (''before'', cron_tz before), (''after'', cron_tz (Some after)),
                        (''actor_token_id'', opt_json JString (ac_token_id actor)),
                        (''source'', JString (ac_source actor)), (''reason'', opt_json JString (ac_reason actor))]
                       (append_change pipeline ''set_cron'' before after actor tenant now db'), after))))"

text \<open>Newest first; the row ids grow with insertion.\<close>

definition list_changes :: "store \<Rightarrow> string \<Rightarrow> int \<Rightarrow> schedule_change list" where
  "list_changes db pipeline tenant =
     sort_key (\<lambda>c. - sc_changed_at c)
       (rev (filter (\<lambda>c. sc_pipeline c = pipeline \<and> sc_tenant_id c = tenant) (db_changes db)))"

section \<open>One pass of the scheduler\<close>

text \<open>
  \<open>resolve\<close> maps a pipeline to the label its job must carry, or raises; \<open>wall\<close> is the instant the
  queue stamps on new rows, and \<open>new_id\<close> draws the id of the job for a schedule. A pass that
  raises keeps what it has committed.
\<close>

type_synonym resolver = "string \<Rightarrow> unit + string option"

definition fire_schedule ::
  "cron_lib \<Rightarrow> (string \<Rightarrow> string) \<Rightarrow> resolver option \<Rightarrow> int \<Rightarrow> int \<Rightarrow> int \<Rightarrow> schedule \<Rightarrow> store \<Rightarrow> store \<times> (db_error + nat)" where
  "fire_schedule cl new_id resolve now wall tenant s db =
     (case this_tick_at cl (s_cron s) now (s_timezone s) of
        Inl e \<Rightarrow> (db, Inl e)
      | Inr tick \<Rightarrow>
          (case (case resolve of None \<Rightarrow> Inr None | Some r \<Rightarrow> r (s_pipeline s)) of
             Inl _ \<Rightarrow> (db, Inr 0)
           | Inr label \<Rightarrow>
               (let advance = (\<lambda>db' k.
                      case set_last_fired cl db' (s_id s) now of
                        Inl e \<Rightarrow> (db', Inl e) | Inr db'' \<Rightarrow> (db'', Inr k))
                in case enqueue_scheduled db (new_id (s_id s)) wall (s_pipeline s) (s_target s) (Some tick) label tenant of
                     Inr (db', job) \<Rightarrow>
                       advance (emit ''schedule.fired''
                         [(''pipeline'', JString (s_pipeline s)), (''job_id'', JString (j_id job)),
                          (''scheduled_for'', JTime tick)] db') 1
                   | Inl (Queued_Job_Already_Exists _) \<Rightarrow>
                       advance (emit ''schedule.skipped''
                         [(''pipeline'', JString (s_pipeline s)), (''scheduled_for'', JTime tick),
                          (''reason'', JString ''queued_job_already_exists'')] db) 0
                   | Inl e \<Rightarrow> (db, Inl e))))"

fun fire_all ::
  "(schedule \<Rightarrow> store \<Rightarrow> store \<times> (db_error + nat)) \<Rightarrow> schedule list \<Rightarrow> nat \<Rightarrow> store \<Rightarrow> store \<times> (db_error + nat)" where
  "fire_all fire [] fired db = (db, Inr fired)"
| "fire_all fire (s # ss) fired db =
     (case fire s db of
        (db', Inl e) \<Rightarrow> (db', Inl e)
      | (db', Inr k) \<Rightarrow> fire_all fire ss (fired + k) db')"

definition run_due_once ::
  "cron_lib \<Rightarrow> (string \<Rightarrow> string) \<Rightarrow> resolver option \<Rightarrow> int \<Rightarrow> int \<Rightarrow> int \<Rightarrow> store \<Rightarrow> store \<times> (db_error + nat)" where
  "run_due_once cl new_id resolve now wall tenant db =
     fire_all (fire_schedule cl new_id resolve now wall tenant) (list_due db now tenant) 0 db"

section \<open>The clock\<close>

text \<open>Both the instant and the interval in microseconds.\<close>

definition seconds_to_next_boundary :: "int \<Rightarrow> int \<Rightarrow> int" where
  "seconds_to_next_boundary now interval =
     (if interval \<le> 0 then 0 else (now div interval + 1) * interval - now)"

section \<open>Ticks\<close>

lemma next_tick_later: "cron_lib_ok cl \<Longrightarrow> next_tick_after cl c t z = Inr n \<Longrightarrow> t < n"
  by (auto simp: next_tick_after_def with_zone_and_cron_def cron_lib_ok_def split: if_splits option.splits)

text \<open>The tick a job is stamped with is at or before the instant of the pass.\<close>

lemma this_tick_not_later: "cron_lib_ok cl \<Longrightarrow> this_tick_at cl c t z = Inr n \<Longrightarrow> n \<le> t"
proof -
  assume cl: "cron_lib_ok cl" and "this_tick_at cl c t z = Inr n"
  then have "cl_get_prev cl c z (t + 1) = Some n"
    by (simp add: this_tick_at_def with_zone_and_cron_def split: if_splits option.splits)
  with cl have "n < t + 1" unfolding cron_lib_ok_def by blast
  then show ?thesis by simp
qed

text \<open>
  the loops wake on a fixed grid: for a positive interval the sleep is positive, no longer
  than the interval, and ends on a multiple of it, however late the pass before it was.
\<close>
theorem sleep_ends_on_the_grid:
  assumes "0 < interval"
  shows "0 < seconds_to_next_boundary now interval \<and> seconds_to_next_boundary now interval \<le> interval \<and>
    (now + seconds_to_next_boundary now interval) mod interval = 0"
proof -
  have "now div interval * interval = now - now mod interval" by (simp add: minus_mod_eq_div_mult)
  moreover have "0 \<le> now mod interval" "now mod interval < interval" using assms by simp_all
  ultimately have "0 < (now div interval + 1) * interval - now" "(now div interval + 1) * interval - now \<le> interval"
    unfolding distrib_right by linarith+
  then show ?thesis using assms by (simp add: seconds_to_next_boundary_def)
qed

lemma sleep_ends_on_the_grid_witness:
  "(61 + seconds_to_next_boundary 61 30) mod 30 = 0"
  using sleep_ends_on_the_grid [of 30 61] by simp

section \<open>Rows\<close>

lemma map_id_update_schedule [simp]:
  "(\<And>s. s_id (f s) = s_id s) \<Longrightarrow> map s_id (update_schedule i f ss) = map s_id ss"
  by (simp add: update_schedule_def)

lemma map_key_update_schedule [simp]:
  "(\<And>s. schedule_key (f s) = schedule_key s) \<Longrightarrow> map schedule_key (update_schedule i f ss) = map schedule_key ss"
  by (simp add: update_schedule_def)

lemma find_Some_iff:
  "distinct (map f xs) \<Longrightarrow> List.find (\<lambda>x. f x = a) xs = Some x \<longleftrightarrow> x \<in> set xs \<and> f x = a"
  by (induction xs) (auto simp: image_iff)

lemma find_update_schedule:
  "(\<And>s. s_id (f s) = s_id s) \<Longrightarrow>
     List.find (\<lambda>s. s_id s = i) (update_schedule i f ss) = map_option f (List.find (\<lambda>s. s_id s = i) ss)"
  unfolding update_schedule_def by (induction ss) auto

lemma get_schedule_iff:
  "schedules_ok (db_schedules db) \<Longrightarrow>
     get_schedule db p t = Some s \<longleftrightarrow> s \<in> set (db_schedules db) \<and> schedule_key s = (p, t)"
  by (simp add: get_schedule_def schedules_ok_def find_Some_iff)

lemma update_schedule_mem:
  "s \<in> set ss \<Longrightarrow> f s \<in> set (update_schedule (s_id s) f ss)"
  by (auto simp: update_schedule_def)

lemma schedules_ok_update:
  assumes "schedules_ok ss" and "\<And>s. s_id (f s) = s_id s" and "\<And>s. schedule_key (f s) = schedule_key s"
    and "\<And>s. pause_origin_ok s \<Longrightarrow> pause_origin_ok (f s)"
  shows "schedules_ok (update_schedule i f ss)"
  using assms by (auto simp: schedules_ok_def list_all_iff update_schedule_def comp_def if_distrib cong: if_cong)

section \<open>Live changes are audited\<close>

lemma mutate_result:
  assumes ok: "schedules_ok (db_schedules db)" and s: "get_schedule db p tenant = Some s"
    and keep: "\<And>s. s_id (apply s) = s_id s" "\<And>s. schedule_key (apply s) = schedule_key s"
      "\<And>s. pause_origin_ok (apply s)"
  shows "\<exists>db'. mutate db p kind ek actor tenant apply now = Inr (db', (apply s)\<lparr>s_updated_at := now\<rparr>) \<and>
    get_schedule db' p tenant = Some ((apply s)\<lparr>s_updated_at := now\<rparr>) \<and> schedules_ok (db_schedules db') \<and>
    db_changes db' = db_changes db @
      [\<lparr>sc_pipeline = p, sc_change_kind = kind, sc_before = Some (JObject (snapshot s)),
        sc_after = JObject (snapshot (apply s)), sc_actor_token_id = ac_token_id actor,
        sc_source = ac_source actor, sc_reason = ac_reason actor, sc_tenant_id = tenant, sc_changed_at = now\<rparr>]"
proof -
  let ?f = "\<lambda>s. (apply s)\<lparr>s_updated_at := now\<rparr>"
  have key: "schedule_key (?f s) = schedule_key s" for s using keep(2) [of s] by (simp add: schedule_key_def)
  have id: "s_id (?f s) = s_id s" for s using keep(1) by simp
  have orig: "pause_origin_ok (?f s)" for s using keep(3) [of s] by (simp add: pause_origin_ok_def)
  have ok': "schedules_ok (update_schedule (s_id s) ?f (db_schedules db))"
    using ok by (rule schedules_ok_update) (use key id orig in auto)
  have mem: "s \<in> set (db_schedules db)" "schedule_key s = (p, tenant)" using s ok by (simp_all add: get_schedule_iff)
  have "?f s \<in> set (update_schedule (s_id s) ?f (db_schedules db))" using mem(1) by (rule update_schedule_mem)
  then have got: "List.find (\<lambda>s. schedule_key s = (p, tenant)) (update_schedule (s_id s) ?f (db_schedules db)) = Some (?f s)"
    using ok' key mem by (simp add: schedules_ok_def find_Some_iff)
  have snap: "snapshot (?f s) = snapshot (apply s)" by (simp add: snapshot_def)
  show ?thesis
    using s ok' got snap
    by (simp add: mutate_def commit_schedules_def Let_def append_change_def get_schedule_def)
qed

text \<open>
  pausing an existing schedule always succeeds, takes it out of the due set for every
  instant, keeps its next firing time, and appends one audit row with the snapshots before and
  after; resuming it afterwards restores everything but the time of the update.
\<close>
theorem pause_then_resume:
  assumes "schedules_ok (db_schedules db)" and "get_schedule db p tenant = Some s"
    and "\<not> s_paused s" and "s_pause_reason s = None"
  shows "\<exists>db1 s1 db2. pause db p actor tenant t1 = Inr (db1, s1) \<and>
    get_schedule db1 p tenant = Some s1 \<and> (\<forall>now. \<not> is_due now tenant s1) \<and>
    s_next_fires_at s1 = s_next_fires_at s \<and>
    (\<exists>c. db_changes db1 = db_changes db @ [c] \<and> sc_change_kind c = ''pause'' \<and>
       sc_before c = Some (JObject (snapshot s)) \<and> sc_after c = JObject (snapshot s1)) \<and>
    resume db1 p actor tenant t2 = Inr (db2, s\<lparr>s_updated_at := t2\<rparr>) \<and>
    get_schedule db2 p tenant = Some (s\<lparr>s_updated_at := t2\<rparr>)"
proof -
  have "pause_origin_ok s" using assms(1,2) by (simp add: get_schedule_iff schedules_ok_def list_all_iff)
  then have origin: "s_paused_by s = None" using assms(3) by (simp add: pause_origin_ok_def)
  let ?s1 = "(apply_pause (ac_reason actor) s)\<lparr>s_updated_at := t1\<rparr>"
  from mutate_result [OF assms(1,2), of "apply_pause (ac_reason actor)" "''pause''" "''schedule.paused''" actor t1]
  obtain db1 where db1: "pause db p actor tenant t1 = Inr (db1, ?s1)" "get_schedule db1 p tenant = Some ?s1"
    "schedules_ok (db_schedules db1)"
    and c: "\<exists>c. db_changes db1 = db_changes db @ [c] \<and> sc_change_kind c = ''pause'' \<and>
       sc_before c = Some (JObject (snapshot s)) \<and> sc_after c = JObject (snapshot (apply_pause (ac_reason actor) s))"
    by (auto simp: pause_def apply_pause_def schedule_key_def pause_origin_ok_def)
  from mutate_result [OF db1(3,2), of apply_resume "''resume''" "''schedule.resumed''" actor t2]
  obtain db2 where db2: "resume db1 p actor tenant t2 = Inr (db2, (apply_resume ?s1)\<lparr>s_updated_at := t2\<rparr>)"
    "get_schedule db2 p tenant = Some ((apply_resume ?s1)\<lparr>s_updated_at := t2\<rparr>)"
    by (auto simp: resume_def apply_resume_def schedule_key_def pause_origin_ok_def)
  have restored: "(apply_resume ?s1)\<lparr>s_updated_at := t2\<rparr> = s\<lparr>s_updated_at := t2\<rparr>"
    using origin assms(3,4) by (simp add: apply_resume_def apply_pause_def)
  have "\<not> is_due now tenant ?s1" for now by (simp add: is_due_def apply_pause_def)
  moreover have "s_next_fires_at ?s1 = s_next_fires_at s" by (simp add: apply_pause_def)
  moreover have "snapshot ?s1 = snapshot (apply_pause (ac_reason actor) s)" by (simp add: snapshot_def)
  ultimately show ?thesis using db1 db2 c restored by metis
qed

text \<open>A cron library whose ticks are the multiples of 100, and a schedule that missed two of them.\<close>

definition tick_lib :: cron_lib where
  "tick_lib = \<lparr>cl_is_valid = (\<lambda>c. True), cl_has_zone = (\<lambda>z. True),
               cl_get_next = (\<lambda>c z t. Some ((t div 100 + 1) * 100)),
               cl_get_prev = (\<lambda>c z t. Some ((t - 1) div 100 * 100))\<rparr>"

definition late_schedule :: schedule where
  "late_schedule = new_schedule ''s1'' ''sales'' ''tick'' ''prod'' ''UTC'' 1 100 0"

definition late_store :: store where
  "late_store = empty_store\<lparr>db_schedules := [late_schedule]\<rparr>"

definition demo_actor :: actor where
  "demo_actor = \<lparr>ac_source = ''cli'', ac_reason = Some ''maintenance'', ac_token_id = None\<rparr>"

lemma pause_then_resume_witness:
  "\<exists>db1 s1 db2. pause late_store ''sales'' demo_actor 1 5 = Inr (db1, s1) \<and>
     resume db1 ''sales'' demo_actor 1 6 = Inr (db2, late_schedule\<lparr>s_updated_at := 6\<rparr>)"
proof -
  have "schedules_ok (db_schedules late_store)" "get_schedule late_store ''sales'' 1 = Some late_schedule"
    "\<not> s_paused late_schedule" "s_pause_reason late_schedule = None" by code_simp+
  from pause_then_resume [OF this, of demo_actor 5 6] show ?thesis by blast
qed

section \<open>Firing\<close>

lemma set_last_fired_result:
  assumes "schedules_ok (db_schedules db)" and "s \<in> set (db_schedules db)" and "s_next_fires_at s = Some a"
    and "next_tick_after cl (s_cron s) a (s_timezone s) = Inr n"
  shows "set_last_fired cl db (s_id s) now =
    Inr (db\<lparr>db_schedules := update_schedule (s_id s)
      (\<lambda>s. s\<lparr>s_last_fired_at := Some now, s_next_fires_at := Some n, s_updated_at := now\<rparr>) (db_schedules db)\<rparr>)"
proof -
  have "List.find (\<lambda>r. s_id r = s_id s) (db_schedules db) = Some s"
    using assms(1,2) by (simp add: schedules_ok_def find_Some_iff)
  moreover have "schedules_ok (update_schedule (s_id s)
      (\<lambda>s. s\<lparr>s_last_fired_at := Some now, s_next_fires_at := Some n, s_updated_at := now\<rparr>) (db_schedules db))"
    using assms(1) by (rule schedules_ok_update) (auto simp: schedule_key_def pause_origin_ok_def)
  ultimately show ?thesis using assms(3,4) by (simp add: set_last_fired_def commit_schedules_def)
qed

lemma enqueue_schedules:
  "enqueue_scheduled db i w p t sch l ten = Inr (db', j) \<Longrightarrow> db_schedules db' = db_schedules db"
  by (auto simp: enqueue_scheduled_def commit_jobs_def Let_def split: option.splits if_splits)

text \<open>What one fire that does not raise does, when no resolver is configured.\<close>

lemma fire_schedule_result:
  assumes "schedules_ok (db_schedules db)" and "jobs_ok (db_runs db) (db_jobs db)"
    and "new_id (s_id s) \<notin> j_id ` set (db_jobs db)"
    and "s \<in> set (db_schedules db)" and "s_next_fires_at s = Some a"
    and "fire_schedule cl new_id None now wall tenant s db = (db', Inr k)"
  shows "\<exists>tick n. this_tick_at cl (s_cron s) now (s_timezone s) = Inr tick \<and>
    next_tick_after cl (s_cron s) a (s_timezone s) = Inr n \<and>
    db_schedules db' = update_schedule (s_id s)
      (\<lambda>s. s\<lparr>s_last_fired_at := Some now, s_next_fires_at := Some n, s_updated_at := now\<rparr>) (db_schedules db) \<and>
    (if queued_for (db_jobs db) (s_pipeline s) tenant \<noteq> [] then k = 0 \<and> db_jobs db' = db_jobs db
     else k = 1 \<and> db_jobs db' = db_jobs db @
       [new_job (new_id (s_id s)) wall (s_pipeline s) (s_target s) ''scheduled'' (Some tick) None tenant])"
proof -
  from assms(6) obtain tick where tick: "this_tick_at cl (s_cron s) now (s_timezone s) = Inr tick"
    by (auto simp: fire_schedule_def split: sum.splits)
  let ?p = "s_pipeline s"
  note enq = enqueue_scheduled_result [OF assms(2,3), of wall ?p "s_target s" "Some tick" None tenant]
  obtain n where n: "next_tick_after cl (s_cron s) a (s_timezone s) = Inr n"
  proof (cases "next_tick_after cl (s_cron s) a (s_timezone s)")
    case (Inl e)
    have "set_last_fired cl d (s_id s) now = Inl e" if "db_schedules d = db_schedules db" for d
    proof -
      have "List.find (\<lambda>r. s_id r = s_id s) (db_schedules d) = Some s"
        using assms(1,4) that by (simp add: schedules_ok_def find_Some_iff)
      then show ?thesis using Inl assms(5) by (simp add: set_last_fired_def)
    qed
    then have False using assms(6) tick enq by (auto simp: fire_schedule_def Let_def split: if_splits)
    then show ?thesis ..
  qed (use that in blast)
  have adv: "set_last_fired cl d (s_id s) now = Inr (d\<lparr>db_schedules := update_schedule (s_id s)
      (\<lambda>s. s\<lparr>s_last_fired_at := Some now, s_next_fires_at := Some n, s_updated_at := now\<rparr>) (db_schedules db)\<rparr>)"
    if "db_schedules d = db_schedules db" for d
    using set_last_fired_result [of d s a cl n now] assms(1,4,5) n that by simp
  show ?thesis
    using assms(6) tick n enq
    by (cases "queued_for (db_jobs db) ?p tenant = []") (auto simp: fire_schedule_def Let_def adv new_job_def)
qed

lemma updated_row:
  "schedules_ok ss \<Longrightarrow> s \<in> set ss \<Longrightarrow> (\<And>r. s_id (f r) = s_id r) \<Longrightarrow>
     List.find (\<lambda>r. s_id r = s_id s) (update_schedule (s_id s) f ss) = Some (f s)"
proof -
  assume ss: "schedules_ok ss" "s \<in> set ss" and f: "\<And>r. s_id (f r) = s_id r"
  from ss have "List.find (\<lambda>r. s_id r = s_id s) ss = Some s" by (simp add: schedules_ok_def find_Some_iff)
  then show ?thesis using find_update_schedule [of f "s_id s" ss] f by simp
qed

text \<open>
  A fire of a schedule with next firing time \<open>a\<close>, in a consistent store: afterwards its
  pipeline has exactly one queued job, the one it already had or a new one stamped with the
  cron tick at or before now, it reports a job exactly when it enqueued one, and the schedule's
  next firing time is later than \<open>a\<close>.
\<close>
theorem fire_enqueues_once_and_advances:
  assumes "cron_lib_ok cl" and "schedules_ok (db_schedules db)" and "jobs_ok (db_runs db) (db_jobs db)"
    and "new_id (s_id s) \<notin> j_id ` set (db_jobs db)"
    and "s \<in> set (db_schedules db)" and "s_tenant_id s = tenant" and "s_next_fires_at s = Some a"
    and "fire_schedule cl new_id None now wall tenant s db = (db', Inr k)"
  shows "\<exists>j tick r n. queued_for (db_jobs db') (s_pipeline s) tenant = [j] \<and>
    (k = 0 \<and> db_jobs db' = db_jobs db \<or>
     k = 1 \<and> queued_for (db_jobs db) (s_pipeline s) tenant = [] \<and> j_scheduled_for j = Some tick \<and> tick \<le> now) \<and>
    List.find (\<lambda>r. s_id r = s_id s) (db_schedules db') = Some r \<and> s_next_fires_at r = Some n \<and> a < n"
proof -
  from fire_schedule_result [where s = s, OF assms(2-5,7,8)]
  obtain tick n where tick: "this_tick_at cl (s_cron s) now (s_timezone s) = Inr tick"
    and n: "next_tick_after cl (s_cron s) a (s_timezone s) = Inr n"
    and rows: "db_schedules db' = update_schedule (s_id s)
      (\<lambda>s. s\<lparr>s_last_fired_at := Some now, s_next_fires_at := Some n, s_updated_at := now\<rparr>) (db_schedules db)"
    and jobs: "if queued_for (db_jobs db) (s_pipeline s) tenant \<noteq> [] then k = 0 \<and> db_jobs db' = db_jobs db
     else k = 1 \<and> db_jobs db' = db_jobs db @
       [new_job (new_id (s_id s)) wall (s_pipeline s) (s_target s) ''scheduled'' (Some tick) None tenant]"
    by blast
  have late: "a < n" "tick \<le> now" using next_tick_later this_tick_not_later assms(1) n tick by blast+
  have row: "List.find (\<lambda>r. s_id r = s_id s) (db_schedules db') =
      Some (s\<lparr>s_last_fired_at := Some now, s_next_fires_at := Some n, s_updated_at := now\<rparr>)"
    unfolding rows using assms(2,5) by (rule updated_row) simp
  have one: "one_per_pipeline Job_Queued (db_jobs db)" using assms(3) by (simp add: jobs_ok_def)
  show ?thesis
  proof (cases "queued_for (db_jobs db) (s_pipeline s) tenant")
    case Nil
    let ?j = "new_job (new_id (s_id s)) wall (s_pipeline s) (s_target s) ''scheduled'' (Some tick) None tenant"
    have "queued_for (db_jobs db') (s_pipeline s) tenant = [?j]" "k = 1"
      using jobs Nil by (simp_all add: queued_for_def with_status_def new_job_def pipeline_key_def)
    moreover have "j_scheduled_for ?j = Some tick" by (simp add: new_job_def)
    ultimately show ?thesis using late row Nil by fastforce
  next
    case (Cons q qs)
    then have "queued_for (db_jobs db) (s_pipeline s) tenant = [q]"
      by (auto simp: queued_for_conflict [OF one] split: option.splits)
    with jobs row late show ?thesis by fastforce
  qed
qed

definition demo_ids :: "string \<Rightarrow> string" where
  "demo_ids i = ''job_'' @ i"

lemma tick_lib_ok: "cron_lib_ok tick_lib"
proof -
  have later: "t < (t div 100 + 1) * 100" for t :: int by presburger
  have earlier: "(t - 1) div 100 * 100 < t" for t :: int by presburger
  show ?thesis using later earlier by (simp add: cron_lib_ok_def tick_lib_def)
qed

lemma late_store_ok:
  "schedules_ok (db_schedules late_store)" "jobs_ok (db_runs late_store) (db_jobs late_store)"
  "demo_ids (s_id late_schedule) \<notin> j_id ` set (db_jobs late_store)"
  "late_schedule \<in> set (db_schedules late_store)" "s_tenant_id late_schedule = 1"
  "s_next_fires_at late_schedule = Some 100"
  by code_simp+

lemma late_fire: "\<exists>db'. fire_schedule tick_lib demo_ids None 350 351 1 late_schedule late_store = (db', Inr 1)"
proof -
  have "snd (fire_schedule tick_lib demo_ids None 350 351 1 late_schedule late_store) = Inr 1" by code_simp
  then show ?thesis by (cases "fire_schedule tick_lib demo_ids None 350 351 1 late_schedule late_store") auto
qed

lemma fire_enqueues_once_and_advances_witness:
  "\<exists>db' j. fire_schedule tick_lib demo_ids None 350 351 1 late_schedule late_store = (db', Inr 1) \<and>
     queued_for (db_jobs db') (s_pipeline late_schedule) 1 = [j]"
  using late_fire fire_enqueues_once_and_advances [where s = late_schedule and new_id = demo_ids, OF tick_lib_ok late_store_ok] by blast

text \<open>
  a schedule that has missed a window stays due: when the tick after its next firing time is
  not later than now, a fire moves it to that missed tick only, so the next pass fires it again
  with the same cron tick as the due time of the job.
\<close>
theorem missed_window_stays_due:
  assumes "schedules_ok (db_schedules db)" and "jobs_ok (db_runs db) (db_jobs db)"
    and "new_id (s_id s) \<notin> j_id ` set (db_jobs db)"
    and "s \<in> set (db_schedules db)" and "is_due now tenant s" and "s_next_fires_at s = Some a"
    and "next_tick_after cl (s_cron s) a (s_timezone s) = Inr n" and "n \<le> now"
    and "fire_schedule cl new_id None now wall tenant s db = (db', Inr k)"
  shows "\<exists>r \<in> set (list_due db' now tenant). s_id r = s_id s \<and> s_next_fires_at r = Some n"
proof -
  let ?r = "s\<lparr>s_last_fired_at := Some now, s_next_fires_at := Some n, s_updated_at := now\<rparr>"
  from fire_schedule_result [where s = s, OF assms(1-4,6,9)] assms(7)
  have "db_schedules db' = update_schedule (s_id s)
      (\<lambda>s. s\<lparr>s_last_fired_at := Some now, s_next_fires_at := Some n, s_updated_at := now\<rparr>) (db_schedules db)"
    by auto
  moreover have "?r \<in> set (update_schedule (s_id s)
      (\<lambda>s. s\<lparr>s_last_fired_at := Some now, s_next_fires_at := Some n, s_updated_at := now\<rparr>) (db_schedules db))"
    using assms(4) by (rule update_schedule_mem)
  ultimately have "?r \<in> set (db_schedules db')" by simp
  moreover have "is_due now tenant ?r" using assms(5,8) by (simp add: is_due_def)
  ultimately have "?r \<in> set (list_due db' now tenant)" by (simp add: list_due_def)
  then show ?thesis by (intro bexI [of _ ?r]) simp_all
qed

lemma missed_window_stays_due_witness:
  "\<exists>db'. fire_schedule tick_lib demo_ids None 350 351 1 late_schedule late_store = (db', Inr 1) \<and>
     (\<exists>r \<in> set (list_due db' 350 1). s_id r = ''s1'' \<and> s_next_fires_at r = Some 200)"
proof -
  have due: "is_due 350 1 late_schedule" by code_simp
  have tick: "next_tick_after tick_lib (s_cron late_schedule) 100 (s_timezone late_schedule) = Inr 200" by code_simp
  obtain db' where db': "fire_schedule tick_lib demo_ids None 350 351 1 late_schedule late_store = (db', Inr 1)"
    using late_fire by blast
  have "s_id late_schedule = ''s1''" by code_simp
  with missed_window_stays_due [where s = late_schedule and new_id = demo_ids, OF late_store_ok(1-4) due late_store_ok(6) tick _ db'] db'
  show ?thesis by simp
qed

text \<open>
  The consequence, on the same store: two passes thirty microseconds apart, the first job claimed
  and finished in between, enqueue two jobs for the tick at 300.
\<close>

definition finish_all :: "store \<Rightarrow> store" where
  "finish_all db = db\<lparr>db_jobs := map (\<lambda>j. j\<lparr>j_status := Job_Succeeded\<rparr>) (db_jobs db)\<rparr>"

lemma double_fire_after_downtime:
  "map j_scheduled_for (db_jobs (fst (run_due_once tick_lib (\<lambda>i. ''b'' @ i) None 380 381 1
     (finish_all (fst (run_due_once tick_lib (\<lambda>i. ''a'' @ i) None 350 351 1 late_store)))))) =
   [Some 300, Some 300]"
  by code_simp

end
