(* ===== verification/Worker.thy ===== *)
theory Worker
  imports Execute_Pipeline Scheduler
begin

text \<open>
  One worker's handling of a job (\<open>runtime/worker.py\<close>: \<open>run_once\<close>, \<open>_fail_job\<close>, \<open>_finalize\<close>), the
  heartbeat it keeps (\<open>runtime/heartbeat.py\<close>), the sink that persists its steps
  (\<open>runtime/persisting_step_sink.py\<close>), and one pass of the reaper (\<open>runtime/reaper.py\<close>).

  Between two awaits of \<open>run_once\<close> other processes act, so it is a machine: \<open>worker_pc\<close> is where
  it waits for its next call to the state store, and \<open>worker_step\<close> makes that call. The input of
  a step says what the outside provides: the instant, the rows locked by others, the id drawn for
  a new run, the outcome of the execution, and whether the call fails for a reason outside the
  model (\<open>wi_fault\<close>: the database is down). \<open>run_once\<close> is the machine run to its end.

  The user's failure hook has no effect on the store and its exceptions are swallowed, so it is
  left out; so are the log lines.
\<close>

section \<open>The machine\<close>

record worker_ctx =
  wc_worker_id :: string
  wc_label :: "string option"
  wc_emitter :: "bool option"
  wc_error_text :: "db_error \<Rightarrow> string"

record worker_input =
  wi_now :: int
  wi_locked :: "string set"
  wi_new_id :: string
  wi_result :: "string + run_status"
  wi_fault :: "string option"

datatype worker_pc =
    W_Idle
  | W_Claimed job
  | W_Created job string
  | W_Release job string
  | W_Cancel job string string
  | W_Promoted job string
  | W_Announce job string
  | W_Executing job string
  | W_Fail_Run job "string option" string
  | W_Fail_Job job "string option" string
  | W_Fail_Emit job "string option" string
  | W_Final_Run job string run_status
  | W_Final_Job job string run_status
  | W_Final_Emit job string run_status
  | W_Done bool
  | W_Raised string

definition run_status_of :: "run_status \<Rightarrow> run_row_status" where
  "run_status_of r = (case r of Run_Succeeded \<Rightarrow> Run_Row_Success | Run_Failed \<Rightarrow> Run_Row_Failed | Run_Partial \<Rightarrow> Run_Row_Failed)"

definition job_status_of :: "run_status \<Rightarrow> job_status" where
  "job_status_of r = (case r of Run_Succeeded \<Rightarrow> Job_Succeeded | Run_Failed \<Rightarrow> Job_Failed | Run_Partial \<Rightarrow> Job_Failed)"

definition run_error_of :: "run_status \<Rightarrow> string option" where
  "run_error_of r = (case r of Run_Succeeded \<Rightarrow> None | Run_Failed \<Rightarrow> Some ''run failed'' | Run_Partial \<Rightarrow> Some ''run partial'')"

text \<open>A call to the store: it may fail from outside, and it may raise.\<close>

definition store_call :: "worker_ctx \<Rightarrow> worker_input \<Rightarrow> db_error + 'a \<Rightarrow> string + 'a" where
  "store_call ctx inp r =
     (case wi_fault inp of
        Some e \<Rightarrow> Inl e
      | None \<Rightarrow> (case r of Inl e \<Rightarrow> Inl (wc_error_text ctx e) | Inr x \<Rightarrow> Inr x))"

definition run_payload :: "string \<Rightarrow> job \<Rightarrow> int option \<Rightarrow> string option \<Rightarrow> (string \<times> json) list" where
  "run_payload run j duration error =
     [(''run_id'', JString run), (''job_id'', JString (j_id j)), (''pipeline'', JString (j_pipeline j)),
      (''duration_ms'', opt_json JInt duration), (''error_message'', opt_json JString error)]"

definition run_duration :: "store \<Rightarrow> string \<Rightarrow> int option" where
  "run_duration db run = (case get_run db run of None \<Rightarrow> None | Some r \<Rightarrow> r_duration_ms r)"

text \<open>
  \<open>_run_duration_ms\<close> and \<open>_emit_event\<close>, in one step. A fault of the read gives no duration, and
  the emitter swallows its own.
\<close>

definition emit_run_event ::
  "worker_ctx \<Rightarrow> worker_input \<Rightarrow> string \<Rightarrow> string \<Rightarrow> job \<Rightarrow> string option \<Rightarrow> store \<Rightarrow> store" where
  "emit_run_event ctx inp kind run j error db =
     emit_with (wc_emitter ctx) kind
       (run_payload run j (if wi_fault inp = None then run_duration db run else None) error) db"

text \<open>The claim: a failure here is not the job's, it leaves \<open>run_once\<close>.\<close>

definition step_claim :: "worker_ctx \<Rightarrow> worker_input \<Rightarrow> store \<Rightarrow> worker_pc \<times> store" where
  "step_claim ctx inp db =
     (case store_call ctx inp (claim_next db (wi_locked inp) (wc_worker_id ctx) (wc_label ctx) 1 (wi_now inp)) of
        Inl e \<Rightarrow> (W_Raised e, db)
      | Inr (db', None) \<Rightarrow> (W_Done False, db')
      | Inr (db', Some j) \<Rightarrow> (W_Claimed j, db'))"

definition step_create_run :: "worker_ctx \<Rightarrow> worker_input \<Rightarrow> job \<Rightarrow> store \<Rightarrow> worker_pc \<times> store" where
  "step_create_run ctx inp j db =
     (case store_call ctx inp (create_run db (wi_new_id inp) (wi_now inp) ''pipeline'' (j_id j) None (Some (j_target j)) None) of
        Inl e \<Rightarrow> (W_Fail_Run j None e, db)
      | Inr db' \<Rightarrow> (W_Created j (wi_new_id inp), db'))"

definition step_promote :: "worker_ctx \<Rightarrow> worker_input \<Rightarrow> job \<Rightarrow> string \<Rightarrow> store \<Rightarrow> worker_pc \<times> store" where
  "step_promote ctx inp j run db =
     (case wi_fault inp of
        Some e \<Rightarrow> (W_Fail_Run j (Some run) e, db)
      | None \<Rightarrow>
          (case transition_to_running db (j_id j) run (Some (wc_worker_id ctx)) (wi_now inp) of
             Inl (Pipeline_Already_Running _) \<Rightarrow> (W_Release j run, db)
           | Inl e \<Rightarrow> (W_Fail_Run j (Some run) (wc_error_text ctx e), db)
           | Inr (db', True) \<Rightarrow> (W_Promoted j run, db')
           | Inr (db', False) \<Rightarrow> (W_Cancel j run ''claim lost (reclaimed by reaper)'', db')))"

definition step_release :: "worker_ctx \<Rightarrow> worker_input \<Rightarrow> job \<Rightarrow> string \<Rightarrow> store \<Rightarrow> worker_pc \<times> store" where
  "step_release ctx inp j run db =
     (case store_call ctx inp (release_claim db (j_id j)) of
        Inl e \<Rightarrow> (W_Fail_Run j (Some run) e, db)
      | Inr db' \<Rightarrow> (W_Cancel j run ''pipeline already running'', db'))"

text \<open>A status write of \<open>run_once\<close> itself, whose failure goes to \<open>_fail_job\<close>.\<close>

definition step_write_status ::
  "worker_ctx \<Rightarrow> worker_input \<Rightarrow> job \<Rightarrow> string \<Rightarrow> run_row_status \<Rightarrow> string option \<Rightarrow> worker_pc \<Rightarrow> store \<Rightarrow>
     worker_pc \<times> store" where
  "step_write_status ctx inp j run status error next_pc db =
     (case store_call ctx inp (update_run_status db run (wi_now inp) status error) of
        Inl e \<Rightarrow> (W_Fail_Run j (Some run) e, db)
      | Inr db' \<Rightarrow> (next_pc, db'))"

text \<open>The suppressed writes of \<open>_fail_job\<close>.\<close>

definition step_fail_run ::
  "worker_ctx \<Rightarrow> worker_input \<Rightarrow> job \<Rightarrow> string option \<Rightarrow> string \<Rightarrow> store \<Rightarrow> worker_pc \<times> store" where
  "step_fail_run ctx inp j run error db =
     (W_Fail_Job j run error,
      (case run of
         None \<Rightarrow> db
       | Some r \<Rightarrow>
           (case store_call ctx inp (update_run_status db r (wi_now inp) Run_Row_Failed (Some error)) of
              Inl _ \<Rightarrow> db | Inr db' \<Rightarrow> db')))"

definition step_fail_job ::
  "worker_ctx \<Rightarrow> worker_input \<Rightarrow> job \<Rightarrow> string option \<Rightarrow> string \<Rightarrow> store \<Rightarrow> worker_pc \<times> store" where
  "step_fail_job ctx inp j run error db =
     (W_Fail_Emit j run error,
      (case store_call ctx inp (mark_finished db (j_id j) Job_Failed (Some error) (Some (wc_worker_id ctx)) (wi_now inp)) of
         Inl _ \<Rightarrow> db | Inr (db', _) \<Rightarrow> db'))"

definition step_fail_emit ::
  "worker_ctx \<Rightarrow> worker_input \<Rightarrow> job \<Rightarrow> string option \<Rightarrow> string \<Rightarrow> store \<Rightarrow> worker_pc \<times> store" where
  "step_fail_emit ctx inp j run error db =
     (W_Done True,
      (case run of None \<Rightarrow> db | Some r \<Rightarrow> emit_run_event ctx inp ''run.failed'' r j (Some error) db))"

text \<open>The terminal writes of \<open>_finalize\<close>, outside the handler: a failure leaves \<open>run_once\<close>.\<close>

definition step_final_run :: "worker_ctx \<Rightarrow> worker_input \<Rightarrow> job \<Rightarrow> string \<Rightarrow> run_status \<Rightarrow> store \<Rightarrow> worker_pc \<times> store" where
  "step_final_run ctx inp j run r db =
     (case store_call ctx inp (update_run_status db run (wi_now inp) (run_status_of r) (run_error_of r)) of
        Inl e \<Rightarrow> (W_Raised e, db)
      | Inr db' \<Rightarrow> (W_Final_Job j run r, db'))"

definition step_final_job :: "worker_ctx \<Rightarrow> worker_input \<Rightarrow> job \<Rightarrow> string \<Rightarrow> run_status \<Rightarrow> store \<Rightarrow> worker_pc \<times> store" where
  "step_final_job ctx inp j run r db =
     (case store_call ctx inp (mark_finished db (j_id j) (job_status_of r) (run_error_of r)
             (Some (wc_worker_id ctx)) (wi_now inp)) of
        Inl e \<Rightarrow> (W_Raised e, db)
      | Inr (db', _) \<Rightarrow> (W_Final_Emit j run r, db'))"

definition step_final_emit :: "worker_ctx \<Rightarrow> worker_input \<Rightarrow> job \<Rightarrow> string \<Rightarrow> run_status \<Rightarrow> store \<Rightarrow> worker_pc \<times> store" where
  "step_final_emit ctx inp j run r db =
     (W_Done True,
      emit_run_event ctx inp (if r = Run_Succeeded then ''run.succeeded'' else ''run.failed'') run j (run_error_of r) db)"

fun worker_step :: "worker_ctx \<Rightarrow> worker_input \<Rightarrow> worker_pc \<Rightarrow> store \<Rightarrow> worker_pc \<times> store" where
  "worker_step ctx inp W_Idle db = step_claim ctx inp db"
| "worker_step ctx inp (W_Claimed j) db = step_create_run ctx inp j db"
| "worker_step ctx inp (W_Created j run) db = step_promote ctx inp j run db"
| "worker_step ctx inp (W_Release j run) db = step_release ctx inp j run db"
| "worker_step ctx inp (W_Cancel j run reason) db =
     step_write_status ctx inp j run Run_Row_Cancelled (Some reason) (W_Done False) db"
| "worker_step ctx inp (W_Promoted j run) db =
     step_write_status ctx inp j run Run_Row_Running None (W_Announce j run) db"
| "worker_step ctx inp (W_Announce j run) db =
     (W_Executing j run,
      emit_with (wc_emitter ctx) ''run.started''
        [(''run_id'', JString run), (''job_id'', JString (j_id j)), (''pipeline'', JString (j_pipeline j))] db)"
| "worker_step ctx inp (W_Executing j run) db =
     ((case wi_result inp of Inl e \<Rightarrow> W_Fail_Run j (Some run) e | Inr r \<Rightarrow> W_Final_Run j run r), db)"
| "worker_step ctx inp (W_Fail_Run j run e) db = step_fail_run ctx inp j run e db"
| "worker_step ctx inp (W_Fail_Job j run e) db = step_fail_job ctx inp j run e db"
| "worker_step ctx inp (W_Fail_Emit j run e) db = step_fail_emit ctx inp j run e db"
| "worker_step ctx inp (W_Final_Run j run r) db = step_final_run ctx inp j run r db"
| "worker_step ctx inp (W_Final_Job j run r) db = step_final_job ctx inp j run r db"
| "worker_step ctx inp (W_Final_Emit j run r) db = step_final_emit ctx inp j run r db"
| "worker_step ctx inp (W_Done b) db = (W_Done b, db)"
| "worker_step ctx inp (W_Raised e) db = (W_Raised e, db)"

text \<open>Alone on the store: the inputs of its steps in turn, at most twelve from the claim to the end.\<close>

fun run_machine :: "worker_ctx \<Rightarrow> worker_input list \<Rightarrow> worker_pc \<Rightarrow> store \<Rightarrow> worker_pc \<times> store" where
  "run_machine ctx [] pc db = (pc, db)"
| "run_machine ctx (i # is) pc db = (case worker_step ctx i pc db of (pc', db') \<Rightarrow> run_machine ctx is pc' db')"

definition run_once :: "worker_ctx \<Rightarrow> (nat \<Rightarrow> worker_input) \<Rightarrow> store \<Rightarrow> worker_pc \<times> store" where
  "run_once ctx inputs db = run_machine ctx (map inputs [0..<12]) W_Idle db"

section \<open>The reaper\<close>

text \<open>What follows the reclaim, for one reclaimed job.\<close>

definition reap_one ::
  "int \<Rightarrow> string \<times> string option \<times> string option \<Rightarrow> store \<Rightarrow> db_error + store" where
  "reap_one now = (\<lambda>(job_id, run_id, prior) db.
     bind_result (case run_id of
        None \<Rightarrow> Inr db
      | Some r \<Rightarrow> update_run_status db r now Run_Row_Failed (Some ''worker_crashed_or_unreachable'')) (\<lambda>db'.
     Inr (emit ''job.reclaimed''
       [(''job_id'', JString job_id), (''run_id'', opt_json JString run_id),
        (''prior_claimed_by'', opt_json JString prior), (''reason'', JString ''stale_heartbeat'')] db')))"

fun reap_each ::
  "int \<Rightarrow> (string \<times> string option \<times> string option) list \<Rightarrow> store \<Rightarrow> store \<times> (db_error + unit)" where
  "reap_each now [] db = (db, Inr ())"
| "reap_each now (r # rs) db =
     (case reap_one now r db of Inl e \<Rightarrow> (db, Inl e) | Inr db' \<Rightarrow> reap_each now rs db')"

definition reap_stale_once ::
  "store \<Rightarrow> string set \<Rightarrow> int \<Rightarrow> int \<Rightarrow> int \<Rightarrow> store \<times> (db_error + string list)" where
  "reap_stale_once db locked now threshold tenant =
     (case reclaim_stale db locked now threshold tenant of
        Inl e \<Rightarrow> (db, Inl e)
      | Inr (db', reclaimed) \<Rightarrow>
          (case reap_each now reclaimed db' of
             (db'', Inl e) \<Rightarrow> (db'', Inl e)
           | (db'', Inr ()) \<Rightarrow> (db'', Inr (map fst reclaimed))))"

section \<open>The heartbeat and the sink\<close>

text \<open>One beat of the loop: any failure is swallowed.\<close>

definition beat :: "string \<Rightarrow> string option \<Rightarrow> int \<Rightarrow> store \<Rightarrow> store" where
  "beat job_id worker_id now db = (case update_heartbeat db job_id worker_id now of Inl e \<Rightarrow> db | Inr db' \<Rightarrow> db')"

text \<open>\<open>_open\<close>: the rows started and not yet finished, by step and attempt.\<close>

type_synonym open_steps = "(string \<times> nat) \<rightharpoonup> string"

text \<open>The sink keeps what it has written when a later call raises, so both come back.\<close>

definition sink_step_started ::
  "string \<Rightarrow> string \<Rightarrow> string \<Rightarrow> string \<Rightarrow> nat \<Rightarrow> int \<Rightarrow> open_steps \<times> store \<Rightarrow>
     (open_steps \<times> store) \<times> db_error option" where
  "sink_step_started run new_id sid step_type attempt now = (\<lambda>(opened, db).
     (case create_step_run db new_id run sid step_type attempt None now of
        Inl e \<Rightarrow> ((opened, db), Some e)
      | Inr db' \<Rightarrow>
          ((opened((sid, attempt) \<mapsto> new_id),
            emit ''step.started''
              [(''step_run_id'', JString new_id), (''run_id'', JString run), (''type'', JString step_type)] db'),
           None)))"

definition step_run_status_of :: "step_status \<Rightarrow> step_run_status" where
  "step_run_status_of s = (case s of Succeeded \<Rightarrow> Step_Run_Succeeded | Failed \<Rightarrow> Step_Run_Failed | Skipped \<Rightarrow> Step_Run_Skipped)"

text \<open>The row of the attempt, inserted now when no start has been recorded.\<close>

definition sink_row ::
  "string \<Rightarrow> string \<Rightarrow> string \<Rightarrow> string \<Rightarrow> nat \<Rightarrow> int \<Rightarrow> open_steps \<Rightarrow> store \<Rightarrow> db_error + string \<times> store" where
  "sink_row run new_id sid step_type attempt now opened db =
     (case opened (sid, attempt) of
        Some i \<Rightarrow> Inr (i, db)
      | None \<Rightarrow>
          bind_result (create_step_run db new_id run sid step_type attempt None now) (\<lambda>db'. Inr (new_id, db')))"

definition sink_event :: "string \<Rightarrow> string \<Rightarrow> string \<Rightarrow> step_result \<Rightarrow> store \<Rightarrow> store" where
  "sink_event run i step_type res =
     emit (if sr_status res = Failed then ''step.failed'' else ''step.completed'')
       [(''step_run_id'', JString i), (''run_id'', JString run), (''type'', JString step_type),
        if sr_status res = Failed then (''error_message'', opt_json JString (sr_error_message res))
        else (''outputs'', JObject (sr_outputs res))]"

definition sink_step_finished ::
  "string \<Rightarrow> string \<Rightarrow> string \<Rightarrow> string \<Rightarrow> step_result \<Rightarrow> nat \<Rightarrow> int \<Rightarrow> open_steps \<times> store \<Rightarrow>
     (open_steps \<times> store) \<times> db_error option" where
  "sink_step_finished run new_id sid step_type res attempt now = (\<lambda>(opened, db).
     (let opened' = opened((sid, attempt) := None) in
      case sink_row run new_id sid step_type attempt now opened db of
        Inl e \<Rightarrow> ((opened', db), Some e)
      | Inr (i, db') \<Rightarrow>
          (case finish_step_run db' i (step_run_status_of (sr_status res)) (sr_outputs res)
                  (sr_error_message res) (sr_finished_at res) (Some (sr_duration_ms res)) now of
             Inl e \<Rightarrow> ((opened', db'), Some e)
           | Inr db'' \<Rightarrow> ((opened', sink_event run i step_type res db''), None))))"

section \<open>Where the machine ends\<close>

fun ended :: "worker_pc \<Rightarrow> bool" where
  "ended (W_Done b) = True"
| "ended (W_Raised e) = True"
| "ended _ = False"

text \<open>The calls a worker still makes, at most.\<close>

fun calls_left :: "worker_pc \<Rightarrow> nat" where
  "calls_left W_Idle = 9"
| "calls_left (W_Claimed j) = 8"
| "calls_left (W_Created j run) = 7"
| "calls_left (W_Release j run) = 5"
| "calls_left (W_Cancel j run reason) = 4"
| "calls_left (W_Promoted j run) = 6"
| "calls_left (W_Announce j run) = 5"
| "calls_left (W_Executing j run) = 4"
| "calls_left (W_Fail_Run j run e) = 3"
| "calls_left (W_Fail_Job j run e) = 2"
| "calls_left (W_Fail_Emit j run e) = 1"
| "calls_left (W_Final_Run j run r) = 3"
| "calls_left (W_Final_Job j run r) = 2"
| "calls_left (W_Final_Emit j run r) = 1"
| "calls_left (W_Done b) = 0"
| "calls_left (W_Raised e) = 0"

lemmas worker_step_defs =
  step_claim_def step_create_run_def step_promote_def step_release_def step_write_status_def
  step_fail_run_def step_fail_job_def step_fail_emit_def step_final_run_def step_final_job_def
  step_final_emit_def

lemma calls_left_step: "calls_left (fst (worker_step ctx inp pc db)) \<le> calls_left pc - 1"
  by (cases pc) (auto simp: worker_step_defs split: sum.splits option.splits db_error.splits bool.splits)

lemma calls_left_machine: "calls_left (fst (run_machine ctx is pc db)) \<le> calls_left pc - length is"
proof (induction "is" arbitrary: pc db)
  case (Cons i rest)
  obtain pc' db' where s: "worker_step ctx i pc db = (pc', db')" by (cases "worker_step ctx i pc db") auto
  with calls_left_step [of ctx i pc db] Cons [of pc' db'] show ?case by simp
qed simp

lemma ended_iff: "ended pc \<longleftrightarrow> calls_left pc = 0"
  by (cases pc) simp_all

lemma run_machine_ended: "ended pc \<Longrightarrow> run_machine ctx is pc db = (pc, db)"
  by (cases pc; induction "is") auto

text \<open>
  \<open>run_once\<close> always ends, by returning or by raising, whatever the store, the result of the
  execution and the faults of its calls: twelve calls are more than it ever makes.
\<close>
lemma run_once_ends: "ended (fst (run_once ctx inputs db))"
  using calls_left_machine [of ctx "map inputs [0..<12]" W_Idle db] by (simp add: run_once_def ended_iff)


section \<open>A job handled without contention\<close>

lemma claim_next_runs: "claim_next db locked w label tenant now = Inr (db', x) \<Longrightarrow> db_runs db' = db_runs db"
  by (auto simp: claim_next_def commit_jobs_def split: list.splits if_splits)

lemma jobs_ok_finish:
  "jobs_ok runs js \<Longrightarrow> s \<noteq> Job_Queued \<Longrightarrow> s \<noteq> Job_Running \<Longrightarrow> jobs_ok runs (update_job i (set_finished s e now) js)"
  by (intro jobs_ok_update) (simp_all add: set_finished_def pipeline_key_def)

lemma set_finished_simps [simp]:
  "j_id (set_finished s e now j) = j_id j" "j_status (set_finished s e now j) = s"
  "j_claimed_by (set_finished s e now j) = j_claimed_by j" "j_run_id (set_finished s e now j) = j_run_id j"
  "j_finished_at (set_finished s e now j) = Some now"
  by (simp_all add: set_finished_def)

lemma mark_finished_owner:
  assumes "jobs_ok (db_runs db) (db_jobs db)" and "find_job (db_jobs db) i = Some j" and "j_claimed_by j = Some w"
    and "j_status j = Job_Claimed \<or> j_status j = Job_Running" and "s \<noteq> Job_Queued" and "s \<noteq> Job_Running"
  shows "mark_finished db i s e (Some w) now = Inr (db\<lparr>db_jobs := update_job i (set_finished s e now) (db_jobs db)\<rparr>, True)"
  using assms(2-4) jobs_ok_finish [OF assms(1,5,6), of i e now]
  by (simp add: mark_finished_def Let_def commit_jobs_def)

lemma job_status_of_terminal [simp]: "job_status_of r \<noteq> Job_Queued" "job_status_of r \<noteq> Job_Running" "job_status_of r \<noteq> Job_Claimed"
  by (simp_all add: job_status_of_def split: run_status.split)

lemma emit_run_event_simps [simp]:
  "db_jobs (emit_run_event ctx inp kind run j e db) = db_jobs db" "db_runs (emit_run_event ctx inp kind run j e db) = db_runs db"
  by (simp_all add: emit_run_event_def)

text \<open>From the promotion on, the job is ours: the calls that follow reach its end.\<close>

lemma executed_job_finishes:
  assumes "jobs_ok (db_runs db) (db_jobs db)" and "find_job (db_jobs db) (j_id j) = Some k"
    and "j_claimed_by k = Some (wc_worker_id ctx)" and "j_status k = Job_Running"
    and "find_run (db_runs db) run = Some x"
    and "\<And>i. i \<in> set [i1, i2, i3] \<Longrightarrow> wi_fault i = None"
  shows "\<exists>db'. run_machine ctx (i1 # i2 # i3 # rest) (W_Final_Run j run r) db = (W_Done True, db') \<and>
    find_job (db_jobs db') (j_id j) = Some (set_finished (job_status_of r) (run_error_of r) (wi_now i2) k) \<and>
    find_run (db_runs db') run = Some (set_run_status (run_status_of r) (run_error_of r) (wi_now i1) x)"
proof -
  let ?runs = "update_run run (set_run_status (run_status_of r) (run_error_of r) (wi_now i1)) (db_runs db)"
  have ok: "jobs_ok (db_runs (db\<lparr>db_runs := ?runs\<rparr>)) (db_jobs (db\<lparr>db_runs := ?runs\<rparr>))"
    using jobs_ok_runs [OF assms(1), of ?runs] by (simp del: set_map)
  have run: "update_run_status db run (wi_now i1) (run_status_of r) (run_error_of r) = Inr (db\<lparr>db_runs := ?runs\<rparr>)"
    using assms(5) by (simp add: update_run_status_def)
  have job: "mark_finished (db\<lparr>db_runs := ?runs\<rparr>) (j_id j) (job_status_of r) (run_error_of r) (Some (wc_worker_id ctx)) (wi_now i2) =
      Inr (db\<lparr>db_runs := ?runs, db_jobs := update_job (j_id j) (set_finished (job_status_of r) (run_error_of r) (wi_now i2)) (db_jobs db)\<rparr>, True)"
    using mark_finished_owner [OF ok, of "j_id j" k "wc_worker_id ctx" "job_status_of r"] assms(2-4) by simp
  show ?thesis
    using assms(2,5,6)
    by (simp add: step_final_run_def step_final_job_def step_final_emit_def store_call_def run job
      run_machine_ended find_job_update find_run_update)
qed


text \<open>The row \<open>create_run\<close> inserts for a claimed job.\<close>

definition fresh_run :: "string \<Rightarrow> int \<Rightarrow> job \<Rightarrow> run_row" where
  "fresh_run run now j =
     \<lparr>r_id = run, r_kind = ''pipeline'', r_target_id = j_id j, r_target = Some (j_target j),
      r_pipeline_name = None, r_parent_run_id = None, r_status = Run_Row_Queued,
      r_started_at = None, r_completed_at = None, r_duration_ms = None,
      r_error_message = None, r_created_at = now\<rparr>"

lemma fresh_run_id [simp]: "r_id (fresh_run run now j) = run"
  by (simp add: fresh_run_def)

lemma create_run_fresh:
  "run \<notin> r_id ` set (db_runs db) \<Longrightarrow>
     create_run db run now ''pipeline'' (j_id j) None (Some (j_target j)) None =
       Inr (db\<lparr>db_runs := db_runs db @ [fresh_run run now j]\<rparr>)"
  by (simp add: create_run_def fresh_run_def)

lemma find_run_append:
  "run \<notin> r_id ` set rs \<Longrightarrow> r_id x = run \<Longrightarrow> find_run (rs @ [x]) run = Some x"
  unfolding find_run_def by (induction rs) auto

lemma promote_uncontended:
  assumes "jobs_ok (db_runs db) (db_jobs db)" and "find_job (db_jobs db) i = Some j"
    and "j_claimed_by j = Some w" and "j_status j = Job_Claimed" and "r \<in> r_id ` set (db_runs db)"
    and "\<And>k. k \<in> set (db_jobs db) \<Longrightarrow> j_status k = Job_Running \<Longrightarrow> pipeline_key k \<noteq> pipeline_key j"
  shows "transition_to_running db i r (Some w) now =
    Inr (db\<lparr>db_jobs := update_job i (set_running r now) (db_jobs db)\<rparr>, True)"
proof -
  have "jobs_ok (db_runs db) (update_job i (set_running r now) (db_jobs db))"
    using jobs_ok_promote [OF assms(1,2,4)] assms(5,6) by blast
  then show ?thesis
    using assms(2-4) by (simp add: transition_to_running_def Let_def commit_jobs_def as_already_running_def)
qed

definition uncontended :: "worker_ctx \<Rightarrow> (nat \<Rightarrow> worker_input) \<Rightarrow> store \<Rightarrow> job \<Rightarrow> bool" where
  "uncontended ctx inputs db j \<longleftrightarrow>
     jobs_ok (db_runs db) (db_jobs db) \<and>
     (case claim_next db (wi_locked (inputs 0)) (wc_worker_id ctx) (wc_label ctx) 1 (wi_now (inputs 0)) of
        Inr (_, Some k) \<Rightarrow> k = j
      | _ \<Rightarrow> False) \<and>
     wi_new_id (inputs 1) \<notin> r_id ` set (db_runs db) \<and>
     list_all (\<lambda>k. j_status k = Job_Running \<longrightarrow> pipeline_key k \<noteq> pipeline_key j) (db_jobs db) \<and>
     list_all (\<lambda>n. wi_fault (inputs n) = None) [0..<9]"

text \<open>The claim and the promotion: five calls that put the job and a new run in execution.\<close>

lemma uncontended_reaches_execution:
  assumes u: "uncontended ctx inputs db j"
  shows "\<exists>db' k. run_machine ctx (map inputs [0..<5]) W_Idle db = (W_Executing j (wi_new_id (inputs 1)), db') \<and>
    jobs_ok (db_runs db') (db_jobs db') \<and> find_job (db_jobs db') (j_id j) = Some k \<and>
    k = set_running (wi_new_id (inputs 1)) (wi_now (inputs 2)) j \<and> j_claimed_by j = Some (wc_worker_id ctx) \<and>
    find_run (db_runs db') (wi_new_id (inputs 1)) =
      Some (set_run_status Run_Row_Running None (wi_now (inputs 3)) (fresh_run (wi_new_id (inputs 1)) (wi_now (inputs 1)) j))"
proof -
  let ?w = "wc_worker_id ctx" and ?run = "wi_new_id (inputs 1)"
  let ?row = "fresh_run ?run (wi_now (inputs 1)) j"
  have ok: "jobs_ok (db_runs db) (db_jobs db)" and fresh: "?run \<notin> r_id ` set (db_runs db)"
    and free: "\<And>k. k \<in> set (db_jobs db) \<Longrightarrow> j_status k = Job_Running \<Longrightarrow> pipeline_key k \<noteq> pipeline_key j"
    and calm: "wi_fault (inputs 0) = None" "wi_fault (inputs 1) = None" "wi_fault (inputs 2) = None" "wi_fault (inputs 3) = None"
    using u by (auto simp: uncontended_def list_all_iff)
  obtain db1 where claim: "claim_next db (wi_locked (inputs 0)) ?w (wc_label ctx) 1 (wi_now (inputs 0)) = Inr (db1, Some j)"
    using u by (auto simp: uncontended_def split: sum.splits prod.splits option.splits)
  obtain q where q: "q \<in> set (db_jobs db)" "j_status q = Job_Queued" "j = set_claimed ?w (wi_now (inputs 0)) q"
    "db_jobs db1 = update_job (j_id q) (set_claimed ?w (wi_now (inputs 0))) (db_jobs db)"
    using claim_next_Some [OF ok claim] by (metis claimable_def)
  have j: "j_id j = j_id q" "j_status j = Job_Claimed" "j_claimed_by j = Some ?w" "pipeline_key j = pipeline_key q"
    using q(3) by (simp_all add: set_claimed_def pipeline_key_def)
  have runs1: "db_runs db1 = db_runs db" using claim by (rule claim_next_runs)
  define db2 where "db2 = db1\<lparr>db_runs := db_runs db @ [?row]\<rparr>"
  have "jobs_ok (db_runs db) (db_jobs db1)" unfolding q(4) using ok by (rule jobs_ok_claim)
  then have ok2: "jobs_ok (db_runs db2) (db_jobs db2)" unfolding db2_def by (auto intro: jobs_ok_runs)
  have "find_job (db_jobs db) (j_id q) = Some q"
    using q(1) ok find_job_iff by (metis jobs_ok_def)
  then have find2: "find_job (db_jobs db2) (j_id j) = Some j"
    unfolding db2_def j(1) q(4) using q(3) by (simp add: find_job_update set_claimed_def q(4))
  have "k \<in> set (db_jobs db2) \<Longrightarrow> j_status k = Job_Running \<Longrightarrow> pipeline_key k \<noteq> pipeline_key j" for k
    using free by (auto simp: db2_def q(4) update_job_def set_claimed_def split: if_splits)
  then have promote: "transition_to_running db2 (j_id j) ?run (Some ?w) (wi_now (inputs 2)) =
      Inr (db2\<lparr>db_jobs := update_job (j_id j) (set_running ?run (wi_now (inputs 2))) (db_jobs db2)\<rparr>, True)"
    using promote_uncontended [OF ok2 find2 j(3,2)] by (simp add: db2_def)
  define db3 where "db3 = db2\<lparr>db_jobs := update_job (j_id j) (set_running ?run (wi_now (inputs 2))) (db_jobs db2)\<rparr>"
  have ok3: "jobs_ok (db_runs db3) (db_jobs db3)"
    using promote by (auto simp: db3_def transition_to_running_def Let_def commit_jobs_def as_already_running_def
      split: option.splits if_splits)
  have run3: "find_run (db_runs db3) ?run = Some ?row"
    using fresh by (simp add: db3_def db2_def find_run_append)
  let ?up = "update_run ?run (set_run_status Run_Row_Running None (wi_now (inputs 3))) (db_runs db3)"
  have status: "update_run_status db3 ?run (wi_now (inputs 3)) Run_Row_Running None = Inr (db3\<lparr>db_runs := ?up\<rparr>)"
    using run3 by (simp add: update_run_status_def)
  have five: "map inputs [0..<5] = [inputs 0, inputs 1, inputs 2, inputs 3, inputs 4]"
    by (simp add: upt_rec eval_nat_numeral)
  have create: "create_run db1 ?run (wi_now (inputs 1)) ''pipeline'' (j_id j) None (Some (j_target j)) None = Inr db2"
    using create_run_fresh [of ?run db1] fresh runs1 by (simp add: db2_def)
  have "run_machine ctx (map inputs [0..<5]) W_Idle db =
      (W_Executing j ?run, emit_with (wc_emitter ctx) ''run.started''
        [(''run_id'', JString ?run), (''job_id'', JString (j_id j)), (''pipeline'', JString (j_pipeline j))]
        (db3\<lparr>db_runs := ?up\<rparr>))"
    unfolding five by (simp add: step_claim_def step_create_run_def step_promote_def step_write_status_def
      store_call_def calm claim create promote status flip: db3_def del: One_nat_def)
  moreover have "jobs_ok ?up (db_jobs db3)" using jobs_ok_runs [OF ok3, of ?up] by (simp del: set_map)
  moreover have "find_job (db_jobs db3) (j_id j) = Some (set_running ?run (wi_now (inputs 2)) j)"
    using find2 by (simp add: db3_def find_job_update)
  ultimately show ?thesis using run3 j(3) by (simp add: find_run_update)
qed


lemma run_machine_append:
  "run_machine ctx (xs @ ys) pc db = (case run_machine ctx xs pc db of (pc', db') \<Rightarrow> run_machine ctx ys pc' db')"
  by (induction xs arbitrary: pc db) (auto split: prod.splits)

lemma twelve_inputs:
  "map f [0..<12] = map f [0..<5] @ f 5 # f 6 # f 7 # f 8 # map f [9..<12]"
  by (simp add: upt_rec eval_nat_numeral)


definition example_ctx :: worker_ctx where
  "example_ctx = \<lparr>wc_worker_id = ''w1'', wc_label = None, wc_emitter = Some True, wc_error_text = (\<lambda>_. ''db error'')\<rparr>"

definition example_inputs :: "nat \<Rightarrow> worker_input" where
  "example_inputs n = \<lparr>wi_now = 1000 * (int n + 7), wi_locked = {}, wi_new_id = ''r1'',
                       wi_result = Inr Run_Partial, wi_fault = None\<rparr>"



section \<open>The rows of the sink\<close>

text \<open>The calls the walk makes to the sink of one run; a raised error leaves what was written.\<close>

datatype sink_call =
    Call_Started string string string nat int
  | Call_Finished string string string step_result nat int

fun call_key :: "sink_call \<Rightarrow> string \<times> nat" where
  "call_key (Call_Started new_id sid ty att now) = (sid, att)"
| "call_key (Call_Finished new_id sid ty res att now) = (sid, att)"

fun do_sink_call :: "string \<Rightarrow> sink_call \<Rightarrow> open_steps \<times> store \<Rightarrow> open_steps \<times> store" where
  "do_sink_call run (Call_Started new_id sid ty att now) s = fst (sink_step_started run new_id sid ty att now s)"
| "do_sink_call run (Call_Finished new_id sid ty res att now) s = fst (sink_step_finished run new_id sid ty res att now s)"

text \<open>Open attempts have distinct rows, and the rows exist.\<close>

definition sink_ok :: "open_steps \<times> store \<Rightarrow> bool" where
  "sink_ok = (\<lambda>(opened, db). distinct (map sx_id (db_step_runs db)) \<and> inj_on opened (dom opened) \<and>
     (\<forall>k i. opened k = Some i \<longrightarrow> i \<in> sx_id ` set (db_step_runs db)))"

definition step_row :: "string \<Rightarrow> store \<Rightarrow> step_run list" where
  "step_row i db = filter (\<lambda>r. sx_id r = i) (db_step_runs db)"

lemma create_step_run_rows:
  assumes "create_step_run db i run sid ty att t now = Inr db'"
  obtains row where "db_step_runs db' = db_step_runs db @ [row]" "i \<notin> sx_id ` set (db_step_runs db)"
    "sx_id row = i" "sx_run_id row = run" "sx_step_id row = sid" "sx_step_type row = ty" "sx_attempt row = att"
    "sx_status row = Step_Run_Running"
  using assms by (auto simp: create_step_run_def Let_def split: if_splits)

lemma finish_step_run_rows:
  assumes "finish_step_run db i st outs e fin dur now = Inr db'"
  shows "i \<in> sx_id ` set (db_step_runs db)" and "map sx_id (db_step_runs db') = map sx_id (db_step_runs db)"
    and "k \<noteq> i \<Longrightarrow> step_row k db' = step_row k db"
proof -
  show "i \<in> sx_id ` set (db_step_runs db)" "map sx_id (db_step_runs db') = map sx_id (db_step_runs db)"
    using assms by (auto simp: finish_step_run_def split: if_splits)
  assume k: "k \<noteq> i"
  have "filter (\<lambda>r. sx_id r = k) (map (\<lambda>s. if sx_id s = i then f s else s) rs) = filter (\<lambda>r. sx_id r = k) rs"
    if "\<And>s. sx_id (f s) = sx_id s" for f :: "step_run \<Rightarrow> step_run" and rs
    using k that by (induction rs) auto
  then show "step_row k db' = step_row k db"
    using assms by (auto simp: finish_step_run_def step_row_def split: if_splits)
qed

lemma step_row_emit [simp]: "step_row i (emit k p db) = step_row i db"
  by (simp add: step_row_def)

lemma sink_event_rows [simp]: "db_step_runs (sink_event run i ty res db) = db_step_runs db" "step_row k (sink_event run i ty res db) = step_row k db"
  by (simp_all add: sink_event_def)

lemma sink_ok_new_row:
  assumes "sink_ok (opened, db)" and "db_step_runs db' = db_step_runs db @ [row]"
    and "sx_id row \<notin> sx_id ` set (db_step_runs db)"
  shows "sink_ok (opened, db')" and "sink_ok (opened(k \<mapsto> sx_id row), db')"
  using assms by (fastforce simp: sink_ok_def inj_on_def split: if_splits)+

lemma sink_ok_close: "sink_ok (opened, db) \<Longrightarrow> sink_ok (opened(k := None), db)"
  by (auto simp: sink_ok_def inj_on_def)

lemma sink_ok_rows: "sink_ok (opened, db) \<Longrightarrow> map sx_id (db_step_runs db') = map sx_id (db_step_runs db) \<Longrightarrow> sink_ok (opened, db')"
  unfolding sink_ok_def case_prod_conv set_map [symmetric] by simp

lemma sink_row_ok:
  assumes "sink_row run new_id sid ty att now opened db = Inr (i, db')" and "sink_ok (opened, db)"
    and "opened k = Some j" and "k \<noteq> (sid, att)"
  shows "sink_ok (opened, db')" and "i \<noteq> j" and "step_row j db' = step_row j db"
proof -
  have j: "j \<in> sx_id ` set (db_step_runs db)" using assms(2,3) unfolding sink_ok_def by blast
  have "sink_ok (opened, db') \<and> i \<noteq> j \<and> step_row j db' = step_row j db"
  proof (cases "opened (sid, att)")
    case (Some x)
    then have "i = x" "db' = db" using assms(1) by (simp_all add: sink_row_def)
    moreover have "x \<noteq> j"
      using Some assms(2-4) unfolding sink_ok_def by (auto dest!: inj_onD [of opened _ k "(sid, att)"])
    ultimately show ?thesis using assms(2) by simp
  next
    case None
    then have c: "create_step_run db new_id run sid ty att None now = Inr db'" "i = new_id"
      using assms(1) by (cases "create_step_run db new_id run sid ty att None now"; simp add: sink_row_def)+
    from c(1) obtain row where row: "db_step_runs db' = db_step_runs db @ [row]"
      "new_id \<notin> sx_id ` set (db_step_runs db)" "sx_id row = new_id"
      by (rule create_step_run_rows)
    have "sink_ok (opened, db')" using sink_ok_new_row(1) [OF assms(2) row(1)] row(2,3) by simp
    with c row j show ?thesis by (auto simp: step_row_def)
  qed
  then show "sink_ok (opened, db')" "i \<noteq> j" "step_row j db' = step_row j db" by blast+
qed


lemma other_sink_call:
  assumes "sink_ok s" and "fst s k = Some j" and "call_key c \<noteq> k"
  shows "sink_ok (do_sink_call run c s) \<and> fst (do_sink_call run c s) k = Some j \<and>
    step_row j (snd (do_sink_call run c s)) = step_row j (snd s)"
proof (cases s)
  case (Pair opened db)
  have j: "j \<in> sx_id ` set (db_step_runs db)" using assms(1,2) unfolding Pair sink_ok_def case_prod_conv fst_conv by blast
  show ?thesis
  proof (cases c)
    case (Call_Started new_id sid ty att now)
    show ?thesis
    proof (cases "create_step_run db new_id run sid ty att None now")
      case (Inl e)
      with Pair Call_Started assms show ?thesis by (simp add: sink_step_started_def)
    next
      case (Inr db')
      then obtain row where row: "db_step_runs db' = db_step_runs db @ [row]"
        "new_id \<notin> sx_id ` set (db_step_runs db)" "sx_id row = new_id"
        by (rule create_step_run_rows)
      have "sink_ok (opened((sid, att) \<mapsto> new_id), db')"
        using sink_ok_new_row(2) [OF _ row(1), of opened "(sid, att)"] assms(1) row(2,3) Pair by simp
      moreover have "step_row j db' = step_row j db" using row j by (auto simp: step_row_def)
      ultimately show ?thesis
        using Pair Call_Started assms(2,3) Inr by (simp add: sink_step_started_def sink_ok_def)
    qed
  next
    case (Call_Finished new_id sid ty res att now)
    have k: "k \<noteq> (sid, att)" using assms(3) Call_Finished by simp
    note ok = assms(1) [unfolded Pair] and open_k = assms(2) [unfolded Pair fst_conv]
    show ?thesis
    proof (cases "sink_row run new_id sid ty att now opened db")
      case (Inl e)
      with Pair Call_Finished k open_k sink_ok_close [OF ok] show ?thesis
        by (simp add: sink_step_finished_def)
    next
      case (Inr p)
      then obtain i db' where row: "sink_row run new_id sid ty att now opened db = Inr (i, db')" by (cases p) auto
      note r = sink_row_ok [OF row ok open_k k]
      show ?thesis
      proof (cases "finish_step_run db' i (step_run_status_of (sr_status res)) (sr_outputs res)
          (sr_error_message res) (sr_finished_at res) (Some (sr_duration_ms res)) now")
        case (Inl e)
        with Pair Call_Finished k open_k row r sink_ok_close [OF r(1)] show ?thesis
          by (simp add: sink_step_finished_def)
      next
        case (Inr db'')
        note f = finish_step_run_rows [OF Inr]
        have "sink_ok (opened, db'')" using sink_ok_rows [OF r(1) f(2)] .
        then have "sink_ok (opened((sid, att) := None), sink_event run i ty res db'')"
          by (intro sink_ok_close) (simp add: sink_ok_def)
        with Pair Call_Finished k open_k row r Inr f(3) show ?thesis
          by (simp add: sink_step_finished_def)
      qed
    qed
  qed
qed

lemma other_sink_calls:
  assumes "sink_ok s" and "fst s k = Some j" and "list_all (\<lambda>c. call_key c \<noteq> k) calls"
  shows "sink_ok (fold (do_sink_call run) calls s) \<and> fst (fold (do_sink_call run) calls s) k = Some j \<and>
    step_row j (snd (fold (do_sink_call run) calls s)) = step_row j (snd s)"
  using assms
proof (induction calls arbitrary: s)
  case (Cons c calls)
  from other_sink_call [OF Cons.prems(1,2), of c run] Cons.prems(3)
  show ?case using Cons.IH [of "do_sink_call run c s"] by simp
qed simp

text \<open>
  The start of a step attempt and its finish write one row, whatever other steps and attempts
  start and finish in between: the finish raises nothing, closes the attempt, and leaves exactly
  one row with the id of the start, of the run, step, type and attempt of the start, and with the
  status, outputs and message of the result.
\<close>
theorem sink_pairs_start_and_finish:
  assumes "sink_ok s" and "sink_step_started run i sid ty att t0 s = (s1, None)"
    and "list_all (\<lambda>c. call_key c \<noteq> (sid, att)) calls"
  shows "\<exists>opened db row. sink_step_finished run i' sid ty res att t1 (fold (do_sink_call run) calls s1) = ((opened, db), None) \<and>
    opened (sid, att) = None \<and> filter (\<lambda>r. sx_id r = i) (db_step_runs db) = [row] \<and>
    sx_run_id row = run \<and> sx_step_id row = sid \<and> sx_step_type row = ty \<and> sx_attempt row = att \<and>
    sx_status row = step_run_status_of (sr_status res) \<and> sx_outputs row = sr_outputs res \<and>
    sx_error_message row = sr_error_message res"
proof -
  obtain opened0 db0 where s: "s = (opened0, db0)" by (cases s)
  obtain db1 where c: "create_step_run db0 i run sid ty att None t0 = Inr db1"
    using assms(2) s by (auto simp: sink_step_started_def split: sum.splits)
  then obtain row where row: "db_step_runs db1 = db_step_runs db0 @ [row]" "i \<notin> sx_id ` set (db_step_runs db0)"
    "sx_id row = i" "sx_run_id row = run" "sx_step_id row = sid" "sx_step_type row = ty" "sx_attempt row = att"
    by (rule create_step_run_rows)
  have s1: "fst s1 (sid, att) = Some i" "db_step_runs (snd s1) = db_step_runs db1" "fst s1 = opened0((sid, att) \<mapsto> i)"
    using assms(2) s c by (auto simp: sink_step_started_def)
  have "sink_ok s1"
    using sink_ok_new_row(2) [OF _ row(1), of opened0 "(sid, att)"] assms(1) s row(2,3) s1(2,3)
    by (simp add: sink_ok_def case_prod_beta)
  from other_sink_calls [OF this s1(1) assms(3), of run]
  obtain opened2 db2 where s2: "fold (do_sink_call run) calls s1 = (opened2, db2)" "opened2 (sid, att) = Some i"
    "step_row i db2 = step_row i (snd s1)"
    by (cases "fold (do_sink_call run) calls s1") auto
  have one: "filter (\<lambda>r. sx_id r = i) (db_step_runs db2) = [row]"
    using s2(3) s1(2) row(1-3) by (auto simp: step_row_def filter_empty_conv image_iff)
  then have mem: "i \<in> sx_id ` set (db_step_runs db2)" using row(3) by (auto simp: filter_eq_Cons_iff image_iff)
  have "filter (\<lambda>r. sx_id r = i) (map (\<lambda>r. if sx_id r = i then f r else r) rs) = map f (filter (\<lambda>r. sx_id r = i) rs)"
    if "\<And>r. sx_id (f r) = sx_id r" for f :: "step_run \<Rightarrow> step_run" and rs
    using that by (induction rs) auto
  with one mem s2(1,2) row(4-7) show ?thesis
    by (simp add: sink_step_finished_def sink_row_def finish_step_run_def Let_def)
qed

lemma sink_pairs_start_and_finish_witness:
  "\<exists>opened db row. sink_step_finished ''r1'' ''x9'' ''load'' ''dlt'' (new_result Failed (Some ''boom'')) 1 9
      (fold (do_sink_call ''r1'') [Call_Started ''x2'' ''model'' ''dbt'' 1 5]
        (fst (sink_step_started ''r1'' ''x1'' ''load'' ''dlt'' 1 4 (Map.empty, crashed_store)))) = ((opened, db), None) \<and>
    filter (\<lambda>r. sx_id r = ''x1'') (db_step_runs db) = [row] \<and> sx_status row = Step_Run_Failed \<and>
    sx_error_message row = Some ''boom''"
proof -
  let ?s1 = "fst (sink_step_started ''r1'' ''x1'' ''load'' ''dlt'' 1 4 (Map.empty, crashed_store))"
  have ok: "sink_ok (Map.empty, crashed_store)"
    by (simp add: sink_ok_def crashed_store_def empty_store_def)
  have "snd (sink_step_started ''r1'' ''x1'' ''load'' ''dlt'' 1 4 (Map.empty, crashed_store)) = None"
    by code_simp
  then have start: "sink_step_started ''r1'' ''x1'' ''load'' ''dlt'' 1 4 (Map.empty, crashed_store) = (?s1, None)"
    by (simp add: prod_eq_iff)
  have keys: "list_all (\<lambda>c. call_key c \<noteq> (''load'', 1)) [Call_Started ''x2'' ''model'' ''dbt'' 1 5]" by simp
  have "step_run_status_of (sr_status (new_result Failed (Some ''boom''))) = Step_Run_Failed"
    "sr_error_message (new_result Failed (Some ''boom'')) = Some ''boom''" by code_simp+
  with sink_pairs_start_and_finish [OF ok start keys, of "''x9''" "new_result Failed (Some ''boom'')" 9]
  show ?thesis by auto
qed

end
