(* ===== verification/Queue_System.thy ===== *)
theory Queue_System
  imports Worker
begin

text \<open>
  The queue under all its users at once: any number of workers in any position of
  \<open>run_once\<close> (\<open>runtime/worker.py\<close>, repeated by \<open>worker_loop\<close>), their heartbeats, the scheduler and
  the users who enqueue, and the reaper. A step of the system is one transaction of one of them,
  in any order and with any input; a worker that makes no more steps has crashed. The theorems
  are about every state such a history reaches.
\<close>

section \<open>The system\<close>

text \<open>
  \<open>sys_reclaimed\<close> are the jobs of a reclaim whose runs the reaper has not failed yet.
\<close>

record system =
  sys_db :: store
  sys_pc :: "string \<Rightarrow> worker_pc"
  sys_reclaimed :: "(string \<times> string option \<times> string option) list"

datatype sys_action =
    Act_Worker string worker_input
  | Act_Next string
  | Act_Beat string string int
  | Act_Register string string int "string option" int
  | Act_Unregister string int
  | Act_Scheduled string int string string "int option" "string option"
  | Act_Manual string int string string string "string option"
  | Act_Reclaim "string set" int int
  | Act_Reap int

text \<open>A transaction that raises leaves the store as it was.\<close>

definition after_call :: "store \<Rightarrow> db_error + store \<times> 'a \<Rightarrow> store" where
  "after_call db r = (case r of Inl e \<Rightarrow> db | Inr (db', x) \<Rightarrow> db')"

definition worker_acts :: "(string \<Rightarrow> worker_ctx) \<Rightarrow> string \<Rightarrow> worker_input \<Rightarrow> system \<Rightarrow> system" where
  "worker_acts cfg w inp s =
     (case worker_step (cfg w) inp (sys_pc s w) (sys_db s) of
        (pc', db') \<Rightarrow> s\<lparr>sys_db := db', sys_pc := (sys_pc s)(w := pc')\<rparr>)"

text \<open>\<open>worker_loop\<close> polls again once \<open>run_once\<close> has returned or raised.\<close>

definition worker_polls_again :: "string \<Rightarrow> system \<Rightarrow> system" where
  "worker_polls_again w s = (if ended (sys_pc s w) then s\<lparr>sys_pc := (sys_pc s)(w := W_Idle)\<rparr> else s)"

definition reaper_reclaims :: "string set \<Rightarrow> int \<Rightarrow> int \<Rightarrow> system \<Rightarrow> system" where
  "reaper_reclaims locked now threshold s =
     (case reclaim_stale (sys_db s) locked now threshold 1 of
        Inl e \<Rightarrow> s
      | Inr (db', rs) \<Rightarrow> s\<lparr>sys_db := db', sys_reclaimed := sys_reclaimed s @ rs\<rparr>)"

text \<open>A reaper whose write fails drops the rest of its pass.\<close>

definition reaper_reaps :: "int \<Rightarrow> system \<Rightarrow> system" where
  "reaper_reaps now s =
     (case sys_reclaimed s of
        [] \<Rightarrow> s
      | r # rs \<Rightarrow>
          (case reap_one now r (sys_db s) of
             Inl e \<Rightarrow> s\<lparr>sys_reclaimed := []\<rparr>
           | Inr db' \<Rightarrow> s\<lparr>sys_db := db', sys_reclaimed := rs\<rparr>))"

fun sys_step :: "(string \<Rightarrow> worker_ctx) \<Rightarrow> sys_action \<Rightarrow> system \<Rightarrow> system" where
  "sys_step cfg (Act_Worker w inp) s = worker_acts cfg w inp s"
| "sys_step cfg (Act_Next w) s = worker_polls_again w s"
| "sys_step cfg (Act_Beat w i now) s = s\<lparr>sys_db := beat i (Some w) now (sys_db s)\<rparr>"
| "sys_step cfg (Act_Register w host pid label now) s =
     s\<lparr>sys_db := register_worker (sys_db s) w host pid label 1 now\<rparr>"
| "sys_step cfg (Act_Unregister w now) s = s\<lparr>sys_db := unregister_worker (sys_db s) w now\<rparr>"
| "sys_step cfg (Act_Scheduled new_id now p target due label) s =
     s\<lparr>sys_db := after_call (sys_db s) (enqueue_scheduled (sys_db s) new_id now p target due label 1)\<rparr>"
| "sys_step cfg (Act_Manual new_id now p target trigger label) s =
     s\<lparr>sys_db := after_call (sys_db s) (enqueue_manual (sys_db s) new_id now p target trigger label 1)\<rparr>"
| "sys_step cfg (Act_Reclaim locked now threshold) s = reaper_reclaims locked now threshold s"
| "sys_step cfg (Act_Reap now) s = reaper_reaps now s"

text \<open>The states a history of admissible actions reaches.\<close>

inductive reached :: "('a \<Rightarrow> 's \<Rightarrow> 's) \<Rightarrow> ('s \<Rightarrow> 'a \<Rightarrow> bool) \<Rightarrow> 's \<Rightarrow> 's \<Rightarrow> bool"
  for step :: "'a \<Rightarrow> 's \<Rightarrow> 's" and admissible :: "'s \<Rightarrow> 'a \<Rightarrow> bool" and start :: 's where
  reached_start: "reached step admissible start start"
| reached_step: "reached step admissible start s \<Longrightarrow> admissible s a \<Longrightarrow> reached step admissible start (step a s)"

inductive_cases reachedE: "reached step admissible start s"

definition initial_system :: "bool option \<Rightarrow> string list \<Rightarrow> system" where
  "initial_system emitter pipelines =
     \<lparr>sys_db = empty_store\<lparr>db_emitter := emitter, db_pipelines := pipelines\<rparr>,
      sys_pc = (\<lambda>_. W_Idle), sys_reclaimed = []\<rparr>"

text \<open>Every worker is configured with its own id.\<close>

definition own_ids :: "(string \<Rightarrow> worker_ctx) \<Rightarrow> bool" where
  "own_ids cfg \<longleftrightarrow> (\<forall>w. wc_worker_id (cfg w) = w)"

section \<open>Invariants of step systems\<close>

locale step_invariant =
  fixes step :: "'a \<Rightarrow> 's \<Rightarrow> 's"
    and admissible :: "'s \<Rightarrow> 'a \<Rightarrow> bool"
    and good :: "'s \<Rightarrow> bool"
  assumes step_good: "good s \<Longrightarrow> admissible s a \<Longrightarrow> good (step a s)"
begin

lemma reached_good: "reached step admissible start s \<Longrightarrow> good start \<Longrightarrow> good s"
  by (induction rule: reached.induct) (auto intro: step_good)

end

section \<open>What the transactions change\<close>

definition job_active :: "job \<Rightarrow> bool" where
  "job_active j \<longleftrightarrow> j_status j = Job_Claimed \<or> j_status j = Job_Running"

abbreviation consistent :: "store \<Rightarrow> bool" where
  "consistent db \<equiv> jobs_ok (db_runs db) (db_jobs db)"

definition run_ids :: "store \<Rightarrow> string set" where
  "run_ids db = r_id ` set (db_runs db)"

text \<open>The rows of active jobs are kept, and nothing else becomes active.\<close>

definition no_new_active :: "store \<Rightarrow> store \<Rightarrow> bool" where
  "no_new_active db db' \<longleftrightarrow> (\<forall>j \<in> set (db_jobs db'). job_active j \<longrightarrow> j \<in> set (db_jobs db))"

definition runs_kept :: "store \<Rightarrow> store \<Rightarrow> bool" where
  "runs_kept db db' \<longleftrightarrow> run_ids db \<subseteq> run_ids db'"

named_theorems quiet

text \<open>A transaction is quiet when it keeps the constraints and the runs and activates no job.\<close>

definition quiet_step :: "store \<Rightarrow> store \<Rightarrow> bool" where
  "quiet_step db db' \<longleftrightarrow> (consistent db \<longrightarrow> consistent db' \<and> no_new_active db db') \<and> runs_kept db db'"

lemma quiet_refl [simp, intro]: "quiet_step db db"
  by (simp add: quiet_step_def runs_kept_def no_new_active_def)

lemma quiet_trans: "quiet_step a b \<Longrightarrow> quiet_step b c \<Longrightarrow> quiet_step a c"
  unfolding quiet_step_def runs_kept_def no_new_active_def by blast

lemma quiet_same_tables:
  "db_jobs db' = db_jobs db \<Longrightarrow> run_ids db' = run_ids db \<Longrightarrow> quiet_step db db'"
  using jobs_ok_runs [of "db_runs db" "db_jobs db" "db_runs db'"]
  by (auto simp: quiet_step_def runs_kept_def no_new_active_def run_ids_def)

lemma quiet_emit_with [quiet]: "quiet_step db (emit_with m k p db)"
  by (rule quiet_same_tables) (simp_all add: run_ids_def)

lemma quiet_emit [quiet]: "quiet_step db (emit k p db)"
  by (rule quiet_same_tables) (simp_all add: run_ids_def)

lemma quiet_emit_run_event [quiet]: "quiet_step db (emit_run_event ctx inp kind run j e db)"
  by (simp add: emit_run_event_def quiet)

lemma quiet_commit:
  assumes "commit_jobs db js = Inr db'" and "\<And>j. j \<in> set js \<Longrightarrow> job_active j \<Longrightarrow> j \<in> set (db_jobs db)"
  shows "quiet_step db db'"
  using assms by (auto simp: commit_jobs_Inr quiet_step_def runs_kept_def no_new_active_def run_ids_def)

lemma quiet_update_run_status [quiet]:
  assumes "update_run_status db run now st e = Inr db'" shows "quiet_step db db'"
proof (rule quiet_same_tables)
  show "db_jobs db' = db_jobs db" using assms by (auto simp: update_run_status_def split: option.splits)
  have "map r_id (db_runs db') = map r_id (db_runs db)"
    using assms by (auto simp: update_run_status_def split: option.splits)
  then show "run_ids db' = run_ids db" unfolding run_ids_def by (metis set_map)
qed

lemma quiet_create_run [quiet]:
  assumes "create_run db i now kind tid p target parent = Inr db'" shows "quiet_step db db'"
proof -
  have db': "db_jobs db' = db_jobs db" "run_ids db \<subseteq> run_ids db'"
    using assms by (auto simp: create_run_def Let_def run_ids_def split: if_splits)
  then show ?thesis
    using jobs_ok_runs [of "db_runs db" "db_jobs db" "db_runs db'"]
    by (auto simp: quiet_step_def runs_kept_def no_new_active_def run_ids_def)
qed

lemma create_run_id: "create_run db i now kind tid p target parent = Inr db' \<Longrightarrow> i \<in> run_ids db'"
  by (auto simp: create_run_def Let_def run_ids_def split: if_splits)


lemma quiet_enqueue_scheduled [quiet]:
  assumes "enqueue_scheduled db i now p target due label t = Inr (db', j)" shows "quiet_step db db'"
proof -
  obtain db1 where c: "commit_jobs db (db_jobs db @ [new_job i now p target ''scheduled'' due label t]) = Inr db1"
    and db': "db' = emit ''job.queued'' (queued_payload i p target ''scheduled'' due) db1"
    using assms by (auto simp: enqueue_scheduled_def Let_def bind_result_Inr_iff split: option.splits)
  have "quiet_step db db1" using c by (rule quiet_commit) (auto simp: new_job_def job_active_def)
  then show ?thesis unfolding db' using quiet_emit by (rule quiet_trans)
qed

lemma quiet_update_queued:
  assumes c: "commit_jobs db (update_job (j_id q) f (db_jobs db)) = Inr db'"
    and q: "q \<in> set (db_jobs db)" "\<not> job_active (f q)"
  shows "quiet_step db db'"
proof -
  have "k \<in> set (db_jobs db)"
    if k: "k \<in> set (update_job (j_id q) f (db_jobs db))" "job_active k" and d: "distinct (map j_id (db_jobs db))" for k
  proof -
    from k(1) obtain k0 where k0: "k0 \<in> set (db_jobs db)" "k = (if j_id k0 = j_id q then f k0 else k0)"
      unfolding update_job_def by auto
    have "k0 = q" if "j_id k0 = j_id q"
      using that k0(1) q(1) d by (meson distinct_map inj_on_def)
    then show ?thesis using k0 k(2) q(2) by (auto split: if_splits)
  qed
  with c show ?thesis
    by (auto simp: commit_jobs_Inr quiet_step_def runs_kept_def no_new_active_def run_ids_def jobs_ok_def)
qed

lemma quiet_enqueue_manual [quiet]:
  assumes "enqueue_manual db i now p target trigger label t = Inr (db', j)" shows "quiet_step db db'"
proof (cases "queued_conflict (db_jobs db) p t")
  case None
  then obtain db1 where c: "commit_jobs db (db_jobs db @ [new_job i now p target trigger None label t]) = Inr db1"
    and db': "db' = emit ''job.queued'' (queued_payload (j_id (new_job i now p target trigger None label t)) p target trigger None) db1"
    using assms by (auto simp: enqueue_manual_def Let_def bind_result_Inr_iff)
  have "quiet_step db db1" using c by (rule quiet_commit) (auto simp: new_job_def job_active_def)
  then show ?thesis unfolding db' using quiet_emit by (rule quiet_trans)
next
  case (Some q)
  let ?f = "refresh_queued trigger target label"
  from Some obtain db1 where c: "commit_jobs db (update_job (j_id q) ?f (db_jobs db)) = Inr db1"
    and db': "db' = emit ''job.queued'' (queued_payload (j_id (?f q)) p target trigger None) db1"
    using assms by (auto simp: enqueue_manual_def Let_def bind_result_Inr_iff)
  have "quiet_step db db1"
    using c queued_conflict_Some [OF Some] by (intro quiet_update_queued) (auto simp: job_active_def refresh_queued_def)
  then show ?thesis unfolding db' using quiet_emit by (rule quiet_trans)
qed

lemma quiet_release [quiet]:
  assumes "release_claim db i = Inr db'" shows "quiet_step db db'"
proof -
  obtain j where "find_job (db_jobs db) i = Some j" and c: "commit_jobs db (update_job i set_released (db_jobs db)) = Inr db'"
    using assms by (auto simp: release_claim_def split: option.splits)
  with find_job_Some show ?thesis by (intro quiet_update_queued [of _ j]) (auto simp: job_active_def set_released_def)
qed

lemma quiet_finish [quiet]:
  assumes "mark_finished db i s e (Some w) now = Inr (db', b)" and "s \<noteq> Job_Claimed" and "s \<noteq> Job_Running"
  shows "quiet_step db db'"
proof (cases "find_job (db_jobs db) i")
  case (Some j)
  with assms have "db' = db \<or> commit_jobs db (update_job i (set_finished s e now) (db_jobs db)) = Inr db'"
    by (auto simp: mark_finished_def Let_def bind_result_Inr_iff split: if_splits)
  then show ?thesis
    using find_job_Some [OF Some] assms(2,3) by (auto intro: quiet_update_queued [of _ j] simp: job_active_def)
qed (use assms in \<open>simp add: mark_finished_def Let_def\<close>)

lemma quiet_reclaim [quiet]:
  assumes "reclaim_stale db locked now threshold t = Inr (db', rs)" shows "quiet_step db db'"
proof -
  have c: "commit_jobs db (map (\<lambda>j. if stale locked (now - threshold) t j then set_reclaimed j else j) (db_jobs db)) = Inr db'"
    using assms by (auto simp: reclaim_stale_def Let_def bind_result_Inr_iff)
  then show ?thesis by (rule quiet_commit) (auto simp: job_active_def split: if_splits)
qed

lemma quiet_reap [quiet]:
  assumes "reap_one now r db = Inr db'" shows "quiet_step db db'"
proof -
  obtain i run prior where r: "r = (i, run, prior)" by (cases r) auto
  show ?thesis
  proof (cases run)
    case None
    with assms r show ?thesis by (auto simp: reap_one_def intro: quiet)
  next
    case (Some x)
    then obtain db1 where u: "update_run_status db x now Run_Row_Failed (Some ''worker_crashed_or_unreachable'') = Inr db1"
      and e: "quiet_step db1 db'"
      using assms r by (auto simp: reap_one_def bind_result_Inr_iff intro: quiet_emit)
    show ?thesis using quiet_update_run_status [OF u] e by (rule quiet_trans)
  qed
qed

lemma quiet_workers [quiet]:
  "quiet_step db (register_worker db w host pid label t now)" "quiet_step db (unregister_worker db w now)"
  by (rule quiet_same_tables; simp add: register_worker_def unregister_worker_def run_ids_def split: option.split)+

section \<open>Who holds a job\<close>

definition held :: "string \<Rightarrow> store \<Rightarrow> job set" where
  "held w db = {j \<in> set (db_jobs db). job_active j \<and> j_claimed_by j = Some w}"

text \<open>The job a worker has still to resolve, whether it has yet to promote it, and its run.\<close>

fun pc_job :: "worker_pc \<Rightarrow> string option" where
  "pc_job (W_Claimed j) = Some (j_id j)"
| "pc_job (W_Created j run) = Some (j_id j)"
| "pc_job (W_Release j run) = Some (j_id j)"
| "pc_job (W_Promoted j run) = Some (j_id j)"
| "pc_job (W_Announce j run) = Some (j_id j)"
| "pc_job (W_Executing j run) = Some (j_id j)"
| "pc_job (W_Fail_Run j run e) = Some (j_id j)"
| "pc_job (W_Fail_Job j run e) = Some (j_id j)"
| "pc_job (W_Final_Run j run r) = Some (j_id j)"
| "pc_job (W_Final_Job j run r) = Some (j_id j)"
| "pc_job _ = None"

fun unpromoted :: "worker_pc \<Rightarrow> bool" where
  "unpromoted (W_Claimed j) = True"
| "unpromoted (W_Created j run) = True"
| "unpromoted (W_Release j run) = True"
| "unpromoted _ = False"

fun pc_run :: "worker_pc \<Rightarrow> string option" where
  "pc_run (W_Created j run) = Some run"
| "pc_run (W_Release j run) = Some run"
| "pc_run (W_Cancel j run reason) = Some run"
| "pc_run (W_Promoted j run) = Some run"
| "pc_run (W_Announce j run) = Some run"
| "pc_run (W_Executing j run) = Some run"
| "pc_run (W_Fail_Run j run e) = run"
| "pc_run (W_Fail_Job j run e) = run"
| "pc_run (W_Fail_Emit j run e) = run"
| "pc_run (W_Final_Run j run r) = Some run"
| "pc_run (W_Final_Job j run r) = Some run"
| "pc_run (W_Final_Emit j run r) = Some run"
| "pc_run _ = None"

definition suits :: "worker_pc \<Rightarrow> job \<Rightarrow> bool" where
  "suits pc j \<longleftrightarrow> pc_job pc = Some (j_id j) \<and> (unpromoted pc \<longrightarrow> j_status j = Job_Claimed)"

lemma quiet_held: "quiet_step db db' \<Longrightarrow> consistent db \<Longrightarrow> held w db' \<subseteq> held w db"
  by (auto simp: quiet_step_def no_new_active_def held_def)

lemma commit_jobs_rows: "commit_jobs db js = Inr db' \<Longrightarrow> db_jobs db' = js"
  by (simp add: commit_jobs_Inr)

lemma not_held_after_update:
  assumes "db_jobs db' = update_job i f (db_jobs db)" and "j \<in> held w db'" and "\<And>k. \<not> job_active (f k)"
    and "\<And>k. j_id (f k) = j_id k"
  shows "j_id j \<noteq> i"
proof -
  have "j \<in> (\<lambda>k. if j_id k = i then f k else k) ` set (db_jobs db)" and active: "job_active j"
    using assms(1,2) by (simp_all add: held_def update_job_def)
  from this(1) obtain k where "j = (if j_id k = i then f k else k)" by (rule imageE)
  with active assms(3,4) show ?thesis by (auto split: if_splits)
qed

lemma released_not_held:
  assumes "release_claim db i = Inr db'" and "j \<in> held w db'"
  shows "j_id j \<noteq> i"
proof -
  have "db_jobs db' = update_job i set_released (db_jobs db)"
    using assms(1) commit_jobs_rows by (cases "find_job (db_jobs db) i") (simp_all add: release_claim_def)
  then show ?thesis using assms(2) by (rule not_held_after_update) (simp_all add: set_released_def job_active_def)
qed

lemma mark_finished_cases:
  assumes "mark_finished db i s e (Some w) now = Inr (db', b)"
  shows "(db_jobs db' = update_job i (set_finished s e now) (db_jobs db) \<and>
      (\<exists>j. find_job (db_jobs db) i = Some j \<and> j_claimed_by j = Some w \<and> job_active j)) \<or>
    (db' = db \<and> (\<forall>j. find_job (db_jobs db) i = Some j \<longrightarrow> \<not> (j_claimed_by j = Some w \<and> job_active j)))"
proof (cases "find_job (db_jobs db) i")
  case (Some j)
  then show ?thesis
    using assms commit_jobs_rows
    by (cases "j_claimed_by j = Some w \<and> job_active j")
      (auto simp: mark_finished_def Let_def bind_result_Inr_iff job_active_def)
qed (use assms in \<open>simp add: mark_finished_def Let_def\<close>)

lemma consistent_row:
  "consistent db \<Longrightarrow> j \<in> set (db_jobs db) \<Longrightarrow> find_job (db_jobs db) (j_id j) = Some j"
  by (simp add: find_job_iff jobs_ok_def)

lemma finished_not_held:
  assumes "mark_finished db i s e (Some w) now = Inr (db', b)" and "s \<noteq> Job_Claimed" and "s \<noteq> Job_Running"
    and "consistent db" and "j \<in> held w db'"
  shows "j_id j \<noteq> i"
  using mark_finished_cases [OF assms(1)]
proof
  assume "db_jobs db' = update_job i (set_finished s e now) (db_jobs db) \<and>
      (\<exists>j. find_job (db_jobs db) i = Some j \<and> j_claimed_by j = Some w \<and> job_active j)"
  then have "db_jobs db' = update_job i (set_finished s e now) (db_jobs db)" by blast
  then show ?thesis using assms(5) by (rule not_held_after_update) (simp_all add: job_active_def assms(2,3))
next
  assume "db' = db \<and> (\<forall>j. find_job (db_jobs db) i = Some j \<longrightarrow> \<not> (j_claimed_by j = Some w \<and> job_active j))"
  then show ?thesis using consistent_row [OF assms(4), of j] assms(5) by (auto simp: held_def)
qed

lemma unpromoted_refused:
  assumes "transition_to_running db i run (Some w) now = Inr (db', False)" and "consistent db"
    and "j \<in> held w db" and "j_status j = Job_Claimed"
  shows "j_id j \<noteq> i"
  using assms consistent_row [of db j]
  by (auto simp: held_def transition_to_running_def Let_def bind_result_Inr_iff split: if_splits)

lemma promoted_rows:
  assumes "transition_to_running db i run (Some w) now = Inr (db', True)"
  shows "consistent db'" and "run_ids db' = run_ids db"
    and "db_jobs db' = update_job i (set_running run now) (db_jobs db)"
    and "\<exists>j. find_job (db_jobs db) i = Some j \<and> j_claimed_by j = Some w \<and> j_status j = Job_Claimed"
  using assms
  by (auto simp: transition_to_running_def Let_def bind_result_Inr_iff as_already_running_def commit_jobs_def run_ids_def
      split: option.splits if_splits sum.splits)

lemma refused_same: "transition_to_running db i run (Some w) now = Inr (db', False) \<Longrightarrow> db' = db"
  by (auto simp: transition_to_running_def Let_def bind_result_Inr_iff split: option.splits if_splits)

lemma quiet_refused: "transition_to_running db i run (Some w) now = Inr (db', False) \<Longrightarrow> quiet_step db db'"
  using refused_same [of db i run w now db'] by auto

lemma claimed_rows:
  assumes "consistent db" and "claim_next db locked w label t now = Inr (db', Some c)"
  shows "consistent db'" and "run_ids db' = run_ids db" and "job_active c" and "j_claimed_by c = Some w"
    and "j_heartbeat_at c = Some now" and "j_status c = Job_Claimed"
    and "j \<in> set (db_jobs db') \<Longrightarrow> job_active j \<Longrightarrow> j \<in> set (db_jobs db) \<or> j = c"
proof -
  obtain q where q: "q \<in> set (db_jobs db)" "j_status q = Job_Queued" "c = set_claimed w now q"
    "db_jobs db' = update_job (j_id q) (set_claimed w now) (db_jobs db)"
    using claim_next_Some [OF assms] by (metis claimable_def)
  show "consistent db'"
    using jobs_ok_claim [OF assms(1)] q(4) claim_next_runs [OF assms(2)] by simp
  show "run_ids db' = run_ids db" using claim_next_runs [OF assms(2)] by (simp add: run_ids_def)
  show "job_active c" "j_claimed_by c = Some w" "j_heartbeat_at c = Some now" "j_status c = Job_Claimed"
    using q(3) by (simp_all add: set_claimed_def job_active_def)
  assume "j \<in> set (db_jobs db')" "job_active j"
  moreover have "k = q" if "k \<in> set (db_jobs db)" "j_id k = j_id q" for k
    using assms(1) q(1) that by (auto simp: jobs_ok_def dest: inj_onD simp: distinct_map)
  ultimately show "j \<in> set (db_jobs db) \<or> j = c" using q(3) unfolding q(4) update_job_def by auto
qed

section \<open>One call of a worker\<close>

lemma store_call_Inr: "store_call ctx inp r = Inr x \<longleftrightarrow> wi_fault inp = None \<and> r = Inr x"
  by (auto simp: store_call_def split: option.splits sum.splits)

text \<open>The three kinds of calls: a claim, a promotion, and everything else, which is quiet.\<close>

lemma worker_step_kinds:
  assumes "worker_step ctx inp pc db = (pc', db')"
  obtains (quiet) "quiet_step db db'"
  | (claim) c where "pc = W_Idle" "pc' = W_Claimed c"
      "claim_next db (wi_locked inp) (wc_worker_id ctx) (wc_label ctx) 1 (wi_now inp) = Inr (db', Some c)"
  | (promote) j run where "pc = W_Created j run" "pc' = W_Promoted j run"
      "transition_to_running db (j_id j) run (Some (wc_worker_id ctx)) (wi_now inp) = Inr (db', True)"
proof (cases pc)
  case W_Idle
  show ?thesis
  proof (cases "store_call ctx inp (claim_next db (wi_locked inp) (wc_worker_id ctx) (wc_label ctx) 1 (wi_now inp))")
    case (Inl e)
    with W_Idle assms quiet show ?thesis by (simp add: step_claim_def)
  next
    case (Inr x)
    then obtain db1 c where x: "x = (db1, c)"
      "claim_next db (wi_locked inp) (wc_worker_id ctx) (wc_label ctx) 1 (wi_now inp) = Inr (db1, c)"
      by (cases x) (simp add: store_call_Inr)
    show ?thesis
    proof (cases c)
      case None
      with x(2) have "db1 = db" by (auto simp: claim_next_def bind_result_Inr_iff split: list.splits)
      with W_Idle Inr x None assms quiet show ?thesis by (simp add: step_claim_def)
    next
      case (Some k)
      with W_Idle Inr x assms claim show ?thesis by (auto simp: step_claim_def)
    qed
  qed
next
  case (W_Created j run)
  then show ?thesis
    using assms quiet promote quiet_refused [of db "j_id j" run "wc_worker_id ctx" "wi_now inp" db']
    by (auto simp: step_promote_def split: option.splits sum.splits db_error.splits bool.splits)
next
  case (W_Claimed j)
  then show ?thesis using assms quiet
    by (auto simp: step_create_run_def store_call_Inr split: sum.splits intro: quiet_create_run)
next
  case (W_Release j run)
  then show ?thesis using assms quiet
    by (auto simp: step_release_def store_call_Inr split: sum.splits intro: quiet_release)
next
  case (W_Cancel j run reason)
  then show ?thesis using assms quiet
    by (auto simp: step_write_status_def store_call_Inr split: sum.splits intro: quiet_update_run_status)
next
  case (W_Promoted j run)
  then show ?thesis using assms quiet
    by (auto simp: step_write_status_def store_call_Inr split: sum.splits intro: quiet_update_run_status)
next
  case (W_Fail_Run j run e)
  then show ?thesis using assms quiet
    by (auto simp: step_fail_run_def store_call_Inr split: sum.splits option.splits intro: quiet_update_run_status)
next
  case (W_Fail_Job j run e)
  then show ?thesis using assms quiet
    by (auto simp: step_fail_job_def store_call_Inr split: sum.splits intro: quiet_finish)
next
  case (W_Final_Run j run r)
  then show ?thesis using assms quiet
    by (auto simp: step_final_run_def store_call_Inr split: sum.splits intro: quiet_update_run_status)
next
  case (W_Final_Job j run r)
  then show ?thesis using assms quiet
    by (auto simp: step_final_job_def store_call_Inr split: sum.splits dest: quiet_finish)
qed (use assms quiet quiet_emit_with quiet_emit_run_event in
  \<open>auto simp: step_fail_emit_def step_final_emit_def split: option.splits\<close>)

text \<open>A call leaves the worker with nothing it has not to resolve.\<close>

definition recoverable_call :: "worker_input \<Rightarrow> worker_pc \<Rightarrow> bool" where
  "recoverable_call inp pc \<longleftrightarrow>
     wi_fault inp = None \<or>
     (case pc of W_Fail_Job _ _ _ \<Rightarrow> False | W_Final_Run _ _ _ \<Rightarrow> False | W_Final_Job _ _ _ \<Rightarrow> False | _ \<Rightarrow> True)"

definition holds_only_its_job :: "string \<Rightarrow> worker_pc \<Rightarrow> store \<Rightarrow> bool" where
  "holds_only_its_job w pc db \<longleftrightarrow> (\<forall>j \<in> held w db. suits pc j)"

lemma suits_weaken:
  "suits pc j \<Longrightarrow> pc_job pc' = pc_job pc \<Longrightarrow> (unpromoted pc' \<Longrightarrow> unpromoted pc) \<Longrightarrow> suits pc' j"
  by (auto simp: suits_def)

lemma holds_quiet:
  assumes "holds_only_its_job w pc db" and "quiet_step db db'" and "consistent db"
    and "pc_job pc = None \<or> pc_job pc' = pc_job pc \<and> (unpromoted pc' \<longrightarrow> unpromoted pc)"
  shows "holds_only_its_job w pc' db'"
  using assms quiet_held [OF assms(2,3), of w] unfolding holds_only_its_job_def by (auto simp: suits_def)

lemma holds_nothing:
  assumes "holds_only_its_job w pc db" and "held w db' \<subseteq> held w db"
    and "pc_job pc = Some i" and "\<And>j. j \<in> held w db' \<Longrightarrow> j_id j \<noteq> i"
  shows "holds_only_its_job w pc' db'"
  using assms unfolding holds_only_its_job_def suits_def by force

lemma mark_finished_succeeds:
  assumes "consistent db" and "s \<noteq> Job_Queued" and "s \<noteq> Job_Running"
  shows "\<exists>db' b. mark_finished db i s e (Some w) now = Inr (db', b)"
proof (cases "find_job (db_jobs db) i")
  case (Some j)
  with jobs_ok_finish [OF assms, of i e now] show ?thesis
    by (auto simp: mark_finished_def Let_def commit_jobs_def ex_bool_eq)
qed (auto simp: mark_finished_def Let_def ex_bool_eq)

lemma update_run_status_succeeds: "r \<in> run_ids db \<Longrightarrow> \<exists>db'. update_run_status db r now s e = Inr db'"
  by (cases "find_run (db_runs db) r") (auto simp: update_run_status_def run_ids_def find_run_None)

lemma quiet_call_holds:
  assumes s: "worker_step ctx inp pc db = (pc', db')" and q: "quiet_step db db'"
    and c: "consistent db" and h: "holds_only_its_job w pc db" and id: "wc_worker_id ctx = w"
    and r: "\<And>r. pc_run pc = Some r \<Longrightarrow> r \<in> run_ids db" and f: "recoverable_call inp pc"
  shows "holds_only_its_job w pc' db'"
proof (cases pc)
  case (W_Created j run)
  show ?thesis
  proof (cases "pc_job pc' = Some (j_id j)")
    case True
    with W_Created h q c show ?thesis by (intro holds_quiet [OF h q c]) simp
  next
    case False
    with s W_Created id have refused: "transition_to_running db (j_id j) run (Some w) (wi_now inp) = Inr (db', False)"
      by (auto simp: step_promote_def split: option.splits sum.splits db_error.splits bool.splits)
    then have same: "db' = db" by (rule refused_same)
    have "k \<in> held w db \<Longrightarrow> j_id k \<noteq> j_id j" for k
      using unpromoted_refused [OF refused c, of k] h W_Created by (auto simp: holds_only_its_job_def suits_def)
    then show ?thesis using W_Created same by (intro holds_nothing [OF h, of db' "j_id j"]) auto
  qed
next
  case (W_Release j run)
  show ?thesis
  proof (cases "pc_job pc' = Some (j_id j)")
    case True
    with W_Release h q c show ?thesis by (intro holds_quiet [OF h q c]) (use s in \<open>auto simp: step_release_def split: sum.splits\<close>)
  next
    case False
    with s W_Release have "release_claim db (j_id j) = Inr db'"
      by (auto simp: step_release_def store_call_Inr split: sum.splits)
    from released_not_held [OF this] show ?thesis
      using W_Release quiet_held [OF q c] by (intro holds_nothing [OF h, of db' "j_id j"]) auto
  qed
next
  case (W_Fail_Job j run e)
  obtain db1 b where m: "mark_finished db (j_id j) Job_Failed (Some e) (Some w) (wi_now inp) = Inr (db1, b)"
    using mark_finished_succeeds [OF c] by blast
  with s W_Fail_Job f id have "db' = db1"
    by (auto simp: step_fail_job_def store_call_def recoverable_call_def)
  with finished_not_held [OF m _ _ c] show ?thesis
    using W_Fail_Job quiet_held [OF q c] by (intro holds_nothing [OF h, of db' "j_id j"]) auto
next
  case (W_Final_Job j run res)
  obtain db1 b where m: "mark_finished db (j_id j) (job_status_of res) (run_error_of res) (Some w) (wi_now inp) = Inr (db1, b)"
    using mark_finished_succeeds [OF c] by (metis job_status_of_terminal(1,2))
  with s W_Final_Job f id have "db' = db1"
    by (auto simp: step_final_job_def store_call_def recoverable_call_def)
  with finished_not_held [OF m _ _ c] show ?thesis
    using W_Final_Job quiet_held [OF q c] by (intro holds_nothing [OF h, of db' "j_id j"]) auto
next
  case (W_Final_Run j run res)
  obtain db1 where "update_run_status db run (wi_now inp) (run_status_of res) (run_error_of res) = Inr db1"
    using update_run_status_succeeds r W_Final_Run by force
  with s W_Final_Run f have "pc' = W_Final_Job j run res"
    by (auto simp: step_final_run_def store_call_def recoverable_call_def)
  with W_Final_Run show ?thesis by (intro holds_quiet [OF h q c]) simp
qed (use s in \<open>auto intro!: holds_quiet [OF h q c]
      simp: step_create_run_def step_write_status_def step_fail_run_def step_fail_emit_def step_final_emit_def
      split: sum.splits\<close>)

section \<open>Invariants of the system\<close>

text \<open>Every active job has an owner and a heartbeat, so that the reaper can see it.\<close>

definition owned :: "store \<Rightarrow> bool" where
  "owned db \<longleftrightarrow> (\<forall>j \<in> set (db_jobs db). job_active j \<longrightarrow> j_claimed_by j \<noteq> None \<and> j_heartbeat_at j \<noteq> None)"

definition sound_store :: "store \<Rightarrow> bool" where
  "sound_store db \<longleftrightarrow> consistent db \<and> owned db"

lemma sound_quiet: "sound_store db \<Longrightarrow> quiet_step db db' \<Longrightarrow> sound_store db'"
  unfolding sound_store_def owned_def quiet_step_def no_new_active_def by blast

lemma sound_claim:
  assumes "sound_store db" and "claim_next db locked w label t now = Inr (db', Some c)"
  shows "sound_store db'"
proof -
  from assms(1) have c: "consistent db" and o: "owned db" by (simp_all add: sound_store_def)
  note r = claimed_rows [OF c assms(2)]
  have "owned db'" unfolding owned_def using r(7) r(4,5) o by (auto simp: owned_def)
  with r(1) show ?thesis by (simp add: sound_store_def)
qed

lemma promoted_row:
  assumes t: "transition_to_running db i run (Some w) now = Inr (db', True)" and c: "consistent db"
    and k: "k \<in> set (db_jobs db')"
  shows "k \<in> set (db_jobs db) \<or> (\<exists>j \<in> held w db. j_id j = i \<and> k = set_running run now j)"
proof -
  obtain j where j: "find_job (db_jobs db) i = Some j" "j_claimed_by j = Some w" "j_status j = Job_Claimed"
    using promoted_rows(4) [OF t] by blast
  have "k \<in> (\<lambda>x. if j_id x = i then set_running run now x else x) ` set (db_jobs db)"
    using k promoted_rows(3) [OF t] by (simp add: update_job_def)
  then obtain x where x: "x \<in> set (db_jobs db)" "k = (if j_id x = i then set_running run now x else x)" by blast
  have "x = j" if "j_id x = i"
    using consistent_row [OF c x(1)] j(1) that by simp
  moreover have "j \<in> held w db" "j_id j = i" using j find_job_Some [OF j(1)] by (simp_all add: held_def job_active_def)
  ultimately show ?thesis using x by (metis (full_types))
qed

lemma sound_promote:
  assumes "sound_store db" and "transition_to_running db i run (Some w) now = Inr (db', True)"
  shows "sound_store db'"
proof -
  from assms(1) have c: "consistent db" and o: "owned db" by (simp_all add: sound_store_def)
  have "owned db'" unfolding owned_def
  proof (intro ballI impI)
    fix k assume k: "k \<in> set (db_jobs db')" "job_active k"
    from promoted_row [OF assms(2) c k(1)] show "j_claimed_by k \<noteq> None \<and> j_heartbeat_at k \<noteq> None"
      using o k(2) by (auto simp: owned_def held_def set_running_def)
  qed
  with promoted_rows(1) [OF assms(2)] show ?thesis by (simp add: sound_store_def)
qed

lemma sound_worker_step:
  assumes "sound_store db" and "worker_step ctx inp pc db = (pc', db')"
  shows "sound_store db'"
  using assms(2) by (rule worker_step_kinds) (use assms(1) sound_quiet sound_claim sound_promote in blast)+

lemma runs_kept_worker_step:
  assumes "sound_store db" and "worker_step ctx inp pc db = (pc', db')"
  shows "run_ids db \<subseteq> run_ids db'"
  using assms(2)
proof (rule worker_step_kinds)
  assume "quiet_step db db'" then show ?thesis by (simp add: quiet_step_def runs_kept_def)
next
  fix c assume "claim_next db (wi_locked inp) (wc_worker_id ctx) (wc_label ctx) 1 (wi_now inp) = Inr (db', Some c)"
  from claimed_rows(2) [OF _ this] assms(1) show ?thesis by (simp add: sound_store_def)
next
  fix j run assume "transition_to_running db (j_id j) run (Some (wc_worker_id ctx)) (wi_now inp) = Inr (db', True)"
  then show ?thesis using promoted_rows(2) by simp
qed

lemma pc_run_worker_step:
  assumes "worker_step ctx inp pc db = (pc', db')" and "\<And>r. pc_run pc = Some r \<Longrightarrow> r \<in> run_ids db"
    and "run_ids db \<subseteq> run_ids db'" and "pc_run pc' = Some r"
  shows "r \<in> run_ids db'"
proof (cases "\<exists>j. pc = W_Claimed j")
  case True
  then show ?thesis using assms(1,4)
    by (auto simp: step_create_run_def store_call_Inr split: sum.splits dest!: create_run_id)
next
  case False
  with assms(1,4) have "pc_run pc = Some r"
    by (cases pc) (auto simp: worker_step_defs split: sum.splits option.splits db_error.splits bool.splits)
  with assms(2,3) show ?thesis by blast
qed

lemma others_hold_no_more:
  assumes "consistent db" and "worker_step ctx inp pc db = (pc', db')" and "v \<noteq> wc_worker_id ctx"
  shows "held v db' \<subseteq> held v db"
  using assms(2)
proof (rule worker_step_kinds)
  assume "quiet_step db db'" then show ?thesis using assms(1) by (rule quiet_held)
next
  fix c assume c: "claim_next db (wi_locked inp) (wc_worker_id ctx) (wc_label ctx) 1 (wi_now inp) = Inr (db', Some c)"
  show ?thesis
  proof
    fix x assume "x \<in> held v db'"
    then show "x \<in> held v db" using claimed_rows(4) [OF assms(1) c] claimed_rows(7) [OF assms(1) c, of x] assms(3)
      by (auto simp: held_def)
  qed
next
  fix j run assume t: "transition_to_running db (j_id j) run (Some (wc_worker_id ctx)) (wi_now inp) = Inr (db', True)"
  show ?thesis
  proof
    fix x assume "x \<in> held v db'"
    then show "x \<in> held v db" using promoted_row [OF t assms(1), of x] assms(3)
      by (auto simp: held_def set_running_def)
  qed
qed

lemma worker_step_holds:
  assumes "worker_step ctx inp pc db = (pc', db')" and "consistent db" and "holds_only_its_job w pc db"
    and "wc_worker_id ctx = w" and "\<And>r. pc_run pc = Some r \<Longrightarrow> r \<in> run_ids db" and "recoverable_call inp pc"
  shows "holds_only_its_job w pc' db'"
  using assms(1)
proof (rule worker_step_kinds)
  assume "quiet_step db db'" then show ?thesis using quiet_call_holds assms by blast
next
  fix c assume pc: "pc = W_Idle" "pc' = W_Claimed c"
    and c: "claim_next db (wi_locked inp) (wc_worker_id ctx) (wc_label ctx) 1 (wi_now inp) = Inr (db', Some c)"
  have "held w db = {}" using assms(3) pc(1) by (auto simp: holds_only_its_job_def suits_def)
  then show ?thesis using claimed_rows(6,7) [OF assms(2) c] pc(2)
    by (auto simp: holds_only_its_job_def suits_def held_def)
next
  fix j run assume pc: "pc = W_Created j run" "pc' = W_Promoted j run"
    and t: "transition_to_running db (j_id j) run (Some (wc_worker_id ctx)) (wi_now inp) = Inr (db', True)"
  show ?thesis using promoted_row [OF t assms(2)] assms(3) pc
    by (fastforce simp: holds_only_its_job_def suits_def held_def)
qed

text \<open>A beat changes heartbeats only.\<close>

definition same_claims :: "store \<Rightarrow> store \<Rightarrow> bool" where
  "same_claims db db' \<longleftrightarrow> db_runs db' = db_runs db \<and> (consistent db \<longrightarrow> consistent db') \<and>
     (\<forall>k \<in> set (db_jobs db'). \<exists>j \<in> set (db_jobs db). k = j \<or> (\<exists>now. k = j\<lparr>j_heartbeat_at := Some now\<rparr>))"

lemma beat_same_claims: "same_claims db (beat i w now db)"
proof -
  let ?b = "\<lambda>j :: job. j\<lparr>j_heartbeat_at := Some now\<rparr>"
  have "beat i w now db = db \<or> commit_jobs db (update_job i ?b (db_jobs db)) = Inr (beat i w now db)"
    by (simp add: beat_def update_heartbeat_def split: option.split sum.split)
  then show ?thesis
  proof
    assume c: "commit_jobs db (update_job i ?b (db_jobs db)) = Inr (beat i w now db)"
    have "\<exists>j \<in> set (db_jobs db). k = j \<or> (\<exists>now. k = j\<lparr>j_heartbeat_at := Some now\<rparr>)"
      if "k \<in> set (update_job i ?b (db_jobs db))" for k
    proof -
      have "k \<in> (\<lambda>j. if j_id j = i then ?b j else j) ` set (db_jobs db)"
        using that by (simp add: update_job_def)
      then obtain j where "j \<in> set (db_jobs db)" "k = (if j_id j = i then ?b j else j)" by blast
      then show ?thesis by (cases "j_id j = i") auto
    qed
    with c show ?thesis by (simp add: commit_jobs_Inr same_claims_def)
  qed (auto simp: same_claims_def)
qed

lemma sound_same_claims: 
  assumes "sound_store db" and "same_claims db db'" shows "sound_store db'"
proof -
  have "owned db'" unfolding owned_def
  proof (intro ballI impI)
    fix k assume "k \<in> set (db_jobs db')" "job_active k"
    then obtain j where "j \<in> set (db_jobs db)" "k = j \<or> (\<exists>now. k = j\<lparr>j_heartbeat_at := Some now\<rparr>)"
      using assms(2) by (auto simp: same_claims_def)
    with assms(1) \<open>job_active k\<close> show "j_claimed_by k \<noteq> None \<and> j_heartbeat_at k \<noteq> None"
      by (auto simp: sound_store_def owned_def job_active_def)
  qed
  with assms show ?thesis unfolding sound_store_def same_claims_def by blast
qed

lemma holds_same_claims:
  assumes "holds_only_its_job w pc db" and "same_claims db db'" shows "holds_only_its_job w pc db'"
  unfolding holds_only_its_job_def
proof
  fix k assume k: "k \<in> held w db'"
  then obtain j where j: "j \<in> set (db_jobs db)" "k = j \<or> (\<exists>now. k = j\<lparr>j_heartbeat_at := Some now\<rparr>)"
    using assms(2) by (auto simp: same_claims_def held_def)
  with k have "j \<in> held w db" by (auto simp: held_def job_active_def)
  with assms(1) j(2) show "suits pc k" by (auto simp: holds_only_its_job_def suits_def)
qed

fun by_worker :: "sys_action \<Rightarrow> bool" where
  "by_worker (Act_Worker w inp) = True"
| "by_worker (Act_Beat w i now) = True"
| "by_worker _ = False"

lemma after_call_quiet:
  "(\<And>db' x. r = Inr (db', x) \<Longrightarrow> quiet_step db db') \<Longrightarrow> quiet_step db (after_call db r)"
  by (auto simp: after_call_def split: sum.split)

lemma other_actions_quiet:
  assumes "\<not> by_worker a"
  shows "quiet_step (sys_db s) (sys_db (sys_step cfg a s))"
  using assms
proof (cases a)
  case (Act_Scheduled new_id now p target due label)
  then show ?thesis by (auto intro: after_call_quiet quiet_enqueue_scheduled)
next
  case (Act_Manual new_id now p target trigger label)
  then show ?thesis by (auto intro: after_call_quiet quiet_enqueue_manual)
next
  case (Act_Reclaim locked now threshold)
  then show ?thesis by (auto simp: reaper_reclaims_def intro: quiet_reclaim split: sum.split)
next
  case (Act_Reap now)
  then show ?thesis by (auto simp: reaper_reaps_def intro: quiet_reap split: list.split sum.split)
next
  case (Act_Next w)
  then show ?thesis by (simp add: worker_polls_again_def)
qed (auto simp: quiet_workers)

lemma other_actions_pc:
  assumes "\<not> by_worker a"
  shows "sys_pc (sys_step cfg a s) w = sys_pc s w \<or> ended (sys_pc s w) \<and> sys_pc (sys_step cfg a s) w = W_Idle"
  using assms
  by (cases a) (auto simp: worker_polls_again_def reaper_reclaims_def reaper_reaps_def split: list.split sum.split)

lemma beat_pc: "sys_pc (sys_step cfg (Act_Beat w i now) s) = sys_pc s"
  by simp

definition runs_known :: "system \<Rightarrow> bool" where
  "runs_known s \<longleftrightarrow> (\<forall>w r. pc_run (sys_pc s w) = Some r \<longrightarrow> r \<in> run_ids (sys_db s))"

definition sound_system :: "system \<Rightarrow> bool" where
  "sound_system s \<longleftrightarrow> sound_store (sys_db s) \<and> runs_known s"

definition claims_tracked :: "system \<Rightarrow> bool" where
  "claims_tracked s \<longleftrightarrow> sound_system s \<and> (\<forall>w. holds_only_its_job w (sys_pc s w) (sys_db s))"

lemma ended_pc [simp]: "ended pc \<Longrightarrow> pc_job pc = None" "ended pc \<Longrightarrow> pc_run pc = None"
  by (cases pc; simp)+

lemma worker_acts_parts:
  assumes "worker_step (cfg w) inp (sys_pc s w) (sys_db s) = (pc', db')"
  shows "sys_db (sys_step cfg (Act_Worker w inp) s) = db'"
    and "sys_pc (sys_step cfg (Act_Worker w inp) s) = (sys_pc s)(w := pc')"
  using assms by (simp_all add: worker_acts_def)

lemma sound_system_step:
  assumes "sound_system s" shows "sound_system (sys_step cfg a s)"
proof (cases "by_worker a")
  case False
  note q = other_actions_quiet [OF False, of s cfg]
  have "run_ids (sys_db s) \<subseteq> run_ids (sys_db (sys_step cfg a s))" using q by (simp add: quiet_step_def runs_kept_def)
  moreover have "pc_run (sys_pc (sys_step cfg a s) w) = Some r \<Longrightarrow> pc_run (sys_pc s w) = Some r" for w r
    using other_actions_pc [OF False, of cfg s w] by auto
  ultimately show ?thesis
    using sound_quiet [OF _ q] assms unfolding sound_system_def runs_known_def by blast
next
  case True
  then consider (worker) w inp where "a = Act_Worker w inp" | (heartbeat) w i now where "a = Act_Beat w i now"
    by (cases a) auto
  then show ?thesis
  proof cases
    case worker
    obtain pc' db' where st: "worker_step (cfg w) inp (sys_pc s w) (sys_db s) = (pc', db')"
      by (cases "worker_step (cfg w) inp (sys_pc s w) (sys_db s)") auto
    have snd: "sound_store (sys_db s)" and kn: "runs_known s" using assms by (simp_all add: sound_system_def)
    note keep = runs_kept_worker_step [OF snd st]
    have "pc_run pc' = Some r \<Longrightarrow> r \<in> run_ids db'" for r
      by (rule pc_run_worker_step [OF st _ keep]) (use kn in \<open>auto simp: runs_known_def\<close>)
    with keep kn have "runs_known (sys_step cfg a s)"
      unfolding runs_known_def worker worker_acts_parts [of cfg, OF st] by auto
    with sound_worker_step [OF snd st] show ?thesis
      unfolding sound_system_def worker worker_acts_parts [of cfg, OF st] by simp
  next
    case heartbeat
    note b = beat_same_claims [of "sys_db s" i "Some w" now]
    have "run_ids (sys_db (sys_step cfg a s)) = run_ids (sys_db s)" "sys_pc (sys_step cfg a s) = sys_pc s"
      using b heartbeat by (simp_all add: same_claims_def run_ids_def)
    with sound_same_claims [OF _ b] assms heartbeat show ?thesis
      by (simp add: sound_system_def runs_known_def)
  qed
qed

fun recoverable_action :: "system \<Rightarrow> sys_action \<Rightarrow> bool" where
  "recoverable_action s (Act_Worker w inp) = recoverable_call inp (sys_pc s w)"
| "recoverable_action s _ = True"

lemma claims_tracked_step:
  assumes ids: "own_ids cfg" and t: "claims_tracked s" and r: "recoverable_action s a"
  shows "claims_tracked (sys_step cfg a s)"
proof -
  have snd: "sound_system s" and holds: "\<And>w. holds_only_its_job w (sys_pc s w) (sys_db s)"
    and c: "consistent (sys_db s)"
    using t by (auto simp: claims_tracked_def sound_system_def sound_store_def)
  have "holds_only_its_job v (sys_pc (sys_step cfg a s) v) (sys_db (sys_step cfg a s))" for v
  proof (cases "by_worker a")
    case False
    from other_actions_pc [OF False, of cfg s v] show ?thesis
      by (intro holds_quiet [OF holds [of v] other_actions_quiet [OF False] c]) auto
  next
    case True
    then consider (worker) w inp where "a = Act_Worker w inp" | (heartbeat) w i now where "a = Act_Beat w i now"
      by (cases a) auto
    then show ?thesis
    proof cases
      case worker
      obtain pc' db' where st: "worker_step (cfg w) inp (sys_pc s w) (sys_db s) = (pc', db')"
        by (cases "worker_step (cfg w) inp (sys_pc s w) (sys_db s)") auto
      have id: "wc_worker_id (cfg w) = w" using ids by (simp add: own_ids_def)
      show ?thesis
      proof (cases "v = w")
        case True
        have "holds_only_its_job w pc' db'"
          by (rule worker_step_holds [OF st c holds id])
            (use snd r worker in \<open>auto simp: sound_system_def runs_known_def\<close>)
        then show ?thesis unfolding worker worker_acts_parts [of cfg, OF st] using True by simp
      next
        case False
        have "held v db' \<subseteq> held v (sys_db s)" using others_hold_no_more [OF c st] False id by simp
        then show ?thesis
          unfolding worker worker_acts_parts [of cfg, OF st] using False holds [of v] by (auto simp: holds_only_its_job_def)
      qed
    next
      case heartbeat
      then show ?thesis using holds_same_claims [OF holds beat_same_claims] by simp
    qed
  qed
  with sound_system_step [OF snd] show ?thesis by (simp add: claims_tracked_def)
qed

section \<open>Finished jobs\<close>

definition job_terminal :: "job \<Rightarrow> bool" where
  "job_terminal j \<longleftrightarrow> j_status j \<noteq> Job_Queued \<and> \<not> job_active j"

text \<open>A finished job of the given id keeps its row, the heartbeat apart.\<close>

definition final_kept :: "string \<Rightarrow> store \<Rightarrow> store \<Rightarrow> bool" where
  "final_kept i db db' \<longleftrightarrow>
     (\<forall>j \<in> set (db_jobs db). j_id j = i \<longrightarrow> job_terminal j \<longrightarrow>
        (\<exists>h. j\<lparr>j_heartbeat_at := h\<rparr> \<in> set (db_jobs db')))"

lemma final_kept_terminal_rows:
  assumes "\<And>j. j \<in> set (db_jobs db) \<Longrightarrow> job_terminal j \<Longrightarrow> j \<in> set (db_jobs db')"
  shows "final_kept i db db'"
proof (unfold final_kept_def, intro ballI impI)
  fix j assume "j \<in> set (db_jobs db)" "job_terminal j"
  with assms have "j\<lparr>j_heartbeat_at := j_heartbeat_at j\<rparr> \<in> set (db_jobs db')" by simp
  then show "\<exists>h. j\<lparr>j_heartbeat_at := h\<rparr> \<in> set (db_jobs db')" ..
qed

lemma final_kept_rows: "set (db_jobs db) \<subseteq> set (db_jobs db') \<Longrightarrow> final_kept i db db'"
  by (rule final_kept_terminal_rows) blast

lemma final_kept_refl [simp]: "final_kept i db db"
  by (rule final_kept_rows) simp

lemma final_kept_same_jobs: "db_jobs db' = db_jobs db \<Longrightarrow> final_kept i db db'"
  by (rule final_kept_rows) simp

text \<open>An update of another row, or of a row that has not finished.\<close>

lemma final_kept_update:
  assumes "db_jobs db' = update_job k f (db_jobs db)"
    and "\<And>j. j \<in> set (db_jobs db) \<Longrightarrow> j_id j = k \<Longrightarrow> k = i \<Longrightarrow> job_terminal j \<Longrightarrow> \<exists>h. f j = j\<lparr>j_heartbeat_at := h\<rparr>"
  shows "final_kept i db db'"
proof (unfold final_kept_def, intro ballI impI)
  fix j assume j: "j \<in> set (db_jobs db)" "j_id j = i" "job_terminal j"
  have mem: "(if j_id j = k then f j else j) \<in> set (db_jobs db')"
    using j(1) assms(1) by (auto simp: update_job_def)
  show "\<exists>h. j\<lparr>j_heartbeat_at := h\<rparr> \<in> set (db_jobs db')"
  proof (cases "j_id j = k")
    case True
    with assms(2) j mem show ?thesis by metis
  next
    case False
    then have "j\<lparr>j_heartbeat_at := j_heartbeat_at j\<rparr> \<in> set (db_jobs db')" using mem by simp
    then show ?thesis ..
  qed
qed

lemma final_kept_update_open:
  assumes "consistent db" and "q \<in> set (db_jobs db)" and "\<not> job_terminal q"
    and "db_jobs db' = update_job (j_id q) f (db_jobs db)"
  shows "final_kept i db db'"
proof (rule final_kept_update [OF assms(4)])
  fix j assume j: "j \<in> set (db_jobs db)" "j_id j = j_id q" "job_terminal j"
  with assms(1,2) have "j = q" by (auto simp: jobs_ok_def distinct_map dest: inj_onD)
  with j(3) assms(3) show "\<exists>h. f j = j\<lparr>j_heartbeat_at := h\<rparr>" by simp
qed

lemma kept_enqueue_scheduled:
  assumes "enqueue_scheduled db n now p target due label t = Inr (db', j)" shows "final_kept i db db'"
  using assms
  by (intro final_kept_rows) (auto simp: enqueue_scheduled_def Let_def bind_result_Inr_iff commit_jobs_Inr split: option.splits)

lemma kept_enqueue_manual:
  assumes "enqueue_manual db n now p target trigger label t = Inr (db', j)" and "consistent db"
  shows "final_kept i db db'"
proof (cases "queued_conflict (db_jobs db) p t")
  case None
  with assms show ?thesis
    by (intro final_kept_rows) (auto simp: enqueue_manual_def Let_def bind_result_Inr_iff commit_jobs_Inr)
next
  case (Some q)
  with assms(1) have "db_jobs db' = update_job (j_id q) (refresh_queued trigger target label) (db_jobs db)"
    by (auto simp: enqueue_manual_def Let_def bind_result_Inr_iff commit_jobs_Inr)
  with queued_conflict_Some [OF Some] assms(2) show ?thesis
    by (intro final_kept_update_open [of db q]) (auto simp: job_terminal_def)
qed

lemma kept_claim:
  assumes "claim_next db locked w label t now = Inr (db', c)" and "consistent db"
  shows "final_kept i db db'"
proof (cases c)
  case None
  with assms(1) have "db' = db" by (auto simp: claim_next_def bind_result_Inr_iff split: list.splits)
  then show ?thesis by simp
next
  case (Some k)
  obtain q where "q \<in> set (db_jobs db)" "j_status q = Job_Queued"
    "db_jobs db' = update_job (j_id q) (set_claimed w now) (db_jobs db)"
    using claim_next_Some [OF assms(2) assms(1) [unfolded Some]] by (metis claimable_def)
  with assms(2) show ?thesis by (intro final_kept_update_open [of db q]) (auto simp: job_terminal_def)
qed

lemma kept_promote:
  assumes "transition_to_running db k run (Some w) now = Inr (db', b)" and "consistent db"
  shows "final_kept i db db'"
proof (cases b)
  case True
  with assms(1) have t: "transition_to_running db k run (Some w) now = Inr (db', True)" by simp
  obtain j where j: "find_job (db_jobs db) k = Some j" "j_status j = Job_Claimed"
    using promoted_rows(4) [OF t] by blast
  with promoted_rows(3) [OF t] find_job_Some [OF j(1)] assms(2) show ?thesis
    by (intro final_kept_update_open [of db j]) (auto simp: job_terminal_def job_active_def)
next
  case False
  with assms(1) have "transition_to_running db k run (Some w) now = Inr (db', False)" by simp
  then have "db' = db" by (rule refused_same)
  then show ?thesis by simp
qed

lemma kept_finish:
  assumes "mark_finished db k s e (Some w) now = Inr (db', b)" and "consistent db"
  shows "final_kept i db db'"
  using mark_finished_cases [OF assms(1)]
proof
  assume u: "db_jobs db' = update_job k (set_finished s e now) (db_jobs db) \<and>
      (\<exists>j. find_job (db_jobs db) k = Some j \<and> j_claimed_by j = Some w \<and> job_active j)"
  then obtain j where j: "find_job (db_jobs db) k = Some j" "job_active j" by blast
  with u find_job_Some [OF j(1)] assms(2) show ?thesis
    by (intro final_kept_update_open [of db j]) (auto simp: job_terminal_def)
qed simp

lemma kept_release:
  assumes "release_claim db k = Inr db'" and "k \<noteq> i" shows "final_kept i db db'"
proof -
  have "db_jobs db' = update_job k set_released (db_jobs db)"
    using assms(1) commit_jobs_rows by (cases "find_job (db_jobs db) k") (simp_all add: release_claim_def)
  then show ?thesis by (rule final_kept_update) (use assms(2) in simp_all)
qed

lemma kept_beat: "final_kept i db (beat k w now db)"
proof -
  let ?b = "\<lambda>j :: job. j\<lparr>j_heartbeat_at := Some now\<rparr>"
  have "beat k w now db = db \<or> commit_jobs db (update_job k ?b (db_jobs db)) = Inr (beat k w now db)"
    by (simp add: beat_def update_heartbeat_def split: option.split sum.split)
  then show ?thesis
  proof
    assume "commit_jobs db (update_job k ?b (db_jobs db)) = Inr (beat k w now db)"
    from commit_jobs_rows [OF this] show ?thesis by (rule final_kept_update) auto
  qed simp
qed

lemma kept_reclaim:
  assumes "reclaim_stale db locked now threshold t = Inr (db', rs)" shows "final_kept i db db'"
proof -
  let ?g = "\<lambda>j. if stale locked (now - threshold) t j then set_reclaimed j else j"
  have rows: "db_jobs db' = map ?g (db_jobs db)"
    using assms by (auto simp: reclaim_stale_def Let_def bind_result_Inr_iff commit_jobs_Inr)
  show ?thesis
  proof (rule final_kept_terminal_rows)
    fix j assume j: "j \<in> set (db_jobs db)" "job_terminal j"
    have "\<not> stale locked (now - threshold) t j" using j(2) by (simp add: job_terminal_def job_active_def stale_def)
    then have "?g j = j" by simp
    with j(1) show "j \<in> set (db_jobs db')" unfolding rows set_map by (rule rev_image_eqI [OF _ sym])
  qed
qed

lemma same_jobs_calls:
  "update_run_status db r now st e = Inr db' \<Longrightarrow> db_jobs db' = db_jobs db"
  "create_run db n now kind tid p target parent = Inr db' \<Longrightarrow> db_jobs db' = db_jobs db"
  "reap_one now x db = Inr db' \<Longrightarrow> db_jobs db' = db_jobs db"
proof -
  show u: "update_run_status db r now st e = Inr db' \<Longrightarrow> db_jobs db' = db_jobs db" for db db' r st e
    by (auto simp: update_run_status_def split: option.splits)
  show "create_run db n now kind tid p target parent = Inr db' \<Longrightarrow> db_jobs db' = db_jobs db"
    by (auto simp: create_run_def Let_def split: if_splits)
  show "reap_one now x db = Inr db' \<Longrightarrow> db_jobs db' = db_jobs db"
    using u by (cases x) (auto simp: reap_one_def bind_result_Inr_iff split: option.splits)
qed

definition releases :: "string \<Rightarrow> worker_pc \<Rightarrow> bool" where
  "releases i pc = (case pc of W_Release j run \<Rightarrow> j_id j = i | _ \<Rightarrow> False)"

lemma kept_worker_step:
  assumes s: "worker_step ctx inp pc db = (pc', db')" and c: "consistent db" and r: "\<not> releases i pc"
  shows "final_kept i db db'"
proof (cases pc)
  case W_Idle
  with s c show ?thesis
    by (auto simp: step_claim_def store_call_Inr split: sum.splits option.splits intro: kept_claim)
next
  case (W_Created j run)
  note k = kept_promote [OF _ c, of "j_id j" run "wc_worker_id ctx" "wi_now inp" db']
  from s W_Created show ?thesis
    by (auto simp: step_promote_def split: option.splits sum.splits db_error.splits bool.splits dest: k)
next
  case (W_Release j run)
  with s r show ?thesis
    by (auto simp: step_release_def releases_def store_call_Inr split: sum.splits intro: kept_release)
next
  case (W_Fail_Job j run e)
  with s c show ?thesis
    by (auto simp: step_fail_job_def store_call_Inr split: sum.splits intro: kept_finish)
next
  case (W_Final_Job j run res)
  with s c show ?thesis
    by (auto simp: step_final_job_def store_call_Inr split: sum.splits intro: kept_finish)
qed (use s in \<open>auto intro!: final_kept_same_jobs
      simp: step_create_run_def step_write_status_def step_fail_run_def step_fail_emit_def step_final_run_def
        step_final_emit_def store_call_Inr
      dest: same_jobs_calls split: sum.splits option.splits\<close>)

lemma kept_other_action:
  assumes "\<not> by_worker a" and "consistent (sys_db s)"
  shows "final_kept i (sys_db s) (sys_db (sys_step cfg a s))"
proof (cases a)
  case (Act_Scheduled new_id now p target due label)
  then show ?thesis
    by (auto simp: after_call_def split: sum.split intro: kept_enqueue_scheduled)
next
  case (Act_Manual new_id now p target trigger label)
  with assms(2) show ?thesis
    by (auto simp: after_call_def split: sum.split intro: kept_enqueue_manual)
next
  case (Act_Reclaim locked now threshold)
  then show ?thesis by (auto simp: reaper_reclaims_def intro: kept_reclaim split: sum.split)
next
  case (Act_Reap now)
  then show ?thesis
    by (auto simp: reaper_reaps_def dest: same_jobs_calls intro!: final_kept_same_jobs split: list.split sum.split)
next
  case (Act_Next w)
  then show ?thesis by (simp add: worker_polls_again_def)
qed (use assms(1) in \<open>auto intro!: final_kept_same_jobs simp: register_worker_def unregister_worker_def split: option.split\<close>)

text \<open>The actions that are not a worker's late release of the given job.\<close>

fun no_late_release :: "string \<Rightarrow> system \<Rightarrow> sys_action \<Rightarrow> bool" where
  "no_late_release i s (Act_Worker w inp) = (\<not> releases i (sys_pc s w))"
| "no_late_release i s _ = True"

lemma kept_sys_step:
  assumes "sound_system s" and "no_late_release i s a"
  shows "final_kept i (sys_db s) (sys_db (sys_step cfg a s))"
proof (cases "by_worker a")
  case False
  with assms(1) show ?thesis by (intro kept_other_action) (simp_all add: sound_system_def sound_store_def)
next
  case True
  then show ?thesis
  proof (cases a)
    case (Act_Worker w inp)
    obtain pc' db' where st: "worker_step (cfg w) inp (sys_pc s w) (sys_db s) = (pc', db')"
      by (cases "worker_step (cfg w) inp (sys_pc s w) (sys_db s)") auto
    with Act_Worker assms show ?thesis
      unfolding Act_Worker worker_acts_parts(1) [of cfg, OF st]
      by (intro kept_worker_step [OF st]) (simp_all add: sound_system_def sound_store_def)
  qed (auto simp: kept_beat)
qed

section \<open>Properties\<close>

interpretation soundness: step_invariant "sys_step cfg" "\<lambda>s a. True" sound_system for cfg
  by unfold_locales (rule sound_system_step)

interpretation tracking: step_invariant "sys_step cfg" "\<lambda>s a. own_ids cfg \<and> recoverable_action s a" claims_tracked for cfg
  by unfold_locales (blast intro: claims_tracked_step)

interpretation finality: step_invariant "sys_step cfg" "no_late_release (j_id j)"
  "\<lambda>s. sound_system s \<and> job_terminal j \<and> (\<exists>h. j\<lparr>j_heartbeat_at := h\<rparr> \<in> set (db_jobs (sys_db s)))" for cfg j
proof (unfold_locales, elim conjE exE, intro conjI)
  fix s a h
  assume s: "sound_system s" and a: "no_late_release (j_id j) s a" and t: "job_terminal j"
    and m: "j\<lparr>j_heartbeat_at := h\<rparr> \<in> set (db_jobs (sys_db s))"
  show "sound_system (sys_step cfg a s)" using s by (rule sound_system_step)
  have "job_terminal (j\<lparr>j_heartbeat_at := h\<rparr>)" using t by (simp add: job_terminal_def job_active_def)
  with kept_sys_step [OF s a, of cfg] m
  show "\<exists>h. j\<lparr>j_heartbeat_at := h\<rparr> \<in> set (db_jobs (sys_db (sys_step cfg a s)))"
    by (fastforce simp: final_kept_def)
qed

lemma initial_claims_tracked: "claims_tracked (initial_system emitter pipelines)"
  by (simp add: claims_tracked_def sound_system_def sound_store_def owned_def runs_known_def initial_system_def
    empty_store_def jobs_ok_def one_per_pipeline_def with_status_def holds_only_its_job_def held_def)

lemma initial_sound: "sound_system (initial_system emitter pipelines)"
  using initial_claims_tracked by (simp add: claims_tracked_def)

text \<open>
  C2: after any history of workers, beats, enqueues and reaper passes, with any faults, a pipeline
  has at most one queued and one running job per tenant, and every active job carries an owner
  and a heartbeat, so that it turns stale, and visible to the reaper, once the heartbeat is
  older than the threshold.
\<close>
theorem queue_stays_sound:
  assumes "reached (sys_step cfg) (\<lambda>s a. True) (initial_system emitter pipelines) s"
  shows "one_per_pipeline Job_Queued (db_jobs (sys_db s)) \<and> one_per_pipeline Job_Running (db_jobs (sys_db s)) \<and>
    (\<forall>j \<in> set (db_jobs (sys_db s)). job_active j \<longrightarrow>
      (\<exists>w h. j_claimed_by j = Some w \<and> j_heartbeat_at j = Some h \<and>
        (\<forall>now threshold. h < now - threshold \<longrightarrow> stale {} (now - threshold) (j_tenant_id j) j)))"
proof -
  have "sound_system s" using soundness.reached_good [OF assms initial_sound] .
  then show ?thesis
    by (auto simp: sound_system_def sound_store_def jobs_ok_def owned_def stale_def job_active_def)
qed


text \<open>
  C3: a finished job is final: no history changes its row, the heartbeat apart, unless a worker
  makes a late \<open>release_claim\<close> of that very job.
\<close>
theorem finished_jobs_are_final:
  assumes "sound_system s\<^sub>0" and "j \<in> set (db_jobs (sys_db s\<^sub>0))" and "job_terminal j"
    and "reached (sys_step cfg) (no_late_release (j_id j)) s\<^sub>0 s"
  shows "\<exists>h. j\<lparr>j_heartbeat_at := h\<rparr> \<in> set (db_jobs (sys_db s))"
proof -
  have "j\<lparr>j_heartbeat_at := j_heartbeat_at j\<rparr> \<in> set (db_jobs (sys_db s\<^sub>0))" using assms(2) by simp
  then show ?thesis using finality.reached_good [OF assms(4)] assms(1,3) by blast
qed

lemma jobs_ok_requeue:
  assumes "jobs_ok runs js" and "find_job js i = Some k" and "j_status k \<noteq> Job_Queued"
    and "queued_for js (j_pipeline k) (j_tenant_id k) = []"
  shows "jobs_ok runs (update_job i set_released js)"
proof -
  have d: "distinct (map j_id js)" using assms(1) by (simp add: jobs_ok_def)
  obtain A B where js: "js = A @ k # B" and up: "update_job i set_released js = A @ set_released k # B"
    using d assms(2) by (rule update_job_split)
  have key: "pipeline_key (set_released k) = pipeline_key k" "j_run_id (set_released k) = j_run_id k"
    "j_id (set_released k) = j_id k" "j_status (set_released k) = Job_Queued"
    by (simp_all add: set_released_def pipeline_key_def)
  have free: "pipeline_key k \<notin> pipeline_key ` set (with_status Job_Queued A)"
    "pipeline_key k \<notin> pipeline_key ` set (with_status Job_Queued B)"
    using assms(3,4) unfolding js queued_for_def with_status_def by (auto simp: filter_empty_conv pipeline_key_def)
  show ?thesis
    using assms(1,3) free key unfolding up unfolding js jobs_ok_def one_per_pipeline_def with_status_def
    by (auto split: if_splits)
qed

text \<open>
  C13: a late release reopens a job: a worker that waits to release its claim after
  \<open>PipelineAlreadyRunning\<close> puts the job back in the queue, whatever has become of it meanwhile; a
  job that was reclaimed, run and finished by others is queued a second time.
\<close>
theorem late_release_reopens_job:
  assumes "sound_system s" and "sys_pc s w = W_Release j run" and "wi_fault inp = None"
    and "find_job (db_jobs (sys_db s)) (j_id j) = Some k" and "j_status k \<noteq> Job_Queued"
    and "queued_for (db_jobs (sys_db s)) (j_pipeline k) (j_tenant_id k) = []"
  shows "find_job (db_jobs (sys_db (sys_step cfg (Act_Worker w inp) s))) (j_id j) = Some (set_released k)"
proof -
  let ?up = "update_job (j_id j) set_released (db_jobs (sys_db s))"
  have "jobs_ok (db_runs (sys_db s)) ?up"
    using assms(1) by (intro jobs_ok_requeue [OF _ assms(4-6)]) (simp add: sound_system_def sound_store_def)
  then have "release_claim (sys_db s) (j_id j) = Inr ((sys_db s)\<lparr>db_jobs := ?up\<rparr>)"
    using assms(4) by (simp add: release_claim_def commit_jobs_def)
  then show ?thesis
    using assms(2-4) by (simp add: worker_acts_def step_release_def store_call_def find_job_update set_released_def)
qed

section \<open>A history\<close>

text \<open>
  Worker \<open>w1\<close> runs \<open>j1\<close>; \<open>w2\<close> claims \<open>j2\<close> of the same pipeline, finds it running and stalls before
  it releases; the reaper takes \<open>j2\<close> back; \<open>w1\<close> finishes; \<open>w3\<close> runs \<open>j2\<close> to its end.
\<close>

definition example_cfg :: "string \<Rightarrow> worker_ctx" where
  "example_cfg w = \<lparr>wc_worker_id = w, wc_label = None, wc_emitter = None, wc_error_text = (\<lambda>_. ''db error'')\<rparr>"

definition call_at :: "string \<Rightarrow> int \<Rightarrow> string \<Rightarrow> sys_action" where
  "call_at w now run = Act_Worker w \<lparr>wi_now = now, wi_locked = {}, wi_new_id = run, wi_result = Inr Run_Succeeded, wi_fault = None\<rparr>"

definition example_history :: "sys_action list" where
  "example_history =
     [Act_Manual ''j1'' 0 ''sales'' ''prod'' ''manual'' None] @
     map (\<lambda>n. call_at ''w1'' (1 + int n) ''r1'') [0..<5] @
     [Act_Manual ''j2'' 20 ''sales'' ''prod'' ''manual'' None,
      call_at ''w2'' 30 ''r2'', call_at ''w2'' 31 ''r2'', call_at ''w2'' 32 ''r2'',
      Act_Beat ''w1'' ''j1'' 90, Act_Reclaim {} 100 60, Act_Reap 100] @
     map (\<lambda>n. call_at ''w1'' (110 + int n) ''r1'') [0..<4] @
     map (\<lambda>n. call_at ''w3'' (120 + int n) ''r3'') [0..<9]"

definition example_state :: system where
  "example_state = fold (sys_step example_cfg) example_history (initial_system None [])"

text \<open>A list of actions, each admissible where it is taken, is a history.\<close>

fun admissible_run :: "('a \<Rightarrow> 's \<Rightarrow> 's) \<Rightarrow> ('s \<Rightarrow> 'a \<Rightarrow> bool) \<Rightarrow> 'a list \<Rightarrow> 's \<Rightarrow> bool" where
  "admissible_run step ok [] s = True"
| "admissible_run step ok (a # as) s = (ok s a \<and> admissible_run step ok as (step a s))"

lemma reached_fold:
  "reached step ok s\<^sub>0 s \<Longrightarrow> admissible_run step ok as s \<Longrightarrow> reached step ok s\<^sub>0 (fold step as s)"
  by (induction "as" arbitrary: s) (auto intro: reached_step)

lemma reached_history: "admissible_run step ok as s \<Longrightarrow> reached step ok s (fold step as s)"
  by (rule reached_fold) (rule reached_start)

lemma admissible_True: "admissible_run step (\<lambda>s a. True) as s"
  by (induction "as" arbitrary: s) auto

lemma example_reached: "reached (sys_step example_cfg) (\<lambda>s a. True) (initial_system None []) example_state"
  unfolding example_state_def by (rule reached_history) (rule admissible_True)

lemma queue_stays_sound_witness: "one_per_pipeline Job_Running (db_jobs (sys_db example_state))"
  using queue_stays_sound [OF example_reached] by blast

lemma late_release_reopens_job_witness:
  "\<exists>k. find_job (db_jobs (sys_db example_state)) ''j2'' = Some k \<and> j_status k = Job_Succeeded \<and>
     find_job (db_jobs (sys_db (sys_step example_cfg (call_at ''w2'' 200 ''r4'') example_state))) ''j2'' = Some (set_released k)"
proof -
  have s: "sound_system example_state" using soundness.reached_good [OF example_reached initial_sound] .
  have "case sys_pc example_state ''w2'' of W_Release j run \<Rightarrow> j_id j = ''j2'' | _ \<Rightarrow> False"
    by code_simp
  then obtain j run where pc: "sys_pc example_state ''w2'' = W_Release j run" and j: "j_id j = ''j2''"
    by (auto split: worker_pc.splits)
  have "case find_job (db_jobs (sys_db example_state)) ''j2'' of
      Some k \<Rightarrow> j_status k = Job_Succeeded \<and> queued_for (db_jobs (sys_db example_state)) (j_pipeline k) (j_tenant_id k) = []
    | None \<Rightarrow> False" by code_simp
  then obtain k where k: "find_job (db_jobs (sys_db example_state)) ''j2'' = Some k" "j_status k = Job_Succeeded"
    "queued_for (db_jobs (sys_db example_state)) (j_pipeline k) (j_tenant_id k) = []"
    by (auto split: option.splits)
  from late_release_reopens_job [OF s pc, of _ k example_cfg] k j show ?thesis
    by (simp add: call_at_def)
qed

lemma admissible_always: "list_all (\<lambda>a. \<forall>s. ok s a) as \<Longrightarrow> admissible_run step ok as s"
  by (induction "as" arbitrary: s) auto


lemma finished_jobs_are_final_witness:
  "\<exists>j h. j_status j = Job_Succeeded \<and>
     j\<lparr>j_heartbeat_at := h\<rparr> \<in> set (db_jobs (sys_db (sys_step example_cfg (Act_Beat ''w1'' ''j1'' 300) example_state)))"
proof -
  have s: "sound_system example_state" using soundness.reached_good [OF example_reached initial_sound] .
  have "case db_jobs (sys_db example_state) of j # _ \<Rightarrow> job_terminal j \<and> j_status j = Job_Succeeded | [] \<Rightarrow> False"
    by code_simp
  then obtain j where j: "j \<in> set (db_jobs (sys_db example_state))" "job_terminal j" "j_status j = Job_Succeeded"
    by (auto split: list.splits)
  have "reached (sys_step example_cfg) (no_late_release (j_id j)) example_state
      (sys_step example_cfg (Act_Beat ''w1'' ''j1'' 300) example_state)"
    by (rule reached_step [OF reached_start]) simp
  from finished_jobs_are_final [OF s j(1,2) this] j(3) show ?thesis by blast
qed

end
