(* ===== verification/Job_Lifecycle.thy ===== *)
theory Job_Lifecycle
  imports Queue_System
begin

text \<open>
  The contract of the queue as the life of a single job, and the refinement: whatever the
  transactions of \<open>core/state/job_queue.py\<close>, \<open>runtime/worker.py\<close> and \<open>runtime/reaper.py\<close> do to the tables, in any order and with any
  faults, each is a step of that life or none.
\<close>

section \<open>The life of a job\<close>

datatype job_life = Unknown | Waiting | Held_By "string option" | Runs_For "string option" "string option" | Over job_status

text \<open>A step is that of a worker, by its id, or of a user, the scheduler or the reaper.\<close>

inductive life_step :: "string option \<Rightarrow> job_life \<Rightarrow> job_life \<Rightarrow> bool" where
  submitted: "life_step None Unknown Waiting"
| claimed: "life_step (Some w) Waiting (Held_By (Some w))"
| promoted: "life_step (Some w) (Held_By (Some w)) (Runs_For (Some w) (Some r))"
| handed_back: "life_step (Some w) (Held_By (Some w)) Waiting"
| given_up: "st \<in> {Job_Succeeded, Job_Failed} \<Longrightarrow> life_step (Some w) (Held_By (Some w)) (Over st)"
| finished: "st \<in> {Job_Succeeded, Job_Failed} \<Longrightarrow> life_step (Some w) (Runs_For (Some w) r) (Over st)"
| taken_back: "life_step None (Held_By w) Waiting"
| reclaimed: "life_step None (Runs_For w r) Waiting"

inductive_cases life_step_OverE: "life_step who (Over st) l"
inductive_cases life_step_to_OverE: "life_step who l (Over st)"
inductive_cases life_step_RunsE: "life_step who l (Runs_For w r)"
inductive_simps life_step_submits: "life_step who Unknown l"

definition life_of_row :: "job \<Rightarrow> job_life" where
  "life_of_row j =
     (case j_status j of
        Job_Queued \<Rightarrow> Waiting
      | Job_Claimed \<Rightarrow> Held_By (j_claimed_by j)
      | Job_Running \<Rightarrow> Runs_For (j_claimed_by j) (j_run_id j)
      | st \<Rightarrow> Over st)"

definition life_of :: "string \<Rightarrow> store \<Rightarrow> job_life" where
  "life_of i db = (case find_job (db_jobs db) i of None \<Rightarrow> Unknown | Some j \<Rightarrow> life_of_row j)"

text \<open>A transaction moves a job one step along its life, or not at all.\<close>

definition moves :: "string option \<Rightarrow> string \<Rightarrow> store \<Rightarrow> store \<Rightarrow> bool" where
  "moves who i db db' \<longleftrightarrow> life_of i db' = life_of i db \<or> life_step who (life_of i db) (life_of i db')"

fun actor :: "sys_action \<Rightarrow> string option" where
  "actor (Act_Worker w inp) = Some w"
| "actor _ = None"

text \<open>A release is timely for a job that still waits or is still held by the worker.\<close>

fun timely :: "string \<Rightarrow> system \<Rightarrow> sys_action \<Rightarrow> bool" where
  "timely i s (Act_Worker w inp) =
     (releases i (sys_pc s w) \<longrightarrow> life_of i (sys_db s) = Waiting \<or> life_of i (sys_db s) = Held_By (Some w))"
| "timely i s _ = True"

section \<open>Every transaction is a step or none\<close>

named_theorems moved

lemma moves_refl [simp, moved]: "moves who i db db"
  by (simp add: moves_def)

lemma moves_same_jobs [moved]: "db_jobs db' = db_jobs db \<Longrightarrow> moves who i db db'"
  by (simp add: moves_def life_of_def)

lemma moves_update:
  assumes "db_jobs db' = update_job k f (db_jobs db)" and "\<And>j. j_id (f j) = j_id j"
    and "\<And>j. find_job (db_jobs db) k = Some j \<Longrightarrow> k = i \<Longrightarrow>
      life_of_row (f j) = life_of_row j \<or> life_step who (life_of_row j) (life_of_row (f j))"
  shows "moves who i db db'"
  using assms(3)
  by (cases "find_job (db_jobs db) k")
    (auto simp: moves_def life_of_def assms(1) find_job_update [OF assms(2)] split: option.split)

lemma moves_append:
  assumes "db_jobs db' = db_jobs db @ [j]" and "j_id j \<notin> j_id ` set (db_jobs db)" and "j_status j = Job_Queued"
  shows "moves None i db db'"
proof -
  have "find_job (db_jobs db') i = (if i = j_id j then Some j else find_job (db_jobs db) i)"
  proof -
    have "find_job (js @ [j]) i = (case find_job js i of Some k \<Rightarrow> Some k | None \<Rightarrow> if i = j_id j then Some j else None)" for js
      by (induction js) (auto simp: find_job_def)
    then show ?thesis using assms(2) find_job_None [of "db_jobs db" "j_id j"]
      by (auto simp: assms(1) split: option.split)
  qed
  moreover have "find_job (db_jobs db) (j_id j) = None" using assms(2) by (simp add: find_job_None)
  ultimately show ?thesis
    using assms(3) by (auto simp: moves_def life_of_def life_of_row_def life_step_submits)
qed

lemma moves_enqueue_scheduled [moved]:
  assumes "enqueue_scheduled db n now p target due label t = Inr (db', j)"
  shows "moves None i db db'"
proof -
  from assms have "db_jobs db' = db_jobs db @ [new_job n now p target ''scheduled'' due label t]"
    and "jobs_ok (db_runs db) (db_jobs db @ [new_job n now p target ''scheduled'' due label t])"
    by (auto simp: enqueue_scheduled_def Let_def bind_result_Inr_iff commit_jobs_Inr split: option.splits)
  then show ?thesis by (intro moves_append) (auto simp: jobs_ok_def new_job_def)
qed

lemma moves_enqueue_manual [moved]:
  assumes "enqueue_manual db n now p target trigger label t = Inr (db', j)"
  shows "moves None i db db'"
proof (cases "queued_conflict (db_jobs db) p t")
  case None
  with assms have "db_jobs db' = db_jobs db @ [new_job n now p target trigger None label t]"
    and "jobs_ok (db_runs db) (db_jobs db @ [new_job n now p target trigger None label t])"
    by (auto simp: enqueue_manual_def Let_def bind_result_Inr_iff commit_jobs_Inr)
  then show ?thesis by (intro moves_append) (auto simp: jobs_ok_def new_job_def)
next
  case (Some q)
  with assms have "db_jobs db' = update_job (j_id q) (refresh_queued trigger target label) (db_jobs db)"
    by (auto simp: enqueue_manual_def Let_def bind_result_Inr_iff commit_jobs_Inr)
  then show ?thesis by (rule moves_update) (simp_all add: refresh_queued_def life_of_row_def split: job_status.split)
qed

lemma moves_claim [moved]:
  assumes "claim_next db locked w label t now = Inr (db', c)" and "consistent db"
  shows "moves (Some w) i db db'"
proof (cases c)
  case None
  with assms(1) have "db' = db" by (auto simp: claim_next_def bind_result_Inr_iff split: list.splits)
  then show ?thesis by simp
next
  case (Some k)
  obtain q where q: "q \<in> set (db_jobs db)" "j_status q = Job_Queued"
    and rows: "db_jobs db' = update_job (j_id q) (set_claimed w now) (db_jobs db)"
    using claim_next_Some [OF assms(2) assms(1) [unfolded Some]] by (metis claimable_def)
  from rows show ?thesis
  proof (rule moves_update)
    fix j assume "find_job (db_jobs db) (j_id q) = Some j"
    with find_job_Some [OF this] q(1) assms(2) have "j = q" by (auto simp: jobs_ok_def distinct_map dest: inj_onD)
    with q(2) show "life_of_row (set_claimed w now j) = life_of_row j \<or> life_step (Some w) (life_of_row j) (life_of_row (set_claimed w now j))"
      by (simp add: life_of_row_def set_claimed_def claimed)
  qed (simp add: set_claimed_def)
qed

lemma moves_promote [moved]:
  assumes "transition_to_running db k run (Some w) now = Inr (db', b)"
  shows "moves (Some w) i db db'"
proof (cases b)
  case True
  with assms have t: "transition_to_running db k run (Some w) now = Inr (db', True)" by simp
  obtain q where q: "find_job (db_jobs db) k = Some q" "j_status q = Job_Claimed" "j_claimed_by q = Some w"
    using promoted_rows(4) [OF t] by blast
  from promoted_rows(3) [OF t] show ?thesis
    by (rule moves_update) (use q in \<open>simp_all add: set_running_def life_of_row_def promoted\<close>)
next
  case False
  with assms have "db' = db" by (intro refused_same) simp
  then show ?thesis by simp
qed

lemma moves_finish [moved]:
  assumes "mark_finished db k st e (Some w) now = Inr (db', b)" and "st \<in> {Job_Succeeded, Job_Failed}"
  shows "moves (Some w) i db db'"
  using mark_finished_cases [OF assms(1)]
proof
  assume u: "db_jobs db' = update_job k (set_finished st e now) (db_jobs db) \<and>
      (\<exists>j. find_job (db_jobs db) k = Some j \<and> j_claimed_by j = Some w \<and> job_active j)"
  then obtain q where q: "find_job (db_jobs db) k = Some q" "job_active q" "j_claimed_by q = Some w" by blast
  from u have "db_jobs db' = update_job k (set_finished st e now) (db_jobs db)" by blast
  then show ?thesis
  proof (rule moves_update)
    fix j assume "find_job (db_jobs db) k = Some j"
    with q have "j_status j = Job_Claimed \<or> j_status j = Job_Running" "j_claimed_by j = Some w" by (simp_all add: job_active_def)
    moreover have "life_of_row (set_finished st e now j) = Over st"
      using assms(2) by (auto simp: life_of_row_def set_finished_def)
    ultimately show "life_of_row (set_finished st e now j) = life_of_row j \<or>
        life_step (Some w) (life_of_row j) (life_of_row (set_finished st e now j))"
      using given_up [OF assms(2), of w] finished [OF assms(2), of w] by (auto simp: life_of_row_def)
  qed (simp add: set_finished_def)
qed simp

lemma moves_release [moved]:
  assumes "release_claim db k = Inr db'" and "k = i \<Longrightarrow> life_of i db = Waiting \<or> life_of i db = Held_By (Some w)"
  shows "moves (Some w) i db db'"
proof -
  have "db_jobs db' = update_job k set_released (db_jobs db)"
    using assms(1) commit_jobs_rows by (cases "find_job (db_jobs db) k") (simp_all add: release_claim_def)
  then show ?thesis
  proof (rule moves_update)
    fix j assume "find_job (db_jobs db) k = Some j" and "k = i"
    with assms(2) have "life_of_row j = Waiting \<or> life_of_row j = Held_By (Some w)" by (simp add: life_of_def)
    then show "life_of_row (set_released j) = life_of_row j \<or> life_step (Some w) (life_of_row j) (life_of_row (set_released j))"
      using handed_back [of w] by (auto simp: life_of_row_def [of "j\<lparr>j_status := Job_Queued, j_claimed_by := None, j_claimed_at := None\<rparr>"] set_released_def)
  qed (simp add: set_released_def)
qed

lemma moves_beat [moved]: "moves who i db (beat k w now db)"
proof -
  let ?b = "\<lambda>j :: job. j\<lparr>j_heartbeat_at := Some now\<rparr>"
  have "beat k w now db = db \<or> commit_jobs db (update_job k ?b (db_jobs db)) = Inr (beat k w now db)"
    by (simp add: beat_def update_heartbeat_def split: option.split sum.split)
  then show ?thesis
  proof
    assume "commit_jobs db (update_job k ?b (db_jobs db)) = Inr (beat k w now db)"
    from commit_jobs_rows [OF this] show ?thesis
      by (rule moves_update) (simp_all add: life_of_row_def split: job_status.split)
  qed simp
qed

lemma moves_reclaim [moved]:
  assumes "reclaim_stale db locked now threshold t = Inr (db', rs)"
  shows "moves None i db db'"
proof -
  let ?g = "\<lambda>j. if stale locked (now - threshold) t j then set_reclaimed j else j"
  have rows: "db_jobs db' = map ?g (db_jobs db)"
    using assms by (auto simp: reclaim_stale_def Let_def bind_result_Inr_iff commit_jobs_Inr)
  have "find_job (map ?g js) i = map_option ?g (find_job js i)" for js
    by (induction js) (auto simp: find_job_def set_reclaimed_def)
  then have "life_of i db' = (case find_job (db_jobs db) i of None \<Rightarrow> Unknown | Some j \<Rightarrow> life_of_row (?g j))"
    unfolding life_of_def rows by (simp split: option.split)
  moreover have "life_of_row (?g j) = life_of_row j \<or> life_step None (life_of_row j) (life_of_row (?g j))" for j
    by (auto simp: stale_def life_of_row_def set_reclaimed_def taken_back reclaimed)
  ultimately show ?thesis by (auto simp: moves_def life_of_def split: option.split)
qed

section \<open>The refinement\<close>

lemma moves_worker_step:
  assumes s: "worker_step ctx inp pc db = (pc', db')" and c: "consistent db" and w: "wc_worker_id ctx = w"
    and r: "releases i pc \<Longrightarrow> life_of i db = Waiting \<or> life_of i db = Held_By (Some w)"
  shows "moves (Some w) i db db'"
proof (cases pc)
  case W_Idle
  with s c w show ?thesis
    by (auto simp: step_claim_def store_call_Inr split: sum.splits option.splits intro: moves_claim)
next
  case (W_Created j run)
  note k = moves_promote [of db "j_id j" run "wc_worker_id ctx" "wi_now inp" db' _ i]
  from s w W_Created show ?thesis
    by (auto simp: step_promote_def split: option.splits sum.splits db_error.splits bool.splits dest: k)
next
  case (W_Release j run)
  with r have "j_id j = i \<Longrightarrow> life_of i db = Waiting \<or> life_of i db = Held_By (Some w)"
    by (simp add: releases_def)
  note k = moves_release [OF _ this]
  from s W_Release show ?thesis
    by (auto simp: step_release_def store_call_Inr split: sum.splits intro: k)
next
  case (W_Fail_Job j run e)
  with s w show ?thesis
    by (auto simp: step_fail_job_def store_call_Inr split: sum.splits intro: moves_finish)
next
  case (W_Final_Job j run res)
  moreover have "job_status_of res \<in> {Job_Succeeded, Job_Failed}"
    by (simp add: job_status_of_def split: run_status.split)
  ultimately show ?thesis
    using s w by (auto simp: step_final_job_def store_call_Inr split: sum.splits intro: moves_finish)
qed (use s in \<open>auto intro!: moves_same_jobs
      simp: step_create_run_def step_write_status_def step_fail_run_def step_fail_emit_def step_final_run_def
        step_final_emit_def store_call_Inr
      dest: same_jobs_calls split: sum.splits option.splits\<close>)

lemma moves_sys_step:
  assumes "sound_system s" and "own_ids cfg" and "timely i s a"
  shows "moves (actor a) i (sys_db s) (sys_db (sys_step cfg a s))"
proof (cases a)
  case (Act_Worker w inp)
  obtain pc' db' where st: "worker_step (cfg w) inp (sys_pc s w) (sys_db s) = (pc', db')"
    by (cases "worker_step (cfg w) inp (sys_pc s w) (sys_db s)") auto
  have "moves (Some w) i (sys_db s) db'"
    using assms Act_Worker by (intro moves_worker_step [OF st]) (auto simp: sound_system_def sound_store_def own_ids_def)
  then show ?thesis unfolding Act_Worker worker_acts_parts(1) [of cfg, OF st] actor.simps .
next
  case (Act_Scheduled new_id now p target due label)
  then show ?thesis by (auto simp: after_call_def split: sum.split intro: moved)
next
  case (Act_Manual new_id now p target trigger label)
  then show ?thesis by (auto simp: after_call_def split: sum.split intro: moved)
next
  case (Act_Reclaim locked now threshold)
  then show ?thesis by (auto simp: reaper_reclaims_def split: sum.split intro: moved)
next
  case (Act_Reap now)
  then show ?thesis
    by (auto simp: reaper_reaps_def dest: same_jobs_calls intro!: moves_same_jobs split: list.split sum.split)
next
  case (Act_Next w)
  then show ?thesis by (simp add: worker_polls_again_def)
next
  case (Act_Beat w k now)
  then show ?thesis by (simp add: moved)
qed (auto intro!: moves_same_jobs simp: register_worker_def unregister_worker_def split: option.split)

text \<open>A life: the steps of anyone.\<close>

abbreviation any_step :: "job_life \<Rightarrow> job_life \<Rightarrow> bool" where
  "any_step l l' \<equiv> \<exists>who. life_step who l l'"

interpretation lifecycle: step_invariant "sys_step cfg" "\<lambda>s a. own_ids cfg \<and> timely i s a"
  "\<lambda>s. sound_system s \<and> any_step\<^sup>*\<^sup>* l (life_of i (sys_db s))" for cfg i l
proof (unfold_locales, elim conjE, intro conjI)
  fix s a assume s: "sound_system s" and l: "any_step\<^sup>*\<^sup>* l (life_of i (sys_db s))" and a: "own_ids cfg" "timely i s a"
  show "sound_system (sys_step cfg a s)" using s by (rule sound_system_step)
  show "any_step\<^sup>*\<^sup>* l (life_of i (sys_db (sys_step cfg a s)))"
    using l moves_sys_step [OF s a] by (auto simp: moves_def intro: rtranclp.rtrancl_into_rtrancl)
qed


text \<open>From the start of the example to its end, a beat of another worker last.\<close>

lemma timely_example: "admissible_run (sys_step example_cfg) (\<lambda>s a. own_ids example_cfg \<and> timely ''j1'' s a) example_history (initial_system None [])"
proof -
  have "own_ids example_cfg" by (simp add: own_ids_def example_cfg_def)
  moreover have "admissible_run (sys_step example_cfg) (timely ''j1'') example_history (initial_system None [])" by code_simp
  moreover have "admissible_run st (\<lambda>s a. P \<and> ok s a) as s" if "P" "admissible_run st ok as s" for st P ok as and s :: system
    using that by (induction "as" arbitrary: s) auto
  ultimately show ?thesis by blast
qed


section \<open>What the contract gives\<close>

lemma over_is_final: "any_step\<^sup>*\<^sup>* l l' \<Longrightarrow> l = Over st \<Longrightarrow> l' = Over st"
  by (induction rule: rtranclp.induct) (auto elim: life_step_OverE)

text \<open>Only the holder promotes and only the holder ends a job.\<close>

lemma only_holder_runs: "life_step who l (Runs_For w r) \<Longrightarrow> who = w \<and> l = Held_By w"
  by (auto elim: life_step_RunsE)

lemma only_holder_ends: "life_step who l (Over st) \<Longrightarrow> l = Held_By who \<or> (\<exists>r. l = Runs_For who r)"
  by (auto elim: life_step_to_OverE)

end
