(* ===== verification/Api_Tokens.thy ===== *)
theory Api_Tokens
  imports Prelude
begin

text \<open>
  The bearer tokens of the REST API: the repository of \<open>core/state/tokens.py\<close>, the problem
  responses of \<open>api/errors.py\<close>, the authentication middleware and the default token of
  \<open>api/auth.py\<close>, and the mint and revoke handlers of \<open>api/routers/tokens.py\<close>.

  The tokens table is the list of its rows; an operation is one transaction. The argon2 hasher
  is an argument, and so are the random parts of a token, its id and the instant. A request
  handler maps an identity, a request and a server state to a response and the next state.
\<close>

section \<open>Tokens\<close>

record token =
  tk_id :: string
  tk_hash :: string
  tk_lookup :: string
  tk_scopes :: "string list"
  tk_tenant_id :: int
  tk_user_id :: int
  tk_is_default :: bool
  tk_created_at :: int
  tk_last_used_at :: "int option"
  tk_revoked_at :: "int option"

record api_identity =
  id_user_id :: int
  id_tenant_id :: int
  id_token_id :: string
  id_scopes :: "string list"

text \<open>
  What the hasher's \<open>verify\<close> does: return, raise one of the library's \<open>Argon2Error\<close>s, or raise
  something else, as it does for a string that is no argon2 hash at all.
\<close>

datatype verify_outcome = Verified | Argon2_Error | Other_Raise string

record hasher =
  hs_hash :: "string \<Rightarrow> string \<Rightarrow> string"
  hs_verify :: "string \<Rightarrow> string \<Rightarrow> verify_outcome"

datatype token_error = Token_Integrity | Multiple_Rows | Hasher_Raised string

definition TOKEN_PREFIX :: string where
  "TOKEN_PREFIX = ''carve_pat_''"

definition TOKEN_SEP :: char where
  "TOKEN_SEP = CHR ''.''"

text \<open>The random parts are what \<open>secrets.token_urlsafe\<close> returned.\<close>

definition generate_token :: "string \<Rightarrow> string \<Rightarrow> string \<times> string" where
  "generate_token lookup secret = (lookup, TOKEN_PREFIX @ lookup @ [TOKEN_SEP] @ secret)"

definition parse_lookup :: "string \<Rightarrow> string option" where
  "parse_lookup plaintext =
     (if \<not> startswith plaintext TOKEN_PREFIX then None
      else
        (let rest = drop (length TOKEN_PREFIX) plaintext;
             lookup = takeWhile (\<lambda>c. c \<noteq> TOKEN_SEP) rest;
             secret = tl (dropWhile (\<lambda>c. c \<noteq> TOKEN_SEP) rest)
         in if TOKEN_SEP \<notin> set rest \<or> lookup = [] \<or> secret = [] then None else Some lookup))"

definition verify_token :: "hasher \<Rightarrow> string \<Rightarrow> string \<Rightarrow> token_error + bool" where
  "verify_token h token_hash plaintext =
     (case hs_verify h token_hash plaintext of
        Verified \<Rightarrow> Inr True
      | Argon2_Error \<Rightarrow> Inr False
      | Other_Raise e \<Rightarrow> Inl (Hasher_Raised e))"

text \<open>The primary key and the two unique indexes of the table.\<close>

definition live :: "token \<Rightarrow> bool" where
  "live t = (tk_revoked_at t = None)"

definition live_default :: "token \<Rightarrow> bool" where
  "live_default t = (tk_is_default t \<and> live t)"

definition tokens_ok :: "token list \<Rightarrow> bool" where
  "tokens_ok ts =
     (distinct (map tk_id ts) \<and> distinct (map tk_lookup ts) \<and> length (filter live_default ts) \<le> 1)"

record mint_args =
  ma_scopes :: "string list option"
  ma_is_default :: bool
  ma_lookup :: string
  ma_secret :: string
  ma_salt :: string
  ma_id :: string
  ma_now :: int

definition create_token ::
  "hasher \<Rightarrow> mint_args \<Rightarrow> token list \<Rightarrow> (token_error + string \<times> string) \<times> token list" where
  "create_token h a ts =
     (let (lookup, plaintext) = generate_token (ma_lookup a) (ma_secret a);
          t = \<lparr>tk_id = ma_id a, tk_hash = hs_hash h (ma_salt a) plaintext, tk_lookup = lookup,
               tk_scopes = (case ma_scopes a of Some s \<Rightarrow> s | None \<Rightarrow> [''*'']),
               tk_tenant_id = 1, tk_user_id = 1, tk_is_default = ma_is_default a,
               tk_created_at = ma_now a, tk_last_used_at = None, tk_revoked_at = None\<rparr>
      in if tokens_ok (ts @ [t]) then (Inr (ma_id a, plaintext), ts @ [t])
         else (Inl Token_Integrity, ts))"

definition identity_of :: "token \<Rightarrow> api_identity" where
  "identity_of t = \<lparr>id_user_id = tk_user_id t, id_tenant_id = tk_tenant_id t,
                    id_token_id = tk_id t, id_scopes = tk_scopes t\<rparr>"

definition find_by_token ::
  "hasher \<Rightarrow> string \<Rightarrow> token list \<Rightarrow> token_error + api_identity option" where
  "find_by_token h plaintext ts =
     (case parse_lookup plaintext of
        None \<Rightarrow> Inr None
      | Some l \<Rightarrow>
          (case filter (\<lambda>t. tk_lookup t = l \<and> live t) ts of
             [] \<Rightarrow> Inr None
           | [t] \<Rightarrow>
               bind_result (verify_token h (tk_hash t) plaintext)
                 (\<lambda>ok. Inr (if ok then Some (identity_of t) else None))
           | _ \<Rightarrow> Inl Multiple_Rows))"

definition update_token :: "string \<Rightarrow> (token \<Rightarrow> token) \<Rightarrow> token list \<Rightarrow> token list" where
  "update_token i f ts = map (\<lambda>t. if tk_id t = i then f t else t) ts"

definition get_token :: "string \<Rightarrow> token list \<Rightarrow> token option" where
  "get_token i ts = find (\<lambda>t. tk_id t = i) ts"

definition touch_last_used :: "int \<Rightarrow> string \<Rightarrow> token list \<Rightarrow> token list" where
  "touch_last_used now i ts =
     (case get_token i ts of
        None \<Rightarrow> ts
      | Some t \<Rightarrow> update_token i (\<lambda>t. t\<lparr>tk_last_used_at := Some now\<rparr>) ts)"

definition revoke :: "int \<Rightarrow> string \<Rightarrow> token list \<Rightarrow> bool \<times> token list" where
  "revoke now i ts =
     (case get_token i ts of
        None \<Rightarrow> (False, ts)
      | Some t \<Rightarrow>
          (True, if live t then update_token i (\<lambda>t. t\<lparr>tk_revoked_at := Some now\<rparr>) ts else ts))"

definition list_all_tokens :: "bool \<Rightarrow> token list \<Rightarrow> token list" where
  "list_all_tokens include_revoked ts =
     sort_key (\<lambda>t. - tk_created_at t) (if include_revoked then ts else filter live ts)"

definition has_active_default :: "token list \<Rightarrow> bool" where
  "has_active_default ts = (length (filter live_default ts) \<noteq> 0)"

section \<open>The default token and its file\<close>

text \<open>
  The token file, and whether the operating system lets it be written. Setting its mode
  afterwards is best effort and left out.
\<close>

type_synonym token_file = "string option"

definition write_token_file :: "bool \<Rightarrow> string \<Rightarrow> token_file \<Rightarrow> bool \<times> token_file" where
  "write_token_file writable plaintext f =
     (if writable then (True, Some (plaintext @ [CHR 0x0A])) else (False, f))"

datatype default_error = Default_Store token_error | Default_Os_Error

definition mint_into_file ::
  "hasher \<Rightarrow> bool \<Rightarrow> mint_args \<Rightarrow> token list \<times> token_file \<Rightarrow>
     (default_error + string) \<times> token list \<times> token_file" where
  "mint_into_file h writable a s =
     (case create_token h a (fst s) of
        (Inl e, ts) \<Rightarrow> (Inl (Default_Store e), ts, snd s)
      | (Inr (i, plaintext), ts) \<Rightarrow>
          (let (written, f) = write_token_file writable plaintext (snd s)
           in (if written then Inr plaintext else Inl Default_Os_Error, ts, f)))"

definition ensure_default_token ::
  "hasher \<Rightarrow> bool \<Rightarrow> mint_args \<Rightarrow> token list \<times> token_file \<Rightarrow>
     (default_error + string option) \<times> token list \<times> token_file" where
  "ensure_default_token h writable a s =
     (if has_active_default (fst s) then (Inr None, s)
      else
        (case mint_into_file h writable (a\<lparr>ma_scopes := Some [''*''], ma_is_default := True\<rparr>) s of
           (Inl e, s') \<Rightarrow> (Inl e, s')
         | (Inr plaintext, s') \<Rightarrow> (Inr (Some plaintext), s')))"

definition rotate_token ::
  "hasher \<Rightarrow> bool \<Rightarrow> mint_args \<Rightarrow> token list \<times> token_file \<Rightarrow>
     (default_error + string) \<times> token list \<times> token_file" where
  "rotate_token h writable a = mint_into_file h writable (a\<lparr>ma_scopes := Some [''*''], ma_is_default := False\<rparr>)"

section \<open>Problem responses\<close>

datatype response_body = Json_Body json | Raw_Body string

record response =
  rs_status :: int
  rs_body :: response_body
  rs_headers :: "(string \<times> string) list"

definition ERROR_BASE :: string where
  "ERROR_BASE = ''https://carve.dev/errors/''"

definition optional_field :: "string \<Rightarrow> string option \<Rightarrow> (string \<times> json) list" where
  "optional_field k v = (case v of None \<Rightarrow> [] | Some s \<Rightarrow> [(k, JString s)])"

definition problem ::
  "int \<Rightarrow> string \<Rightarrow> string \<Rightarrow> string option \<Rightarrow> string option \<Rightarrow> (string \<times> json) list \<Rightarrow> response" where
  "problem status type_slug title detail inst extra =
     \<lparr>rs_status = status,
      rs_body = Json_Body (JObject (dict_of
        ([(''type'', JString (ERROR_BASE @ type_slug)), (''title'', JString title), (''status'', JInt status)]
         @ optional_field ''detail'' detail @ optional_field ''instance'' inst
         @ filter (\<lambda>(k, v). v \<noteq> JNull) extra))),
      rs_headers = [(''content-type'', ''application/problem+json'')]\<rparr>"

text \<open>
  An exception as the handler sees it: the qualified names of the classes of its method
  resolution order, the attributes it may carry and its rendering. \<open>Api_Error\<close>s are the
  router's own.
\<close>

record domain_exception =
  ex_mro :: "string list"
  ex_attrs :: "(string \<times> json) list"
  ex_str :: string

datatype api_exception =
    Api_Error int string string "string option" "(string \<times> json) list"
  | Domain domain_exception

abbreviation "resource_not_found detail \<equiv> Api_Error 404 ''not-found'' ''Resource not found'' (Some detail) []"

abbreviation "bad_request detail extra \<equiv> Api_Error 400 ''bad-request'' ''Bad request'' (Some detail) extra"

record error_spec =
  es_slug :: string
  es_status :: int
  es_title :: string

definition ERROR_MAP :: "(string \<times> error_spec) list" where
  "ERROR_MAP = map (\<lambda>(n, slug, status, title). (''carve.'' @ n, \<lparr>es_slug = slug, es_status = status, es_title = title\<rparr>))
     [(''cli.orchestrator.builder.ConfigDriftError'', ''config-drift'', 409, ''Plan was generated against a different config''),
      (''cli.orchestrator.builder.PlanExpiredError'', ''plan-expired'', 409, ''Plan has expired''),
      (''cli.orchestrator.builder.BuildError'', ''build-failed'', 400, ''Build could not proceed''),
      (''cli.orchestrator.planner.PlanGenerationError'', ''plan-generation'', 422, ''Plan generation failed''),
      (''core.memory.writer.DecisionAlreadyExists'', ''decision-exists'', 409, ''Decision already exists''),
      (''core.config.exceptions.ConfigError'', ''config-invalid'', 400, ''Configuration error''),
      (''core.config.pipeline_schema.PipelineError'', ''pipeline-invalid'', 400, ''Pipeline definition error''),
      (''core.connectors.exceptions.SnowflakeError'', ''snowflake'', 502, ''Snowflake error''),
      (''core.targets.resolution.TargetResolutionError'', ''target-resolution'', 400, ''Target resolution error''),
      (''core.agents.exceptions.AgentError'', ''agent'', 500, ''Agent run failed''),
      (''core.hooks.runner.HookExecutionError'', ''hook-execution'', 500, ''Hook execution failed''),
      (''core.hooks.config.HookConfigError'', ''hook-config'', 400, ''Hook configuration error''),
      (''core.deploy.ddl_applier.UnsafeDdlError'', ''unsafe-ddl'', 400, ''Unsafe DDL rejected''),
      (''core.mcp.config.McpConfigError'', ''mcp-config'', 400, ''MCP configuration error''),
      (''core.agents.loader.AgentLoadError'', ''agent-load'', 400, ''Agent definition error''),
      (''core.skills.packs.SkillPackError'', ''skill-pack'', 400, ''Skill pack error''),
      (''core.state.job_queue.PipelineAlreadyRunning'', ''pipeline-already-running'', 409, ''Pipeline is already running''),
      (''core.state.job_queue.QueuedJobAlreadyExists'', ''job-already-queued'', 409, ''A job is already queued for this pipeline''),
      (''core.state.schedules.ScheduleNotFound'', ''schedule-not-found'', 404, ''Schedule not found''),
      (''init.plan.InitError'', ''init-failed'', 400, ''Initialization error'')]"

fun lookup_spec :: "string list \<Rightarrow> error_spec option" where
  "lookup_spec [] = None"
| "lookup_spec (c # cs) = (case map_of ERROR_MAP c of Some s \<Rightarrow> Some s | None \<Rightarrow> lookup_spec cs)"

definition attr :: "domain_exception \<Rightarrow> string \<Rightarrow> json" where
  "attr e k = (case map_of (ex_attrs e) k of Some v \<Rightarrow> v | None \<Rightarrow> JNull)"

text \<open>\<open>setdefault\<close>: a key that is there keeps its value.\<close>

definition set_default :: "string \<Rightarrow> json \<Rightarrow> (string \<times> json) list \<Rightarrow> (string \<times> json) list" where
  "set_default k v kvs = (if map_of kvs k = None then kvs @ [(k, v)] else kvs)"

definition CONFIG_DRIFT :: string where
  "CONFIG_DRIFT = ''carve.cli.orchestrator.builder.ConfigDriftError''"

definition extra_fields :: "domain_exception \<Rightarrow> (string \<times> json) list" where
  "extra_fields e =
     (let drift = (if take 1 (ex_mro e) = [CONFIG_DRIFT] then
                     [(''plan_id'', attr e ''plan_id''), (''expected_config_hash'', attr e ''plan_hash''),
                      (''actual_config_hash'', attr e ''current_hash''),
                      (''recovery_hint'', JString ''Run `carve plan --refine` to regenerate against current config.'')]
                   else []);
          with_field = (if attr e ''field'' \<noteq> JNull then set_default ''field'' (attr e ''field'') drift else drift)
      in if attr e ''hint'' \<noteq> JNull then set_default ''recovery_hint'' (attr e ''hint'') with_field else with_field)"

definition detail_of :: "domain_exception \<Rightarrow> string option" where
  "detail_of e =
     (case attr e ''message'' of
        JString m \<Rightarrow> if m \<noteq> [] then Some m else if ex_str e \<noteq> [] then Some (ex_str e) else None
      | _ \<Rightarrow> if ex_str e \<noteq> [] then Some (ex_str e) else None)"

definition problem_of_exception :: "string \<Rightarrow> api_exception \<Rightarrow> response" where
  "problem_of_exception path exc =
     (case exc of
        Api_Error status slug title detail extra \<Rightarrow> problem status slug title detail (Some path) extra
      | Domain e \<Rightarrow>
          (case lookup_spec (ex_mro e) of
             None \<Rightarrow> problem 500 ''internal'' ''Internal server error''
                       (Some ''An unexpected error occurred.'') (Some path) []
           | Some s \<Rightarrow> problem (es_status s) (es_slug s) (es_title s) (detail_of e) (Some path) (extra_fields e)))"

section \<open>The authentication middleware\<close>

record request =
  rq_method :: string
  rq_path :: string
  rq_authorization :: "string option"
  rq_idempotency_key :: "string option"
  rq_body :: string

type_synonym ('i, 's) handler = "'i \<Rightarrow> request \<Rightarrow> 's \<Rightarrow> (string + response) \<times> 's"

definition PROTECTED_PREFIX :: string where
  "PROTECTED_PREFIX = ''/api/v1''"

text \<open>
  The state is the tokens table and the rest of the server. \<open>stamped\<close> says whether the
  best-effort stamp of the use went through; an exception of the lookup leaves the middleware.
\<close>

definition auth_dispatch ::
  "hasher \<Rightarrow> int \<Rightarrow> bool \<Rightarrow> (api_identity option, token list \<times> 's) handler \<Rightarrow>
     request \<Rightarrow> token list \<times> 's \<Rightarrow> (string + response) \<times> token list \<times> 's" where
  "auth_dispatch h now stamped call_next rq s =
     (let path = rq_path rq;
          auth_header = (case rq_authorization rq of Some a \<Rightarrow> a | None \<Rightarrow> [])
      in if \<not> startswith path PROTECTED_PREFIX then call_next None rq s
         else if \<not> startswith auth_header ''Bearer '' then
           (Inr (problem 401 ''missing-bearer-token'' ''Missing bearer token''
              (Some ''Provide an `Authorization: Bearer <token>` header.'') (Some path) []), s)
         else
           (case find_by_token h (py_strip (drop (length ''Bearer '') auth_header)) (fst s) of
              Inl e \<Rightarrow> (Inl ''find_by_token raised'', s)
            | Inr None \<Rightarrow>
                (Inr (problem 401 ''invalid-token'' ''Invalid or revoked token''
                   (Some ''The bearer token was not recognized.'') (Some path) []), s)
            | Inr (Some identity) \<Rightarrow>
                call_next (Some identity) rq
                  (if stamped then touch_last_used now (id_token_id identity) (fst s) else fst s, snd s)))"

section \<open>Minting and revoking\<close>

text \<open>An empty list of scopes is falsy, like an absent one.\<close>

definition mint_token ::
  "hasher \<Rightarrow> string list option \<Rightarrow> mint_args \<Rightarrow> token list \<Rightarrow>
     (token_error + string \<times> string \<times> string list) \<times> token list" where
  "mint_token h body_scopes a ts =
     (let scopes = (case body_scopes of Some s \<Rightarrow> if s \<noteq> [] then s else [''*''] | None \<Rightarrow> [''*''])
      in case create_token h (a\<lparr>ma_scopes := Some scopes, ma_is_default := False\<rparr>) ts of
           (Inl e, ts') \<Rightarrow> (Inl e, ts')
         | (Inr (i, plaintext), ts') \<Rightarrow> (Inr (i, plaintext, scopes), ts'))"

definition revoke_token :: "int \<Rightarrow> string \<Rightarrow> token list \<Rightarrow> (api_exception + int) \<times> token list" where
  "revoke_token now i ts =
     (let (found, ts') = revoke now i ts
      in (if found then Inr 204 else Inl (resource_not_found (''Token '' @ py_repr i @ '' not found.'')), ts'))"

section \<open>The table under every operation\<close>

datatype token_op =
    Op_Mint "string list option" mint_args
  | Op_Ensure bool mint_args
  | Op_Rotate bool mint_args
  | Op_Touch int string
  | Op_Revoke int string

fun apply_op :: "hasher \<Rightarrow> token_op \<Rightarrow> token list \<times> token_file \<Rightarrow> token list \<times> token_file" where
  "apply_op h (Op_Mint scopes a) s = (snd (mint_token h scopes a (fst s)), snd s)"
| "apply_op h (Op_Ensure writable a) s = snd (ensure_default_token h writable a s)"
| "apply_op h (Op_Rotate writable a) s = snd (rotate_token h writable a s)"
| "apply_op h (Op_Touch now i) s = (touch_last_used now i (fst s), snd s)"
| "apply_op h (Op_Revoke now i) s = (snd (revoke now i (fst s)), snd s)"

definition apply_ops :: "hasher \<Rightarrow> token_op list \<Rightarrow> token list \<times> token_file \<Rightarrow> token list \<times> token_file" where
  "apply_ops h ops s = fold (apply_op h) ops s"

fun revokes :: "string \<Rightarrow> token_op \<Rightarrow> bool" where
  "revokes i (Op_Revoke now j) = (j = i)"
| "revokes i _ = False"

definition new_row :: "hasher \<Rightarrow> mint_args \<Rightarrow> token" where
  "new_row h a =
     \<lparr>tk_id = ma_id a, tk_hash = hs_hash h (ma_salt a) (snd (generate_token (ma_lookup a) (ma_secret a))),
      tk_lookup = ma_lookup a,
      tk_scopes = (case ma_scopes a of Some s \<Rightarrow> s | None \<Rightarrow> [''*'']),
      tk_tenant_id = 1, tk_user_id = 1, tk_is_default = ma_is_default a,
      tk_created_at = ma_now a, tk_last_used_at = None, tk_revoked_at = None\<rparr>"

lemma create_token_cases:
  "create_token h a ts =
     (if tokens_ok (ts @ [new_row h a])
      then (Inr (ma_id a, snd (generate_token (ma_lookup a) (ma_secret a))), ts @ [new_row h a])
      else (Inl Token_Integrity, ts))"
  by (simp add: create_token_def new_row_def generate_token_def Let_def)

lemma get_token_None: "get_token i ts = None \<longleftrightarrow> i \<notin> tk_id ` set ts"
  by (auto simp: get_token_def find_None_iff)

lemma update_token_absent: "i \<notin> tk_id ` set ts \<Longrightarrow> update_token i f ts = ts"
  unfolding update_token_def by (rule map_idI) auto

lemma touch_is_update: "touch_last_used now i ts = update_token i (\<lambda>t. t\<lparr>tk_last_used_at := Some now\<rparr>) ts"
  by (auto simp: touch_last_used_def get_token_None update_token_absent split: option.split)

definition close_row :: "int \<Rightarrow> token \<Rightarrow> token" where
  "close_row now t = (if live t then t\<lparr>tk_revoked_at := Some now\<rparr> else t)"

lemma close_row_simps [simp]: "tk_id (close_row now t) = tk_id t" "\<not> live (close_row now t)"
  by (simp_all add: close_row_def live_def)

lemma revoke_is_update:
  assumes "distinct (map tk_id ts)"
  shows "snd (revoke now i ts) = update_token i (close_row now) ts"
proof (cases "get_token i ts")
  case None
  then show ?thesis using get_token_None [of i ts] by (simp add: revoke_def update_token_absent)
next
  case (Some t)
  then have t: "t \<in> set ts" "tk_id t = i" by (auto simp: get_token_def find_Some_iff)
  have only: "t' = t" if "t' \<in> set ts" "tk_id t' = i" for t'
    using assms that t by (auto simp: distinct_map dest: inj_onD)
  show ?thesis
  proof (cases "live t")
    case True
    with only have "\<And>t'. t' \<in> set ts \<Longrightarrow> tk_id t' = i \<Longrightarrow> live t'" by blast
    with True Some show ?thesis by (simp add: revoke_def update_token_def close_row_def cong: map_cong)
  next
    case False
    with only have "\<And>t'. t' \<in> set ts \<Longrightarrow> tk_id t' = i \<Longrightarrow> \<not> live t'" by blast
    then have "update_token i (close_row now) ts = ts"
      unfolding update_token_def by (intro map_idI) (simp add: close_row_def)
    with False Some show ?thesis by (simp add: revoke_def)
  qed
qed

text \<open>An update that keeps the keys and revives nothing keeps the constraints.\<close>

lemma tokens_ok_update:
  assumes "tokens_ok ts"
    and "\<And>t. tk_id (f t) = tk_id t" "\<And>t. tk_lookup (f t) = tk_lookup t" "\<And>t. live_default (f t) \<Longrightarrow> live_default t"
  shows "tokens_ok (update_token i f ts)"
proof -
  let ?g = "\<lambda>t. if tk_id t = i then f t else t"
  have "length (filter live_default (map ?g us)) \<le> length (filter live_default us)" for us
    by (induction us) (auto dest: assms(4))
  moreover have "map tk_id (map ?g ts) = map tk_id ts" "map tk_lookup (map ?g ts) = map tk_lookup ts"
    by (simp_all add: assms(2,3))
  ultimately show ?thesis
    using assms(1) le_trans [of "length (filter live_default (map ?g ts))" "length (filter live_default ts)" 1]
    unfolding tokens_ok_def update_token_def by (simp del: map_map filter_map)
qed

text \<open>A revocation closes rows; every other operation keeps the rows, adds one, or stamps a use.\<close>

lemma apply_op_revoke:
  "tokens_ok (fst s) \<Longrightarrow> fst (apply_op h (Op_Revoke now i) s) = update_token i (close_row now) (fst s)"
  by (simp add: revoke_is_update tokens_ok_def)

lemma mint_into_file_rows:
  "fst (snd (mint_into_file h writable a s)) = fst s \<or>
   fst (snd (mint_into_file h writable a s)) = fst s @ [new_row h a] \<and> tokens_ok (fst s @ [new_row h a])"
  by (auto simp: mint_into_file_def create_token_cases write_token_file_def)

lemma apply_op_rows [consumes 1]:
  assumes "\<nexists>now i. op = Op_Revoke now i"
  obtains "fst (apply_op h op s) = fst s"
    | a where "fst (apply_op h op s) = fst s @ [new_row h a]" "tokens_ok (fst s @ [new_row h a])"
    | now j where "fst (apply_op h op s) = update_token j (\<lambda>t. t\<lparr>tk_last_used_at := Some now\<rparr>) (fst s)"
proof (cases op)
  case (Op_Mint scopes a)
  define sc where "sc = (case scopes of Some s \<Rightarrow> if s \<noteq> [] then s else [''*''] | None \<Rightarrow> [''*''])"
  let ?a = "a\<lparr>ma_scopes := Some sc, ma_is_default := False\<rparr>"
  have minted: "fst (apply_op h op s) = snd (create_token h ?a (fst s))"
    by (simp add: Op_Mint mint_token_def sc_def Let_def split: prod.split sum.split)
  show ?thesis
    by (cases "tokens_ok (fst s @ [new_row h ?a])")
      (use minted that(1) that(2) [of ?a] in \<open>simp_all add: create_token_cases\<close>)
next
  case (Op_Ensure writable a)
  let ?a = "a\<lparr>ma_scopes := Some [''*''], ma_is_default := True\<rparr>"
  have "fst (apply_op h op s) \<in> {fst s, fst (snd (mint_into_file h writable ?a s))}"
    by (simp add: Op_Ensure ensure_default_token_def split: prod.split sum.split)
  with mint_into_file_rows [of h writable ?a s] show ?thesis by (metis insertE singletonD that(1,2))
next
  case (Op_Rotate writable a)
  with mint_into_file_rows [of h writable "a\<lparr>ma_scopes := Some [''*''], ma_is_default := False\<rparr>" s]
  show ?thesis by (metis apply_op.simps(3) rotate_token_def that(1,2))
next
  case (Op_Touch now i)
  then show ?thesis by (intro that(3) [of i now]) (simp add: touch_is_update)
next
  case (Op_Revoke now i)
  with assms show ?thesis by blast
qed

lemma apply_op_ok:
  assumes ok: "tokens_ok (fst s)"
  shows "tokens_ok (fst (apply_op h op s))"
proof (cases "\<exists>now i. op = Op_Revoke now i")
  case True
  then obtain now i where op: "op = Op_Revoke now i" by blast
  show ?thesis
    unfolding op apply_op_revoke [OF ok]
    by (rule tokens_ok_update [OF ok]) (auto simp: close_row_def live_default_def live_def split: if_splits)
next
  case False
  then show ?thesis
    by (cases rule: apply_op_rows [of op h s])
      (use ok in \<open>auto intro!: tokens_ok_update simp: live_default_def live_def\<close>)
qed

text \<open>What the table says about one id: a single row, live until the id is revoked.\<close>

definition holds_row :: "string \<Rightarrow> (token \<Rightarrow> bool) \<Rightarrow> bool \<Rightarrow> token list \<Rightarrow> bool" where
  "holds_row i P alive ts = (\<exists>t \<in> set ts. tk_id t = i \<and> P t \<and> live t = alive)"

definition stable :: "(token \<Rightarrow> bool) \<Rightarrow> bool" where
  "stable P = (\<forall>t u r. P (t\<lparr>tk_last_used_at := u, tk_revoked_at := r\<rparr>) = P t)"

lemma stableD:
  assumes "stable P"
  shows "P (t\<lparr>tk_last_used_at := u\<rparr>) = P t" "P (close_row now t) = P t"
proof -
  have "t\<lparr>tk_last_used_at := u\<rparr> = t\<lparr>tk_last_used_at := u, tk_revoked_at := tk_revoked_at t\<rparr>" by simp
  with assms show "P (t\<lparr>tk_last_used_at := u\<rparr>) = P t" unfolding stable_def by metis
  have "t\<lparr>tk_revoked_at := r\<rparr> = t\<lparr>tk_last_used_at := tk_last_used_at t, tk_revoked_at := r\<rparr>" for r by simp
  with assms show "P (close_row now t) = P t" unfolding stable_def close_row_def by metis
qed

lemma holds_row_update:
  assumes "t \<in> set ts" "tk_id t = i" "P t" and "\<And>t. tk_id (f t) = tk_id t" and "\<And>t. P (f t) = P t"
  shows "holds_row i P (if j = i then live (f t) else live t) (update_token j f ts)"
proof -
  let ?t = "if tk_id t = j then f t else t"
  have "?t \<in> set (update_token j f ts)" using assms(1) by (auto simp: update_token_def)
  moreover have "tk_id ?t = i" "P ?t" "live ?t = (if j = i then live (f t) else live t)"
    using assms(2-5) by auto
  ultimately show ?thesis unfolding holds_row_def by blast
qed

lemma holds_row_step:
  assumes ok: "tokens_ok (fst s)" and "holds_row i P alive (fst s)" and P: "stable P"
  shows "holds_row i P (alive \<and> \<not> revokes i op) (fst (apply_op h op s))"
proof -
  obtain t where t: "t \<in> set (fst s)" "tk_id t = i" "P t" and alive: "live t = alive"
    using assms(2) by (auto simp: holds_row_def)
  show ?thesis
  proof (cases "\<exists>now j. op = Op_Revoke now j")
    case True
    then obtain now j where op: "op = Op_Revoke now j" by blast
    have "holds_row i P (if j = i then live (close_row now t) else live t) (update_token j (close_row now) (fst s))"
      by (rule holds_row_update) (simp_all add: t stableD [OF P])
    then show ?thesis
      unfolding op apply_op_revoke [OF ok] using alive by (cases "j = i") simp_all
  next
    case False
    then have "\<not> revokes i op" by (cases op) auto
    moreover from False have "holds_row i P alive (fst (apply_op h op s))"
    proof (cases rule: apply_op_rows [of op h s])
      case (3 now j)
      let ?f = "\<lambda>t. t\<lparr>tk_last_used_at := Some now\<rparr>"
      have "holds_row i P (if j = i then live (?f t) else live t) (update_token j ?f (fst s))"
        by (rule holds_row_update) (simp_all add: t stableD [OF P])
      with 3 alive show ?thesis by (cases "j = i") (simp_all add: live_def)
    qed (use t alive in \<open>auto simp: holds_row_def\<close>)
    ultimately show ?thesis by simp
  qed
qed

lemma apply_ops_keep:
  assumes "tokens_ok (fst s)" and "holds_row i P alive (fst s)" and "stable P"
  shows "tokens_ok (fst (apply_ops h ops s)) \<and>
    holds_row i P (alive \<and> \<not> list_ex (revokes i) ops) (fst (apply_ops h ops s))"
  using assms
proof (induction ops arbitrary: s alive)
  case Nil
  then show ?case by (simp add: apply_ops_def)
next
  case (Cons op ops)
  from Cons.IH [OF apply_op_ok [OF Cons.prems(1), of h op] holds_row_step [OF Cons.prems(1,2,3)] Cons.prems(3)]
  show ?case by (simp add: apply_ops_def conj_assoc)
qed

lemma filter_key_unique:
  assumes "distinct (map f xs)" and "x \<in> set xs"
  shows "filter (\<lambda>y. f y = f x \<and> Q y) xs = (if Q x then [x] else [])"
  using assms
proof (induction xs)
  case (Cons y ys)
  then show ?case by (cases "x = y") (force simp: filter_empty_conv image_iff)+
qed simp

text \<open>What \<open>secrets.token_urlsafe\<close> returns: letters, digits, dashes and underscores.\<close>

definition urlsafe :: "string \<Rightarrow> bool" where
  "urlsafe s = (s \<noteq> [] \<and> list_all (\<lambda>c. (CHR ''a'' \<le> c \<and> c \<le> CHR ''z'') \<or> (CHR ''A'' \<le> c \<and> c \<le> CHR ''Z'') \<or>
     (CHR ''0'' \<le> c \<and> c \<le> CHR ''9'') \<or> c = CHR ''-'' \<or> c = CHR ''_'') s)"

lemma parse_lookup_generated:
  assumes "urlsafe lookup" and "secret \<noteq> []"
  shows "parse_lookup (snd (generate_token lookup secret)) = Some lookup"
proof -
  have "TOKEN_SEP \<notin> set lookup"
    using assms(1) by (auto simp: urlsafe_def TOKEN_SEP_def list_all_iff less_eq_char_def)
  then have "takeWhile (\<lambda>c. c \<noteq> TOKEN_SEP) (lookup @ TOKEN_SEP # secret) = lookup"
    "dropWhile (\<lambda>c. c \<noteq> TOKEN_SEP) (lookup @ TOKEN_SEP # secret) = TOKEN_SEP # secret"
    by (auto simp: takeWhile_append dropWhile_append)
  with assms show ?thesis
    by (simp add: parse_lookup_def generate_token_def startswith_def urlsafe_def)
qed

definition accepts_own :: "hasher \<Rightarrow> bool" where
  "accepts_own h = (\<forall>salt p. hs_verify h (hs_hash h salt p) p = Verified)"

lemma find_by_held_row:
  assumes "tokens_ok ts" and "holds_row i (\<lambda>t. tk_lookup t = l \<and> tk_hash t = hash) alive ts"
    and "parse_lookup p = Some l" and "hs_verify h hash p = Verified"
  shows "\<exists>t \<in> set ts. tk_id t = i \<and>
    find_by_token h p ts = Inr (if alive then Some (identity_of t) else None)"
proof -
  obtain t where t: "t \<in> set ts" "tk_id t = i" "tk_lookup t = l" "tk_hash t = hash" "live t = alive"
    using assms(2) by (auto simp: holds_row_def)
  have "filter (\<lambda>u. tk_lookup u = l \<and> live u) ts = (if alive then [t] else [])"
    using filter_key_unique [of tk_lookup ts t live] assms(1) t by (simp add: tokens_ok_def)
  with t assms(3,4) show ?thesis
    by (intro bexI [of _ t]) (auto simp: find_by_token_def verify_token_def)
qed

text \<open>
  C35: A minted token authenticates as its owner, with the scopes it was minted with, after
  any later history of mints, rotations, bootstraps and uses, until it is revoked; from
  then on it never authenticates again.
\<close>

theorem token_authenticates_until_revoked:
  assumes "tokens_ok ts" and "accepts_own h" and "urlsafe (ma_lookup a)" and "urlsafe (ma_secret a)"
    and "create_token h a ts = (Inr (i, p), ts')"
  shows "find_by_token h p (fst (apply_ops h ops (ts', f))) =
    Inr (if list_ex (revokes i) ops then None
         else Some \<lparr>id_user_id = 1, id_tenant_id = 1, id_token_id = i,
                    id_scopes = (case ma_scopes a of Some s \<Rightarrow> s | None \<Rightarrow> [''*''])\<rparr>)"
proof -
  let ?P = "\<lambda>t. tk_lookup t = ma_lookup a \<and> tk_hash t = hs_hash h (ma_salt a) p \<and>
    identity_of t = identity_of (new_row h a)"
  from assms(5) have i: "i = ma_id a" and p: "p = snd (generate_token (ma_lookup a) (ma_secret a))"
    and ts': "ts' = ts @ [new_row h a]" "tokens_ok ts'"
    by (auto simp: create_token_cases split: if_splits)
  have "holds_row i ?P True ts'"
    by (simp add: holds_row_def ts' i p new_row_def live_def generate_token_def)
  moreover have "stable ?P" by (simp add: stable_def identity_of_def)
  ultimately have kept: "tokens_ok (fst (apply_ops h ops (ts', f)))"
    "holds_row i ?P (\<not> list_ex (revokes i) ops) (fst (apply_ops h ops (ts', f)))"
    using apply_ops_keep [of "(ts', f)" i ?P True h ops] ts' by simp_all
  have "parse_lookup p = Some (ma_lookup a)"
    unfolding p using assms(3,4) by (intro parse_lookup_generated) (simp_all add: urlsafe_def)
  moreover have "hs_verify h (hs_hash h (ma_salt a) p) p = Verified"
    using assms(2) by (simp add: accepts_own_def)
  moreover have "holds_row i (\<lambda>t. tk_lookup t = ma_lookup a \<and> tk_hash t = hs_hash h (ma_salt a) p)
      (\<not> list_ex (revokes i) ops) (fst (apply_ops h ops (ts', f)))"
    using kept(2) unfolding holds_row_def by blast
  ultimately obtain t where t: "t \<in> set (fst (apply_ops h ops (ts', f)))" "tk_id t = i"
    and found: "find_by_token h p (fst (apply_ops h ops (ts', f))) =
      Inr (if \<not> list_ex (revokes i) ops then Some (identity_of t) else None)"
    using find_by_held_row [OF kept(1)] by blast
  from kept t have "identity_of t = identity_of (new_row h a)"
    by (auto simp: holds_row_def tokens_ok_def distinct_map dest: inj_onD)
  with found show ?thesis by (simp add: identity_of_def new_row_def i)
qed

definition plain_hasher :: hasher where
  "plain_hasher = \<lparr>hs_hash = (\<lambda>salt p. salt @ ''$'' @ p),
                   hs_verify = (\<lambda>hash p. if endswith hash (''$'' @ p) then Verified else Argon2_Error)\<rparr>"

definition sample_mint :: "string \<Rightarrow> mint_args" where
  "sample_mint n = \<lparr>ma_scopes = None, ma_is_default = False, ma_lookup = n, ma_secret = ''xyz'',
                    ma_salt = ''s'', ma_id = ''tok_'' @ n, ma_now = 0\<rparr>"

lemma plain_hasher_accepts: "accepts_own plain_hasher"
  by (simp add: accepts_own_def plain_hasher_def endswith_def suffix_def)

theorem token_authenticates_until_revoked_witness:
  "find_by_token plain_hasher ''carve_pat_A.xyz''
     (fst (apply_ops plain_hasher [Op_Mint None (sample_mint ''B''), Op_Revoke 5 ''tok_A''] ([new_row plain_hasher (sample_mint ''A'')], None)))
   = Inr None"
proof -
  have "create_token plain_hasher (sample_mint ''A'') [] =
      (Inr (''tok_A'', ''carve_pat_A.xyz''), [new_row plain_hasher (sample_mint ''A'')])"
    by code_simp
  moreover have "urlsafe (ma_lookup (sample_mint ''A''))" "urlsafe (ma_secret (sample_mint ''A''))" "tokens_ok []"
    by code_simp+
  ultimately show ?thesis
    using token_authenticates_until_revoked [OF _ plain_hasher_accepts,
        where ops = "[Op_Mint None (sample_mint ''B''), Op_Revoke 5 ''tok_A'']"]
    by simp
qed

lemma found_token:
  assumes "find_by_token h p ts = Inr (Some identity)"
  shows "\<exists>t \<in> set ts. live t \<and> parse_lookup p = Some (tk_lookup t) \<and>
    hs_verify h (tk_hash t) p = Verified \<and> identity = identity_of t"
proof -
  obtain l where l: "parse_lookup p = Some l"
    using assms by (auto simp: find_by_token_def split: option.splits)
  let ?rows = "filter (\<lambda>t. tk_lookup t = l \<and> live t) ts"
  from assms l obtain t where rows: "?rows = [t]"
    by (auto simp: find_by_token_def split: list.splits)
  then have "t \<in> set ?rows" by (simp only: list.set insertI1)
  then have "t \<in> set ts" "tk_lookup t = l" "live t" by simp_all
  moreover from assms l rows have "hs_verify h (tk_hash t) p = Verified \<and> identity = identity_of t"
    by (auto simp: find_by_token_def verify_token_def split: verify_outcome.splits)
  ultimately show ?thesis using l by blast
qed

text \<open>
  C34: No request under the protected prefix reaches a handler without a live token. The
  middleware answers 401 or raises, leaving the state alone, unless the header carries a bearer token whose
  lookup names a live row and which the hasher verifies against that row's hash; only
  then is the handler called, with that row's identity.
\<close>

theorem requests_need_a_live_token:
  assumes "startswith (rq_path rq) PROTECTED_PREFIX"
  shows "(\<exists>r. auth_dispatch h now stamped call_next rq s = (r, s) \<and>
      (case r of Inl _ \<Rightarrow> True | Inr resp \<Rightarrow> rs_status resp = 401)) \<or>
    (\<exists>t header. t \<in> set (fst s) \<and> live t \<and> rq_authorization rq = Some (''Bearer '' @ header) \<and>
      parse_lookup (py_strip header) = Some (tk_lookup t) \<and>
      hs_verify h (tk_hash t) (py_strip header) = Verified \<and>
      auth_dispatch h now stamped call_next rq s =
        call_next (Some (identity_of t)) rq (if stamped then touch_last_used now (tk_id t) (fst s) else fst s, snd s))"
proof (cases "\<exists>header. rq_authorization rq = Some (''Bearer '' @ header)")
  case False
  then have "\<not> startswith (case rq_authorization rq of Some a \<Rightarrow> a | None \<Rightarrow> []) ''Bearer ''"
    by (auto simp: startswith_def prefix_def split: option.splits)
  with assms show ?thesis by (simp add: auth_dispatch_def problem_def)
next
  case True
  then obtain header where header: "rq_authorization rq = Some (''Bearer '' @ header)" by blast
  let ?found = "find_by_token h (py_strip header) (fst s)"
  have dispatch: "auth_dispatch h now stamped call_next rq s = (case ?found of
      Inl e \<Rightarrow> (Inl ''find_by_token raised'', s)
    | Inr None \<Rightarrow> (Inr (problem 401 ''invalid-token'' ''Invalid or revoked token''
         (Some ''The bearer token was not recognized.'') (Some (rq_path rq)) []), s)
    | Inr (Some identity) \<Rightarrow> call_next (Some identity) rq
         (if stamped then touch_last_used now (id_token_id identity) (fst s) else fst s, snd s))"
    using assms header by (simp add: auth_dispatch_def startswith_def)
  show ?thesis
  proof (cases "\<exists>identity. ?found = Inr (Some identity)")
    case False
    then show ?thesis
      unfolding dispatch by (cases ?found) (auto simp: problem_def split: option.splits)
  next
    case True
    then obtain identity where found: "?found = Inr (Some identity)" by blast
    from found_token [OF this] obtain t where "t \<in> set (fst s)" "live t"
      "parse_lookup (py_strip header) = Some (tk_lookup t)"
      "hs_verify h (tk_hash t) (py_strip header) = Verified" "identity = identity_of t"
      by blast
    with header found show ?thesis unfolding dispatch by (auto simp: identity_of_def)
  qed
qed

definition sample_request :: request where
  "sample_request = \<lparr>rq_method = ''GET'', rq_path = ''/api/v1/runs'', rq_authorization = None,
                     rq_idempotency_key = None, rq_body = []\<rparr>"

theorem requests_need_a_live_token_witness:
  "\<exists>r. auth_dispatch plain_hasher 0 True (\<lambda>_ _ s. (Inl ''reached'', s)) sample_request ([], ()) = (r, [], ()) \<and>
     (case r of Inl _ \<Rightarrow> True | Inr resp \<Rightarrow> rs_status resp = 401)"
proof -
  have "startswith (rq_path sample_request) PROTECTED_PREFIX" by code_simp
  from requests_need_a_live_token [OF this, of plain_hasher 0 True "\<lambda>_ _ s. (Inl ''reached'', s)" "([], ())"]
  show ?thesis by simp
qed

text \<open>
  The bootstrap of the default token and its file. With no live default token the
  bootstrap stores one; its plaintext is in the file exactly when the file could be written. When it
  could not, the token is stored all the same: from then on the bootstrap reports that a
  default token exists and never writes the file, so nobody holds the secret.
\<close>

theorem default_token_needs_its_file:
  assumes "\<not> has_active_default (fst s)"
    and "tokens_ok (fst s @ [new_row h (a\<lparr>ma_scopes := Some [''*''], ma_is_default := True\<rparr>)])"
  shows "case ensure_default_token h writable a s of (r, s') \<Rightarrow>
    has_active_default (fst s') \<and>
    (let p = snd (generate_token (ma_lookup a) (ma_secret a))
     in if writable then r = Inr (Some p) \<and> snd s' = Some (p @ [CHR 0x0A])
        else r = Inl Default_Os_Error \<and> snd s' = snd s) \<and>
    (\<forall>w a'. ensure_default_token h w a' s' = (Inr None, s'))"
proof -
  let ?a = "a\<lparr>ma_scopes := Some [''*''], ma_is_default := True\<rparr>"
  have "live_default (new_row h ?a)" by (simp add: live_default_def live_def new_row_def)
  then have now: "has_active_default (fst s @ [new_row h ?a])" by (simp add: has_active_default_def)
  with assms show ?thesis
    by (cases writable)
      (simp_all add: ensure_default_token_def mint_into_file_def create_token_cases write_token_file_def Let_def)
qed

theorem default_token_needs_its_file_witness:
  "snd (ensure_default_token plain_hasher False (sample_mint ''A'') ([], None)) = ([new_row plain_hasher
     ((sample_mint ''A'')\<lparr>ma_scopes := Some [''*''], ma_is_default := True\<rparr>)], None) \<and>
   ensure_default_token plain_hasher True (sample_mint ''B'')
     (snd (ensure_default_token plain_hasher False (sample_mint ''A'') ([], None))) =
   (Inr None, snd (ensure_default_token plain_hasher False (sample_mint ''A'') ([], None)))"
proof
  show "snd (ensure_default_token plain_hasher False (sample_mint ''A'') ([], None)) = ([new_row plain_hasher
     ((sample_mint ''A'')\<lparr>ma_scopes := Some [''*''], ma_is_default := True\<rparr>)], None)"
    by code_simp
next
  have "\<not> has_active_default (fst ([], None :: token_file))"
    "tokens_ok (fst ([], None :: token_file) @ [new_row plain_hasher
       ((sample_mint ''A'')\<lparr>ma_scopes := Some [''*''], ma_is_default := True\<rparr>)])"
    by code_simp+
  from default_token_needs_its_file [OF this, of False]
  show "ensure_default_token plain_hasher True (sample_mint ''B'')
     (snd (ensure_default_token plain_hasher False (sample_mint ''A'') ([], None))) =
   (Inr None, snd (ensure_default_token plain_hasher False (sample_mint ''A'') ([], None)))"
    by (simp split: prod.splits)
qed

text \<open>A request for a token without scopes mints one with all of them.\<close>

lemma empty_scopes_mint_all:
  "fst (mint_token plain_hasher (Some []) (sample_mint ''A'') []) = Inr (''tok_A'', ''carve_pat_A.xyz'', [''*''])"
  by code_simp

end
