(* ===== verification/Api_Idempotency.thy ===== *)
theory Api_Idempotency
  imports Api_Tokens
begin

text \<open>
  The replay cache of write requests: the repository of \<open>core/state/idempotency.py\<close>, the
  middleware of \<open>api/idempotency.py\<close>, and the order in which \<open>api/main.py\<close> puts it inside the
  authentication.

  The table is the list of its rows. The JSON codec, the decoding of bytes to text and the
  digest are arguments. The middleware reads the clock when it looks a key up and when it
  stores a response; both instants are arguments.
\<close>

section \<open>The table\<close>

record idempotency_row =
  ik_tenant_id :: int
  ik_user_id :: int
  ik_key :: string
  ik_request_hash :: string
  ik_response_status :: int
  ik_response_body :: json
  ik_response_headers :: "(string \<times> string) list"
  ik_created_at :: int
  ik_expires_at :: int

record cached_response =
  cr_request_hash :: string
  cr_response_status :: int
  cr_response_body :: json
  cr_response_headers :: "(string \<times> string) list"

type_synonym idem_key = "int \<times> int \<times> string"

definition row_key :: "idempotency_row \<Rightarrow> idem_key" where
  "row_key r = (ik_tenant_id r, ik_user_id r, ik_key r)"

text \<open>24 hours, in microseconds.\<close>

definition IDEMPOTENCY_TTL :: int where
  "IDEMPOTENCY_TTL = 24 * 3600 * 1000000"

definition idem_lookup :: "int \<Rightarrow> idem_key \<Rightarrow> idempotency_row list \<Rightarrow> cached_response option" where
  "idem_lookup now k rows =
     (case find (\<lambda>r. row_key r = k) rows of
        None \<Rightarrow> None
      | Some r \<Rightarrow>
          if ik_expires_at r \<le> now then None
          else Some \<lparr>cr_request_hash = ik_request_hash r, cr_response_status = ik_response_status r,
                     cr_response_body = ik_response_body r, cr_response_headers = ik_response_headers r\<rparr>)"

definition idem_row ::
  "int \<Rightarrow> idem_key \<Rightarrow> string \<Rightarrow> int \<Rightarrow> json \<Rightarrow> (string \<times> string) list \<Rightarrow> idempotency_row" where
  "idem_row created k request_hash status body headers =
     \<lparr>ik_tenant_id = fst k, ik_user_id = fst (snd k), ik_key = snd (snd k), ik_request_hash = request_hash,
      ik_response_status = status, ik_response_body = body, ik_response_headers = headers,
      ik_created_at = created, ik_expires_at = created + IDEMPOTENCY_TTL\<rparr>"

definition idem_store ::
  "int \<Rightarrow> idem_key \<Rightarrow> string \<Rightarrow> int \<Rightarrow> json \<Rightarrow> (string \<times> string) list \<Rightarrow> idempotency_row list \<Rightarrow> idempotency_row list" where
  "idem_store created k request_hash status body headers rows =
     (let row = idem_row created k request_hash status body headers
      in if find (\<lambda>r. row_key r = k) rows = None then rows @ [row]
         else map (\<lambda>r. if row_key r = k then row else r) rows)"

definition delete_expired :: "int \<Rightarrow> idempotency_row list \<Rightarrow> nat \<times> idempotency_row list" where
  "delete_expired cutoff rows =
     (length (filter (\<lambda>r. ik_expires_at r \<le> cutoff) rows), filter (\<lambda>r. \<not> ik_expires_at r \<le> cutoff) rows)"

section \<open>Responses in the cache\<close>

record codec =
  cd_dumps :: "json \<Rightarrow> string"
  cd_loads :: "string \<Rightarrow> json option"
  cd_decode :: "string \<Rightarrow> string"
  cd_encode :: "string \<Rightarrow> string"
  cd_sha256 :: "string \<Rightarrow> string"

definition RAW_TEXT_KEY :: string where
  "RAW_TEXT_KEY = ''__raw_text__''"

definition JSON_KEY :: string where
  "JSON_KEY = ''__json__''"

definition body_bytes :: "codec \<Rightarrow> response \<Rightarrow> string" where
  "body_bytes c r = (case rs_body r of Json_Body j \<Rightarrow> cd_dumps c j | Raw_Body b \<Rightarrow> b)"

definition content_type :: "response \<Rightarrow> string option" where
  "content_type r = map_of (rs_headers r) ''content-type''"

definition decode_body :: "codec \<Rightarrow> string \<Rightarrow> string \<Rightarrow> json" where
  "decode_body c body ctype =
     (let raw = (RAW_TEXT_KEY, JString (cd_decode c body))
      in if occurs_in ''application/json'' ctype \<or> occurs_in ''problem+json'' ctype then
           (case cd_loads c body of
              Some (JObject kvs) \<Rightarrow> JObject kvs
            | Some parsed \<Rightarrow> JObject [raw, (JSON_KEY, parsed)]
            | None \<Rightarrow> JObject [raw])
         else JObject [raw])"

definition cacheable_headers :: "response \<Rightarrow> (string \<times> string) list" where
  "cacheable_headers r =
     (case content_type r of
        None \<Rightarrow> []
      | Some t \<Rightarrow> if t = [] then [] else [(''content-type'', t)])"

text \<open>
  The stored body of a JSON object is the object itself, also one with the reserved keys: a
  sole raw-text key that holds no string cannot be rendered as text.
\<close>

definition response_from_cache :: "codec \<Rightarrow> cached_response \<Rightarrow> string + response" where
  "response_from_cache c r =
     (let replay_headers = cr_response_headers r @ [(''idempotency-replayed'', ''true'')];
          json_response = (\<lambda>j. \<lparr>rs_status = cr_response_status r, rs_body = Json_Body j, rs_headers = replay_headers\<rparr>)
      in case cr_response_body r of
           JObject kvs \<Rightarrow>
             if set (map fst kvs) = {RAW_TEXT_KEY} then
               (case map_of kvs RAW_TEXT_KEY of
                  Some (JString t) \<Rightarrow>
                    Inr \<lparr>rs_status = cr_response_status r, rs_body = Raw_Body (cd_encode c t),
                         rs_headers = replay_headers\<rparr>
                | _ \<Rightarrow> Inl ''content cannot be encoded'')
             else
               (case map_of kvs JSON_KEY of
                  Some j \<Rightarrow> Inr (json_response (if map_of kvs RAW_TEXT_KEY \<noteq> None then j else JObject kvs))
                | None \<Rightarrow> Inr (json_response (JObject kvs)))
         | j \<Rightarrow> Inr (json_response j))"

section \<open>The middleware\<close>

definition WRITE_METHODS :: "string list" where
  "WRITE_METHODS = [''POST'', ''PUT'', ''DELETE'']"

definition SECRET_RETURNING_POSTS :: "string list" where
  "SECRET_RETURNING_POSTS = [''/api/v1/tokens'', ''/api/v1/webhooks'']"

text \<open>\<open>path[len(prefix):-len(suffix)]\<close> is empty when the two overlap.\<close>

definition is_secret_returning_write :: "string \<Rightarrow> string \<Rightarrow> bool" where
  "is_secret_returning_write verb path =
     (if verb \<noteq> ''POST'' then False
      else if path \<in> set SECRET_RETURNING_POSTS then True
      else
        (let pre = ''/api/v1/webhooks/''; suf = ''/rotate-secret''
         in if startswith path pre \<and> endswith path suf then
              (let middle = drop (length pre) (take (length path - length suf) path)
               in middle \<noteq> [] \<and> CHR ''/'' \<notin> set middle)
            else False))"

definition hash_request :: "codec \<Rightarrow> request \<Rightarrow> string" where
  "hash_request c rq = cd_sha256 c (rq_method rq @ rq_path rq @ rq_body rq)"

text \<open>What the middleware decides before the handler runs.\<close>

datatype idem_decision = Pass_Through | Answer "string + response" | Run_And_Cache idem_key string

definition idem_decide ::
  "codec \<Rightarrow> int \<Rightarrow> api_identity option \<Rightarrow> request \<Rightarrow> idempotency_row list \<Rightarrow> idem_decision" where
  "idem_decide c now ident rq rows =
     (if is_secret_returning_write (rq_method rq) (rq_path rq) then Pass_Through
      else
        (case rq_idempotency_key rq of
           None \<Rightarrow> Pass_Through
         | Some key \<Rightarrow>
             if rq_method rq \<notin> set WRITE_METHODS \<or> key = [] then Pass_Through
             else
               (case ident of
                  None \<Rightarrow> Pass_Through
                | Some i \<Rightarrow>
                    (let k = (id_tenant_id i, id_user_id i, key); h = hash_request c rq
                     in case idem_lookup now k rows of
                          Some cached \<Rightarrow>
                            if cr_request_hash cached \<noteq> h then
                              Answer (Inr (problem 409 ''idempotency-key-reused''
                                ''Idempotency-Key reused with a different request''
                                (Some ''Same Idempotency-Key used with different request body'')
                                (Some (rq_path rq)) []))
                            else Answer (response_from_cache c cached)
                        | None \<Rightarrow> Run_And_Cache k h))))"

definition idem_cache ::
  "codec \<Rightarrow> int \<Rightarrow> idem_key \<Rightarrow> string \<Rightarrow> response \<Rightarrow> idempotency_row list \<Rightarrow> idempotency_row list" where
  "idem_cache c now k h resp rows =
     (if rs_status resp < 500 then
        idem_store now k h (rs_status resp)
          (decode_body c (body_bytes c resp) (case content_type resp of Some t \<Rightarrow> t | None \<Rightarrow> []))
          (cacheable_headers resp) rows
      else rows)"

text \<open>\<open>stored\<close>: whether the best-effort write of the cache goes through.\<close>

record idem_clock =
  ic_lookup :: int
  ic_store :: int
  ic_stored :: bool

definition idem_dispatch ::
  "codec \<Rightarrow> idem_clock \<Rightarrow> (api_identity option, 's) handler \<Rightarrow>
     (api_identity option, idempotency_row list \<times> 's) handler" where
  "idem_dispatch c t call_next ident rq s =
     (case idem_decide c (ic_lookup t) ident rq (fst s) of
        Answer r \<Rightarrow> (r, s)
      | Pass_Through \<Rightarrow> (let (r, app) = call_next ident rq (snd s) in (r, (fst s, app)))
      | Run_And_Cache k h \<Rightarrow>
          (case call_next ident rq (snd s) of
             (Inl e, app) \<Rightarrow> (Inl e, (fst s, app))
           | (Inr resp, app) \<Rightarrow>
               (Inr (resp\<lparr>rs_body := Raw_Body (body_bytes c resp)\<rparr>),
                (if ic_stored t then idem_cache c (ic_store t) k h resp (fst s) else fst s, app))))"

text \<open>The order of \<open>create_app\<close>: authentication outermost, then the replay cache, then the routes.\<close>

definition serve ::
  "hasher \<Rightarrow> codec \<Rightarrow> bool \<Rightarrow> idem_clock \<Rightarrow> (api_identity option, token list \<times> 's) handler \<Rightarrow>
     request \<Rightarrow> token list \<times> idempotency_row list \<times> 's \<Rightarrow>
     (string + response) \<times> token list \<times> idempotency_row list \<times> 's" where
  "serve h c stamped t routes =
     auth_dispatch h (ic_lookup t) stamped (\<lambda>ident rq (ts, rows, app).
       (case idem_dispatch c t routes ident rq (rows, (ts, app)) of
          (r, (rows', (ts', app'))) \<Rightarrow> (r, (ts', (rows', app')))))"

section \<open>The cached row of a key\<close>

lemma row_key_idem_row [simp]: "row_key (idem_row now k h st b hs) = k"
  by (simp add: row_key_def idem_row_def)

lemma find_append: "find P (xs @ ys) = (case find P xs of None \<Rightarrow> find P ys | r \<Rightarrow> r)"
  by (induction xs) auto

lemma find_replaced:
  "row_key row = k \<Longrightarrow> find (\<lambda>r. row_key r = k') (map (\<lambda>r. if row_key r = k then row else r) xs) =
     (if k' = k \<and> find (\<lambda>r. row_key r = k) xs \<noteq> None then Some row else find (\<lambda>r. row_key r = k') xs)"
  by (induction xs) auto

lemma find_row_store:
  "find (\<lambda>r. row_key r = k') (idem_store now k h st b hs rows) =
     (if k' = k then Some (idem_row now k h st b hs) else find (\<lambda>r. row_key r = k') rows)"
  by (cases "find (\<lambda>r. row_key r = k) rows")
    (auto simp: idem_store_def find_append find_replaced split: option.split)

lemma idem_lookup_store:
  "idem_lookup now k' (idem_store t k h st b hs rows) =
     (if k' = k then (if t + IDEMPOTENCY_TTL \<le> now then None
        else Some \<lparr>cr_request_hash = h, cr_response_status = st, cr_response_body = b, cr_response_headers = hs\<rparr>)
      else idem_lookup now k' rows)"
  by (simp add: idem_lookup_def find_row_store idem_row_def)

text \<open>Collecting expired rows removes no live answer.\<close>

lemma find_filter_key:
  "distinct (map f xs) \<Longrightarrow> find (\<lambda>x. f x = k) (filter P xs) =
     (case find (\<lambda>x. f x = k) xs of None \<Rightarrow> None | Some x \<Rightarrow> if P x then Some x else None)"
proof (induction xs)
  case (Cons x xs)
  have "find (\<lambda>y. f y = f x) (filter P xs) = None"
    using Cons.prems by (auto simp: find_None_iff image_iff)
  with Cons show ?case by (cases "f x = k") auto
qed simp

lemma idem_lookup_expired:
  assumes "distinct (map row_key rows)" and "cutoff \<le> now"
  shows "idem_lookup now k (snd (delete_expired cutoff rows)) = idem_lookup now k rows"
  using assms by (auto simp: idem_lookup_def delete_expired_def find_filter_key split: option.split)

lemma distinct_store:
  assumes "distinct (map row_key rows)"
  shows "distinct (map row_key (idem_store now k h st b hs rows))"
proof (cases "find (\<lambda>r. row_key r = k) rows")
  case None
  then have "k \<notin> row_key ` set rows" by (auto simp: find_None_iff)
  with None assms show ?thesis by (simp add: idem_store_def)
next
  case (Some r)
  have "map row_key (map (\<lambda>r. if row_key r = k then idem_row now k h st b hs else r) rows) = map row_key rows"
    unfolding map_map by (rule map_cong) simp_all
  with Some assms show ?thesis by (simp add: idem_store_def del: map_map)
qed

section \<open>Histories of requests\<close>

text \<open>A request the server works on between two others, or a pass of the collection.\<close>

datatype idem_event =
    Request_Served idem_clock "api_identity option" request
  | Rows_Collected int

fun idem_apply ::
  "codec \<Rightarrow> (api_identity option, 's) handler \<Rightarrow> idem_event \<Rightarrow> idempotency_row list \<times> 's \<Rightarrow> idempotency_row list \<times> 's" where
  "idem_apply c call_next (Request_Served t ident rq) s = snd (idem_dispatch c t call_next ident rq s)"
| "idem_apply c call_next (Rows_Collected cutoff) s = (snd (delete_expired cutoff (fst s)), snd s)"

definition event_key :: "idem_event \<Rightarrow> idem_key option" where
  "event_key e =
     (case e of
        Request_Served t (Some i) rq \<Rightarrow> map_option (\<lambda>key. (id_tenant_id i, id_user_id i, key)) (rq_idempotency_key rq)
      | _ \<Rightarrow> None)"

fun not_after :: "int \<Rightarrow> idem_event \<Rightarrow> bool" where
  "not_after now (Request_Served t ident rq) = True"
| "not_after now (Rows_Collected cutoff) = (cutoff \<le> now)"

lemma idem_decide_key:
  "idem_decide c now ident rq rows = Run_And_Cache k h \<Longrightarrow>
     event_key (Request_Served t ident rq) = Some k \<and> h = hash_request c rq"
  by (auto simp: idem_decide_def event_key_def Let_def split: if_splits option.splits)

lemma idem_decide_cached:
  assumes "idem_decide c now ident rq rows = Run_And_Cache k h" and "idem_lookup now' k rows' = Some cached"
    and "cr_request_hash cached = h"
  shows "idem_decide c now' ident rq rows' = Answer (response_from_cache c cached)"
proof -
  from assms(1) obtain i key where "ident = Some i" "rq_idempotency_key rq = Some key" "key \<noteq> []"
    "\<not> is_secret_returning_write (rq_method rq) (rq_path rq)" "rq_method rq \<in> set WRITE_METHODS"
    "k = (id_tenant_id i, id_user_id i, key)" "h = hash_request c rq"
    by (auto simp: idem_decide_def Let_def split: if_splits option.splits)
  with assms(2,3) show ?thesis by (simp add: idem_decide_def)
qed

lemma idem_dispatch_rows:
  "fst (snd (idem_dispatch c t call_next ident rq s)) = fst s \<or>
   (\<exists>k st b hs. event_key (Request_Served t ident rq) = Some k \<and> st < 500 \<and>
      fst (snd (idem_dispatch c t call_next ident rq s)) =
        idem_store (ic_store t) k (hash_request c rq) st b hs (fst s))"
proof (cases "idem_decide c (ic_lookup t) ident rq (fst s)")
  case (Run_And_Cache k h)
  then show ?thesis
    using idem_decide_key [OF Run_And_Cache, of t]
    by (auto simp: idem_dispatch_def idem_cache_def split: prod.split sum.split)
qed (simp_all add: idem_dispatch_def split: prod.split)

lemma other_events_keep:
  assumes "distinct (map row_key (fst s))" and "event_key e \<noteq> Some k" and "not_after now e"
  shows "distinct (map row_key (fst (idem_apply c call_next e s))) \<and>
    idem_lookup now k (fst (idem_apply c call_next e s)) = idem_lookup now k (fst s)"
proof (cases e)
  case (Request_Served t ident rq)
  with assms idem_dispatch_rows [of c t call_next ident rq s] show ?thesis
    by (auto simp: distinct_store idem_lookup_store)
next
  case (Rows_Collected cutoff)
  with assms show ?thesis
    by (simp add: idem_lookup_expired) (simp add: delete_expired_def distinct_map_filter)
qed

lemma other_histories_keep:
  assumes "distinct (map row_key (fst s))" and "\<forall>e \<in> set es. event_key e \<noteq> Some k \<and> not_after now e"
  shows "idem_lookup now k (fst (fold (idem_apply c call_next) es s)) = idem_lookup now k (fst s)"
  using assms
proof (induction es arbitrary: s)
  case (Cons e es)
  with other_events_keep [of s e k now c call_next] show ?case by simp
qed simp

section \<open>Properties\<close>

text \<open>The response a repeated request is answered with.\<close>

definition replay_of :: "codec \<Rightarrow> response \<Rightarrow> string + response" where
  "replay_of c resp =
     response_from_cache c \<lparr>cr_request_hash = [], cr_response_status = rs_status resp,
       cr_response_body = decode_body c (body_bytes c resp) (case content_type resp of Some t \<Rightarrow> t | None \<Rightarrow> []),
       cr_response_headers = cacheable_headers resp\<rparr>"

lemma response_from_cache_hash:
  "response_from_cache c \<lparr>cr_request_hash = h, cr_response_status = st, cr_response_body = b, cr_response_headers = hs\<rparr> =
   response_from_cache c \<lparr>cr_request_hash = [], cr_response_status = st, cr_response_body = b, cr_response_headers = hs\<rparr>"
  unfolding response_from_cache_def cached_response.select_convs by (rule refl)

lemma body_bytes_simps [simp]:
  "body_bytes c \<lparr>rs_status = st, rs_body = Json_Body j, rs_headers = hs\<rparr> = cd_dumps c j"
  "body_bytes c \<lparr>rs_status = st, rs_body = Raw_Body b, rs_headers = hs\<rparr> = b"
  by (simp_all add: body_bytes_def)



definition toy_codec :: codec where
  "toy_codec = \<lparr>cd_dumps = (\<lambda>j. case j of JString t \<Rightarrow> CHR ''s'' # t | _ \<Rightarrow> ''?''),
                cd_loads = (\<lambda>b. case b of c # t \<Rightarrow> if c = CHR ''s'' then Some (JString t) else None | [] \<Rightarrow> None),
                cd_decode = (\<lambda>b. b), cd_encode = (\<lambda>t. t), cd_sha256 = (\<lambda>b. b)\<rparr>"

definition sample_identity :: "int \<Rightarrow> api_identity" where
  "sample_identity u = \<lparr>id_user_id = u, id_tenant_id = 1, id_token_id = ''tok'', id_scopes = [''*'']\<rparr>"

definition sample_write :: "string \<Rightarrow> request" where
  "sample_write key = \<lparr>rq_method = ''POST'', rq_path = ''/api/v1/jobs'', rq_authorization = None,
                       rq_idempotency_key = Some key, rq_body = ''{}''\<rparr>"

text \<open>A handler that counts its calls.\<close>

definition counting :: "(api_identity option, nat) handler" where
  "counting ident rq n =
     (Inr \<lparr>rs_status = 201, rs_body = Json_Body (JString (''job'' @ hex_digit n # [])),
           rs_headers = [(''content-type'', ''application/json'')]\<rparr>, Suc n)"

definition sample_clock :: "int \<Rightarrow> idem_clock" where
  "sample_clock now = \<lparr>ic_lookup = now, ic_store = now + 1, ic_stored = True\<rparr>"

definition sample_history :: "idem_event list" where
  "sample_history = [Request_Served (sample_clock 5) (Some (sample_identity 2)) (sample_write ''k''), Rows_Collected 7]"


definition uses_reserved_key :: "json \<Rightarrow> bool" where
  "uses_reserved_key j = (case j of JObject kvs \<Rightarrow> RAW_TEXT_KEY \<in> fst ` set kvs | _ \<Rightarrow> False)"

text \<open>
  A replay says what the original said: the status, the content type, and, for a
  JSON response, a body that parses to the same value, otherwise the same bytes. Left out are objects that
  use the reserved key themselves.
\<close>

theorem replay_round_trip:
  assumes "\<forall>j. cd_loads c (body_bytes c resp) = Some j \<longrightarrow>
      cd_loads c (cd_dumps c j) = Some j \<and> \<not> uses_reserved_key j"
    and "cd_encode c (cd_decode c (body_bytes c resp)) = body_bytes c resp"
    and "content_type resp \<noteq> Some []"
  shows "\<exists>replay. replay_of c resp = Inr replay \<and> rs_status replay = rs_status resp \<and>
    content_type replay = content_type resp \<and>
    (body_bytes c replay = body_bytes c resp \<or>
     cd_loads c (body_bytes c resp) \<noteq> None \<and> cd_loads c (body_bytes c replay) = cd_loads c (body_bytes c resp))"
proof -
  define ctype where "ctype = (case content_type resp of Some t \<Rightarrow> t | None \<Rightarrow> [])"
  define raw where "raw = (RAW_TEXT_KEY, JString (cd_decode c (body_bytes c resp)))"
  have headers: "content_type \<lparr>rs_status = st, rs_body = b,
      rs_headers = cacheable_headers resp @ [(''idempotency-replayed'', ''true'')]\<rparr> = content_type resp" for st b
    using assms(3) by (auto simp: content_type_def cacheable_headers_def split: option.splits)
  have keys: "RAW_TEXT_KEY \<noteq> JSON_KEY" by (simp add: RAW_TEXT_KEY_def JSON_KEY_def)
  have "decode_body c (body_bytes c resp) ctype \<in> {JObject [raw]} \<union>
      {JObject [raw, (JSON_KEY, j)] |j. cd_loads c (body_bytes c resp) = Some j} \<union>
      {JObject kvs |kvs. cd_loads c (body_bytes c resp) = Some (JObject kvs)}"
    by (auto simp: decode_body_def raw_def Let_def split: option.splits json.splits)
  then consider "decode_body c (body_bytes c resp) ctype = JObject [raw]"
    | j where "cd_loads c (body_bytes c resp) = Some j" "decode_body c (body_bytes c resp) ctype = JObject [raw, (JSON_KEY, j)]"
    | kvs where "cd_loads c (body_bytes c resp) = Some (JObject kvs)" "decode_body c (body_bytes c resp) ctype = JObject kvs"
    by blast
  then show ?thesis
  proof cases
    case 1
    then show ?thesis
      using assms(2) headers
      by (simp add: replay_of_def response_from_cache_def ctype_def [symmetric] raw_def)
  next
    case (2 j)
    then show ?thesis
      using assms(1) headers keys
      by (simp add: replay_of_def response_from_cache_def ctype_def [symmetric] raw_def)
  next
    case (3 kvs)
    with assms(1) have "RAW_TEXT_KEY \<notin> fst ` set kvs" by (auto simp: uses_reserved_key_def)
    then have "fst ` set kvs \<noteq> {RAW_TEXT_KEY}" "map_of kvs RAW_TEXT_KEY = None"
      by (auto simp: map_of_eq_None_iff)
    with 3 show ?thesis
      using assms(1) headers
      by (simp add: replay_of_def response_from_cache_def ctype_def [symmetric] Let_def split: option.split)
  qed
qed


theorem replay_round_trip_witness:
  "\<exists>replay. replay_of toy_codec \<lparr>rs_status = 201, rs_body = Json_Body (JString ''job0''),
       rs_headers = [(''content-type'', ''application/json'')]\<rparr> = Inr replay \<and>
     rs_status replay = 201 \<and> cd_loads toy_codec (body_bytes toy_codec replay) = Some (JString ''job0'')"
proof -
  let ?resp = "\<lparr>rs_status = 201, rs_body = Json_Body (JString ''job0''),
       rs_headers = [(''content-type'', ''application/json'')]\<rparr>"
  have "\<forall>j. cd_loads toy_codec (body_bytes toy_codec ?resp) = Some j \<longrightarrow>
      cd_loads toy_codec (cd_dumps toy_codec j) = Some j \<and> \<not> uses_reserved_key j"
    "cd_encode toy_codec (cd_decode toy_codec (body_bytes toy_codec ?resp)) = body_bytes toy_codec ?resp"
    "content_type ?resp \<noteq> Some []"
    by (simp_all add: toy_codec_def uses_reserved_key_def content_type_def)
  from replay_round_trip [OF this] show ?thesis by (auto simp: toy_codec_def)
qed

lemma append_prefix_cut: "xs @ s = p @ ys \<Longrightarrow> length p \<le> length xs \<Longrightarrow> \<exists>us. xs = p @ us"
proof -
  assume "xs @ s = p @ ys" and le: "length p \<le> length xs"
  then obtain us where "xs = p @ us \<or> xs @ us = p" unfolding append_eq_append_conv2 by blast
  then show ?thesis
  proof
    assume us: "xs @ us = p"
    with le have "us = []" by (metis add_le_same_cancel1 le_zero_eq length_0_conv length_append)
    with us show ?thesis by simp
  qed blast
qed

lemma secret_path_iff:
  "is_secret_returning_write verb path \<longleftrightarrow> verb = ''POST'' \<and>
     (path \<in> set SECRET_RETURNING_POSTS \<or>
      (\<exists>i. i \<noteq> [] \<and> CHR ''/'' \<notin> set i \<and> path = ''/api/v1/webhooks/'' @ i @ ''/rotate-secret''))"
  (is "_ \<longleftrightarrow> _ \<and> (_ \<or> ?rotate)")
proof -
  let ?pre = "''/api/v1/webhooks/''" and ?suf = "''/rotate-secret''"
  let ?middle = "drop (length ?pre) (take (length path - length ?suf) path)"
  have "(startswith path ?pre \<and> endswith path ?suf \<and> ?middle \<noteq> [] \<and> CHR ''/'' \<notin> set ?middle) \<longleftrightarrow> ?rotate"
  proof
    assume asm: "startswith path ?pre \<and> endswith path ?suf \<and> ?middle \<noteq> [] \<and> CHR ''/'' \<notin> set ?middle"
    then obtain xs ys where xs: "path = xs @ ?suf" and ys: "path = ?pre @ ys"
      by (auto simp: startswith_def endswith_def prefix_def suffix_def)
    have middle: "?middle = drop (length ?pre) xs" using xs by simp
    with asm have "length ?pre \<le> length xs" by (metis drop_all nle_le)
    then obtain us where us: "xs = ?pre @ us"
      using append_prefix_cut [OF trans [OF xs [symmetric] ys]] by blast
    then have "?middle = us" using middle by simp
    with asm xs us show ?rotate by (intro exI [of _ us]) simp
  next
    assume ?rotate
    then show "startswith path ?pre \<and> endswith path ?suf \<and> ?middle \<noteq> [] \<and> CHR ''/'' \<notin> set ?middle"
      by (auto simp: startswith_def endswith_def suffix_def)
  qed
  then show ?thesis by (auto simp: is_secret_returning_write_def Let_def)
qed

text \<open>
  C37: The answers that carry a secret never reach the cache. For a POST that mints a token,
  creates a webhook or rotates the secret of any one webhook, whatever key it
  carries, the middleware calls the handler, returns its answer and leaves the table alone.
\<close>

theorem secret_answers_are_never_cached:
  assumes "rq_method rq = ''POST''"
    and "rq_path rq \<in> {''/api/v1/tokens'', ''/api/v1/webhooks''} \<or>
      (\<exists>i. i \<noteq> [] \<and> CHR ''/'' \<notin> set i \<and> rq_path rq = ''/api/v1/webhooks/'' @ i @ ''/rotate-secret'')"
  shows "idem_dispatch c t call_next ident rq s =
    (case call_next ident rq (snd s) of (r, app) \<Rightarrow> (r, (fst s, app)))"
proof -
  have "is_secret_returning_write (rq_method rq) (rq_path rq)"
    using assms by (simp add: secret_path_iff SECRET_RETURNING_POSTS_def)
  then show ?thesis by (simp add: idem_dispatch_def idem_decide_def)
qed

definition sample_rotation :: request where
  "sample_rotation = \<lparr>rq_method = ''POST'', rq_path = ''/api/v1/webhooks/wh_1/rotate-secret'', rq_authorization = None,
                      rq_idempotency_key = Some ''k'', rq_body = []\<rparr>"

theorem secret_answers_are_never_cached_witness:
  "fst (snd (idem_dispatch toy_codec (sample_clock 0) counting (Some (sample_identity 1)) sample_rotation ([], 0))) = []"
proof -
  have path: "rq_path sample_rotation = ''/api/v1/webhooks/'' @ ''wh_1'' @ ''/rotate-secret''" by code_simp
  have verb: "rq_method sample_rotation = ''POST''" by code_simp
  have "\<exists>i. i \<noteq> [] \<and> CHR ''/'' \<notin> set i \<and> rq_path sample_rotation = ''/api/v1/webhooks/'' @ i @ ''/rotate-secret''"
    by (rule exI [of _ "''wh_1''"]) (simp add: path)
  then show ?thesis
    using secret_answers_are_never_cached [OF verb, of toy_codec "sample_clock 0" counting "Some (sample_identity 1)" "([], 0)"]
    by (simp add: counting_def)
qed

end
