(* ===== verification/Web_Address.thy ===== *)
theory Web_Address
  imports Prelude "HOL-Library.Word"
begin

text \<open>
  The address guard of the webhook publisher, \<open>_ip_is_blocked\<close> and
  \<open>assert_safe_webhook_url\<close> of \<open>api/webhooks.py\<close>, with what it uses of the standard
  library: \<open>urlsplit\<close> with \<open>hostname\<close> and \<open>port\<close>, and \<open>ipaddress\<close> with its tables as in Python 3.11
  (the oldest the project supports). The resolver is an argument.
\<close>

section \<open>Addresses\<close>

datatype ip_address = IPv4 "32 word" | IPv6 "128 word"

text \<open>\<open>address in network\<close>: the first \<open>len\<close> bits agree.\<close>

definition in_net :: "'a::len word \<Rightarrow> 'a word \<times> nat \<Rightarrow> bool" where
  "in_net a net = (drop_bit (LENGTH('a) - snd net) a = drop_bit (LENGTH('a) - snd net) (fst net))"

definition in_some_net :: "('a::len word \<times> nat) list \<Rightarrow> 'a word \<Rightarrow> bool" where
  "in_some_net nets a = list_ex (in_net a) nets"

definition PRIVATE_V4 :: "(32 word \<times> nat) list" where
  "PRIVATE_V4 = [(0x00000000, 8), (0x0A000000, 8), (0x7F000000, 8), (0xA9FE0000, 16), (0xAC100000, 12),
     (0xC0000000, 24), (0xC00000AA, 31), (0xC0000200, 24), (0xC0A80000, 16), (0xC6120000, 15),
     (0xC6336400, 24), (0xCB007100, 24), (0xF0000000, 4), (0xFFFFFFFF, 32)]"

definition PRIVATE_V4_EXCEPTIONS :: "(32 word \<times> nat) list" where
  "PRIVATE_V4_EXCEPTIONS = [(0xC0000009, 32), (0xC000000A, 32)]"

definition is_private_v4 :: "32 word \<Rightarrow> bool" where
  "is_private_v4 a = (in_some_net PRIVATE_V4 a \<and> \<not> in_some_net PRIVATE_V4_EXCEPTIONS a)"

text \<open>The upper bits of an address of version 6, as the first groups of its text.\<close>

definition v6 :: "int \<Rightarrow> int \<Rightarrow> int \<Rightarrow> 128 word" where
  "v6 g0 g1 g2 = push_bit 112 (of_int g0) + push_bit 96 (of_int g1) + push_bit 80 (of_int g2)"

definition PRIVATE_V6 :: "(128 word \<times> nat) list" where
  "PRIVATE_V6 = [(1, 128), (0, 128), (0xFFFF00000000, 96), (v6 0x64 0xff9b 1, 48), (v6 0x100 0 0, 64),
     (v6 0x2001 0 0, 23), (v6 0x2001 0xdb8 0, 32), (v6 0x2002 0 0, 16), (v6 0xfc00 0 0, 7), (v6 0xfe80 0 0, 10)]"

definition PRIVATE_V6_EXCEPTIONS :: "(128 word \<times> nat) list" where
  "PRIVATE_V6_EXCEPTIONS = [(v6 0x2001 1 0 + 1, 128), (v6 0x2001 1 0 + 2, 128), (v6 0x2001 3 0, 32),
     (v6 0x2001 4 0x112, 48), (v6 0x2001 0x20 0, 28), (v6 0x2001 0x30 0, 28)]"

definition RESERVED_V6 :: "(128 word \<times> nat) list" where
  "RESERVED_V6 = [(v6 0 0 0, 8), (v6 0x100 0 0, 8), (v6 0x200 0 0, 7), (v6 0x400 0 0, 6), (v6 0x800 0 0, 5),
     (v6 0x1000 0 0, 4), (v6 0x4000 0 0, 3), (v6 0x6000 0 0, 3), (v6 0x8000 0 0, 3), (v6 0xa000 0 0, 3),
     (v6 0xc000 0 0, 3), (v6 0xe000 0 0, 4), (v6 0xf000 0 0, 5), (v6 0xf800 0 0, 6), (v6 0xfe00 0 0, 9)]"

definition ipv4_mapped :: "128 word \<Rightarrow> 32 word option" where
  "ipv4_mapped a = (if drop_bit 32 a = 0xFFFF then Some (ucast a) else None)"

fun is_loopback :: "ip_address \<Rightarrow> bool" where
  "is_loopback (IPv4 a) = in_net a (0x7F000000, 8)"
| "is_loopback (IPv6 a) = (a = 1)"

fun is_link_local :: "ip_address \<Rightarrow> bool" where
  "is_link_local (IPv4 a) = in_net a (0xA9FE0000, 16)"
| "is_link_local (IPv6 a) = in_net a (v6 0xfe80 0 0, 10)"

fun is_private :: "ip_address \<Rightarrow> bool" where
  "is_private (IPv4 a) = is_private_v4 a"
| "is_private (IPv6 a) =
     (case ipv4_mapped a of
        Some b \<Rightarrow> is_private_v4 b
      | None \<Rightarrow> in_some_net PRIVATE_V6 a \<and> \<not> in_some_net PRIVATE_V6_EXCEPTIONS a)"

fun is_reserved :: "ip_address \<Rightarrow> bool" where
  "is_reserved (IPv4 a) = in_net a (0xF0000000, 4)"
| "is_reserved (IPv6 a) = in_some_net RESERVED_V6 a"

fun is_multicast :: "ip_address \<Rightarrow> bool" where
  "is_multicast (IPv4 a) = in_net a (0xE0000000, 4)"
| "is_multicast (IPv6 a) = in_net a (v6 0xff00 0 0, 8)"

fun is_unspecified :: "ip_address \<Rightarrow> bool" where
  "is_unspecified (IPv4 a) = (a = 0)"
| "is_unspecified (IPv6 a) = (a = 0)"

definition ip_is_blocked :: "ip_address \<Rightarrow> bool" where
  "ip_is_blocked ip =
     (is_loopback ip \<or> is_link_local ip \<or> is_private ip \<or> is_reserved ip \<or> is_multicast ip \<or> is_unspecified ip)"

section \<open>Reading an address\<close>

fun split_on :: "char \<Rightarrow> string \<Rightarrow> string list" where
  "split_on c [] = [[]]"
| "split_on c (x # xs) =
     (if x = c then [] # split_on c xs
      else (case split_on c xs of p # ps \<Rightarrow> (x # p) # ps | [] \<Rightarrow> [[x]]))"

text \<open>\<open>s.partition(c)\<close>: what comes before the first \<open>c\<close>, whether there is one, what comes after.\<close>

definition partition_at :: "char \<Rightarrow> string \<Rightarrow> string \<times> bool \<times> string" where
  "partition_at c s = (takeWhile (\<lambda>x. x \<noteq> c) s, c \<in> set s, tl (dropWhile (\<lambda>x. x \<noteq> c) s))"

definition digit_value :: "char \<Rightarrow> int option" where
  "digit_value c =
     (let n = of_char c :: int
      in if 48 \<le> n \<and> n \<le> 57 then Some (n - 48)
         else if 97 \<le> n \<and> n \<le> 102 then Some (n - 87)
         else if 65 \<le> n \<and> n \<le> 70 then Some (n - 55)
         else None)"

definition all_digits :: "int \<Rightarrow> string \<Rightarrow> bool" where
  "all_digits base s = list_all (\<lambda>c. case digit_value c of Some d \<Rightarrow> d < base | None \<Rightarrow> False) s"

definition number :: "int \<Rightarrow> string \<Rightarrow> int" where
  "number base s = fold (\<lambda>c n. n * base + (case digit_value c of Some d \<Rightarrow> d | None \<Rightarrow> 0)) s 0"

definition parse_octet :: "string \<Rightarrow> int option" where
  "parse_octet s =
     (if s = [] \<or> \<not> all_digits 10 s \<or> 3 < length s then None
      else if s \<noteq> ''0'' \<and> hd s = CHR ''0'' then None
      else if 255 < number 10 s then None else Some (number 10 s))"

fun all_some :: "'a option list \<Rightarrow> 'a list option" where
  "all_some [] = Some []"
| "all_some (None # xs) = None"
| "all_some (Some x # xs) = map_option ((#) x) (all_some xs)"

definition parse_v4 :: "string \<Rightarrow> int option" where
  "parse_v4 s =
     (let parts = split_on (CHR ''.'') s
      in if length parts \<noteq> 4 then None
         else map_option (\<lambda>os. fold (\<lambda>o' n. n * 256 + o') os 0) (all_some (map parse_octet parts)))"

definition parse_hextet :: "string \<Rightarrow> int option" where
  "parse_hextet s = (if \<not> all_digits 16 s \<or> 4 < length s then None else Some (number 16 s))"

text \<open>
  The groups of an address of version 6; a dotted tail counts as its two groups. An empty inner group
  is the place of \<open>::\<close>, of which there is at most one.
\<close>

definition v6_groups :: "string \<Rightarrow> int option list option" where
  "v6_groups s =
     (let parts = split_on (CHR '':'') s; group = (\<lambda>p. if p = [] then Some None else map_option Some (parse_hextet p))
      in if length parts < 3 then None
         else if CHR ''.'' \<in> set (last parts) then
           (case parse_v4 (last parts) of
              None \<Rightarrow> None
            | Some n \<Rightarrow> map_option (\<lambda>gs. gs @ [Some (n div 65536), Some (n mod 65536)]) (all_some (map group (butlast parts))))
         else all_some (map group parts))"

definition parse_v6 :: "string \<Rightarrow> int option" where
  "parse_v6 s =
     (case v6_groups s of
        None \<Rightarrow> None
      | Some gs \<Rightarrow>
          (let skips = filter (\<lambda>i. gs ! i = None) [1..<length gs - 1];
               value = (\<lambda>hi skipped lo. fold (\<lambda>g n. n * 65536 + g) (map the hi @ replicate skipped 0 @ map the lo) 0)
           in if 9 < length gs then None
              else
                (case skips of
                   [] \<Rightarrow> if length gs \<noteq> 8 \<or> None \<in> set gs then None else Some (value gs 0 [])
                 | [i] \<Rightarrow>
                     (let hi = (if hd gs = None then take (i - 1) (tl gs) else take i gs);
                          lo = (if last gs = None then butlast (drop (Suc i) gs) else drop (Suc i) gs)
                      in if (hd gs = None \<and> hi \<noteq> []) \<or> (last gs = None \<and> lo \<noteq> []) then None
                         else if 8 \<le> length hi + length lo then None
                         else Some (value hi (8 - (length hi + length lo)) lo))
                 | _ \<Rightarrow> None)))"

definition ip_address_of :: "string \<Rightarrow> ip_address option" where
  "ip_address_of s =
     (case parse_v4 s of
        Some n \<Rightarrow> Some (IPv4 (of_int n))
      | None \<Rightarrow>
          (let (addr, scoped, zone) = partition_at (CHR ''%'') s
           in if CHR ''/'' \<in> set s \<or> (scoped \<and> (zone = [] \<or> CHR ''%'' \<in> set zone)) then None
              else map_option (\<lambda>n. IPv6 (of_int n)) (parse_v6 addr)))"

section \<open>Splitting a URL\<close>

record url_parts =
  up_scheme :: string
  up_netloc :: string

definition ascii_letter :: "char \<Rightarrow> bool" where
  "ascii_letter c = ((CHR ''a'' \<le> c \<and> c \<le> CHR ''z'') \<or> (CHR ''A'' \<le> c \<and> c \<le> CHR ''Z''))"

definition ascii_digit :: "char \<Rightarrow> bool" where
  "ascii_digit c = (CHR ''0'' \<le> c \<and> c \<le> CHR ''9'')"

definition lower_char :: "char \<Rightarrow> char" where
  "lower_char c = (if CHR ''A'' \<le> c \<and> c \<le> CHR ''Z'' then char_of (of_char c + 32 :: nat) else c)"

definition scheme_char :: "char \<Rightarrow> bool" where
  "scheme_char c = (ascii_letter c \<or> ascii_digit c \<or> c \<in> set ''+-.'')"

text \<open>A bracketed host has to be an address of version 6 or of a future version.\<close>

definition future_address :: "string \<Rightarrow> bool" where
  "future_address s =
     (let (version, dot, rest) = partition_at (CHR ''.'') (tl s)
      in dot \<and> version \<noteq> [] \<and> all_digits 16 version \<and> rest \<noteq> [])"

definition bracketed_ok :: "string \<Rightarrow> bool" where
  "bracketed_ok netloc =
     (let inner = fst (partition_at (CHR '']'') (snd (snd (partition_at (CHR ''['') netloc))))
      in if startswith inner ''v'' then future_address inner
         else (case ip_address_of inner of Some (IPv6 a) \<Rightarrow> True | _ \<Rightarrow> False))"

definition urlsplit :: "string \<Rightarrow> string + url_parts" where
  "urlsplit url =
     (let u = filter (\<lambda>c. c \<notin> {CHR 0x09, CHR 0x0D, CHR 0x0A}) (dropWhile (\<lambda>c. c \<le> CHR 0x20) url);
          (pre, colon, post) = partition_at (CHR '':'') u;
          has_scheme = (colon \<and> pre \<noteq> [] \<and> ascii_letter (hd pre) \<and> list_all scheme_char pre);
          scheme = (if has_scheme then map lower_char pre else []);
          rest = (if has_scheme then post else u);
          netloc = (if startswith rest ''//'' then takeWhile (\<lambda>c. c \<notin> set ''/?#'') (drop 2 rest) else []);
          opened = CHR ''['' \<in> set netloc;
          closed = CHR '']'' \<in> set netloc
      in if opened \<noteq> closed then Inl ''Invalid IPv6 URL''
         else if opened \<and> \<not> bracketed_ok netloc then Inl ''Invalid bracketed host''
         else Inr \<lparr>up_scheme = scheme, up_netloc = netloc\<rparr>)"

text \<open>The host and the port text: after the last \<open>@\<close>, inside the brackets or up to a colon.\<close>

definition hostinfo :: "url_parts \<Rightarrow> string \<times> string" where
  "hostinfo u =
     (let info = rev (takeWhile (\<lambda>c. c \<noteq> CHR ''@'') (rev (up_netloc u)));
          (_, opened, bracketed) = partition_at (CHR ''['') info
      in if opened then
           (let (host, _, rest) = partition_at (CHR '']'') bracketed
            in (host, snd (snd (partition_at (CHR '':'') rest))))
         else (fst (partition_at (CHR '':'') info), snd (snd (partition_at (CHR '':'') info))))"

definition hostname :: "url_parts \<Rightarrow> string" where
  "hostname u =
     (let (name, percent, zone) = partition_at (CHR ''%'') (fst (hostinfo u))
      in map lower_char name @ (if percent then CHR ''%'' # zone else []))"

definition url_port :: "url_parts \<Rightarrow> string + int option" where
  "url_port u =
     (let p = snd (hostinfo u)
      in if p = [] then Inr None
         else if \<not> all_digits 10 p then Inl ''Port could not be cast to integer value''
         else if 65535 < number 10 p then Inl ''Port out of range 0-65535''
         else Inr (Some (number 10 p)))"

section \<open>The guard\<close>

datatype dns_outcome = Resolved "string list" | Gai_Error | Dns_Raised string

text \<open>
  \<open>Url_Raised\<close> is an exception other than \<open>WebhookUrlBlocked\<close>: \<open>ValueError\<close> of the URL parser, or
  whatever the resolver raises besides \<open>gaierror\<close>.
\<close>

datatype url_verdict = Url_Safe | Url_Blocked string | Url_Raised string

definition address_blocked :: "string \<Rightarrow> bool" where
  "address_blocked addr = (case ip_address_of addr of Some ip \<Rightarrow> ip_is_blocked ip | None \<Rightarrow> False)"

definition check_addresses :: "string \<Rightarrow> string list \<Rightarrow> url_verdict" where
  "check_addresses host addrs =
     (case find address_blocked addrs of
        Some addr \<Rightarrow> Url_Blocked (''host '' @ py_repr host @ '' resolves to blocked address '' @ addr)
      | None \<Rightarrow> Url_Safe)"

definition assert_safe_webhook_url ::
  "(string \<Rightarrow> int \<Rightarrow> dns_outcome) \<Rightarrow> bool \<Rightarrow> string \<Rightarrow> url_verdict" where
  "assert_safe_webhook_url dns allow_private url =
     (case urlsplit url of
        Inl e \<Rightarrow> Url_Raised e
      | Inr parts \<Rightarrow>
          if up_scheme parts \<noteq> ''http'' \<and> up_scheme parts \<noteq> ''https'' then
            Url_Blocked (''unsupported scheme '' @ py_repr (up_scheme parts))
          else
            (let host = hostname parts
             in if host = [] then Url_Blocked ''missing host''
                else if allow_private then Url_Safe
                else
                  (case ip_address_of host of
                     Some ip \<Rightarrow>
                       if ip_is_blocked ip then Url_Blocked (''address '' @ host @ '' is in a blocked range'')
                       else Url_Safe
                   | None \<Rightarrow>
                       (case url_port parts of
                          Inl e \<Rightarrow> Url_Raised e
                        | Inr port \<Rightarrow>
                            (case dns host (case port of
                                              Some p \<Rightarrow> if p = 0 then (if up_scheme parts = ''https'' then 443 else 80) else p
                                            | None \<Rightarrow> if up_scheme parts = ''https'' then 443 else 80) of
                               Gai_Error \<Rightarrow> Url_Blocked (''could not resolve host '' @ py_repr host)
                             | Dns_Raised e \<Rightarrow> Url_Raised e
                             | Resolved addrs \<Rightarrow> check_addresses host addrs)))))"

section \<open>What the guard lets through\<close>

text \<open>An address of version 6 is judged by its first ten bits, up to the longer networks.\<close>

definition top10 :: "128 word \<Rightarrow> nat" where
  "top10 a = unat (drop_bit 118 a)"

lemma unat_drop_bit: "unat (drop_bit n (a :: 'a::len word)) = unat a div 2 ^ n"
  unfolding unat_drop_bit_eq by (rule drop_bit_eq_div)

lemma in_net_top:
  assumes "len \<le> 10"
  shows "in_net a (n, len) \<longleftrightarrow> top10 a div 2 ^ (10 - len) = top10 n div 2 ^ (10 - len)"
proof -
  have "128 - len = 118 + (10 - len)" using assms by simp
  then have "(2::nat) ^ (128 - len) = 2 ^ 118 * 2 ^ (10 - len)" by (simp only: power_add)
  then show ?thesis by (simp add: in_net_def word_unat_eq_iff unat_drop_bit top10_def div_mult2_eq)
qed

lemma in_net_top_only:
  assumes "in_net a (n, len)" and "10 \<le> len" and "len \<le> 128"
  shows "top10 a = top10 n"
proof -
  have "118 = (128 - len) + (len - 10)" using assms(2,3) by simp
  then have "(2::nat) ^ 118 = 2 ^ (128 - len) * 2 ^ (len - 10)" by (simp only: power_add)
  then have "unat x div 2 ^ 118 = unat x div 2 ^ (128 - len) div 2 ^ (len - 10)" for x :: "128 word"
    by (simp only: div_mult2_eq)
  then show ?thesis
    using assms(1) unfolding in_net_def word_unat_eq_iff unat_drop_bit top10_def by simp
qed

lemma top10_less: "top10 a < 1024"
proof -
  have "unat a < 2 ^ LENGTH(128)" by (rule unsigned_less)
  then show ?thesis by (simp add: top10_def unat_drop_bit less_mult_imp_div_less)
qed

lemma top10_v6 [simp]:
  "top10 (v6 0 0 0) = 0" "top10 (v6 0x100 0 0) = 4" "top10 (v6 0x200 0 0) = 8" "top10 (v6 0x400 0 0) = 16"
  "top10 (v6 0x800 0 0) = 32" "top10 (v6 0x1000 0 0) = 64" "top10 (v6 0x4000 0 0) = 256" "top10 (v6 0x6000 0 0) = 384"
  "top10 (v6 0x8000 0 0) = 512" "top10 (v6 0xa000 0 0) = 640" "top10 (v6 0xc000 0 0) = 768" "top10 (v6 0xe000 0 0) = 896"
  "top10 (v6 0xf000 0 0) = 960" "top10 (v6 0xf800 0 0) = 992" "top10 (v6 0xfe00 0 0) = 1016" "top10 (v6 0xfc00 0 0) = 1008"
  "top10 (v6 0xfe80 0 0) = 1018" "top10 (v6 0xff00 0 0) = 1020" "top10 (v6 0xfec0 0 0) = 1019"
  "top10 (v6 0x64 0xff9b 1) = 1" "top10 (v6 0x2001 0 0) = 128" "top10 (v6 0x2001 0xdb8 0) = 128" "top10 (v6 0x2002 0 0) = 128"
  "top10 (v6 0x2001 1 0 + 1) = 128" "top10 (v6 0x2001 1 0 + 2) = 128" "top10 (v6 0x2001 3 0) = 128"
  "top10 (v6 0x2001 4 0x112) = 128" "top10 (v6 0x2001 0x20 0) = 128" "top10 (v6 0x2001 0x30 0) = 128"
  "top10 0 = 0" "top10 1 = 0" "top10 0xFFFF00000000 = 0"
  by (simp_all add: top10_def unat_drop_bit v6_def push_bit_eq_mult)

lemma mapped_top:
  assumes "ipv4_mapped a = Some b"
  shows "top10 a = 0"
proof -
  have "drop_bit 32 a = 0xFFFF" using assms by (simp add: ipv4_mapped_def split: if_splits)
  then have "unat a div 2 ^ 32 = 65535" unfolding unat_drop_bit [symmetric] by simp
  moreover have "unat a div 2 ^ 118 = unat a div 2 ^ 32 div 2 ^ 86" by (simp flip: div_mult2_eq)
  ultimately show ?thesis by (simp add: top10_def unat_drop_bit)
qed

text \<open>The reserved networks, the unique local, link-local and multicast ones leave two gaps.\<close>

lemma div_skip:
  assumes "t div n \<noteq> (q :: nat)"
  shows "q * n \<le> t \<longrightarrow> Suc q * n \<le> t"
proof
  assume le: "q * n \<le> t"
  show "Suc q * n \<le> t"
  proof (rule ccontr)
    assume "\<not> Suc q * n \<le> t"
    with le have "t div n = q" by (intro div_nat_eqI) (simp_all add: mult.commute)
    with assms show False by simp
  qed
qed

lemma blocked_by_top:
  assumes "\<not> ip_is_blocked (IPv6 a)"
  shows "(128 \<le> top10 a \<and> top10 a < 256) \<or> top10 a = 1019"
proof -
  have unmapped: "ipv4_mapped a = None" if "top10 a \<noteq> 0"
    using mapped_top [of a] that by (cases "ipv4_mapped a") auto
  from assms have out: "\<not> in_some_net RESERVED_V6 a" "\<not> in_net a (v6 0xfe80 0 0, 10)" "\<not> in_net a (v6 0xff00 0 0, 8)"
    by (simp_all add: ip_is_blocked_def)
  have "\<not> in_net a (v6 0xfc00 0 0, 7)"
  proof
    assume fc: "in_net a (v6 0xfc00 0 0, 7)"
    then have t: "top10 a div 8 = 126" by (simp add: in_net_top)
    have "\<not> in_some_net PRIVATE_V6_EXCEPTIONS a"
      using t by (auto simp: in_some_net_def PRIVATE_V6_EXCEPTIONS_def dest!: in_net_top_only)
    moreover have "ipv4_mapped a = None" using t unmapped by auto
    ultimately show False
      using assms fc by (simp add: ip_is_blocked_def in_some_net_def PRIVATE_V6_def)
  qed
  with out have c: "top10 a div 4 \<noteq> 0" "top10 a div 4 \<noteq> 1" "top10 a div 8 \<noteq> 1" "top10 a div 16 \<noteq> 1"
    "top10 a div 32 \<noteq> 1" "top10 a div 64 \<noteq> 1" "top10 a div 128 \<noteq> 2" "top10 a div 128 \<noteq> 3"
    "top10 a div 128 \<noteq> 4" "top10 a div 128 \<noteq> 5" "top10 a div 128 \<noteq> 6" "top10 a div 64 \<noteq> 14"
    "top10 a div 32 \<noteq> 30" "top10 a div 16 \<noteq> 62" "top10 a div 2 \<noteq> 508" "top10 a div 8 \<noteq> 126"
    "top10 a div 4 \<noteq> 255" "top10 a \<noteq> 1018"
    by (simp_all add: in_some_net_def RESERVED_V6_def in_net_top)
  note skip = c(1-17) [THEN div_skip]
  have low: "128 \<le> top10 a" using skip(1-6) by simp
  have "top10 a < 256 \<or> 768 \<le> top10 a" using skip(7-10) by force
  moreover have "896 \<le> top10 a" if "768 \<le> top10 a" using skip(11) that by force
  moreover have "1008 \<le> top10 a" if "896 \<le> top10 a" using skip(12-14) that by force
  moreover have "1019 \<le> top10 a" if "1008 \<le> top10 a" using skip(16,15) c(18) that by force
  ultimately have "top10 a < 256 \<or> 1019 \<le> top10 a" by blast
  moreover have "top10 a < 1020" using c(17) top10_less [of a] by presburger
  ultimately have "top10 a < 256 \<or> top10 a = 1019" by linarith
  with low show ?thesis by simp
qed

lemma guard_gaps:
  "ip_is_blocked (IPv6 a) \<or> drop_bit 125 a = 1 \<or> in_net a (v6 0xfec0 0 0, 10)"
  "in_net a (v6 0xfec0 0 0, 10) \<Longrightarrow> \<not> ip_is_blocked (IPv6 a)"
  "in_net b (0x64400000, 10) \<Longrightarrow> \<not> ip_is_blocked (IPv4 b)"
proof -
  show "ip_is_blocked (IPv6 a) \<or> drop_bit 125 a = 1 \<or> in_net a (v6 0xfec0 0 0, 10)"
  proof (cases "ip_is_blocked (IPv6 a)")
    case False
    have "unat a div 2 ^ 125 = top10 a div 128"
      by (simp add: top10_def unat_drop_bit flip: div_mult2_eq)
    then have "drop_bit 125 a = 1 \<longleftrightarrow> top10 a div 128 = 1"
      by (simp add: word_unat_eq_iff unat_drop_bit)
    with blocked_by_top [OF False] show ?thesis by (auto simp: in_net_top)
  qed simp
next
  assume "in_net a (v6 0xfec0 0 0, 10)"
  then have t: "top10 a = 1019" by (simp add: in_net_top)
  then have "ipv4_mapped a = None" using mapped_top [of a] by (cases "ipv4_mapped a") auto
  moreover have "\<not> in_some_net PRIVATE_V6 a"
    using t by (auto simp: in_some_net_def PRIVATE_V6_def in_net_top dest!: in_net_top_only)
  moreover have "\<not> in_some_net RESERVED_V6 a" using t by (simp add: in_some_net_def RESERVED_V6_def in_net_top)
  moreover have "a \<noteq> 0" "a \<noteq> 1" using t by auto
  ultimately show "\<not> ip_is_blocked (IPv6 a)" using t by (simp add: ip_is_blocked_def in_net_top)
next
  assume "in_net b (0x64400000, 10)"
  then have t: "unat b div 4194304 = 401"
    by (simp add: in_net_def word_unat_eq_iff unat_drop_bit)
  then have "b \<noteq> 0" by auto
  moreover have "1681915904 \<le> unat b" "unat b < 1686110208" using t by linarith+
  ultimately show "\<not> ip_is_blocked (IPv4 b)"
    by (auto simp: ip_is_blocked_def is_private_v4_def in_some_net_def PRIVATE_V4_def in_net_def word_unat_eq_iff unat_drop_bit)
qed

text \<open>
  What the address guard lets through. An address of version 6 that is not blocked is a
  global unicast one, in \<open>2000::/3\<close>, or one of the site-local block \<open>fec0::/10\<close>, which the guard never
  blocks; nor does it ever block the shared addresses \<open>100.64.0.0/10\<close>, one of
  which is the metadata service of a cloud provider.
\<close>

theorem guard_lets_through:
  "(ip_is_blocked (IPv6 a) \<or> drop_bit 125 a = 1 \<or> in_net a (v6 0xfec0 0 0, 10)) \<and>
   (in_net a (v6 0xfec0 0 0, 10) \<longrightarrow> \<not> ip_is_blocked (IPv6 a)) \<and>
   (in_net b (0x64400000, 10) \<longrightarrow> \<not> ip_is_blocked (IPv4 b))"
  using guard_gaps by blast

theorem guard_lets_through_witness:
  "\<not> ip_is_blocked (IPv4 0x646464C8) \<and> \<not> ip_is_blocked (IPv6 (v6 0xfec0 0 0))"
  using guard_lets_through [of "v6 0xfec0 0 0" "0x646464C8"] by (simp add: in_net_def)

lemma address_samples:
  "address_blocked ''169.254.169.254''" "address_blocked ''::1''" "\<not> address_blocked ''100.100.100.200''"
  by code_simp+

end
