(* ===== verification/Webhooks.thy ===== *)
theory Webhooks
  imports State_Store Api_Tokens Web_Address
begin

text \<open>
  Webhooks: the subscribers and the delivery ledger of \<open>core/state/webhooks.py\<close>, the publisher
  of \<open>api/webhooks.py\<close> and the handlers of \<open>api/routers/webhooks.py\<close>.

  The ids and secrets the code draws are arguments. The state of the publisher is the database
  and the posts sent so far; the resolver and the subscribers answer as a function of those
  posts, so they may change their minds between attempts. A pass of the publisher has its
  own clock.
\<close>

section \<open>Tables\<close>

record webhook =
  wh_id :: string
  wh_url :: string
  wh_event_filters :: "string list"
  wh_hmac_secret :: string
  wh_active :: bool
  wh_tenant_id :: int
  wh_created_at :: int

datatype delivery_status = Delivery_Pending | Delivery_Delivered | Delivery_Abandoned

record delivery =
  wd_id :: string
  wd_webhook_id :: string
  wd_event_id :: int
  wd_attempted_at :: "int option"
  wd_response_status :: "int option"
  wd_response_body :: "string option"
  wd_retry_count :: nat
  wd_status :: delivery_status
  wd_next_retry_at :: "int option"
  wd_created_at :: int

record event_row = event +
  er_id :: int
  er_occurred_at :: "int option"
  er_processed_at :: "int option"

record hook_db =
  hd_webhooks :: "webhook list"
  hd_deliveries :: "delivery list"
  hd_events :: "event_row list"

section \<open>Subscribers\<close>

definition matches :: "string list \<Rightarrow> string \<Rightarrow> bool" where
  "matches event_filters kind =
     (if event_filters = [] \<or> ''*'' \<in> set event_filters then True else kind \<in> set event_filters)"

definition find_webhook :: "string \<Rightarrow> hook_db \<Rightarrow> webhook option" where
  "find_webhook i db = find (\<lambda>w. wh_id w = i) (hd_webhooks db)"

definition update_webhook_row :: "string \<Rightarrow> (webhook \<Rightarrow> webhook) \<Rightarrow> hook_db \<Rightarrow> hook_db" where
  "update_webhook_row i f db = db\<lparr>hd_webhooks := map (\<lambda>w. if wh_id w = i then f w else w) (hd_webhooks db)\<rparr>"

definition create_webhook ::
  "string \<Rightarrow> string \<Rightarrow> int \<Rightarrow> string \<Rightarrow> string list option \<Rightarrow> int \<Rightarrow> hook_db \<Rightarrow> (db_error + webhook) \<times> hook_db" where
  "create_webhook i secret now url event_filters tenant db =
     (let w = \<lparr>wh_id = i, wh_url = url, wh_event_filters = (case event_filters of Some fs \<Rightarrow> fs | None \<Rightarrow> []),
               wh_hmac_secret = secret, wh_active = True, wh_tenant_id = tenant, wh_created_at = now\<rparr>
      in if find_webhook i db \<noteq> None then (Inl Integrity_Error, db)
         else (Inr w, db\<lparr>hd_webhooks := hd_webhooks db @ [w]\<rparr>))"

definition list_webhooks :: "int \<Rightarrow> hook_db \<Rightarrow> webhook list" where
  "list_webhooks tenant db =
     sort_key (\<lambda>w. - wh_created_at w) (filter (\<lambda>w. wh_tenant_id w = tenant) (hd_webhooks db))"

definition list_active :: "int \<Rightarrow> hook_db \<Rightarrow> webhook list" where
  "list_active tenant db = filter (\<lambda>w. wh_tenant_id w = tenant \<and> wh_active w) (hd_webhooks db)"

definition update_webhook ::
  "string \<Rightarrow> string option \<Rightarrow> string list option \<Rightarrow> bool option \<Rightarrow> hook_db \<Rightarrow> webhook option \<times> hook_db" where
  "update_webhook i url event_filters active db =
     (case find_webhook i db of
        None \<Rightarrow> (None, db)
      | Some w \<Rightarrow>
          (let change = (\<lambda>w. w\<lparr>wh_url := (case url of Some u \<Rightarrow> u | None \<Rightarrow> wh_url w),
                               wh_event_filters := (case event_filters of Some fs \<Rightarrow> fs | None \<Rightarrow> wh_event_filters w),
                               wh_active := (case active of Some a \<Rightarrow> a | None \<Rightarrow> wh_active w)\<rparr>)
           in (Some (change w), update_webhook_row i change db)))"

definition rotate_secret :: "string \<Rightarrow> string \<Rightarrow> hook_db \<Rightarrow> webhook option \<times> hook_db" where
  "rotate_secret secret i db =
     (case find_webhook i db of
        None \<Rightarrow> (None, db)
      | Some w \<Rightarrow> (Some (w\<lparr>wh_hmac_secret := secret\<rparr>), update_webhook_row i (\<lambda>w. w\<lparr>wh_hmac_secret := secret\<rparr>) db))"

text \<open>The deliveries refer to the row: the foreign key refuses the deletion while one exists.\<close>

definition delete_webhook :: "string \<Rightarrow> hook_db \<Rightarrow> (db_error + bool) \<times> hook_db" where
  "delete_webhook i db =
     (case find_webhook i db of
        None \<Rightarrow> (Inr False, db)
      | Some w \<Rightarrow>
          if list_ex (\<lambda>d. wd_webhook_id d = i) (hd_deliveries db) then (Inl Integrity_Error, db)
          else (Inr True, db\<lparr>hd_webhooks := filter (\<lambda>w. wh_id w \<noteq> i) (hd_webhooks db)\<rparr>))"

section \<open>The ledger\<close>

definition fan_out :: "(int \<Rightarrow> string \<Rightarrow> string) \<Rightarrow> int \<Rightarrow> webhook list \<Rightarrow> event_row \<Rightarrow> delivery list" where
  "fan_out new_id now active e =
     map (\<lambda>w. \<lparr>wd_id = new_id (er_id e) (wh_id w), wd_webhook_id = wh_id w, wd_event_id = er_id e,
               wd_attempted_at = None, wd_response_status = None, wd_response_body = None,
               wd_retry_count = 0, wd_status = Delivery_Pending, wd_next_retry_at = None, wd_created_at = now\<rparr>)
         (filter (\<lambda>w. matches (wh_event_filters w) (ev_kind e)) active)"

definition enqueue_for_new_events ::
  "(int \<Rightarrow> string \<Rightarrow> string) \<Rightarrow> int \<Rightarrow> nat \<Rightarrow> int \<Rightarrow> hook_db \<Rightarrow> nat \<times> hook_db" where
  "enqueue_for_new_events new_id now batch tenant db =
     (let events = take batch (sort_key er_id (filter (\<lambda>e. er_processed_at e = None) (hd_events db)));
          new = concat (map (fan_out new_id now (list_active tenant db)) events);
          claimed = er_id ` set events
      in (length new,
          db\<lparr>hd_deliveries := hd_deliveries db @ new,
             hd_events := map (\<lambda>e. if er_id e \<in> claimed then e\<lparr>er_processed_at := Some now\<rparr> else e) (hd_events db)\<rparr>))"

definition due :: "int \<Rightarrow> delivery \<Rightarrow> bool" where
  "due now d = (wd_status d = Delivery_Pending \<and>
     (case wd_next_retry_at d of None \<Rightarrow> True | Some t \<Rightarrow> t \<le> now))"

definition pending_or_due_for_retry :: "int \<Rightarrow> nat \<Rightarrow> hook_db \<Rightarrow> delivery list" where
  "pending_or_due_for_retry now batch db = take batch (sort_key wd_created_at (filter (due now) (hd_deliveries db)))"

definition list_for_webhook :: "string \<Rightarrow> hook_db \<Rightarrow> delivery list" where
  "list_for_webhook i db = sort_key wd_created_at (filter (\<lambda>d. wd_webhook_id d = i) (hd_deliveries db))"

definition update_delivery :: "string \<Rightarrow> (delivery \<Rightarrow> delivery) \<Rightarrow> hook_db \<Rightarrow> hook_db" where
  "update_delivery i f db = db\<lparr>hd_deliveries := map (\<lambda>d. if wd_id d = i then f d else d) (hd_deliveries db)\<rparr>"

definition truncate_body :: "string \<Rightarrow> string" where
  "truncate_body body = (if length body \<le> 2000 then body else take 2000 body)"

definition finish_delivery ::
  "int \<Rightarrow> delivery_status \<Rightarrow> int option \<Rightarrow> string option \<Rightarrow> delivery \<Rightarrow> delivery" where
  "finish_delivery now status response_status response_body d =
     d\<lparr>wd_status := status, wd_attempted_at := Some now, wd_next_retry_at := None,
       wd_response_status := (case response_status of Some s \<Rightarrow> Some s | None \<Rightarrow> wd_response_status d),
       wd_response_body := (case response_body of Some b \<Rightarrow> Some (truncate_body b) | None \<Rightarrow> wd_response_body d)\<rparr>"

definition mark_delivered :: "int \<Rightarrow> string \<Rightarrow> int \<Rightarrow> hook_db \<Rightarrow> hook_db" where
  "mark_delivered now i response_status =
     update_delivery i (finish_delivery now Delivery_Delivered (Some response_status) None)"

definition mark_abandoned :: "int \<Rightarrow> string \<Rightarrow> int option \<Rightarrow> string option \<Rightarrow> hook_db \<Rightarrow> hook_db" where
  "mark_abandoned now i response_status response_body =
     update_delivery i (finish_delivery now Delivery_Abandoned response_status response_body)"

definition mark_retry ::
  "int \<Rightarrow> string \<Rightarrow> nat \<Rightarrow> int \<Rightarrow> int option \<Rightarrow> string option \<Rightarrow> hook_db \<Rightarrow> hook_db" where
  "mark_retry now i retry_count next_retry_at response_status response_body =
     update_delivery i (\<lambda>d. d\<lparr>wd_status := Delivery_Pending, wd_retry_count := retry_count,
       wd_next_retry_at := Some next_retry_at, wd_attempted_at := Some now,
       wd_response_status := response_status, wd_response_body := map_option truncate_body response_body\<rparr>)"

section \<open>The publisher\<close>

text \<open>Seconds, as in the code; instants are microseconds.\<close>

definition RETRY_SCHEDULE_S :: "int list" where
  "RETRY_SCHEDULE_S = [30, 60, 300, 900, 3600, 10800]"

definition next_delay_s :: "nat \<Rightarrow> int option" where
  "next_delay_s retry_count =
     (if retry_count < length RETRY_SCHEDULE_S then Some (RETRY_SCHEDULE_S ! retry_count) else None)"

record post =
  po_delivery_id :: string
  po_url :: string
  po_body :: string
  po_signature :: string
  po_event :: string

text \<open>\<open>Post_Http_Error\<close> is httpx's \<open>HTTPError\<close>; anything else it raises is \<open>Post_Raised\<close>.\<close>

datatype post_outcome = Post_Response int string | Post_Http_Error string | Post_Raised string

record publisher =
  pb_allow_private :: bool
  pb_dns :: "post list \<Rightarrow> string \<Rightarrow> int \<Rightarrow> dns_outcome"
  pb_answer :: "post list \<Rightarrow> post \<Rightarrow> post_outcome"
  pb_hmac_sha256 :: "string \<Rightarrow> string \<Rightarrow> string"
  pb_dumps :: "json \<Rightarrow> string"

record pub_state =
  ps_db :: hook_db
  ps_sent :: "post list"

definition sign_body :: "publisher \<Rightarrow> string \<Rightarrow> string \<Rightarrow> string" where
  "sign_body p secret body = ''sha256='' @ pb_hmac_sha256 p secret body"

definition event_body :: "publisher \<Rightarrow> event_row \<Rightarrow> string" where
  "event_body p e =
     pb_dumps p (JObject [(''event'', JString (ev_kind e)), (''timestamp'', opt_json JTime (er_occurred_at e)),
                          (''data'', JObject (ev_payload e))])"

definition post_for :: "publisher \<Rightarrow> webhook \<Rightarrow> event_row \<Rightarrow> delivery \<Rightarrow> post" where
  "post_for p w e d =
     \<lparr>po_delivery_id = wd_id d, po_url = wh_url w, po_body = event_body p e,
      po_signature = sign_body p (wh_hmac_secret w) (event_body p e), po_event = ev_kind e\<rparr>"

definition settle :: "int \<Rightarrow> delivery \<Rightarrow> int option \<Rightarrow> string \<Rightarrow> hook_db \<Rightarrow> hook_db" where
  "settle now d status response_body =
     (if (case status of Some s \<Rightarrow> 200 \<le> s \<and> s < 300 | None \<Rightarrow> False) then mark_delivered now (wd_id d) (the status)
      else
        (case next_delay_s (wd_retry_count d) of
           None \<Rightarrow> mark_abandoned now (wd_id d) status (Some response_body)
         | Some delay \<Rightarrow>
             mark_retry now (wd_id d) (wd_retry_count d + 1) (now + delay * 1000000) status (Some response_body)))"

text \<open>\<open>Inl\<close>: an exception leaves the attempt.\<close>

definition attempt_delivery ::
  "publisher \<Rightarrow> int \<Rightarrow> delivery \<Rightarrow> pub_state \<Rightarrow> (string + unit) \<times> pub_state" where
  "attempt_delivery p now d s =
     (let db = ps_db s in
      case find_webhook (wd_webhook_id d) db of
        None \<Rightarrow> (Inr (), s\<lparr>ps_db := mark_abandoned now (wd_id d) None None db\<rparr>)
      | Some w \<Rightarrow>
          if \<not> wh_active w then (Inr (), s\<lparr>ps_db := mark_abandoned now (wd_id d) None None db\<rparr>)
          else
            (case find (\<lambda>e. er_id e = wd_event_id d) (hd_events db) of
               None \<Rightarrow> (Inr (), s\<lparr>ps_db := mark_abandoned now (wd_id d) None None db\<rparr>)
             | Some e \<Rightarrow>
                 (case assert_safe_webhook_url (pb_dns p (ps_sent s)) (pb_allow_private p) (wh_url w) of
                    Url_Raised x \<Rightarrow> (Inl x, s)
                  | Url_Blocked x \<Rightarrow>
                      (Inr (), s\<lparr>ps_db := mark_abandoned now (wd_id d) None (Some (''blocked: '' @ x)) db\<rparr>)
                  | Url_Safe \<Rightarrow>
                      (let po = post_for p w e d; s' = s\<lparr>ps_sent := ps_sent s @ [po]\<rparr>
                       in case pb_answer p (ps_sent s) po of
                            Post_Raised x \<Rightarrow> (Inl x, s')
                          | Post_Response status text \<Rightarrow> (Inr (), s'\<lparr>ps_db := settle now d (Some status) text db\<rparr>)
                          | Post_Http_Error x \<Rightarrow> (Inr (), s'\<lparr>ps_db := settle now d None (''error: '' @ x) db\<rparr>)))))"

record pass_clock =
  pc_enqueued_at :: int
  pc_listed_at :: int
  pc_attempted_at :: "string \<Rightarrow> int"
  pc_new_id :: "int \<Rightarrow> string \<Rightarrow> string"

fun attempt_all :: "publisher \<Rightarrow> pass_clock \<Rightarrow> delivery list \<Rightarrow> pub_state \<Rightarrow> (string + unit) \<times> pub_state" where
  "attempt_all p t [] s = (Inr (), s)"
| "attempt_all p t (d # ds) s =
     (case attempt_delivery p (pc_attempted_at t (wd_id d)) d s of
        (Inl e, s') \<Rightarrow> (Inl e, s')
      | (Inr _, s') \<Rightarrow> attempt_all p t ds s')"

definition drain_once :: "publisher \<Rightarrow> pass_clock \<Rightarrow> pub_state \<Rightarrow> (string + unit) \<times> pub_state" where
  "drain_once p t s =
     (let s1 = s\<lparr>ps_db := snd (enqueue_for_new_events (pc_new_id t) (pc_enqueued_at t) 200 1 (ps_db s))\<rparr>
      in attempt_all p t (pending_or_due_for_retry (pc_listed_at t) 100 (ps_db s1)) s1)"

text \<open>The passes until the shutdown; the error of a pass is logged and dropped.\<close>

definition publisher_loop :: "publisher \<Rightarrow> pass_clock list \<Rightarrow> pub_state \<Rightarrow> pub_state" where
  "publisher_loop p passes s = fold (\<lambda>t s. snd (drain_once p t s)) passes s"

section \<open>Handlers\<close>

definition delete_webhook_handler :: "string \<Rightarrow> hook_db \<Rightarrow> (db_error + api_exception + int) \<times> hook_db" where
  "delete_webhook_handler i db =
     (case delete_webhook i db of
        (Inl e, db') \<Rightarrow> (Inl e, db')
      | (Inr found, db') \<Rightarrow>
          (Inr (if found then Inr 204 else Inl (resource_not_found (''Webhook '' @ py_repr i @ '' not found.''))), db'))"

definition found_or_404 :: "string \<Rightarrow> webhook option \<times> hook_db \<Rightarrow> (api_exception + webhook) \<times> hook_db" where
  "found_or_404 i r =
     (case r of
        (None, db) \<Rightarrow> (Inl (resource_not_found (''Webhook '' @ py_repr i @ '' not found.'')), db)
      | (Some w, db) \<Rightarrow> (Inr w, db))"

definition update_webhook_handler ::
  "string \<Rightarrow> string option \<Rightarrow> string list option \<Rightarrow> bool option \<Rightarrow> hook_db \<Rightarrow> (api_exception + webhook) \<times> hook_db" where
  "update_webhook_handler i url event_filters active db = found_or_404 i (update_webhook i url event_filters active db)"

definition rotate_secret_handler :: "string \<Rightarrow> string \<Rightarrow> hook_db \<Rightarrow> (api_exception + webhook) \<times> hook_db" where
  "rotate_secret_handler secret i db = found_or_404 i (rotate_secret secret i db)"

section \<open>One attempt\<close>

text \<open>What the publisher does to a row leaves its keys alone.\<close>

definition keeps_keys :: "(delivery \<Rightarrow> delivery) \<Rightarrow> bool" where
  "keeps_keys f = (\<forall>d. wd_id (f d) = wd_id d \<and> wd_event_id (f d) = wd_event_id d \<and>
     wd_webhook_id (f d) = wd_webhook_id d \<and> wd_created_at (f d) = wd_created_at d)"

lemma keeps_keysD:
  "keeps_keys f \<Longrightarrow> wd_id (f d) = wd_id d" "keeps_keys f \<Longrightarrow> wd_event_id (f d) = wd_event_id d"
  "keeps_keys f \<Longrightarrow> wd_webhook_id (f d) = wd_webhook_id d" "keeps_keys f \<Longrightarrow> wd_created_at (f d) = wd_created_at d"
  by (simp_all add: keeps_keys_def)

lemma finish_keeps_keys [simp]: "keeps_keys (finish_delivery now st a b)"
  by (simp add: keeps_keys_def finish_delivery_def)

lemma update_delivery_select [simp]:
  "hd_webhooks (update_delivery i f db) = hd_webhooks db" "hd_events (update_delivery i f db) = hd_events db"
  "hd_deliveries (update_delivery i f db) = map (\<lambda>d. if wd_id d = i then f d else d) (hd_deliveries db)"
  by (simp_all add: update_delivery_def)

text \<open>A settled attempt finishes the row or counts one retry.\<close>

definition settles :: "nat \<Rightarrow> int \<Rightarrow> (delivery \<Rightarrow> delivery) \<Rightarrow> bool" where
  "settles n now f = (keeps_keys f \<and>
     ((\<forall>d. wd_status (f d) \<noteq> Delivery_Pending \<and> wd_retry_count (f d) = wd_retry_count d) \<or>
      (n < 6 \<and> (\<exists>t \<le> now + 10800 * 1000000. \<forall>d. wd_retry_count (f d) = Suc n \<and>
         wd_status (f d) = Delivery_Pending \<and> wd_next_retry_at (f d) = Some t))))"

lemma finish_settles: "st \<noteq> Delivery_Pending \<Longrightarrow> settles n now' (finish_delivery now st a b)"
  by (simp add: settles_def finish_delivery_def keeps_keys_def)

lemma abandoned_settles: "settles n now' (finish_delivery now Delivery_Abandoned a b)"
  by (rule finish_settles) simp

lemma settle_update: "\<exists>f. settle now d st text db = update_delivery (wd_id d) f db \<and> settles (wd_retry_count d) now f"
proof (cases "case st of Some s \<Rightarrow> 200 \<le> s \<and> s < 300 | None \<Rightarrow> False")
  case True
  then show ?thesis
    unfolding settle_def mark_delivered_def if_P [OF True] by (blast intro: finish_settles)
next
  case False
  show ?thesis
  proof (cases "next_delay_s (wd_retry_count d)")
    case None
    then show ?thesis
      unfolding settle_def mark_abandoned_def if_not_P [OF False] by (auto intro: abandoned_settles)
  next
    case (Some delay)
    then have "wd_retry_count d < length RETRY_SCHEDULE_S" "delay = RETRY_SCHEDULE_S ! wd_retry_count d"
      by (auto simp: next_delay_s_def split: if_splits)
    then have "delay \<in> set RETRY_SCHEDULE_S" and "wd_retry_count d < 6"
      by (simp only: nth_mem, simp add: RETRY_SCHEDULE_S_def)
    then have "wd_retry_count d < 6" "now + delay * 1000000 \<le> now + 10800 * 1000000"
      by (auto simp: RETRY_SCHEDULE_S_def)
    moreover let ?f = "\<lambda>row. row\<lparr>wd_status := Delivery_Pending, wd_retry_count := wd_retry_count d + 1,
       wd_next_retry_at := Some (now + delay * 1000000), wd_attempted_at := Some now,
       wd_response_status := st, wd_response_body := map_option truncate_body (Some text)\<rparr> :: delivery"
    have "settle now d st text db = update_delivery (wd_id d) ?f db"
      unfolding settle_def mark_retry_def if_not_P [OF False] Some option.case by (rule refl)
    moreover have "settles (wd_retry_count d) now ?f"
      using calculation(1,2) by (auto simp: settles_def keeps_keys_def)
    ultimately show ?thesis by blast
  qed
qed

definition safe_post :: "publisher \<Rightarrow> hook_db \<Rightarrow> post list \<Rightarrow> post \<Rightarrow> bool" where
  "safe_post p db sent po =
     (assert_safe_webhook_url (pb_dns p sent) (pb_allow_private p) (po_url po) = Url_Safe \<and>
      po_body po \<in> event_body p ` set (hd_events db) \<and>
      (\<exists>w \<in> set (hd_webhooks db). wh_active w \<and> po_url po = wh_url w \<and>
         po_signature po = sign_body p (wh_hmac_secret w) (po_body po)))"

text \<open>An attempt raises before or after its post, abandons the row without one, or posts and settles.\<close>

lemma attempt_cases:
  obtains (guard_raised) x where "attempt_delivery p now d s = (Inl x, s)"
      "\<exists>w. find_webhook (wd_webhook_id d) (ps_db s) = Some w \<and>
         assert_safe_webhook_url (pb_dns p (ps_sent s)) (pb_allow_private p) (wh_url w) = Url_Raised x"
    | (abandoned) f where "attempt_delivery p now d s = (Inr (), s\<lparr>ps_db := update_delivery (wd_id d) f (ps_db s)\<rparr>)"
      "settles (wd_retry_count d) now f"
    | (post_raised) po x where "attempt_delivery p now d s = (Inl x, s\<lparr>ps_sent := ps_sent s @ [po]\<rparr>)"
      "safe_post p (ps_db s) (ps_sent s) po" "po_delivery_id po = wd_id d" "pb_answer p (ps_sent s) po = Post_Raised x"
    | (posted) po f where "attempt_delivery p now d s =
        (Inr (), s\<lparr>ps_sent := ps_sent s @ [po], ps_db := update_delivery (wd_id d) f (ps_db s)\<rparr>)"
      "settles (wd_retry_count d) now f" "safe_post p (ps_db s) (ps_sent s) po" "po_delivery_id po = wd_id d"
proof (cases "find_webhook (wd_webhook_id d) (ps_db s)")
  case None
  then show ?thesis
    by (intro abandoned [OF _ abandoned_settles]) (simp add: attempt_delivery_def mark_abandoned_def)
next
  case w: (Some w)
  show ?thesis
  proof (cases "wh_active w")
    case False
    with w show ?thesis
      by (intro abandoned [OF _ abandoned_settles]) (simp add: attempt_delivery_def mark_abandoned_def)
  next
    case active: True
    show ?thesis
    proof (cases "find (\<lambda>e. er_id e = wd_event_id d) (hd_events (ps_db s))")
      case None
      with w active show ?thesis
        by (intro abandoned [OF _ abandoned_settles]) (simp add: attempt_delivery_def mark_abandoned_def)
    next
      case e: (Some e)
      show ?thesis
      proof (cases "assert_safe_webhook_url (pb_dns p (ps_sent s)) (pb_allow_private p) (wh_url w)")
        case (Url_Raised x)
        with w active e show ?thesis by (intro guard_raised [of x]) (simp_all add: attempt_delivery_def)
      next
        case (Url_Blocked x)
        with w active e show ?thesis
          by (intro abandoned [OF _ abandoned_settles]) (simp add: attempt_delivery_def mark_abandoned_def)
      next
        case Url_Safe
        let ?po = "post_for p w e d"
        have "w \<in> set (hd_webhooks (ps_db s))" "e \<in> set (hd_events (ps_db s))"
          using w e by (auto simp: find_webhook_def find_Some_iff)
        then have safe: "safe_post p (ps_db s) (ps_sent s) ?po"
          using Url_Safe active by (auto simp: safe_post_def post_for_def)
        have id: "po_delivery_id ?po = wd_id d" by (simp add: post_for_def)
        have posts: "attempt_delivery p now d s = (case pb_answer p (ps_sent s) ?po of
            Post_Raised x \<Rightarrow> (Inl x, s\<lparr>ps_sent := ps_sent s @ [?po]\<rparr>)
          | Post_Response status text \<Rightarrow> (Inr (), s\<lparr>ps_sent := ps_sent s @ [?po], ps_db := settle now d (Some status) text (ps_db s)\<rparr>)
          | Post_Http_Error x \<Rightarrow> (Inr (), s\<lparr>ps_sent := ps_sent s @ [?po], ps_db := settle now d None (''error: '' @ x) (ps_db s)\<rparr>))"
          using w active e Url_Safe by (simp add: attempt_delivery_def Let_def)
        show ?thesis
        proof (cases "pb_answer p (ps_sent s) ?po")
          case (Post_Raised x)
          with posts safe id show ?thesis by (intro post_raised [where po = ?po and x = x]) simp_all
        next
          case (Post_Response status answer)
          obtain f where "settle now d (Some status) answer (ps_db s) = update_delivery (wd_id d) f (ps_db s)"
            "settles (wd_retry_count d) now f" using settle_update by blast
          with Post_Response posts safe id show ?thesis by (intro posted [where po = ?po and f = f]) simp_all
        next
          case (Post_Http_Error x)
          obtain f where "settle now d None (''error: '' @ x) (ps_db s) = update_delivery (wd_id d) f (ps_db s)"
            "settles (wd_retry_count d) now f" using settle_update by blast
          with Post_Http_Error posts safe id show ?thesis by (intro posted [where po = ?po and f = f]) simp_all
        qed
      qed
    qed
  qed
qed

section \<open>What the publisher keeps\<close>

definition same_sources :: "publisher \<Rightarrow> hook_db \<Rightarrow> hook_db \<Rightarrow> bool" where
  "same_sources p db db' = (hd_webhooks db' = hd_webhooks db \<and>
     event_body p ` set (hd_events db') = event_body p ` set (hd_events db))"

lemma same_sources_refl [simp]: "same_sources p db db"
  by (simp add: same_sources_def)

lemma same_sources_trans: "same_sources p a b \<Longrightarrow> same_sources p b c \<Longrightarrow> same_sources p a c"
  by (simp add: same_sources_def)

lemma same_sources_update [simp]: "same_sources p db (update_delivery i f db)"
  by (simp add: same_sources_def)

lemma same_sources_enqueue: "same_sources p db (snd (enqueue_for_new_events new_id now batch tenant db))"
proof -
  have "event_body p (if c then e\<lparr>er_processed_at := x\<rparr> else e) = event_body p e" for c e x
    by (simp add: event_body_def)
  then have "event_body p ` set (map (\<lambda>e. if c e then e\<lparr>er_processed_at := x\<rparr> else e) es) = event_body p ` set es" for c es x
    unfolding set_map image_image by (rule image_cong [OF refl])
  then show ?thesis by (simp add: same_sources_def enqueue_for_new_events_def Let_def del: set_map)
qed

lemma safe_post_sources: "same_sources p db db' \<Longrightarrow> safe_post p db' = safe_post p db"
  by (simp add: same_sources_def safe_post_def fun_eq_iff)

fun all_safe :: "publisher \<Rightarrow> hook_db \<Rightarrow> post list \<Rightarrow> post list \<Rightarrow> bool" where
  "all_safe p db sent [] = True"
| "all_safe p db sent (po # pos) = (safe_post p db sent po \<and> all_safe p db (sent @ [po]) pos)"

lemma all_safe_sources: "same_sources p db db' \<Longrightarrow> all_safe p db' sent pos = all_safe p db sent pos"
  by (induction pos arbitrary: sent) (simp_all add: safe_post_sources)

lemma all_safe_append: "all_safe p db sent (xs @ ys) = (all_safe p db sent xs \<and> all_safe p db (sent @ xs) ys)"
  by (induction xs arbitrary: sent) simp_all

definition sends_safely :: "publisher \<Rightarrow> pub_state \<Rightarrow> pub_state \<Rightarrow> bool" where
  "sends_safely p s s' = (same_sources p (ps_db s) (ps_db s') \<and>
     (\<exists>new. ps_sent s' = ps_sent s @ new \<and> all_safe p (ps_db s) (ps_sent s) new))"

lemma sends_safely_refl [simp]: "sends_safely p s s"
  by (simp add: sends_safely_def)

lemma sends_safely_trans:
  assumes "sends_safely p a b" and "sends_safely p b c"
  shows "sends_safely p a c"
proof -
  obtain xs ys where xs: "ps_sent b = ps_sent a @ xs" "all_safe p (ps_db a) (ps_sent a) xs"
    and ys: "ps_sent c = ps_sent b @ ys" "all_safe p (ps_db b) (ps_sent b) ys"
    using assms by (auto simp: sends_safely_def)
  have "all_safe p (ps_db a) (ps_sent a) (xs @ ys)"
    using xs ys assms(1) all_safe_sources [of p "ps_db a" "ps_db b"]
    by (simp add: all_safe_append sends_safely_def)
  with xs ys assms show ?thesis
    unfolding sends_safely_def by (auto intro: same_sources_trans exI [of _ "xs @ ys"])
qed

lemma attempt_safely: "sends_safely p s (snd (attempt_delivery p now d s))"
  by (cases rule: attempt_cases [of p now d s]) (simp_all add: sends_safely_def)

lemma attempt_all_safely: "sends_safely p s (snd (attempt_all p t ds s))"
proof (induction ds arbitrary: s)
  case (Cons d ds)
  then show ?case
    using attempt_safely [of p s "pc_attempted_at t (wd_id d)" d]
    by (auto split: prod.split sum.split intro: sends_safely_trans)
qed simp

lemma drain_safely: "sends_safely p s (snd (drain_once p t s))"
proof -
  let ?s1 = "s\<lparr>ps_db := snd (enqueue_for_new_events (pc_new_id t) (pc_enqueued_at t) 200 1 (ps_db s))\<rparr>"
  have "sends_safely p s ?s1" by (simp add: sends_safely_def same_sources_enqueue)
  then show ?thesis
    unfolding drain_once_def Let_def by (rule sends_safely_trans) (rule attempt_all_safely)
qed

text \<open>
  C27: Whatever the subscribers and the resolver answer, every post the publisher ever sends went
  to a URL that the address guard had just accepted, is the URL of an active subscriber,
  carries the body of an event of the store and is signed over exactly that body with that subscriber's
  secret.
\<close>

theorem posts_are_guarded_and_signed:
  "\<exists>new. ps_sent (publisher_loop p passes s) = ps_sent s @ new \<and> all_safe p (ps_db s) (ps_sent s) new"
proof -
  have "sends_safely p s (publisher_loop p passes s)"
  proof (induction passes arbitrary: s)
    case (Cons t passes)
    show ?case
      using sends_safely_trans [OF drain_safely Cons.IH, of s t] by (simp add: publisher_loop_def)
  qed (simp add: publisher_loop_def)
  then show ?thesis by (simp add: sends_safely_def)
qed

section \<open>Fan-out\<close>

definition pair_count :: "int \<Rightarrow> string \<Rightarrow> delivery list \<Rightarrow> nat" where
  "pair_count e w ds = length (filter (\<lambda>d. wd_event_id d = e \<and> wd_webhook_id d = w) ds)"

definition subscribed :: "webhook \<Rightarrow> string \<Rightarrow> bool" where
  "subscribed w kind = (wh_active w \<and> wh_tenant_id w = 1 \<and> matches (wh_event_filters w) kind)"

lemma pair_count_simps [simp]:
  "pair_count e w [] = 0" "pair_count e w (xs @ ys) = pair_count e w xs + pair_count e w ys"
  by (simp_all add: pair_count_def)

lemma pair_count_update:
  assumes "keeps_keys f"
  shows "pair_count e w (map (\<lambda>d. if wd_id d = i then f d else d) ds) = pair_count e w ds"
  using keeps_keysD(2,3) [OF assms] by (induction ds) (auto simp: pair_count_def)

text \<open>The events a pass claims.\<close>

definition claimed :: "nat \<Rightarrow> hook_db \<Rightarrow> event_row list" where
  "claimed batch db = take batch (sort_key er_id (filter (\<lambda>e. er_processed_at e = None) (hd_events db)))"

lemma claimed_unprocessed: "e \<in> set (claimed batch db) \<Longrightarrow> e \<in> set (hd_events db) \<and> er_processed_at e = None"
  unfolding claimed_def by (auto dest: in_set_takeD)

lemma claimed_distinct:
  assumes "distinct (map er_id (hd_events db))"
  shows "distinct (map er_id (claimed batch db))"
proof -
  have "distinct (map er_id (sort_key er_id (filter (\<lambda>e. er_processed_at e = None) (hd_events db))))"
    using assms by (simp add: distinct_map inj_on_def)
  then show ?thesis unfolding claimed_def take_map [symmetric] by (rule distinct_take)
qed

lemma enqueue_select:
  "hd_webhooks (snd (enqueue_for_new_events new_id now batch tenant db)) = hd_webhooks db"
  "hd_deliveries (snd (enqueue_for_new_events new_id now batch tenant db)) =
     hd_deliveries db @ concat (map (fan_out new_id now (list_active tenant db)) (claimed batch db))"
  "hd_events (snd (enqueue_for_new_events new_id now batch tenant db)) =
     map (\<lambda>e. if er_id e \<in> er_id ` set (claimed batch db) then e\<lparr>er_processed_at := Some now\<rparr> else e) (hd_events db)"
  by (simp_all add: enqueue_for_new_events_def claimed_def Let_def)

lemma filter_once:
  assumes "distinct (map f xs)" and "x \<in> set xs"
  shows "length (filter (\<lambda>y. f y = f x \<and> Q y) xs) = (if Q x then 1 else 0)"
  using filter_key_unique [OF assms, of Q] by simp

lemma pair_count_fan_out:
  assumes "distinct (map wh_id (hd_webhooks db))" and "w \<in> set (hd_webhooks db)"
  shows "pair_count e (wh_id w) (fan_out new_id now (list_active 1 db) ev) =
    (if er_id ev = e \<and> subscribed w (ev_kind ev) then 1 else 0)"
proof -
  let ?subs = "filter (\<lambda>w. matches (wh_event_filters w) (ev_kind ev)) (list_active 1 db)"
  have "pair_count e (wh_id w) (fan_out new_id now (list_active 1 db) ev) =
      length (filter (\<lambda>v. er_id ev = e \<and> wh_id v = wh_id w) ?subs)"
    by (simp add: pair_count_def fan_out_def filter_map comp_def)
  also have "\<dots> = length (filter (\<lambda>v. wh_id v = wh_id w \<and> (er_id ev = e \<and> subscribed v (ev_kind ev))) (hd_webhooks db))"
    by (simp add: list_active_def subscribed_def conj_ac cong: filter_cong)
  also have "\<dots> = (if er_id ev = e \<and> subscribed w (ev_kind ev) then 1 else 0)"
    by (rule filter_once [OF assms])
  finally show ?thesis .
qed

lemma pair_count_concat:
  assumes "distinct (map wh_id (hd_webhooks db))" and "w \<in> set (hd_webhooks db)" and "distinct (map er_id evs)"
  shows "pair_count e (wh_id w) (concat (map (fan_out new_id now (list_active 1 db)) evs)) =
    (if \<exists>ev \<in> set evs. er_id ev = e \<and> subscribed w (ev_kind ev) then 1 else 0)"
  using assms(3)
proof (induction evs)
  case (Cons ev evs)
  then show ?case using pair_count_fan_out [OF assms(1,2), of e new_id now ev] by (auto simp: image_iff)
qed simp

text \<open>Where an event stands with a subscriber: not claimed yet, or claimed and delivered for once.\<close>

definition fan_state :: "int \<Rightarrow> string \<Rightarrow> webhook \<Rightarrow> hook_db \<Rightarrow> bool" where
  "fan_state e kind w db =
     (distinct (map wh_id (hd_webhooks db)) \<and> w \<in> set (hd_webhooks db) \<and> distinct (map er_id (hd_events db)) \<and>
      (\<exists>r \<in> set (hd_events db). er_id r = e \<and> ev_kind r = kind \<and>
         pair_count e (wh_id w) (hd_deliveries db) =
           (if er_processed_at r = None then 0 else if subscribed w kind then 1 else 0)))"

lemma fan_state_update: "keeps_keys f \<Longrightarrow> fan_state e kind w (update_delivery i f db) = fan_state e kind w db"
  by (simp add: fan_state_def pair_count_update)

lemma fan_state_enqueue:
  assumes "fan_state e kind w db"
  shows "fan_state e kind w (snd (enqueue_for_new_events new_id now batch 1 db))"
proof -
  obtain r where r: "r \<in> set (hd_events db)" "er_id r = e" "ev_kind r = kind"
    and count: "pair_count e (wh_id w) (hd_deliveries db) =
      (if er_processed_at r = None then 0 else if subscribed w kind then 1 else 0)"
    and keys: "distinct (map wh_id (hd_webhooks db))" "w \<in> set (hd_webhooks db)" "distinct (map er_id (hd_events db))"
    using assms by (auto simp: fan_state_def)
  let ?mark = "\<lambda>e. if er_id e \<in> er_id ` set (claimed batch db) then e\<lparr>er_processed_at := Some now\<rparr> else e"
  have only: "ev = r" if "ev \<in> set (hd_events db)" "er_id ev = e" for ev
    using keys(3) r that by (auto simp: distinct_map dest: inj_onD)
  have new: "pair_count e (wh_id w) (concat (map (fan_out new_id now (list_active 1 db)) (claimed batch db))) =
      (if r \<in> set (claimed batch db) \<and> subscribed w kind then 1 else 0)"
  proof -
    have "(\<exists>ev \<in> set (claimed batch db). er_id ev = e \<and> subscribed w (ev_kind ev)) \<longleftrightarrow>
        r \<in> set (claimed batch db) \<and> subscribed w kind"
      using r(2,3) only claimed_unprocessed by metis
    then show ?thesis unfolding pair_count_concat [OF keys(1,2) claimed_distinct [OF keys(3)]] by simp
  qed
  have mine: "er_id r \<in> er_id ` set (claimed batch db) \<longleftrightarrow> r \<in> set (claimed batch db)"
    using r(2) only claimed_unprocessed by (metis image_iff)
  have "map er_id (map ?mark (hd_events db)) = map er_id (hd_events db)"
    unfolding map_map by (rule map_cong) simp_all
  moreover have "?mark r \<in> set (map ?mark (hd_events db))" using r by simp
  moreover have "er_id (?mark r) = e" "ev_kind (?mark r) = kind" using r by simp_all
  moreover have "pair_count e (wh_id w) (hd_deliveries db) + (if r \<in> set (claimed batch db) \<and> subscribed w kind then 1 else 0) =
      (if er_processed_at (?mark r) = None then 0 else if subscribed w kind then 1 else 0)"
    using count mine claimed_unprocessed [of r batch db] by simp
  ultimately show ?thesis
    using keys unfolding fan_state_def enqueue_select pair_count_simps new by (intro conjI bexI [of _ "?mark r"]) (simp_all del: map_map)
qed

lemma settles_keys: "settles n now f \<Longrightarrow> keeps_keys f"
  by (simp add: settles_def)

lemma fan_state_attempt: "fan_state e kind w (ps_db s) \<Longrightarrow> fan_state e kind w (ps_db (snd (attempt_delivery p now d s)))"
  by (cases rule: attempt_cases [of p now d s]) (simp_all add: fan_state_update settles_keys)

lemma fan_state_attempts: "fan_state e kind w (ps_db s) \<Longrightarrow> fan_state e kind w (ps_db (snd (attempt_all p t ds s)))"
proof (induction ds arbitrary: s)
  case (Cons d ds)
  from fan_state_attempt [OF Cons.prems, of p "pc_attempted_at t (wd_id d)" d] Cons.IH
  show ?case by (auto split: prod.split sum.split)
qed simp

lemma fan_state_drain: "fan_state e kind w (ps_db s) \<Longrightarrow> fan_state e kind w (ps_db (snd (drain_once p t s)))"
  by (simp add: drain_once_def Let_def fan_state_attempts fan_state_enqueue)

lemma fan_state_loop: "fan_state e kind w (ps_db s) \<Longrightarrow> fan_state e kind w (ps_db (publisher_loop p passes s))"
  by (induction passes arbitrary: s) (simp_all add: publisher_loop_def fan_state_drain)


section \<open>Attempts and time\<close>

definition pair_of :: "delivery \<Rightarrow> int \<times> string" where
  "pair_of d = (wd_event_id d, wd_webhook_id d)"

text \<open>The rows of the ledger: drawn ids, one row per pair, only for processed events.\<close>

definition ledger_ok :: "(int \<Rightarrow> string \<Rightarrow> string) \<Rightarrow> hook_db \<Rightarrow> bool" where
  "ledger_ok new_id db =
     (distinct (map wh_id (hd_webhooks db)) \<and> distinct (map er_id (hd_events db)) \<and>
      distinct (map pair_of (hd_deliveries db)) \<and>
      (\<forall>d \<in> set (hd_deliveries db). wd_id d = new_id (wd_event_id d) (wd_webhook_id d) \<and>
         (\<exists>r \<in> set (hd_events db). er_id r = wd_event_id d \<and> er_processed_at r \<noteq> None)))"

definition drawn_apart :: "(int \<Rightarrow> string \<Rightarrow> string) \<Rightarrow> bool" where
  "drawn_apart new_id = (\<forall>e w e' w'. new_id e w = new_id e' w' \<longrightarrow> e = e' \<and> w = w')"

lemma ledger_ids:
  assumes "ledger_ok new_id db" and "drawn_apart new_id"
  shows "distinct (map wd_id (hd_deliveries db))"
proof -
  have "inj_on wd_id (set (hd_deliveries db))"
  proof (rule inj_onI)
    fix d d' assume d: "d \<in> set (hd_deliveries db)" "d' \<in> set (hd_deliveries db)" and "wd_id d = wd_id d'"
    with assms have "pair_of d = pair_of d'"
      unfolding ledger_ok_def drawn_apart_def pair_of_def by (metis (no_types, lifting))
    with d assms(1) show "d = d'" by (auto simp: ledger_ok_def distinct_map dest: inj_onD)
  qed
  moreover have "distinct (hd_deliveries db)"
    using assms(1) by (simp add: ledger_ok_def distinct_map)
  ultimately show ?thesis by (simp add: distinct_map)
qed

lemma fan_out_pairs:
  "map pair_of (fan_out new_id now active ev) =
     map (Pair (er_id ev)) (map wh_id (filter (\<lambda>w. matches (wh_event_filters w) (ev_kind ev)) active))"
  by (simp add: fan_out_def pair_of_def)

lemma distinct_fan_outs:
  assumes "distinct (map wh_id active)" and "distinct (map er_id evs)"
  shows "distinct (map pair_of (concat (map (fan_out new_id now active) evs)))"
  using assms(2)
proof (induction evs)
  case (Cons ev evs)
  have "distinct (map pair_of (fan_out new_id now active ev))"
    unfolding fan_out_pairs
    by (subst distinct_map) (simp add: inj_on_def distinct_map_filter [OF assms(1)])
  moreover have "pair_of ` set (fan_out new_id now active ev) \<inter>
      pair_of ` set (concat (map (fan_out new_id now active) evs)) = {}"
  proof -
    have "fst ` pair_of ` set (fan_out new_id now active ev) \<subseteq> {er_id ev}"
      and "fst ` pair_of ` set (concat (map (fan_out new_id now active) evs)) \<subseteq> er_id ` set evs"
      by (auto simp: fan_out_def pair_of_def)
    then have "fst q = er_id ev" "fst q \<in> er_id ` set evs"
      if "q \<in> pair_of ` set (fan_out new_id now active ev)" "q \<in> pair_of ` set (concat (map (fan_out new_id now active) evs))" for q
      using that by (meson imageI singletonD subsetD)+
    moreover have "er_id ev \<notin> er_id ` set evs" using Cons.prems by simp
    ultimately show ?thesis by (metis disjoint_iff)
  qed
  moreover have "distinct (map pair_of (concat (map (fan_out new_id now active) evs)))"
    using Cons by simp
  ultimately show ?case by (simp only: list.map concat.simps map_append distinct_append set_map)
qed simp

lemma ledger_enqueue:
  assumes "ledger_ok new_id db"
  shows "ledger_ok new_id (snd (enqueue_for_new_events new_id now batch tenant db))"
proof -
  let ?new = "concat (map (fan_out new_id now (list_active tenant db)) (claimed batch db))"
  let ?mark = "\<lambda>e. if er_id e \<in> er_id ` set (claimed batch db) then e\<lparr>er_processed_at := Some now\<rparr> else e"
  have keys: "distinct (map wh_id (hd_webhooks db))" "distinct (map er_id (hd_events db))"
    using assms by (auto simp: ledger_ok_def)
  have "distinct (map wh_id (list_active tenant db))"
    unfolding list_active_def using keys(1) by (rule distinct_map_filter)
  then have "distinct (map pair_of ?new)" by (rule distinct_fan_outs) (rule claimed_distinct [OF keys(2)])
  moreover have new: "wd_id d = new_id (wd_event_id d) (wd_webhook_id d) \<and> wd_event_id d \<in> er_id ` set (claimed batch db)"
    if "d \<in> set ?new" for d
    using that by (auto simp: fan_out_def)
  moreover have "wd_event_id d \<notin> er_id ` set (claimed batch db)" if d: "d \<in> set (hd_deliveries db)" for d
  proof
    assume "wd_event_id d \<in> er_id ` set (claimed batch db)"
    then obtain e where e: "e \<in> set (hd_events db)" "er_processed_at e = None" "er_id e = wd_event_id d"
      using claimed_unprocessed by fastforce
    moreover obtain r where "r \<in> set (hd_events db)" "er_id r = wd_event_id d" "er_processed_at r \<noteq> None"
      using assms d by (auto simp: ledger_ok_def)
    ultimately show False using keys(2) by (metis (no_types, lifting) distinct_map inj_onD)
  qed
  ultimately have "distinct (map pair_of (hd_deliveries db @ ?new))"
    using assms by (fastforce simp: ledger_ok_def pair_of_def)
  moreover have "map er_id (map ?mark (hd_events db)) = map er_id (hd_events db)"
    unfolding map_map by (rule map_cong) simp_all
  moreover have "\<exists>r \<in> set (map ?mark (hd_events db)). er_id r = wd_event_id d \<and> er_processed_at r \<noteq> None"
    if d: "d \<in> set (hd_deliveries db) \<union> set ?new" for d
  proof (cases "d \<in> set ?new")
    case True
    then obtain e where e: "e \<in> set (claimed batch db)" "er_id e = wd_event_id d" using new by fastforce
    have "er_id e \<in> er_id ` set (claimed batch db)" using e(1) by (rule imageI)
    then have "e \<in> set (hd_events db)" "?mark e = e\<lparr>er_processed_at := Some now\<rparr>"
      using claimed_unprocessed [OF e(1)] by (blast, simp only: if_P)
    moreover have "?mark e \<in> set (map ?mark (hd_events db))"
      using calculation(1) unfolding set_map by (rule imageI)
    moreover have "er_id (e\<lparr>er_processed_at := Some now\<rparr>) = wd_event_id d" using e(2) by simp
    ultimately show ?thesis by (metis (no_types, lifting) event_row.select_convs(3) event_row.update_convs(3) option.distinct(1) event_row.surjective)
  next
    case False
    then obtain r where "r \<in> set (hd_events db)" "er_id r = wd_event_id d" "er_processed_at r \<noteq> None"
      using assms d by (auto simp: ledger_ok_def)
    then show ?thesis by (intro bexI [of _ "?mark r"]) auto
  qed
  ultimately show ?thesis
    using assms new unfolding ledger_ok_def enqueue_select by (auto simp del: map_map map_append)
qed

lemma ledger_update:
  assumes "ledger_ok new_id db" and "keeps_keys f"
  shows "ledger_ok new_id (update_delivery i f db)"
proof -
  let ?g = "\<lambda>d. if wd_id d = i then f d else d"
  have "map pair_of (map ?g (hd_deliveries db)) = map pair_of (hd_deliveries db)"
    using keeps_keysD(2,3) [OF assms(2)] by (simp add: pair_of_def)
  moreover have "wd_id d = new_id (wd_event_id d) (wd_webhook_id d) \<and>
      (\<exists>r \<in> set (hd_events db). er_id r = wd_event_id d \<and> er_processed_at r \<noteq> None)"
    if "d \<in> set (map ?g (hd_deliveries db))" for d
  proof -
    from that have "d \<in> ?g ` set (hd_deliveries db)" by (simp only: set_map)
    then obtain d' where "d' \<in> set (hd_deliveries db)" "d = ?g d'" by (rule imageE)
    then show ?thesis using assms(1) keeps_keysD [OF assms(2)] by (auto simp: ledger_ok_def)
  qed
  ultimately show ?thesis
    using assms(1) unfolding ledger_ok_def update_delivery_select by (simp only:) blast
qed

text \<open>The update of a row, as an update in one place.\<close>

lemma update_in_place:
  assumes "distinct (map wd_id ds)" and "d \<in> set ds"
  obtains as bs where "ds = as @ d # bs" "wd_id d \<notin> wd_id ` set (as @ bs)"
    "map (\<lambda>x. if wd_id x = wd_id d then f x else x) ds = as @ f d # bs"
proof -
  obtain as bs where ds: "ds = as @ d # bs" using assms(2) by (meson split_list)
  with assms(1) have fresh: "wd_id d \<notin> wd_id ` set (as @ bs)" by auto
  moreover have "map (\<lambda>x. if wd_id x = wd_id d then f x else x) ds = as @ f d # bs"
  proof -
    have "map (\<lambda>x. if wd_id x = wd_id d then f x else x) xs = xs" if "set xs \<subseteq> set (as @ bs)" for xs
    proof (rule map_idI)
      fix x assume "x \<in> set xs"
      with that have "wd_id x \<in> wd_id ` set (as @ bs)" by blast
      with fresh have "wd_id x \<noteq> wd_id d" by metis
      then show "(if wd_id x = wd_id d then f x else x) = x" by simp
    qed
    then show ?thesis unfolding ds by simp
  qed
  ultimately show ?thesis using ds that by blast
qed

definition posts_of :: "string \<Rightarrow> post list \<Rightarrow> nat" where
  "posts_of i sent = length (filter (\<lambda>po. po_delivery_id po = i) sent)"

definition pending :: "delivery \<Rightarrow> bool" where
  "pending d = (wd_status d = Delivery_Pending)"

text \<open>The retry count of a row accounts for its posts, up to the one of a finished row.\<close>

definition counted_row :: "post list \<Rightarrow> delivery \<Rightarrow> bool" where
  "counted_row sent d = (wd_retry_count d \<le> 6 \<and>
     posts_of (wd_id d) sent \<le> wd_retry_count d + (if pending d then 0 else 1))"

definition counted :: "hook_db \<Rightarrow> post list \<Rightarrow> bool" where
  "counted db sent = ((\<forall>d \<in> set (hd_deliveries db). counted_row sent d) \<and>
     po_delivery_id ` set sent \<subseteq> wd_id ` set (hd_deliveries db))"

lemma posts_of_append [simp]: "posts_of i (xs @ ys) = posts_of i xs + posts_of i ys"
  by (simp add: posts_of_def)

lemma posts_of_other: "i \<notin> po_delivery_id ` set xs \<Longrightarrow> posts_of i xs = 0"
  by (auto simp: posts_of_def filter_empty_conv)

lemma settled_row:
  assumes "settles (wd_retry_count d) now f" and "pending d" and "counted_row sent d" and "posts_of (wd_id d) new \<le> 1"
  shows "counted_row (sent @ new) (f d)"
  using assms keeps_keysD(1) [OF settles_keys [OF assms(1)], of d]
  unfolding settles_def counted_row_def pending_def by auto

lemma counted_settled:
  assumes ids: "distinct (map wd_id (hd_deliveries db))" and d: "d \<in> set (hd_deliveries db)" "pending d"
    and "counted db sent" and f: "settles (wd_retry_count d) now f"
    and new: "set (map po_delivery_id new) \<subseteq> {wd_id d}" "length new \<le> 1"
  shows "counted (update_delivery (wd_id d) f db) (sent @ new)"
proof -
  obtain as bs where ds: "hd_deliveries db = as @ d # bs" and others: "wd_id d \<notin> wd_id ` set (as @ bs)"
    and ds': "hd_deliveries (update_delivery (wd_id d) f db) = as @ f d # bs"
    unfolding update_delivery_select by (rule update_in_place [OF ids d(1)])
  have key: "wd_id (f d) = wd_id d" using keeps_keysD(1) [OF settles_keys [OF f]] .
  have "posts_of (wd_id d) new \<le> 1"
    unfolding posts_of_def using new(2) length_filter_le le_trans by blast
  then have "counted_row (sent @ new) (f d)"
    using settled_row [OF f d(2)] assms(4) d(1) by (simp add: counted_def)
  moreover have "counted_row (sent @ new) x" if x: "x \<in> set (as @ bs)" for x
  proof -
    have "wd_id x \<noteq> wd_id d" using x others by (metis imageI)
    then have "posts_of (wd_id x) new = 0" using new(1) by (intro posts_of_other) auto
    moreover have "counted_row sent x" using x assms(4) ds by (auto simp: counted_def)
    ultimately show ?thesis by (simp add: counted_row_def)
  qed
  ultimately have "\<forall>x \<in> set (as @ f d # bs). counted_row (sent @ new) x" by auto
  moreover have "po_delivery_id ` set (sent @ new) \<subseteq> wd_id ` set (as @ f d # bs)"
    using assms(4) new(1) key unfolding counted_def ds by auto
  ultimately show ?thesis unfolding counted_def ds' by blast
qed

definition never_raised_by_posts :: "publisher \<Rightarrow> bool" where
  "never_raised_by_posts p = (\<forall>h po x. pb_answer p h po \<noteq> Post_Raised x)"

lemma attempt_counted:
  assumes "distinct (map wd_id (hd_deliveries (ps_db s)))" "d \<in> set (hd_deliveries (ps_db s))" "pending d"
    and "counted (ps_db s) (ps_sent s)" and "never_raised_by_posts p"
  shows "counted (ps_db (snd (attempt_delivery p now d s))) (ps_sent (snd (attempt_delivery p now d s)))"
proof (cases rule: attempt_cases [of p now d s])
  case (abandoned f)
  then show ?thesis using counted_settled [OF assms(1-4) abandoned(2), of "[]"] by simp
next
  case (posted po f)
  then show ?thesis using counted_settled [OF assms(1-4) posted(2), of "[po]"] by simp
qed (use assms(4,5) in \<open>simp_all add: never_raised_by_posts_def\<close>)

lemma ledger_attempt:
  "ledger_ok new_id (ps_db s) \<Longrightarrow> ledger_ok new_id (ps_db (snd (attempt_delivery p now d s)))"
  by (cases rule: attempt_cases [of p now d s]) (simp_all add: ledger_update settles_keys)

lemma attempt_keeps_others:
  assumes "x \<in> set (hd_deliveries (ps_db s))" and "wd_id x \<noteq> wd_id d"
  shows "x \<in> set (hd_deliveries (ps_db (snd (attempt_delivery p now d s))))"
proof -
  have "x \<in> set (map (\<lambda>y. if wd_id y = wd_id d then f y else y) ds)" if "x \<in> set ds" for f ds
    using that assms(2) by (induction ds) auto
  then show ?thesis using assms(1) by (cases rule: attempt_cases [of p now d s]) simp_all
qed

text \<open>The listed rows of a pass are still in the table when their turn comes.\<close>

definition listed :: "delivery list \<Rightarrow> hook_db \<Rightarrow> bool" where
  "listed ds db = (distinct (map wd_id ds) \<and> (\<forall>d \<in> set ds. d \<in> set (hd_deliveries db) \<and> pending d))"

lemma listed_due:
  assumes "distinct (map wd_id (hd_deliveries db))"
  shows "listed (pending_or_due_for_retry now batch db) db"
proof -
  have "distinct (map wd_id (sort_key wd_created_at (filter (due now) (hd_deliveries db))))"
    using assms by (simp add: distinct_map inj_on_def)
  then have "distinct (map wd_id (pending_or_due_for_retry now batch db))"
    unfolding pending_or_due_for_retry_def take_map [symmetric] by (rule distinct_take)
  then show ?thesis
    unfolding listed_def pending_or_due_for_retry_def
    by (auto simp: pending_def due_def dest!: in_set_takeD)
qed

lemma listed_tail:
  assumes "listed (d # ds) (ps_db s)"
  shows "listed ds (ps_db (snd (attempt_delivery p now d s)))"
  using assms attempt_keeps_others unfolding listed_def by (metis distinct.simps(2) image_iff list.set_intros(2) list.set_map list.simps(9))

lemma attempt_all_Cons:
  "snd (attempt_all p t (d # ds) s) =
     (let (r, s') = attempt_delivery p (pc_attempted_at t (wd_id d)) d s
      in if is_ok r then snd (attempt_all p t ds s') else s')"
  by (simp split: prod.split sum.split)

lemma attempt_all_counted:
  assumes "drawn_apart new_id" and "never_raised_by_posts p"
  shows "listed ds (ps_db s) \<Longrightarrow> ledger_ok new_id (ps_db s) \<Longrightarrow> counted (ps_db s) (ps_sent s) \<Longrightarrow>
    ledger_ok new_id (ps_db (snd (attempt_all p t ds s))) \<and>
    counted (ps_db (snd (attempt_all p t ds s))) (ps_sent (snd (attempt_all p t ds s)))"
proof (induction ds arbitrary: s)
  case (Cons d ds)
  let ?s' = "snd (attempt_delivery p (pc_attempted_at t (wd_id d)) d s)"
  have row: "d \<in> set (hd_deliveries (ps_db s))" "pending d" using Cons.prems(1) by (simp_all add: listed_def)
  have next_state: "listed ds (ps_db ?s')" "ledger_ok new_id (ps_db ?s')" "counted (ps_db ?s') (ps_sent ?s')"
    using listed_tail [OF Cons.prems(1)] ledger_attempt [OF Cons.prems(2)]
      attempt_counted [OF ledger_ids [OF Cons.prems(2) assms(1)] row Cons.prems(3) assms(2)]
    by blast+
  from Cons.IH [OF this] this show ?case
    unfolding attempt_all_Cons Let_def by (cases "attempt_delivery p (pc_attempted_at t (wd_id d)) d s") simp
qed simp

lemma counted_enqueue:
  assumes "counted db sent" and "ledger_ok new_id db" and "drawn_apart new_id"
  shows "counted (snd (enqueue_for_new_events new_id now batch tenant db)) sent"
proof -
  let ?new = "concat (map (fan_out new_id now (list_active tenant db)) (claimed batch db))"
  have "distinct (map wd_id (hd_deliveries db @ ?new))"
    using ledger_ids [OF ledger_enqueue [OF assms(2)] assms(3), of now batch tenant] unfolding enqueue_select .
  then have fresh: "wd_id ` set (hd_deliveries db) \<inter> wd_id ` set ?new = {}"
    unfolding map_append distinct_append set_map by blast
  have "counted_row sent d" if d: "d \<in> set ?new" for d
  proof -
    have "wd_id d \<notin> po_delivery_id ` set sent"
      using assms(1) fresh imageI [OF d, of wd_id] unfolding counted_def by blast
    moreover from d have "wd_retry_count d = 0" "pending d" by (auto simp: fan_out_def pending_def)
    ultimately show ?thesis by (simp add: counted_row_def posts_of_other)
  qed
  then show ?thesis
    using assms(1) unfolding counted_def enqueue_select set_append by blast
qed


section \<open>The ledger empties\<close>

definition weight :: "delivery \<Rightarrow> nat" where
  "weight d = (if pending d then 7 - wd_retry_count d else 0)"

definition total :: "hook_db \<Rightarrow> nat" where
  "total db = sum_list (map weight (hd_deliveries db))"

lemma weight_pos: "pending d \<Longrightarrow> wd_retry_count d \<le> 6 \<Longrightarrow> 0 < weight d"
  by (simp add: weight_def)

lemma settled_weight: "settles (wd_retry_count d) now f \<Longrightarrow> pending d \<Longrightarrow> wd_retry_count d \<le> 6 \<Longrightarrow> weight (f d) < weight d"
  unfolding settles_def by (auto simp: weight_def pending_def)

definition never_raises :: "publisher \<Rightarrow> hook_db \<Rightarrow> bool" where
  "never_raises p db = (never_raised_by_posts p \<and>
     (\<forall>h w x. w \<in> set (hd_webhooks db) \<longrightarrow> assert_safe_webhook_url (pb_dns p h) (pb_allow_private p) (wh_url w) \<noteq> Url_Raised x))"

text \<open>No retry is scheduled after \<open>before\<close>; nothing is left to claim.\<close>

definition scheduled_by :: "int \<Rightarrow> delivery \<Rightarrow> bool" where
  "scheduled_by before d = (pending d \<longrightarrow> (case wd_next_retry_at d of None \<Rightarrow> True | Some t \<Rightarrow> t \<le> before))"

definition calm :: "publisher \<Rightarrow> int \<Rightarrow> hook_db \<Rightarrow> bool" where
  "calm p before db =
     (distinct (map wd_id (hd_deliveries db)) \<and> (\<forall>r \<in> set (hd_events db). er_processed_at r \<noteq> None) \<and>
      (\<forall>d \<in> set (hd_deliveries db). wd_retry_count d \<le> 6 \<and> scheduled_by before d) \<and> never_raises p db)"

lemma calm_later: "calm p before db \<Longrightarrow> before \<le> after \<Longrightarrow> calm p after db"
  by (fastforce simp: calm_def scheduled_by_def split: option.splits)

lemma calm_settled:
  assumes "calm p after db" and d: "d \<in> set (hd_deliveries db)" "pending d"
    and f: "settles (wd_retry_count d) now f" and "now + 10800 * 1000000 \<le> after"
  shows "calm p after (update_delivery (wd_id d) f db) \<and> total (update_delivery (wd_id d) f db) < total db"
proof -
  have ids: "distinct (map wd_id (hd_deliveries db))" using assms(1) by (simp add: calm_def)
  obtain as bs where ds: "hd_deliveries db = as @ d # bs"
    and ds': "hd_deliveries (update_delivery (wd_id d) f db) = as @ f d # bs"
    unfolding update_delivery_select by (rule update_in_place [OF ids d(1)])
  have key: "wd_id (f d) = wd_id d" using keeps_keysD(1) [OF settles_keys [OF f]] .
  have retry: "wd_retry_count d \<le> 6" using assms(1) d(1) by (simp add: calm_def)
  have "wd_retry_count (f d) \<le> 6 \<and> scheduled_by after (f d)"
    using f retry assms(5) unfolding settles_def scheduled_by_def pending_def by auto
  moreover have "distinct (map wd_id (as @ f d # bs))" using ids key unfolding ds by simp
  ultimately have "calm p after (update_delivery (wd_id d) f db)"
    using assms(1) unfolding calm_def ds' never_raises_def update_delivery_select(1,2) ds by auto
  moreover have "total (update_delivery (wd_id d) f db) < total db"
    using settled_weight [OF f d(2) retry] unfolding total_def ds ds' by simp
  ultimately show ?thesis by blast
qed

lemma attempt_calm:
  assumes "calm p after (ps_db s)" and "d \<in> set (hd_deliveries (ps_db s))" "pending d"
    and "now + 10800 * 1000000 \<le> after"
  shows "is_ok (fst (attempt_delivery p now d s)) \<and> calm p after (ps_db (snd (attempt_delivery p now d s))) \<and>
    total (ps_db (snd (attempt_delivery p now d s))) < total (ps_db s)"
proof (cases rule: attempt_cases [of p now d s])
  case (guard_raised x)
  then obtain w where "find_webhook (wd_webhook_id d) (ps_db s) = Some w"
    "assert_safe_webhook_url (pb_dns p (ps_sent s)) (pb_allow_private p) (wh_url w) = Url_Raised x" by blast
  moreover from this have "w \<in> set (hd_webhooks (ps_db s))" by (auto simp: find_webhook_def find_Some_iff)
  ultimately show ?thesis using assms(1) by (auto simp: calm_def never_raises_def)
next
  case (abandoned f)
  then show ?thesis using calm_settled [OF assms(1-3) abandoned(2) assms(4)] by simp
next
  case (post_raised po x)
  then show ?thesis using assms(1) by (simp add: calm_def never_raises_def never_raised_by_posts_def)
next
  case (posted po f)
  then show ?thesis using calm_settled [OF assms(1-3) posted(2) assms(4)] by simp
qed

lemma attempts_calm:
  assumes "\<forall>i. pc_attempted_at t i + 10800 * 1000000 \<le> after"
  shows "calm p after (ps_db s) \<Longrightarrow> listed ds (ps_db s) \<Longrightarrow>
    calm p after (ps_db (snd (attempt_all p t ds s))) \<and>
    total (ps_db (snd (attempt_all p t ds s))) + length ds \<le> total (ps_db s)"
proof (induction ds arbitrary: s)
  case (Cons d ds)
  obtain r s' where step: "attempt_delivery p (pc_attempted_at t (wd_id d)) d s = (r, s')" by (metis surj_pair)
  have "is_ok r \<and> calm p after (ps_db s') \<and> total (ps_db s') < total (ps_db s)"
    using attempt_calm [OF Cons.prems(1), of d "pc_attempted_at t (wd_id d)"] Cons.prems(2) assms step
    by (simp add: listed_def)
  moreover have "listed ds (ps_db s')" using listed_tail [OF Cons.prems(2), of p "pc_attempted_at t (wd_id d)"] step by simp
  ultimately show ?case using Cons.IH [of s'] unfolding attempt_all_Cons step by simp
qed simp

lemma enqueue_calm: "calm p before db \<Longrightarrow> snd (enqueue_for_new_events new_id now batch tenant db) = db"
proof -
  assume "calm p before db"
  then have "\<forall>e \<in> set (hd_events db). er_processed_at e \<noteq> None" by (simp add: calm_def)
  then have "e \<notin> set (claimed batch db)" for e
    using claimed_unprocessed [of e batch db] by blast
  then have "claimed batch db = []" by (cases "claimed batch db") auto
  then show ?thesis
    by (simp add: enqueue_for_new_events_def claimed_def [symmetric] Let_def)
qed

lemma drain_calm:
  assumes "calm p before (ps_db s)" and "before \<le> pc_listed_at t" and "before \<le> after"
    and "\<forall>i. pc_attempted_at t i + 10800 * 1000000 \<le> after"
  shows "calm p after (ps_db (snd (drain_once p t s))) \<and>
    total (ps_db (snd (drain_once p t s))) \<le> total (ps_db s) - 1"
proof -
  let ?ds = "pending_or_due_for_retry (pc_listed_at t) 100 (ps_db s)"
  have db: "snd (drain_once p t s) = snd (attempt_all p t ?ds s)"
    by (simp add: drain_once_def Let_def enqueue_calm [OF assms(1)])
  have "listed ?ds (ps_db s)" using assms(1) by (intro listed_due) (simp add: calm_def)
  note attempts = attempts_calm [OF assms(4) calm_later [OF assms(1,3)] this]
  have "total (ps_db s) = 0" if "?ds = []"
  proof -
    have "filter (due (pc_listed_at t)) (hd_deliveries (ps_db s)) = []"
      using that by (simp add: pending_or_due_for_retry_def) (metis set_empty set_sort)
    then have "\<not> due (pc_listed_at t) d" if "d \<in> set (hd_deliveries (ps_db s))" for d
      using that by (simp add: filter_empty_conv)
    moreover have "due (pc_listed_at t) d" if "d \<in> set (hd_deliveries (ps_db s))" "pending d" for d
      using assms(1,2) that by (fastforce simp: calm_def scheduled_by_def due_def pending_def split: option.splits)
    ultimately show ?thesis by (auto simp: total_def weight_def)
  qed
  then show ?thesis unfolding db using attempts by (cases ?ds) auto
qed

text \<open>Passes at rest: each lists after everything the ones before it scheduled.\<close>

fun spaced :: "int \<Rightarrow> pass_clock list \<Rightarrow> bool" where
  "spaced before [] = True"
| "spaced before (t # ts) = (before \<le> pc_listed_at t \<and>
     (\<exists>after \<ge> before. (\<forall>i. pc_attempted_at t i + 10800 * 1000000 \<le> after) \<and> spaced after ts))"

lemma passes_calm:
  "calm p before (ps_db s) \<Longrightarrow> spaced before passes \<Longrightarrow> total (ps_db s) \<le> length passes \<Longrightarrow>
     (\<exists>after. calm p after (ps_db (publisher_loop p passes s))) \<and> total (ps_db (publisher_loop p passes s)) = 0"
proof (induction passes arbitrary: before s)
  case (Cons t passes)
  then obtain after where after: "before \<le> after" "\<forall>i. pc_attempted_at t i + 10800 * 1000000 \<le> after" "spaced after passes"
    and "before \<le> pc_listed_at t" by auto
  note pass = drain_calm [OF Cons.prems(1) this(4) after(1,2)]
  have "total (ps_db (snd (drain_once p t s))) \<le> length passes"
    using conjunct2 [OF pass] Cons.prems(3) by simp
  with Cons.IH [OF conjunct1 [OF pass] after(3)] show ?case by (simp add: publisher_loop_def)
qed (auto simp: publisher_loop_def)


section \<open>One delivery can stop all\<close>

lemma sort_key_head:
  assumes "x \<in> set xs" and "\<And>y. y \<in> set xs \<Longrightarrow> y \<noteq> x \<Longrightarrow> f x < f y"
  shows "\<exists>ys. sort_key f xs = x # ys"
proof (cases "sort_key f xs")
  case Nil
  then show ?thesis using assms(1) by (metis empty_iff empty_set set_sort)
next
  case (Cons y ys)
  have "sorted (map f (y # ys))" using sorted_sort_key [of f xs] unfolding Cons .
  moreover have "x \<in> set (y # ys)" "y \<in> set xs" using assms(1) Cons by (metis set_sort, metis list.set_intros(1) set_sort)
  ultimately have "f y \<le> f x" by auto
  with assms(2) \<open>y \<in> set xs\<close> have "y = x" by (meson leD)
  with Cons show ?thesis by blast
qed

text \<open>A pending row of an active subscriber whose URL makes the guard raise, older than all others.\<close>

definition poison :: "publisher \<Rightarrow> delivery \<Rightarrow> hook_db \<Rightarrow> bool" where
  "poison p d db =
     (d \<in> set (hd_deliveries db) \<and> pending d \<and> wd_next_retry_at d = None \<and>
      (\<forall>d' \<in> set (hd_deliveries db). d' \<noteq> d \<longrightarrow> wd_created_at d < wd_created_at d') \<and>
      (\<exists>r \<in> set (hd_events db). er_id r = wd_event_id d) \<and>
      (\<exists>w. find_webhook (wd_webhook_id d) db = Some w \<and> wh_active w \<and>
         (\<forall>h. case assert_safe_webhook_url (pb_dns p h) (pb_allow_private p) (wh_url w) of Url_Raised x \<Rightarrow> True | _ \<Rightarrow> False)))"

lemma poison_attempt:
  assumes "poison p d (ps_db s)"
  shows "\<exists>x. attempt_delivery p now d s = (Inl x, s)"
proof -
  obtain w r where "find_webhook (wd_webhook_id d) (ps_db s) = Some w" "wh_active w"
    and raises: "case assert_safe_webhook_url (pb_dns p (ps_sent s)) (pb_allow_private p) (wh_url w) of Url_Raised x \<Rightarrow> True | _ \<Rightarrow> False"
    and "r \<in> set (hd_events (ps_db s))" "er_id r = wd_event_id d"
    using assms unfolding poison_def by blast
  moreover from this(4,5) obtain e where "find (\<lambda>e. er_id e = wd_event_id d) (hd_events (ps_db s)) = Some e"
    by (cases "find (\<lambda>e. er_id e = wd_event_id d) (hd_events (ps_db s))") (auto simp: find_None_iff)
  ultimately show ?thesis
    using raises by (cases "assert_safe_webhook_url (pb_dns p (ps_sent s)) (pb_allow_private p) (wh_url w)")
      (simp_all add: attempt_delivery_def)
qed

lemma poison_enqueue:
  assumes poison: "poison p d db" and now: "wd_created_at d < now"
  shows "poison p d (snd (enqueue_for_new_events new_id now batch tenant db))"
proof -
  let ?db = "snd (enqueue_for_new_events new_id now batch tenant db)"
  let ?new = "concat (map (fan_out new_id now (list_active tenant db)) (claimed batch db))"
  have "wd_created_at x = now" if "x \<in> set ?new" for x
    using that by (auto simp: fan_out_def)
  then have "\<forall>d' \<in> set (hd_deliveries ?db). d' \<noteq> d \<longrightarrow> wd_created_at d < wd_created_at d'"
    using poison now unfolding enqueue_select poison_def set_append by (metis Un_iff)
  moreover obtain r where r: "r \<in> set (hd_events db)" "er_id r = wd_event_id d"
    using poison unfolding poison_def by blast
  have "\<exists>r' \<in> set (hd_events ?db). er_id r' = wd_event_id d"
    unfolding enqueue_select set_map using r
    by (intro bexI [OF _ imageI [OF r(1)]]) simp
  moreover have "find_webhook i ?db = find_webhook i db" for i
    by (simp add: find_webhook_def enqueue_select)
  ultimately show ?thesis
    using poison unfolding poison_def by (simp add: enqueue_select)
qed

lemma poison_pass:
  assumes "poison p d (ps_db s)" and "wd_created_at d < pc_enqueued_at t"
  shows "poison p d (ps_db (snd (drain_once p t s))) \<and> ps_sent (snd (drain_once p t s)) = ps_sent s \<and>
    set (hd_deliveries (ps_db s)) \<subseteq> set (hd_deliveries (ps_db (snd (drain_once p t s))))"
proof -
  let ?s1 = "s\<lparr>ps_db := snd (enqueue_for_new_events (pc_new_id t) (pc_enqueued_at t) 200 1 (ps_db s))\<rparr>"
  have poison: "poison p d (ps_db ?s1)" using poison_enqueue [OF assms] by simp
  then have "\<exists>ys. sort_key wd_created_at (filter (due (pc_listed_at t)) (hd_deliveries (ps_db ?s1))) = d # ys"
    by (intro sort_key_head) (auto simp: poison_def due_def pending_def)
  then obtain ys where "pending_or_due_for_retry (pc_listed_at t) 100 (ps_db ?s1) = d # ys"
    by (auto simp: pending_or_due_for_retry_def)
  moreover obtain x where "attempt_delivery p (pc_attempted_at t (wd_id d)) d ?s1 = (Inl x, ?s1)"
    using poison_attempt [OF poison] by blast
  ultimately have "snd (drain_once p t s) = ?s1" by (simp add: drain_once_def Let_def)
  with poison show ?thesis by (simp add: enqueue_select)
qed

text \<open>
  C33: A single delivery can stop the publisher. When the oldest pending delivery belongs to an active subscriber whose URL makes the
  guard raise something other than its own error, as a port out of range does, then no pass ever
  sends a post again and no delivery ever changes: the exception ends every pass at its first
  attempt.
\<close>

theorem one_bad_url_stops_all_deliveries:
  assumes "poison p d (ps_db s)" and "\<forall>t \<in> set passes. wd_created_at d < pc_enqueued_at t"
  shows "ps_sent (publisher_loop p passes s) = ps_sent s \<and>
    set (hd_deliveries (ps_db s)) \<subseteq> set (hd_deliveries (ps_db (publisher_loop p passes s)))"
  using assms
proof (induction passes arbitrary: s)
  case (Cons t passes)
  note pass = poison_pass [OF Cons.prems(1), of t]
  with Cons.prems(2) Cons.IH [of "snd (drain_once p t s)"] show ?case by (auto simp: publisher_loop_def)
qed (simp add: publisher_loop_def)

section \<open>Samples\<close>

text \<open>One subscriber, one event, the tables before and after the fan-out, and a subscriber that never answers.\<close>

definition sample_id :: "int \<Rightarrow> string \<Rightarrow> string" where
  "sample_id e w = (if e < 0 then CHR ''-'' else CHR ''+'') # replicate (nat \<bar>e\<bar>) (CHR ''i'') @ CHR ''/'' # w"

definition sample_webhook :: "string \<Rightarrow> webhook" where
  "sample_webhook url = \<lparr>wh_id = ''wh_1'', wh_url = url, wh_event_filters = [''run.failed''], wh_hmac_secret = ''k'',
     wh_active = True, wh_tenant_id = 1, wh_created_at = 0\<rparr>"

definition sample_event :: "int option \<Rightarrow> event_row" where
  "sample_event processed = \<lparr>ev_kind = ''run.failed'', ev_payload = [], ev_tenant_id = 1,
     er_id = 1, er_occurred_at = None, er_processed_at = processed\<rparr>"

definition sample_delivery :: delivery where
  "sample_delivery = \<lparr>wd_id = sample_id 1 ''wh_1'', wd_webhook_id = ''wh_1'', wd_event_id = 1, wd_attempted_at = None,
     wd_response_status = None, wd_response_body = None, wd_retry_count = 0, wd_status = Delivery_Pending,
     wd_next_retry_at = None, wd_created_at = 0\<rparr>"

definition sample_new :: "string \<Rightarrow> pub_state" where
  "sample_new url = \<lparr>ps_db = \<lparr>hd_webhooks = [sample_webhook url], hd_deliveries = [], hd_events = [sample_event None]\<rparr>, ps_sent = []\<rparr>"

definition sample_queued :: "string \<Rightarrow> pub_state" where
  "sample_queued url = \<lparr>ps_db = \<lparr>hd_webhooks = [sample_webhook url], hd_deliveries = [sample_delivery],
     hd_events = [sample_event (Some 0)]\<rparr>, ps_sent = []\<rparr>"

definition sample_publisher :: publisher where
  "sample_publisher = \<lparr>pb_allow_private = False, pb_dns = (\<lambda>sent host port. Gai_Error), pb_answer = (\<lambda>sent po. Post_Http_Error ''timeout''),
     pb_hmac_sha256 = (\<lambda>key body. key @ body), pb_dumps = (\<lambda>j. ''{}'')\<rparr>"

definition sample_pass :: "int \<Rightarrow> pass_clock" where
  "sample_pass t = \<lparr>pc_enqueued_at = t, pc_listed_at = t, pc_attempted_at = (\<lambda>i. t), pc_new_id = sample_id\<rparr>"

text \<open>Eight passes, three hours and more apart.\<close>

definition sample_passes :: "pass_clock list" where
  "sample_passes = map (\<lambda>n. sample_pass (n * 20000000000)) [1, 2, 3, 4, 5, 6, 7, 8]"

lemma sample_ids_apart: "drawn_apart sample_id"
proof -
  have "e = e' \<and> w = w'" if eq: "sample_id e w = sample_id e' w'" for e e' w w'
  proof -
    have parts: "hd (sample_id e w) = (if e < 0 then CHR ''-'' else CHR ''+'')"
      "takeWhile (\<lambda>c. c = CHR ''i'') (tl (sample_id e w)) = replicate (nat \<bar>e\<bar>) (CHR ''i'')"
      "dropWhile (\<lambda>c. c = CHR ''i'') (tl (sample_id e w)) = CHR ''/'' # w" for e w
      by (simp_all add: sample_id_def takeWhile_append dropWhile_append)
    have "e < 0 \<longleftrightarrow> e' < 0" using parts(1) [of e w] parts(1) [of e' w'] eq by (auto split: if_splits)
    moreover have "nat \<bar>e\<bar> = nat \<bar>e'\<bar>" using parts(2) [of e w] parts(2) [of e' w'] eq by (metis length_replicate)
    moreover have "w = w'" using parts(3) [of e w] parts(3) [of e' w'] eq by simp
    ultimately show ?thesis by auto
  qed
  then show ?thesis unfolding drawn_apart_def by blast
qed

lemma sample_posts: "posts_of (sample_id 1 ''wh_1'') (ps_sent (publisher_loop sample_publisher sample_passes (sample_new ''http://8.8.8.8/''))) = 7"
  by code_simp



lemma spaced_sample: "spaced (t + 10800000000) ts \<Longrightarrow> before \<le> t \<Longrightarrow> spaced before (sample_pass t # ts)"
  by (auto simp: sample_pass_def intro!: exI [of _ "t + 10800000000"])

lemma sample_spaced: "spaced 0 sample_passes"
  unfolding sample_passes_def list.map by (intro spaced_sample) simp_all


theorem one_bad_url_stops_all_deliveries_witness:
  "ps_sent (publisher_loop sample_publisher sample_passes (sample_queued ''http://h:99999/'')) = [] \<and>
    sample_delivery \<in> set (hd_deliveries (ps_db (publisher_loop sample_publisher sample_passes (sample_queued ''http://h:99999/''))))"
proof -
  have "assert_safe_webhook_url dns False ''http://h:99999/'' = Url_Raised ''Port out of range 0-65535''" for dns by code_simp
  then have "poison sample_publisher sample_delivery (ps_db (sample_queued ''http://h:99999/''))"
    by (simp add: poison_def sample_publisher_def sample_queued_def sample_webhook_def sample_event_def sample_delivery_def
        pending_def find_webhook_def)
  moreover have "\<forall>t \<in> set sample_passes. wd_created_at sample_delivery < pc_enqueued_at t"
    by (simp add: sample_passes_def sample_pass_def sample_delivery_def)
  ultimately show ?thesis
    using one_bad_url_stops_all_deliveries [of sample_publisher sample_delivery "sample_queued ''http://h:99999/''" sample_passes]
    by (simp add: sample_queued_def)
qed

end
