(* ===== verification/Pagination.thy ===== *)
theory Pagination
  imports Api_Tokens Job_Queue "HOL-Library.List_Lexorder" "HOL-Library.Product_Lexorder"
begin

text \<open>
  Cursor pagination, \<open>api/pagination.py\<close>, and the job listing of \<open>api/routers/jobs.py\<close>.

  The encodings of the standard library (base64, JSON text, ISO dates) are arguments with the laws they
  document; everything the module does with them is a definition.
\<close>

section \<open>Cursors\<close>

text \<open>A \<open>datetime\<close> with or without its offset; Python refuses to order one against the other.\<close>

datatype instant = Aware int | Naive int

record cursor =
  cu_last_id :: string
  cu_created_at :: instant

record cursor_codec =
  cc_b64encode :: "string \<Rightarrow> string"
  cc_b64decode :: "string \<Rightarrow> string option"
  cc_dumps :: "json \<Rightarrow> string"
  cc_loads :: "string \<Rightarrow> json option"
  cc_iso :: "int \<Rightarrow> string"
  cc_fromiso :: "string \<Rightarrow> instant option"
  cc_str :: "json \<Rightarrow> string"

definition encode_cursor :: "cursor_codec \<Rightarrow> string \<Rightarrow> int \<Rightarrow> string" where
  "encode_cursor c last_id created_at =
     cc_b64encode c (cc_dumps c (JObject [(''last_id'', JString last_id), (''created_at'', JString (cc_iso c created_at))]))"

definition py_str :: "cursor_codec \<Rightarrow> json \<Rightarrow> string" where
  "py_str c j = (case j of JString s \<Rightarrow> s | _ \<Rightarrow> cc_str c j)"

definition decode_cursor :: "cursor_codec \<Rightarrow> string \<Rightarrow> api_exception + cursor" where
  "decode_cursor c raw =
     (let malformed = Inl (bad_request ''Malformed pagination cursor.'' [(''cursor'', JString raw)])
      in case cc_b64decode c raw of
           None \<Rightarrow> malformed
         | Some decoded \<Rightarrow>
             (case cc_loads c decoded of
                Some (JObject data) \<Rightarrow>
                  (case map_of data ''last_id'' of
                     None \<Rightarrow> malformed
                   | Some i \<Rightarrow>
                       (case map_of data ''created_at'' of
                          Some (JString t) \<Rightarrow>
                            (case cc_fromiso c t of
                               None \<Rightarrow> malformed
                             | Some created \<Rightarrow> Inr \<lparr>cu_last_id = py_str c i, cu_created_at = created\<rparr>)
                        | _ \<Rightarrow> malformed))
              | _ \<Rightarrow> malformed))"

section \<open>Pages\<close>

definition DEFAULT_LIMIT :: int where "DEFAULT_LIMIT = 50"
definition MAX_LIMIT :: int where "MAX_LIMIT = 200"
definition CANDIDATE_CEILING :: nat where "CANDIDATE_CEILING = 1000"

record page_params =
  pp_limit :: int
  pp_cursor :: "cursor option"

definition clamp_limit :: "int option \<Rightarrow> int" where
  "clamp_limit limit =
     (case limit of None \<Rightarrow> DEFAULT_LIMIT | Some n \<Rightarrow> if n < 1 then 1 else min n MAX_LIMIT)"

definition make_page_params :: "cursor_codec \<Rightarrow> string option \<Rightarrow> int option \<Rightarrow> api_exception + page_params" where
  "make_page_params c cursor limit =
     (case cursor of
        Some raw \<Rightarrow>
          if raw = [] then Inr \<lparr>pp_limit = clamp_limit limit, pp_cursor = None\<rparr>
          else bind_result (decode_cursor c raw) (\<lambda>cu. Inr \<lparr>pp_limit = clamp_limit limit, pp_cursor = Some cu\<rparr>)
      | None \<Rightarrow> Inr \<lparr>pp_limit = clamp_limit limit, pp_cursor = None\<rparr>)"

text \<open>Comparing a cursor without offset with the offset of a row is a \<open>TypeError\<close>.\<close>

definition is_before :: "int \<Rightarrow> string \<Rightarrow> cursor \<Rightarrow> string + bool" where
  "is_before created_at item_id cu =
     (case cu_created_at cu of
        Naive t \<Rightarrow> Inl ''TypeError''
      | Aware t \<Rightarrow>
          Inr (if created_at < t then True else if created_at = t then item_id < cu_last_id cu else False))"

record 'a page_result =
  pr_items :: "'a list"
  pr_next_cursor :: "string option"
  pr_has_more :: bool

definition order_candidates :: "('a \<Rightarrow> string) \<Rightarrow> ('a \<Rightarrow> int) \<Rightarrow> 'a list \<Rightarrow> 'a list" where
  "order_candidates id_of created_of candidates =
     rev (sort_key (\<lambda>x. (created_of x, id_of x)) (rev candidates))"

fun keep_before :: "('a \<Rightarrow> string) \<Rightarrow> ('a \<Rightarrow> int) \<Rightarrow> cursor \<Rightarrow> 'a list \<Rightarrow> string + 'a list" where
  "keep_before id_of created_of cu [] = Inr []"
| "keep_before id_of created_of cu (x # xs) =
     bind_result (is_before (created_of x) (id_of x) cu)
       (\<lambda>b. bind_result (keep_before id_of created_of cu xs) (\<lambda>ys. Inr (if b then x # ys else ys)))"

definition paginate ::
  "cursor_codec \<Rightarrow> ('a \<Rightarrow> string) \<Rightarrow> ('a \<Rightarrow> int) \<Rightarrow> page_params \<Rightarrow> 'a list \<Rightarrow> string + 'a page_result" where
  "paginate c id_of created_of params candidates =
     bind_result (case pp_cursor params of None \<Rightarrow> Inr candidates | Some cu \<Rightarrow> keep_before id_of created_of cu candidates)
       (\<lambda>filtered.
          let window = slice_to filtered (pp_limit params + 1);
              has_more = int (length window) > pp_limit params;
              items = slice_to window (pp_limit params);
              next_cursor = (if has_more \<and> items \<noteq> [] then Some (encode_cursor c (id_of (last items)) (created_of (last items))) else None)
          in Inr \<lparr>pr_items = items, pr_next_cursor = next_cursor, pr_has_more = has_more\<rparr>)"

text \<open>\<open>Inl (Inl e)\<close> is an error response, \<open>Inl (Inr x)\<close> an exception that escapes.\<close>

type_synonym 'a paged = "(api_exception + string) + 'a page_result"

definition page_of ::
  "cursor_codec \<Rightarrow> ('a \<Rightarrow> string) \<Rightarrow> ('a \<Rightarrow> int) \<Rightarrow> int option \<Rightarrow> 'a list \<Rightarrow> string option \<Rightarrow> 'a paged" where
  "page_of c id_of created_of limit candidates cursor =
     (case make_page_params c cursor limit of
        Inl e \<Rightarrow> Inl (Inl e)
      | Inr params \<Rightarrow>
          (case paginate c id_of created_of params (order_candidates id_of created_of candidates) of
             Inl x \<Rightarrow> Inl (Inr x)
           | Inr page \<Rightarrow> Inr page))"

definition list_jobs_page :: "cursor_codec \<Rightarrow> int option \<Rightarrow> job_status option \<Rightarrow> store \<Rightarrow> string option \<Rightarrow> job paged" where
  "list_jobs_page c limit status db cursor =
     page_of c j_id j_created_at limit (list_jobs db status 1 CANDIDATE_CEILING) cursor"

text \<open>
  A client that follows the cursors: one entry per request, which answers from the state
  of its time. The result is what it has read and whether it has read the last page.
\<close>

fun follow :: "(string option \<Rightarrow> 'a paged) list \<Rightarrow> string option \<Rightarrow> (api_exception + string) + 'a list \<times> bool" where
  "follow [] cursor = Inr ([], False)"
| "follow (request # requests) cursor =
     bind_result (request cursor)
       (\<lambda>page. case pr_next_cursor page of
          None \<Rightarrow> Inr (pr_items page, True)
        | Some n \<Rightarrow> bind_result (follow requests (Some n)) (\<lambda>(xs, done). Inr (pr_items page @ xs, done)))"

section \<open>A page is a window of the keys\<close>

definition codec_ok :: "cursor_codec \<Rightarrow> bool" where
  "codec_ok c =
     ((\<forall>s. cc_b64decode c (cc_b64encode c s) = Some s) \<and> (\<forall>s. s \<noteq> [] \<longrightarrow> cc_b64encode c s \<noteq> []) \<and> (\<forall>j. cc_dumps c j \<noteq> []) \<and>
      (\<forall>i t. cc_loads c (cc_dumps c (JObject [(''last_id'', JString i), (''created_at'', JString t)])) =
         Some (JObject [(''last_id'', JString i), (''created_at'', JString t)])) \<and>
      (\<forall>t. cc_fromiso c (cc_iso c t) = Some (Aware t)))"

lemma decode_encode:
  assumes "codec_ok c"
  shows "decode_cursor c (encode_cursor c i t) = Inr \<lparr>cu_last_id = i, cu_created_at = Aware t\<rparr>" "encode_cursor c i t \<noteq> []"
  using assms by (simp_all add: codec_ok_def decode_cursor_def encode_cursor_def py_str_def)

definition below :: "('a \<Rightarrow> 'k::linorder) \<Rightarrow> 'k option \<Rightarrow> 'a \<Rightarrow> bool" where
  "below key k x = (case k of None \<Rightarrow> True | Some l \<Rightarrow> key x < l)"

lemma below_simps [simp]: "below key None x" "below key (Some l) x \<longleftrightarrow> key x < l"
  by (simp_all add: below_def)

definition order_key :: "('a \<Rightarrow> string) \<Rightarrow> ('a \<Rightarrow> int) \<Rightarrow> 'a \<Rightarrow> int \<times> string" where
  "order_key id_of created_of x = (created_of x, id_of x)"

definition cursor_at :: "cursor_codec \<Rightarrow> (int \<times> string) option \<Rightarrow> string option" where
  "cursor_at c k = map_option (\<lambda>(t, i). encode_cursor c i t) k"

definition window :: "cursor_codec \<Rightarrow> ('a \<Rightarrow> string) \<Rightarrow> ('a \<Rightarrow> int) \<Rightarrow> nat \<Rightarrow> 'a list \<Rightarrow> 'a page_result" where
  "window c id_of created_of n xs =
     \<lparr>pr_items = take n xs,
      pr_next_cursor = (if n < length xs then cursor_at c (Some (order_key id_of created_of (last (take n xs)))) else None),
      pr_has_more = n < length xs\<rparr>"

definition page_size :: "int option \<Rightarrow> nat" where
  "page_size limit = nat (clamp_limit limit)"

lemma clamp_limit_bounds: "1 \<le> clamp_limit limit \<and> clamp_limit limit \<le> MAX_LIMIT"
  by (simp add: clamp_limit_def DEFAULT_LIMIT_def MAX_LIMIT_def split: option.split)

lemma page_size_pos [simp]: "0 < page_size limit"
  using clamp_limit_bounds [of limit] by (simp add: page_size_def)

lemma keep_before_filter:
  "keep_before id_of created_of \<lparr>cu_last_id = i, cu_created_at = Aware t\<rparr> xs =
     Inr (filter (below (order_key id_of created_of) (Some (t, i))) xs)"
  by (induction xs) (auto simp: is_before_def order_key_def less_prod_def')

lemma paginate_window:
  assumes "0 < n"
  shows "paginate c id_of created_of \<lparr>pp_limit = int n, pp_cursor = map_option (\<lambda>(t, i). \<lparr>cu_last_id = i, cu_created_at = Aware t\<rparr>) k\<rparr> xs =
    Inr (window c id_of created_of n (filter (below (order_key id_of created_of) k) xs))"
proof -
  have slices: "slice_to ys (int n + 1) = take (Suc n) ys" "slice_to ys (int n) = take n ys" for ys :: "'a list"
    by (simp_all add: slice_to_def nat_add_distrib)
  have more: "(n < length (take (Suc n) ys)) = (n < length ys)" for ys :: "'a list" by auto
  have some: "n < length ys \<Longrightarrow> take n ys \<noteq> []" for ys :: "'a list" using assms by auto
  show ?thesis
    by (cases k)
      (use assms in \<open>auto simp: paginate_def keep_before_filter slices more some window_def cursor_at_def order_key_def Let_def\<close>)
qed

lemma page_of_window:
  assumes "codec_ok c"
  shows "page_of c id_of created_of limit xs (cursor_at c k) =
    Inr (window c id_of created_of (page_size limit)
      (filter (below (order_key id_of created_of) k) (order_candidates id_of created_of xs)))"
proof -
  have limit: "clamp_limit limit = int (page_size limit)" using clamp_limit_bounds [of limit] by (simp add: page_size_def)
  have "make_page_params c (cursor_at c k) limit =
      Inr \<lparr>pp_limit = int (page_size limit), pp_cursor = map_option (\<lambda>(t, i). \<lparr>cu_last_id = i, cu_created_at = Aware t\<rparr>) k\<rparr>"
    using decode_encode [OF assms] by (cases k) (auto simp: make_page_params_def cursor_at_def limit)
  then show ?thesis by (simp add: page_of_def paginate_window)
qed

section \<open>Following the cursors\<close>

definition descending :: "('a \<Rightarrow> 'k::linorder) \<Rightarrow> 'a list \<Rightarrow> bool" where
  "descending key xs = sorted_wrt (\<lambda>x y. key y < key x) xs"

lemma order_candidates_descending:
  assumes "distinct (map (order_key id_of created_of) xs)"
  shows "descending (order_key id_of created_of) (order_candidates id_of created_of xs)"
proof -
  let ?key = "order_key id_of created_of"
  let ?ys = "sort_key ?key (rev xs)"
  have ord: "order_candidates id_of created_of xs = rev ?ys"
    unfolding order_candidates_def by (rule arg_cong [of _ _ rev], rule arg_cong [of _ _ "\<lambda>f. sort_key f (rev xs)"]) (simp add: order_key_def fun_eq_iff)
  have "sorted (map ?key ?ys)" by (rule sorted_sort_key)
  moreover have "distinct (map ?key ?ys)" using assms by (simp add: distinct_map inj_on_def)
  ultimately have "sorted_wrt (<) (map ?key ?ys)" by (simp add: strict_sorted_iff)
  then show ?thesis by (simp add: ord descending_def sorted_wrt_rev sorted_wrt_map)
qed

lemma set_order_candidates [simp]: "set (order_candidates id_of created_of xs) = set xs"
  by (simp add: order_candidates_def)

lemma descending_filter: "descending key xs \<Longrightarrow> descending key (filter P xs)"
  by (simp add: descending_def sorted_wrt_filter)

lemma descending_append: "descending key (xs @ ys) \<longleftrightarrow> descending key xs \<and> descending key ys \<and> (\<forall>x \<in> set xs. \<forall>y \<in> set ys. key y < key x)"
  by (auto simp: descending_def sorted_wrt_append)

text \<open>What a full page leaves is below its last row, and the other way round.\<close>

lemma window_split:
  assumes "descending key xs" and "0 < n" and "n < length xs"
  shows "\<forall>x \<in> set (take n xs). key (last (take n xs)) \<le> key x"
    "filter (below key (Some (key (last (take n xs))))) xs = drop n xs"
proof -
  let ?l = "last (take n xs)"
  have "take n xs \<noteq> []" using assms(2,3) by auto
  then have parts: "take n xs = butlast (take n xs) @ [?l]" by simp
  have take: "descending key (butlast (take n xs) @ [?l])"
    using assms(1) parts append_take_drop_id [of n xs] by (metis descending_append)
  then show least: "\<forall>x \<in> set (take n xs). key ?l \<le> key x"
    by (subst parts) (auto simp: descending_append)
  have "\<forall>y \<in> set (drop n xs). key y < key ?l"
    using assms(1) parts append_take_drop_id [of n xs] by (metis descending_append in_set_conv_decomp)
  then have "filter (below key (Some (key ?l))) (drop n xs) = drop n xs" by (intro filter_True) simp
  moreover have "filter (below key (Some (key ?l))) (take n xs) = []"
    using least by (simp add: filter_empty_conv not_less)
  ultimately have "filter (below key (Some (key ?l))) (take n xs @ drop n xs) = drop n xs"
    unfolding filter_append by simp
  then show "filter (below key (Some (key ?l))) xs = drop n xs" by simp
qed

lemma cursor_at_start [simp]: "cursor_at c None = None"
  by (simp add: cursor_at_def)

lemma cursor_at_None [simp]: "cursor_at c k = None \<longleftrightarrow> k = None"
  by (simp add: cursor_at_def split: prod.split)

lemma follow_page:
  assumes "codec_ok c"
  shows "follow (page_of c id_of created_of limit xs # requests) (cursor_at c k) =
    (let ys = filter (below (order_key id_of created_of) k) (order_candidates id_of created_of xs); n = page_size limit
     in if n < length ys then
          bind_result (follow requests (cursor_at c (Some (order_key id_of created_of (last (take n ys))))))
            (\<lambda>(zs, finished). Inr (take n ys @ zs, finished))
        else Inr (ys, True))"
proof -
  show ?thesis
    unfolding follow.simps page_of_window [OF assms] bind_result.simps Let_def window_def
    by (cases "cursor_at c (Some (order_key id_of created_of (last (take (page_size limit)
        (filter (below (order_key id_of created_of) k) (order_candidates id_of created_of xs))))))") auto
qed

lemma follow_snapshots:
  fixes id_of :: "'a \<Rightarrow> string" and created_of :: "'a \<Rightarrow> int"
  defines "key \<equiv> order_key id_of created_of"
  assumes "codec_ok c"
  shows "\<forall>xs \<in> set snapshots. distinct (map key xs) \<Longrightarrow>
    follow (map (page_of c id_of created_of limit) snapshots) (cursor_at c k) = Inr (items, finished) \<Longrightarrow>
    descending key items \<and> (\<forall>x \<in> set items. below key k x \<and> (\<exists>xs \<in> set snapshots. x \<in> set xs)) \<and>
    (finished \<longrightarrow> (\<forall>l. (\<forall>xs \<in> set snapshots. l \<in> key ` set xs) \<and> below (\<lambda>l. l) k l \<longrightarrow> l \<in> key ` set items))"
proof (induction snapshots arbitrary: k items finished)
  case Nil
  then show ?case by (simp add: descending_def)
next
  case (Cons xs snapshots)
  let ?ord = "order_candidates id_of created_of xs"
  let ?ys = "filter (below key k) ?ord"
  let ?n = "page_size limit"
  have sorted: "descending key ?ys"
    unfolding key_def by (intro descending_filter order_candidates_descending) (use Cons.prems(1) in \<open>simp add: key_def\<close>)
  have keys: "l \<in> key ` set ?ys" if "l \<in> key ` set xs" "below (\<lambda>l. l) k l" for l
    using that by (cases k) auto
  note step = Cons.prems(2) [unfolded list.map follow_page [OF assms(2)], folded key_def]
  show ?case
  proof (cases "?n < length ?ys")
    case False
    then have "items = ?ys" using step by (simp add: Let_def)
    then show ?thesis using sorted keys by (simp add: image_iff)
  next
    case True
    let ?l = "key (last (take ?n ?ys))"
    obtain zs where rest: "follow (map (page_of c id_of created_of limit) snapshots) (cursor_at c (Some ?l)) = Inr (zs, finished)"
      and items: "items = take ?n ?ys @ zs"
      using step True by (auto simp: Let_def bind_result_Inr_iff)
    have "\<forall>xs \<in> set snapshots. distinct (map key xs)" using Cons.prems(1) by simp
    note ih = Cons.IH [OF this rest]
    have tail: "descending key zs" "\<And>x. x \<in> set zs \<Longrightarrow> key x < ?l" "\<And>x. x \<in> set zs \<Longrightarrow> \<exists>xs \<in> set snapshots. x \<in> set xs"
      "\<And>l. finished \<Longrightarrow> \<forall>xs \<in> set snapshots. l \<in> key ` set xs \<Longrightarrow> l < ?l \<Longrightarrow> l \<in> key ` set zs"
      using ih by (simp_all del: split_paired_All)
    note split = window_split [OF sorted page_size_pos True]
    have "descending key (take ?n ?ys)"
      using sorted append_take_drop_id [of ?n ?ys] by (metis descending_append)
    then have "descending key items"
      using tail(1,2) split(1) unfolding items descending_append by (meson less_le_trans)
    moreover have "below key k x \<and> (\<exists>xs' \<in> set (xs # snapshots). x \<in> set xs')" if "x \<in> set items" for x
    proof (cases "x \<in> set (take ?n ?ys)")
      case True
      then have "x \<in> set ?ys" by (rule in_set_takeD)
      then show ?thesis by simp
    next
      case False
      then have "x \<in> set zs" using that items by simp
      moreover have "last (take ?n ?ys) \<in> set ?ys"
        using \<open>?n < length ?ys\<close> page_size_pos [of limit] by (intro in_set_takeD [OF last_in_set]) auto
      then have "below key k (last (take ?n ?ys))" by simp
      ultimately show ?thesis
        using tail(2,3) by (cases k) (auto dest: less_trans)
    qed
    moreover have "l \<in> key ` set items"
      if "finished" "\<forall>xs' \<in> set (xs # snapshots). l \<in> key ` set xs'" "below (\<lambda>l. l) k l" for l
    proof -
      note here = that(1,2)
      have "l \<in> key ` set ?ys" by (rule keys) (use that(2,3) in simp_all)
      then obtain y where y: "y \<in> set ?ys" "l = key y" by blast
      show ?thesis
      proof (cases "y \<in> set (take ?n ?ys)")
        case True
        then show ?thesis using y(2) items by simp
      next
        case False
        then have "y \<in> set (drop ?n ?ys)" using y(1) by (metis Un_iff append_take_drop_id set_append)
        then have "key y < ?l" unfolding split(2) [symmetric] by simp
        then have "l \<in> key ` set zs" using tail(4) here y(2) by simp
        then show ?thesis using items by auto
      qed
    qed
    ultimately show ?thesis by blast
  qed
qed

lemma follow_still:
  fixes id_of :: "'a \<Rightarrow> string" and created_of :: "'a \<Rightarrow> int"
  defines "key \<equiv> order_key id_of created_of"
  assumes "codec_ok c" and "distinct (map key xs)"
  shows "length (filter (below key k) (order_candidates id_of created_of xs)) \<le> page_size limit * Suc n \<Longrightarrow>
    follow (map (page_of c id_of created_of limit) (replicate (Suc n) xs)) (cursor_at c k) =
      Inr (filter (below key k) (order_candidates id_of created_of xs), True)"
proof (induction n arbitrary: k)
  case 0
  then show ?case by (simp add: follow_page [OF assms(2)] key_def Let_def del: follow.simps)
next
  case (Suc n)
  let ?ord = "order_candidates id_of created_of xs"
  let ?ys = "filter (below key k) ?ord"
  show ?case
  proof (cases "page_size limit < length ?ys")
    case False
    then show ?thesis by (simp add: follow_page [OF assms(2)] key_def Let_def del: follow.simps)
  next
    case True
    let ?l = "key (last (take (page_size limit) ?ys))"
    have "descending key ?ys"
      unfolding key_def by (intro descending_filter order_candidates_descending) (use assms(3) in \<open>simp add: key_def\<close>)
    note rest = window_split(2) [OF this page_size_pos True]
    have "last (take (page_size limit) ?ys) \<in> set ?ys"
      using True page_size_pos [of limit] by (intro in_set_takeD [OF last_in_set]) auto
    then have "below key k x" if "below key (Some ?l) x" for x
      using that by (cases k) auto
    then have "filter (below key (Some ?l)) ?ord = filter (below key (Some ?l)) ?ys"
      unfolding filter_filter by (intro filter_cong refl) blast
    then have left: "filter (below key (Some ?l)) ?ord = drop (page_size limit) ?ys" using rest by (rule trans)
    then have "length (filter (below key (Some ?l)) ?ord) \<le> page_size limit * Suc n"
      using Suc.prems by simp
    note ih = Suc.IH [OF this, unfolded left]
    show ?thesis
      unfolding replicate.simps(2) [of "Suc n"] list.map(2)
        follow_page [OF assms(2), where id_of = id_of and created_of = created_of, folded key_def]
      by (simp only: Let_def ih True if_True bind_result.simps prod.case append_take_drop_id)
  qed
qed

section \<open>The job listing\<close>

definition job_key :: "job \<Rightarrow> int \<times> string" where
  "job_key = order_key j_id j_created_at"

definition listable :: "job_status option \<Rightarrow> store \<Rightarrow> job list" where
  "listable status db = list_jobs db status 1 CANDIDATE_CEILING"

lemma listable_keys:
  assumes "distinct (map j_id (db_jobs db))"
  shows "distinct (map job_key (listable status db))"
proof -
  let ?found = "filter (\<lambda>j. j_tenant_id j = 1 \<and> (status = None \<or> status = Some (j_status j))) (db_jobs db)"
  have "distinct (map j_id ?found)" using assms by (rule distinct_map_filter)
  then have "distinct (map job_key (sort_key (\<lambda>j. - j_created_at j) ?found))"
    by (auto simp: distinct_map inj_on_def job_key_def order_key_def)
  then show ?thesis
    unfolding listable_def list_jobs_def take_map [symmetric] by (rule distinct_take)
qed

lemma list_jobs_page_eq: "list_jobs_page c limit status db = page_of c j_id j_created_at limit (listable status db)"
  by (simp add: list_jobs_page_def listable_def fun_eq_iff)

lemma list_jobs_pages: "map (list_jobs_page c limit status) dbs = map (page_of c j_id j_created_at limit) (map (listable status) dbs)"
  by (simp add: list_jobs_page_eq)

text \<open>
  C38: Following the cursors while the queue changes. Each request may see another state of the
  store; what the client has read when the last page came is in strictly descending order of creation time
  and id, so no key comes twice, comes from the rows listable at some request, and has every key that was listable at all of them.
\<close>

theorem pages_of_a_changing_queue:
  assumes "codec_ok c" and "\<forall>db \<in> set dbs. distinct (map j_id (db_jobs db))"
    and "follow (map (list_jobs_page c limit status) dbs) None = Inr (items, True)"
  shows "descending job_key items \<and> (\<forall>j \<in> set items. \<exists>db \<in> set dbs. j \<in> set (listable status db)) \<and>
    (\<forall>k. (\<forall>db \<in> set dbs. k \<in> job_key ` set (listable status db)) \<longrightarrow> k \<in> job_key ` set items)"
proof -
  have "\<forall>xs \<in> set (map (listable status) dbs). distinct (map (order_key j_id j_created_at) xs)"
    using assms(2) listable_keys by (auto simp: job_key_def)
  moreover have "cursor_at c None = None" by simp
  ultimately show ?thesis
    using follow_snapshots [OF assms(1), of "map (listable status) dbs" j_id j_created_at limit None items True] assms(3)
    unfolding list_jobs_pages job_key_def by (simp del: split_paired_All)
qed

text \<open>
  C39: While the queue stays as it is, one request more than the number of full pages reads
  the whole listing, every listable job once and in order, and then the last page has no cursor.
\<close>

theorem pages_of_a_still_queue:
  assumes "codec_ok c" and "distinct (map j_id (db_jobs db))"
    and "length (listable status db) div page_size limit \<le> n"
  shows "follow (replicate (Suc n) (list_jobs_page c limit status db)) None =
    Inr (order_candidates j_id j_created_at (listable status db), True)"
proof -
  have every: "filter (below key None) xs = xs" for key :: "job \<Rightarrow> int \<times> string" and xs by simp
  have "length (listable status db) < Suc n * page_size limit"
    using assms(3) page_size_pos [of limit] by (simp only: div_less_iff_less_mult [symmetric] less_Suc_eq_le)
  then have "length (filter (below (order_key j_id j_created_at) None) (order_candidates j_id j_created_at (listable status db)))
      \<le> page_size limit * Suc n"
    unfolding every by (simp add: order_candidates_def mult.commute)
  from follow_still [OF assms(1) listable_keys [OF assms(2), unfolded job_key_def] this]
  show ?thesis unfolding list_jobs_page_eq map_replicate every cursor_at_start .
qed

text \<open>
  A listing fails with an exception of its own exactly when the cursor reads as a position whose date has
  no offset and there is a row to compare it with; any other cursor that does not read is a bad request.
\<close>

theorem cursors_that_escape:
  "(\<exists>x. list_jobs_page c limit status db (Some raw) = Inl (Inr x)) \<longleftrightarrow>
     raw \<noteq> [] \<and> listable status db \<noteq> [] \<and> (\<exists>i t. decode_cursor c raw = Inr \<lparr>cu_last_id = i, cu_created_at = Naive t\<rparr>)"
proof -
  have kept: "(\<exists>x. keep_before id_of created_of cu xs = Inl x) \<longleftrightarrow> xs \<noteq> [] \<and> (\<exists>t. cu_created_at cu = Naive t)"
    for id_of created_of cu and xs :: "job list"
  proof (cases "cu_created_at cu")
    case (Aware t)
    then have "cu = \<lparr>cu_last_id = cu_last_id cu, cu_created_at = Aware t\<rparr>" by simp
    with keep_before_filter [of id_of created_of "cu_last_id cu" t xs] Aware show ?thesis by simp
  next
    case (Naive t)
    then show ?thesis by (cases xs) (simp_all add: is_before_def)
  qed
  have paged: "(\<exists>x. paginate c id_of created_of params xs = Inl x) \<longleftrightarrow>
      xs \<noteq> [] \<and> (\<exists>cu t. pp_cursor params = Some cu \<and> cu_created_at cu = Naive t)" for id_of created_of params and xs :: "job list"
  proof (cases "pp_cursor params")
    case (Some cu)
    then show ?thesis
      using kept [of id_of created_of cu xs] by (cases "keep_before id_of created_of cu xs") (auto simp: paginate_def Let_def)
  qed (simp add: paginate_def Let_def)
  have rows: "order_candidates j_id j_created_at xs \<noteq> [] \<longleftrightarrow> xs \<noteq> []" for xs
    by (metis set_empty set_order_candidates)
  have "(\<exists>x. list_jobs_page c limit status db (Some raw) = Inl (Inr x)) \<longleftrightarrow>
      (\<exists>params. make_page_params c (Some raw) limit = Inr params \<and>
         (\<exists>x. paginate c j_id j_created_at params (order_candidates j_id j_created_at (listable status db)) = Inl x))"
    by (auto simp: list_jobs_page_eq page_of_def split: sum.splits)
  also have "\<dots> \<longleftrightarrow> raw \<noteq> [] \<and> listable status db \<noteq> [] \<and> (\<exists>cu t. decode_cursor c raw = Inr cu \<and> cu_created_at cu = Naive t)"
    unfolding paged by (cases "decode_cursor c raw") (auto simp: make_page_params_def rows)
  also have "(\<exists>cu t. decode_cursor c raw = Inr cu \<and> cu_created_at cu = Naive t) \<longleftrightarrow>
      (\<exists>i t. decode_cursor c raw = Inr \<lparr>cu_last_id = i, cu_created_at = Naive t\<rparr>)"
    by (metis cursor.cases cursor.select_convs(2))
  finally show ?thesis .
qed

section \<open>Samples\<close>

text \<open>Texts that separate two strings by the length of the first, and dates in unary.\<close>

definition sample_loads :: "string \<Rightarrow> json option" where
  "sample_loads s =
     (let n = length (takeWhile (\<lambda>c. c = CHR ''x'') s); both = drop (Suc n) s
      in Some (JObject [(''last_id'', JString (take n both)), (''created_at'', JString (drop n both))]))"

definition sample_dumps :: "json \<Rightarrow> string" where
  "sample_dumps j =
     (case j of
        JObject [(_, JString i), (_, JString t)] \<Rightarrow> replicate (length i) (CHR ''x'') @ CHR ''|'' # i @ t
      | _ \<Rightarrow> ''?'')"

definition sample_iso :: "int \<Rightarrow> string" where
  "sample_iso t = (if t < 0 then CHR ''-'' else CHR ''+'') # replicate (nat \<bar>t\<bar>) (CHR ''1'')"

definition sample_fromiso :: "string \<Rightarrow> instant option" where
  "sample_fromiso s = (case s of
      [] \<Rightarrow> None
    | c # cs \<Rightarrow> if c = CHR ''n'' then Some (Naive (int (length cs)))
        else Some (Aware (if c = CHR ''-'' then - int (length cs) else int (length cs))))"

definition sample_codec :: cursor_codec where
  "sample_codec = \<lparr>cc_b64encode = (\<lambda>s. s), cc_b64decode = Some, cc_dumps = sample_dumps, cc_loads = sample_loads,
     cc_iso = sample_iso, cc_fromiso = sample_fromiso, cc_str = (\<lambda>j. [])\<rparr>"

lemma sample_codec_ok: "codec_ok sample_codec"
proof -
  have "sample_loads (sample_dumps (JObject [(''last_id'', JString i), (''created_at'', JString t)])) =
      Some (JObject [(''last_id'', JString i), (''created_at'', JString t)])" for i t
    by (simp add: sample_loads_def sample_dumps_def takeWhile_append Let_def)
  moreover have "sample_fromiso (sample_iso t) = Some (Aware t)" for t
    by (simp add: sample_fromiso_def sample_iso_def)
  moreover have "sample_dumps j \<noteq> []" for j
    by (simp add: sample_dumps_def split: json.split list.split prod.split)
  ultimately show ?thesis by (simp add: codec_ok_def sample_codec_def)
qed

definition sample_row :: "string \<Rightarrow> int \<Rightarrow> job" where
  "sample_row i t = \<lparr>j_id = i, j_pipeline = i, j_target = ''dev'', j_status = Job_Queued, j_trigger = ''manual'',
     j_required_label = None, j_scheduled_for = None, j_tenant_id = 1, j_run_id = None, j_claimed_by = None,
     j_claimed_at = None, j_heartbeat_at = None, j_started_at = None, j_finished_at = None, j_error_message = None,
     j_created_at = t\<rparr>"

definition sample_store :: "job list \<Rightarrow> store" where
  "sample_store js = \<lparr>db_jobs = js, db_runs = [], db_workers = [], db_step_runs = [], db_schedules = [], db_changes = [],
     db_events = [], db_pipelines = [], db_emitter = None\<rparr>"

text \<open>A job arrives after the first page of one.\<close>

definition sample_stores :: "store list" where
  "sample_stores = (let js = [sample_row ''a'' 1, sample_row ''b'' 2, sample_row ''c'' 2]
     in [sample_store js, sample_store (js @ [sample_row ''d'' 3]), sample_store (js @ [sample_row ''d'' 3])])"

theorem pages_of_a_changing_queue_witness:
  "descending job_key [sample_row ''c'' 2, sample_row ''b'' 2, sample_row ''a'' 1] \<and>
    (\<exists>db \<in> set sample_stores. sample_row ''b'' 2 \<in> set (listable None db))"
proof -
  have ids: "\<forall>db \<in> set sample_stores. distinct (map j_id (db_jobs db))" by code_simp
  have "follow (map (list_jobs_page sample_codec (Some 1) None) sample_stores) None =
      Inr ([sample_row ''c'' 2, sample_row ''b'' 2, sample_row ''a'' 1], True)"
    by code_simp
  from pages_of_a_changing_queue [OF sample_codec_ok ids this] show ?thesis by simp
qed

theorem pages_of_a_still_queue_witness:
  "follow (replicate (Suc 3) (list_jobs_page sample_codec (Some 1) None (hd sample_stores))) None =
    Inr (order_candidates j_id j_created_at (listable None (hd sample_stores)), True)"
proof (rule pages_of_a_still_queue [OF sample_codec_ok])
  show "distinct (map j_id (db_jobs (hd sample_stores)))" by code_simp
  show "length (listable None (hd sample_stores)) div page_size (Some 1) \<le> 3" by code_simp
qed

lemma naive_cursor_sample:
  "list_jobs_page sample_codec None None (hd sample_stores) (Some (CHR ''x'' # CHR ''|'' # ''in'')) = Inl (Inr ''TypeError'')"
  by code_simp

end
