(* ===== verification/Archiver.thy ===== *)
theory Archiver
  imports Project_Store Component_Locator "HOL-Library.Multiset"
begin

text \<open>
  The archiver (\<open>runtime/archiver.py\<close>) and its retention windows (\<open>parse_duration\<close> and
  \<open>ArchiveConfig\<close> of \<open>core/config/schema.py\<close>). An \<open>archive_db\<close> is a committed state: the project
  store together with the four \<open>*_archive\<close> tables, which carry no keys of their own.

  A table batch is one transaction: it returns the next committed state or raises and leaves the
  state as it was. The \<open>INSERT\<close> and the \<open>DELETE\<close> are the seams the source names
  (\<open>_archive_insert\<close>, \<open>_archive_delete\<close>); the locale \<open>batch_seams\<close> states what the batch needs of
  them, and the model's own two satisfy it.
\<close>

section \<open>Durations\<close>

datatype duration_error = Value_Error | Overflow_Error

definition DURATION_UNIT_SECONDS :: "(char \<times> int) list" where
  "DURATION_UNIT_SECONDS = [(CHR ''s'', 1), (CHR ''m'', 60), (CHR ''h'', 3600), (CHR ''d'', 86400)]"

definition decimal :: "string \<Rightarrow> int" where
  "decimal s = foldl (\<lambda>n c. n * 10 + (int (of_char c) - 48)) 0 s"

text \<open>
  \<open>timedelta(seconds=n)\<close> holds at most 999999999 days; \<open>int\<close> refuses more than 4300 digits. The
  result is in microseconds.
\<close>

definition parse_duration :: "string \<Rightarrow> duration_error + int" where
  "parse_duration value =
     (let s = py_strip value; digits = takeWhile is_digit s; rest = dropWhile is_digit s
      in case rest of
           [u] \<Rightarrow>
             (case map_of DURATION_UNIT_SECONDS u of
                None \<Rightarrow> Inl Value_Error
              | Some unit_seconds \<Rightarrow>
                  if digits = [] \<or> 4300 < length digits then Inl Value_Error
                  else (let seconds = decimal digits * unit_seconds in
                        if seconds \<le> 0 then Inl Value_Error
                        else if 999999999 < seconds div 86400 then Inl Overflow_Error
                        else Inr (seconds * 1000000)))
         | _ \<Rightarrow> Inl Value_Error)"

record archive_config =
  ac_interval_s :: int
  ac_jobs_window :: string
  ac_runs_window :: string
  ac_logs_window :: string
  ac_steps_window :: string

definition default_archive_config :: archive_config where
  "default_archive_config =
     \<lparr>ac_interval_s = 3600, ac_jobs_window = ''7d'', ac_runs_window = ''30d'', ac_logs_window = ''30d'',
      ac_steps_window = ''30d''\<rparr>"

text \<open>
  The validation of a configuration at load: \<open>Inl Value_Error\<close> becomes a \<open>ConfigError\<close>;
  \<open>Inl Overflow_Error\<close> escapes as it is.
\<close>

definition validate_archive_config :: "archive_config \<Rightarrow> duration_error + archive_config" where
  "validate_archive_config cfg =
     (if ac_interval_s cfg < 1 then Inl Value_Error
      else bind_result (parse_duration (ac_jobs_window cfg)) (\<lambda>_.
           bind_result (parse_duration (ac_runs_window cfg)) (\<lambda>_.
           bind_result (parse_duration (ac_logs_window cfg)) (\<lambda>_.
           bind_result (parse_duration (ac_steps_window cfg)) (\<lambda>_. Inr cfg)))))"

text \<open>\<open>getattr(config, attr)\<close> for the four attributes the specifications name.\<close>

definition window_of :: "archive_config \<Rightarrow> string \<Rightarrow> string" where
  "window_of cfg attr =
     (if attr = ''jobs_window'' then ac_jobs_window cfg
      else if attr = ''runs_window'' then ac_runs_window cfg
      else if attr = ''logs_window'' then ac_logs_window cfg
      else ac_steps_window cfg)"

text \<open>\<open>now - window\<close>: a \<open>datetime\<close> does not go below the first of January of the year 1.\<close>

definition DATETIME_MIN :: int where
  "DATETIME_MIN = - 62135596800000000"

definition minus_window :: "int \<Rightarrow> int \<Rightarrow> duration_error + int" where
  "minus_window now window = (if now - window < DATETIME_MIN then Inl Overflow_Error else Inr (now - window))"

section \<open>The table specifications\<close>

record table_spec =
  ts_table :: string
  ts_finished_col :: string
  ts_status_filter :: "string list option"
  ts_window_attr :: string
  ts_tenant_scoped :: bool

definition ARCHIVE_TABLES :: "table_spec list" where
  "ARCHIVE_TABLES =
     [\<lparr>ts_table = ''jobs'', ts_finished_col = ''finished_at'',
       ts_status_filter = Some [''succeeded'', ''failed'', ''cancelled'', ''timed_out''],
       ts_window_attr = ''jobs_window'', ts_tenant_scoped = True\<rparr>,
      \<lparr>ts_table = ''step_runs'', ts_finished_col = ''finished_at'',
       ts_status_filter = Some [''succeeded'', ''failed'', ''skipped''],
       ts_window_attr = ''steps_window'', ts_tenant_scoped = False\<rparr>,
      \<lparr>ts_table = ''logs'', ts_finished_col = ''timestamp'', ts_status_filter = None,
       ts_window_attr = ''logs_window'', ts_tenant_scoped = False\<rparr>,
      \<lparr>ts_table = ''runs'', ts_finished_col = ''completed_at'',
       ts_status_filter = Some [''success'', ''failed'', ''cancelled'', ''crashed''],
       ts_window_attr = ''runs_window'', ts_tenant_scoped = False\<rparr>]"

text \<open>The columns of a row that the predicate reads, by name.\<close>

record 'r columns =
  time_col :: "string \<Rightarrow> 'r \<Rightarrow> int option"
  status_col :: "'r \<Rightarrow> string"
  tenant_col :: "'r \<Rightarrow> int"

fun job_status_value :: "job_status \<Rightarrow> string" where
  "job_status_value Job_Queued = ''queued''"
| "job_status_value Job_Claimed = ''claimed''"
| "job_status_value Job_Running = ''running''"
| "job_status_value Job_Succeeded = ''succeeded''"
| "job_status_value Job_Failed = ''failed''"
| "job_status_value Job_Cancelled = ''cancelled''"
| "job_status_value Job_Timed_Out = ''timed_out''"

fun run_status_value :: "run_row_status \<Rightarrow> string" where
  "run_status_value Run_Row_Queued = ''queued''"
| "run_status_value Run_Row_Running = ''running''"
| "run_status_value Run_Row_Success = ''success''"
| "run_status_value Run_Row_Failed = ''failed''"
| "run_status_value Run_Row_Cancelled = ''cancelled''"
| "run_status_value Run_Row_Crashed = ''crashed''"

fun step_run_status_value :: "step_run_status \<Rightarrow> string" where
  "step_run_status_value Step_Run_Running = ''running''"
| "step_run_status_value Step_Run_Succeeded = ''succeeded''"
| "step_run_status_value Step_Run_Failed = ''failed''"
| "step_run_status_value Step_Run_Skipped = ''skipped''"

definition job_columns :: "job columns" where
  "job_columns = \<lparr>time_col = (\<lambda>c j. if c = ''finished_at'' then j_finished_at j else None),
     status_col = job_status_value \<circ> j_status, tenant_col = j_tenant_id\<rparr>"

definition step_run_columns :: "step_run columns" where
  "step_run_columns = \<lparr>time_col = (\<lambda>c s. if c = ''finished_at'' then sx_finished_at s else None),
     status_col = step_run_status_value \<circ> sx_status, tenant_col = (\<lambda>_. 1)\<rparr>"

definition log_columns :: "log_row columns" where
  "log_columns = \<lparr>time_col = (\<lambda>c l. if c = ''timestamp'' then Some (lg_timestamp l) else None),
     status_col = (\<lambda>_. []), tenant_col = (\<lambda>_. 1)\<rparr>"

definition run_columns :: "run_row columns" where
  "run_columns = \<lparr>time_col = (\<lambda>c r. if c = ''completed_at'' then r_completed_at r else None),
     status_col = run_status_value \<circ> r_status, tenant_col = (\<lambda>_. 1)\<rparr>"

text \<open>The \<open>WHERE\<close> clause; a comparison with a null column is not true.\<close>

definition build_predicate ::
  "'r columns \<Rightarrow> string \<Rightarrow> string list option \<Rightarrow> int \<Rightarrow> int \<Rightarrow> bool \<Rightarrow> 'r \<Rightarrow> bool" where
  "build_predicate cols finished_col status_filter cutoff tenant_id tenant_scoped r \<longleftrightarrow>
     (case time_col cols finished_col r of None \<Rightarrow> False | Some t \<Rightarrow> t < cutoff) \<and>
     (\<not> tenant_scoped \<or> tenant_col cols r = tenant_id) \<and>
     (case status_filter of None \<Rightarrow> True | Some [] \<Rightarrow> True | Some ss \<Rightarrow> status_col cols r \<in> set ss)"

section \<open>One table batch\<close>

datatype archive_error =
    Archive_Verification_Failed nat nat "nat option"
  | Archive_Integrity_Error

definition archive_insert :: "('r \<Rightarrow> bool) \<Rightarrow> 'r list \<Rightarrow> 'r list \<Rightarrow> archive_error + (nat \<times> 'r list)" where
  "archive_insert p active archive = Inr (length (filter p active), archive @ filter p active)"

text \<open>The constraint of the foreign keys that point at the table is checked on what remains.\<close>

definition archive_delete ::
  "('r list \<Rightarrow> bool) \<Rightarrow> ('r \<Rightarrow> bool) \<Rightarrow> 'r list \<Rightarrow> archive_error + (nat \<times> 'r list)" where
  "archive_delete keys_ok p active =
     (let rest = filter (\<lambda>r. \<not> p r) active
      in if keys_ok rest then Inr (length (filter p active), rest) else Inl Archive_Integrity_Error)"

definition archive_table_safely ::
  "(('r \<Rightarrow> bool) \<Rightarrow> 'r list \<Rightarrow> 'r list \<Rightarrow> archive_error + (nat \<times> 'r list)) \<Rightarrow>
   (('r \<Rightarrow> bool) \<Rightarrow> 'r list \<Rightarrow> archive_error + (nat \<times> 'r list)) \<Rightarrow>
   ('r \<Rightarrow> bool) \<Rightarrow> 'r list \<Rightarrow> 'r list \<Rightarrow> archive_error + (nat \<times> 'r list \<times> 'r list)" where
  "archive_table_safely ins del p active archive =
     (let expected = length (filter p active)
      in if expected = 0 then Inr (0, active, archive)
         else bind_result (ins p active archive) (\<lambda>(inserted, archive').
           if inserted \<noteq> expected then Inl (Archive_Verification_Failed expected inserted None)
           else bind_result (del p active) (\<lambda>(deleted, active').
             if deleted \<noteq> expected then Inl (Archive_Verification_Failed expected inserted (Some deleted))
             else Inr (inserted, active', archive'))))"

section \<open>One pass\<close>

record archive_db =
  ad_project :: project
  ad_jobs :: "job list"
  ad_step_runs :: "step_run list"
  ad_logs :: "log_row list"
  ad_runs :: "run_row list"

definition archive_table :: "table_spec \<Rightarrow> int \<Rightarrow> int \<Rightarrow> archive_db \<Rightarrow> archive_error + (nat \<times> archive_db)" where
  "archive_table spec cutoff tenant_id db =
     (let pd = ad_project db; st = pd_store pd;
          finished = ts_finished_col spec; statuses = ts_status_filter spec; scoped = ts_tenant_scoped spec
      in if ts_table spec = ''jobs'' then
           bind_result (archive_table_safely archive_insert (archive_delete (\<lambda>_. True))
               (build_predicate job_columns finished statuses cutoff tenant_id scoped) (db_jobs st) (ad_jobs db))
             (\<lambda>(n, active, archive). Inr (n,
                db\<lparr>ad_project := pd\<lparr>pd_store := st\<lparr>db_jobs := active\<rparr>\<rparr>, ad_jobs := archive\<rparr>))
         else if ts_table spec = ''step_runs'' then
           bind_result (archive_table_safely archive_insert (archive_delete (\<lambda>_. True))
               (build_predicate step_run_columns finished statuses cutoff tenant_id scoped)
               (db_step_runs st) (ad_step_runs db))
             (\<lambda>(n, active, archive). Inr (n,
                db\<lparr>ad_project := pd\<lparr>pd_store := st\<lparr>db_step_runs := active\<rparr>\<rparr>, ad_step_runs := archive\<rparr>))
         else if ts_table spec = ''logs'' then
           bind_result (archive_table_safely archive_insert (archive_delete (\<lambda>_. True))
               (build_predicate log_columns finished statuses cutoff tenant_id scoped) (pd_logs pd) (ad_logs db))
             (\<lambda>(n, active, archive). Inr (n,
                db\<lparr>ad_project := pd\<lparr>pd_logs := active\<rparr>, ad_logs := archive\<rparr>))
         else
           bind_result (archive_table_safely archive_insert (archive_delete (references_run pd))
               (build_predicate run_columns finished statuses cutoff tenant_id scoped) (db_runs st) (ad_runs db))
             (\<lambda>(n, active, archive). Inr (n,
                db\<lparr>ad_project := pd\<lparr>pd_store := st\<lparr>db_runs := active\<rparr>\<rparr>, ad_runs := archive\<rparr>)))"

definition archive_emit :: "string \<Rightarrow> nat \<Rightarrow> archive_db \<Rightarrow> archive_db" where
  "archive_emit table n db =
     db\<lparr>ad_project := (ad_project db)\<lparr>pd_store :=
       emit ''archive.batch_completed'' [(''table'', JString table), (''rows_moved'', JInt (int n))]
         (pd_store (ad_project db))\<rparr>\<rparr>"

text \<open>
  The loop over the specifications. A window that does not parse and a cutoff out of range are
  raised outside the per-table guard and end the pass, with what was committed before.
\<close>

fun archive_specs ::
  "table_spec list \<Rightarrow> archive_config \<Rightarrow> int \<Rightarrow> int \<Rightarrow> archive_db \<Rightarrow> (string \<times> nat) list \<Rightarrow>
     archive_db \<times> (duration_error + (string \<times> nat) list)" where
  "archive_specs [] cfg now tenant_id db moved = (db, Inr moved)"
| "archive_specs (spec # specs) cfg now tenant_id db moved =
     (case bind_result (parse_duration (window_of cfg (ts_window_attr spec))) (minus_window now) of
        Inl e \<Rightarrow> (db, Inl e)
      | Inr cutoff \<Rightarrow>
          (case archive_table spec cutoff tenant_id db of
             Inl _ \<Rightarrow> archive_specs specs cfg now tenant_id db moved
           | Inr (rows, db') \<Rightarrow>
               archive_specs specs cfg now tenant_id (archive_emit (ts_table spec) rows db')
                 (moved @ [(ts_table spec, rows)])))"

definition archive_once ::
  "archive_db \<Rightarrow> int \<Rightarrow> archive_config \<Rightarrow> int \<Rightarrow> archive_db \<times> (duration_error + (string \<times> nat) list)" where
  "archive_once db now cfg tenant_id = archive_specs ARCHIVE_TABLES cfg now tenant_id db []"

text \<open>
  \<open>archiver_loop\<close> until its shutdown: one pass for each instant at which it polls. A pass that
  raises is logged and swallowed.
\<close>

definition archiver_loop :: "archive_config \<Rightarrow> int \<Rightarrow> int list \<Rightarrow> archive_db \<Rightarrow> archive_db" where
  "archiver_loop cfg tenant_id polls db = fold (\<lambda>now db. fst (archive_once db now cfg tenant_id)) polls db"

section \<open>The contract of the seams\<close>

locale batch_seams =
  fixes ins :: "('r \<Rightarrow> bool) \<Rightarrow> 'r list \<Rightarrow> 'r list \<Rightarrow> archive_error + (nat \<times> 'r list)"
    and del :: "('r \<Rightarrow> bool) \<Rightarrow> 'r list \<Rightarrow> archive_error + (nat \<times> 'r list)"
  assumes ins_counts: "ins p active archive = Inr (n, archive') \<Longrightarrow>
      \<exists>rows. mset rows \<subseteq># mset (filter p active) \<and> archive' = archive @ rows \<and> n = length rows"
    and del_counts: "del p active = Inr (n, active') \<Longrightarrow>
      \<exists>rows. mset rows \<subseteq># mset (filter p active) \<and> mset active = mset active' + mset rows \<and> n = length rows"
begin

lemma all_of_them:
  assumes "mset rows \<subseteq># mset (filter p active)" and "length rows = length (filter p active)"
  shows "mset rows = mset (filter p active)"
  using assms by (metis mset_subset_size size_mset subset_mset.le_neq_trans less_irrefl)

lemma batch_moves:
  assumes "archive_table_safely ins del p active archive = Inr (n, active', archive')"
  shows "mset active' = mset (filter (\<lambda>r. \<not> p r) active) \<and>
         mset archive' = mset archive + mset (filter p active) \<and> n = length (filter p active)"
proof (cases "filter p active = []")
  case True
  then have "filter (\<lambda>r. \<not> p r) active = active" by (simp add: filter_empty_conv filter_id_conv)
  then show ?thesis using assms True
    by (simp add: archive_table_safely_def)
next
  case False
  have split: "mset active = mset (filter p active) + mset (filter (\<lambda>r. \<not> p r) active)"
    by (simp add: multiset_partition [symmetric])
  have ins: "ins p active archive = Inr (length (filter p active), archive')"
    and del: "del p active = Inr (length (filter p active), active')" and n: "n = length (filter p active)"
    using assms False by (auto simp: archive_table_safely_def Let_def bind_result_Inr_iff split: if_splits)
  obtain rows where rows: "mset rows \<subseteq># mset (filter p active)" "archive' = archive @ rows"
      "length (filter p active) = length rows"
    using ins_counts [OF ins] by blast
  obtain gone where gone: "mset gone \<subseteq># mset (filter p active)" "mset active = mset active' + mset gone"
      "length (filter p active) = length gone"
    using del_counts [OF del] by blast
  have "mset rows = mset (filter p active)" "mset gone = mset (filter p active)"
    using all_of_them [OF rows(1)] all_of_them [OF gone(1)] rows(3) gone(3) by simp_all
  then have "mset archive' = mset archive + mset (filter p active)"
    and "mset active' + mset (filter p active) = mset (filter (\<lambda>r. \<not> p r) active) + mset (filter p active)"
    using rows(2) gone(2) split by (simp_all only: mset_append add.commute)
  then show ?thesis using n by (simp only: add_right_cancel)
qed

lemma batch_conserves:
  "archive_table_safely ins del p active archive = Inr (n, active', archive') \<Longrightarrow>
     mset active' + mset archive' = mset active + mset archive"
  using batch_moves [of p active archive n active' archive'] multiset_partition [of "mset active" p]
  by simp

end

interpretation sql: batch_seams archive_insert "archive_delete keys_ok"
proof (unfold_locales, goal_cases)
  case (1 p active archive n archive')
  then show ?case by (auto simp: archive_insert_def)
next
  case (2 p active n active')
  then show ?case
    by (intro exI [of _ "filter p active"]) (auto simp: archive_delete_def Let_def split: if_splits)
qed


text \<open>With the model's seams the batch is exact.\<close>

lemma sql_batch:
  "archive_table_safely archive_insert (archive_delete keys_ok) p active archive =
     (if filter p active = [] \<or> keys_ok (filter (\<lambda>r. \<not> p r) active)
      then Inr (length (filter p active), filter (\<lambda>r. \<not> p r) active, archive @ filter p active)
      else Inl Archive_Integrity_Error)"
proof (cases "filter p active = []")
  case True
  then have "filter (\<lambda>r. \<not> p r) active = active" by (simp add: filter_empty_conv filter_id_conv)
  with True show ?thesis by (simp add: archive_table_safely_def)
next
  case False
  then show ?thesis by (simp add: archive_table_safely_def archive_insert_def archive_delete_def Let_def)
qed

section \<open>Nothing is lost\<close>

text \<open>Two states hold the same rows in a table and its archive together.\<close>

definition same_rows :: "archive_db \<Rightarrow> archive_db \<Rightarrow> bool" where
  "same_rows a b \<longleftrightarrow>
     mset (db_jobs (pd_store (ad_project a))) + mset (ad_jobs a) =
       mset (db_jobs (pd_store (ad_project b))) + mset (ad_jobs b) \<and>
     mset (db_step_runs (pd_store (ad_project a))) + mset (ad_step_runs a) =
       mset (db_step_runs (pd_store (ad_project b))) + mset (ad_step_runs b) \<and>
     mset (pd_logs (ad_project a)) + mset (ad_logs a) =
       mset (pd_logs (ad_project b)) + mset (ad_logs b) \<and>
     mset (db_runs (pd_store (ad_project a))) + mset (ad_runs a) =
       mset (db_runs (pd_store (ad_project b))) + mset (ad_runs b)"

text \<open>What an archiver never touches.\<close>

definition same_rest :: "archive_db \<Rightarrow> archive_db \<Rightarrow> bool" where
  "same_rest a b \<longleftrightarrow>
     pd_plans (ad_project a) = pd_plans (ad_project b) \<and>
     pd_pipelines (ad_project a) = pd_pipelines (ad_project b) \<and>
     pd_builds (ad_project a) = pd_builds (ad_project b) \<and>
     pd_log_next (ad_project a) = pd_log_next (ad_project b) \<and>
     pd_workspaces (ad_project a) = pd_workspaces (ad_project b) \<and>
     db_workers (pd_store (ad_project a)) = db_workers (pd_store (ad_project b)) \<and>
     db_schedules (pd_store (ad_project a)) = db_schedules (pd_store (ad_project b)) \<and>
     db_changes (pd_store (ad_project a)) = db_changes (pd_store (ad_project b)) \<and>
     db_pipelines (pd_store (ad_project a)) = db_pipelines (pd_store (ad_project b)) \<and>
     db_emitter (pd_store (ad_project a)) = db_emitter (pd_store (ad_project b))"

lemmas same_defs = same_rows_def same_rest_def

lemma same_refl: "same_rows a a" "same_rest a a"
  by (simp_all add: same_defs)

lemma same_trans: "same_rows a b \<Longrightarrow> same_rows b c \<Longrightarrow> same_rows a c" "same_rest a b \<Longrightarrow> same_rest b c \<Longrightarrow> same_rest a c"
  by (simp_all add: same_defs)

lemma archive_emit_same: "same_rows (archive_emit t n db) db" "same_rest (archive_emit t n db) db"
  by (simp_all add: archive_emit_def same_defs)

lemma archive_table_same:
  "archive_table spec cutoff tenant_id db = Inr (n, db') \<Longrightarrow> same_rows db' db \<and> same_rest db' db"
  unfolding archive_table_def Let_def
  by (auto simp: same_defs bind_result_Inr_iff dest: sql.batch_conserves split: if_splits)

lemma archive_specs_same:
  "same_rows (fst (archive_specs specs cfg now tenant_id db moved)) db \<and>
   same_rest (fst (archive_specs specs cfg now tenant_id db moved)) db"
proof (induction specs arbitrary: db moved)
  case Nil
  then show ?case by (simp add: same_refl)
next
  case (Cons spec specs)
  show ?case
  proof (cases "bind_result (parse_duration (window_of cfg (ts_window_attr spec))) (minus_window now)")
    case (Inl e)
    then show ?thesis by (simp add: same_refl)
  next
    case cut: (Inr cutoff)
    show ?thesis
    proof (cases "archive_table spec cutoff tenant_id db")
      case (Inl e)
      then show ?thesis using cut Cons.IH by simp
    next
      case (Inr r)
      obtain n db' where r: "r = (n, db')" by (cases r)
      have "same_rows (archive_emit (ts_table spec) n db') db" "same_rest (archive_emit (ts_table spec) n db') db"
        using archive_table_same [of spec cutoff tenant_id db n db'] Inr r same_trans archive_emit_same by blast+
      then show ?thesis using cut Inr r Cons.IH same_trans by simp blast
    qed
  qed
qed

lemma archiver_loop_same:
  "same_rows (archiver_loop cfg tenant_id polls db) db \<and> same_rest (archiver_loop cfg tenant_id polls db) db"
proof (induction polls arbitrary: db)
  case Nil
  then show ?case by (simp add: archiver_loop_def same_refl)
next
  case (Cons now polls)
  have "archiver_loop cfg tenant_id (now # polls) db =
      archiver_loop cfg tenant_id polls (fst (archive_once db now cfg tenant_id))"
    by (simp add: archiver_loop_def)
  then show ?case
    using Cons.IH [of "fst (archive_once db now cfg tenant_id)"] same_trans
      archive_specs_same [of ARCHIVE_TABLES cfg now tenant_id db "[]"]
    unfolding archive_once_def by simp blast
qed

section \<open>The constraints hold after every batch\<close>

lemma list_all_filter: "list_all P xs \<Longrightarrow> list_all P (filter Q xs)"
  by (auto simp: list_all_iff)

lemma archive_emit_ok: "project_ok (ad_project db) \<Longrightarrow> project_ok (ad_project (archive_emit t n db))"
  by (simp add: archive_emit_def project_ok_def references_run_def run_ids_def)

lemma archive_table_ok:
  assumes ok: "project_ok (ad_project db)" and step: "archive_table spec cutoff tenant_id db = Inr (n, db')"
  shows "project_ok (ad_project db')"
proof -
  let ?pd = "ad_project db" and ?st = "pd_store (ad_project db)"
  have jobs: "project_ok (?pd\<lparr>pd_store := ?st\<lparr>db_jobs := filter P (db_jobs ?st)\<rparr>\<rparr>)" for P
    using ok by (simp add: project_ok_def references_run_def run_ids_def list_all_filter)
  have steps: "project_ok (?pd\<lparr>pd_store := ?st\<lparr>db_step_runs := filter P (db_step_runs ?st)\<rparr>\<rparr>)" for P
    using ok by (simp add: project_ok_def references_run_def run_ids_def list_all_filter)
  have logs: "project_ok (?pd\<lparr>pd_logs := filter P (pd_logs ?pd)\<rparr>)" for P
    using ok by (simp add: project_ok_def references_run_def run_ids_def list_all_filter distinct_map_filter)
  have runs: "project_ok (?pd\<lparr>pd_store := ?st\<lparr>db_runs := filter P (db_runs ?st)\<rparr>\<rparr>)"
    if "filter Q (db_runs ?st) = [] \<or> references_run ?pd (filter P (db_runs ?st))"
      and "P = (\<lambda>r. \<not> Q r)" for P Q
  proof -
    have "filter Q (db_runs ?st) = [] \<Longrightarrow> filter P (db_runs ?st) = db_runs ?st"
      unfolding that(2) by (simp add: filter_empty_conv filter_id_conv)
    then have "references_run ?pd (filter P (db_runs ?st))"
      using that(1) ok by (auto simp: project_ok_def)
    then show ?thesis
      using ok by (intro repo_run_ok) (simp_all add: project_ok_def run_ids_def distinct_map_filter list_all_filter)
  qed
  show ?thesis
    using step unfolding archive_table_def Let_def sql_batch
    by (auto simp: bind_result_Inr_iff jobs steps logs split: if_splits intro: runs [OF _ refl])
qed

lemma archive_specs_ok:
  "project_ok (ad_project db) \<Longrightarrow>
     project_ok (ad_project (fst (archive_specs specs cfg now tenant_id db moved)))"
  by (induction specs arbitrary: db moved)
    (auto split: sum.splits dest: archive_table_ok intro: archive_emit_ok)

lemma archiver_loop_ok:
  "project_ok (ad_project db) \<Longrightarrow> project_ok (ad_project (archiver_loop cfg tenant_id polls db))"
  unfolding archiver_loop_def by (induction polls arbitrary: db) (simp_all add: archive_once_def archive_specs_ok)


section \<open>What one pass moves\<close>

definition cutoff_for :: "archive_config \<Rightarrow> int \<Rightarrow> string \<Rightarrow> duration_error + int" where
  "cutoff_for cfg now attr = bind_result (parse_duration (window_of cfg attr)) (minus_window now)"

definition before :: "int \<Rightarrow> int option \<Rightarrow> bool" where
  "before cutoff t = (case t of None \<Rightarrow> False | Some x \<Rightarrow> x < cutoff)"

definition job_aged :: "int \<Rightarrow> int \<Rightarrow> job \<Rightarrow> bool" where
  "job_aged cutoff tenant_id j \<longleftrightarrow> before cutoff (j_finished_at j) \<and> j_tenant_id j = tenant_id \<and>
     j_status j \<in> {Job_Succeeded, Job_Failed, Job_Cancelled, Job_Timed_Out}"

definition step_run_aged :: "int \<Rightarrow> step_run \<Rightarrow> bool" where
  "step_run_aged cutoff s \<longleftrightarrow> before cutoff (sx_finished_at s) \<and>
     sx_status s \<in> {Step_Run_Succeeded, Step_Run_Failed, Step_Run_Skipped}"

definition log_aged :: "int \<Rightarrow> log_row \<Rightarrow> bool" where
  "log_aged cutoff l \<longleftrightarrow> lg_timestamp l < cutoff"

definition run_aged :: "int \<Rightarrow> run_row \<Rightarrow> bool" where
  "run_aged cutoff r \<longleftrightarrow> before cutoff (r_completed_at r) \<and> run_terminal (r_status r)"

lemma job_predicate:
  "build_predicate job_columns ''finished_at'' (Some [''succeeded'', ''failed'', ''cancelled'', ''timed_out''])
     cutoff tenant_id True = job_aged cutoff tenant_id"
proof
  fix j
  show "build_predicate job_columns ''finished_at'' (Some [''succeeded'', ''failed'', ''cancelled'', ''timed_out''])
     cutoff tenant_id True j = job_aged cutoff tenant_id j"
    by (cases "j_status j") (auto simp: build_predicate_def job_columns_def job_aged_def before_def)
qed

lemma step_run_predicate:
  "build_predicate step_run_columns ''finished_at'' (Some [''succeeded'', ''failed'', ''skipped''])
     cutoff tenant_id False = step_run_aged cutoff"
proof
  fix s
  show "build_predicate step_run_columns ''finished_at'' (Some [''succeeded'', ''failed'', ''skipped''])
     cutoff tenant_id False s = step_run_aged cutoff s"
    by (cases "sx_status s") (auto simp: build_predicate_def step_run_columns_def step_run_aged_def before_def)
qed

lemma log_predicate:
  "build_predicate log_columns ''timestamp'' None cutoff tenant_id False = log_aged cutoff"
  by (auto simp: fun_eq_iff build_predicate_def log_columns_def log_aged_def)

lemma run_predicate:
  "build_predicate run_columns ''completed_at'' (Some [''success'', ''failed'', ''cancelled'', ''crashed''])
     cutoff tenant_id False = run_aged cutoff"
proof
  fix r
  show "build_predicate run_columns ''completed_at'' (Some [''success'', ''failed'', ''cancelled'', ''crashed''])
     cutoff tenant_id False r = run_aged cutoff r"
    by (cases "r_status r") (auto simp: build_predicate_def run_columns_def run_aged_def before_def)
qed

text \<open>The references to runs that a pass leaves.\<close>

definition runs_free :: "archive_db \<Rightarrow> int \<Rightarrow> int \<Rightarrow> int \<Rightarrow> int \<Rightarrow> int \<Rightarrow> bool" where
  "runs_free db jobs_cut steps_cut logs_cut runs_cut tenant_id \<longleftrightarrow>
     (let pd = ad_project db; st = pd_store pd
      in filter (run_aged runs_cut) (db_runs st) = [] \<or>
         references_run
           (pd\<lparr>pd_store := st\<lparr>db_jobs := filter (\<lambda>j. \<not> job_aged jobs_cut tenant_id j) (db_jobs st),
                             db_step_runs := filter (\<lambda>s. \<not> step_run_aged steps_cut s) (db_step_runs st)\<rparr>,
               pd_logs := filter (\<lambda>l. \<not> log_aged logs_cut l) (pd_logs pd)\<rparr>)
           (filter (\<lambda>r. \<not> run_aged runs_cut r) (db_runs st)))"

lemma references_run_emit [simp]:
  "references_run (ad_project (archive_emit t n db)) = references_run (ad_project db)"
  by (simp add: fun_eq_iff archive_emit_def references_run_def)

lemma archive_emit_simps [simp]:
  "db_jobs (pd_store (ad_project (archive_emit t n db))) = db_jobs (pd_store (ad_project db))"
  "db_step_runs (pd_store (ad_project (archive_emit t n db))) = db_step_runs (pd_store (ad_project db))"
  "db_runs (pd_store (ad_project (archive_emit t n db))) = db_runs (pd_store (ad_project db))"
  "pd_logs (ad_project (archive_emit t n db)) = pd_logs (ad_project db)"
  "pd_pipelines (ad_project (archive_emit t n db)) = pd_pipelines (ad_project db)"
  "ad_jobs (archive_emit t n db) = ad_jobs db" "ad_step_runs (archive_emit t n db) = ad_step_runs db"
  "ad_logs (archive_emit t n db) = ad_logs db" "ad_runs (archive_emit t n db) = ad_runs db"
  by (simp_all add: archive_emit_def)

lemma archive_jobs_spec:
  "archive_table (ARCHIVE_TABLES ! 0) cutoff tenant_id db =
     (let p = job_aged cutoff tenant_id; pd = ad_project db; js = db_jobs (pd_store pd)
      in Inr (length (filter p js),
           db\<lparr>ad_project := pd\<lparr>pd_store := (pd_store pd)\<lparr>db_jobs := filter (\<lambda>j. \<not> p j) js\<rparr>\<rparr>,
              ad_jobs := ad_jobs db @ filter p js\<rparr>))"
  by (simp add: archive_table_def ARCHIVE_TABLES_def job_predicate sql_batch Let_def)

lemma archive_steps_spec:
  "archive_table (ARCHIVE_TABLES ! 1) cutoff tenant_id db =
     (let p = step_run_aged cutoff; pd = ad_project db; xs = db_step_runs (pd_store pd)
      in Inr (length (filter p xs),
           db\<lparr>ad_project := pd\<lparr>pd_store := (pd_store pd)\<lparr>db_step_runs := filter (\<lambda>j. \<not> p j) xs\<rparr>\<rparr>,
              ad_step_runs := ad_step_runs db @ filter p xs\<rparr>))"
  by (simp add: archive_table_def ARCHIVE_TABLES_def step_run_predicate sql_batch Let_def)

lemma archive_logs_spec:
  "archive_table (ARCHIVE_TABLES ! 2) cutoff tenant_id db =
     (let p = log_aged cutoff; pd = ad_project db; ls = pd_logs pd
      in Inr (length (filter p ls),
           db\<lparr>ad_project := pd\<lparr>pd_logs := filter (\<lambda>j. \<not> p j) ls\<rparr>, ad_logs := ad_logs db @ filter p ls\<rparr>))"
  by (simp add: archive_table_def ARCHIVE_TABLES_def log_predicate sql_batch Let_def)

lemma archive_runs_spec:
  "archive_table (ARCHIVE_TABLES ! 3) cutoff tenant_id db =
     (let p = run_aged cutoff; pd = ad_project db; rs = db_runs (pd_store pd)
      in if filter p rs = [] \<or> references_run pd (filter (\<lambda>r. \<not> p r) rs)
         then Inr (length (filter p rs),
           db\<lparr>ad_project := pd\<lparr>pd_store := (pd_store pd)\<lparr>db_runs := filter (\<lambda>j. \<not> p j) rs\<rparr>\<rparr>,
              ad_runs := ad_runs db @ filter p rs\<rparr>)
         else Inl Archive_Integrity_Error)"
  by (simp add: archive_table_def ARCHIVE_TABLES_def run_predicate sql_batch Let_def)

lemma archive_tables_unfold:
  "ARCHIVE_TABLES = [ARCHIVE_TABLES ! 0, ARCHIVE_TABLES ! 1, ARCHIVE_TABLES ! 2, ARCHIVE_TABLES ! 3]"
  by (simp add: ARCHIVE_TABLES_def)

lemma archive_tables_nth:
  "ts_window_attr (ARCHIVE_TABLES ! 0) = ''jobs_window''" "ts_table (ARCHIVE_TABLES ! 0) = ''jobs''"
  "ts_window_attr (ARCHIVE_TABLES ! 1) = ''steps_window''" "ts_table (ARCHIVE_TABLES ! 1) = ''step_runs''"
  "ts_window_attr (ARCHIVE_TABLES ! 2) = ''logs_window''" "ts_table (ARCHIVE_TABLES ! 2) = ''logs''"
  "ts_window_attr (ARCHIVE_TABLES ! 3) = ''runs_window''" "ts_table (ARCHIVE_TABLES ! 3) = ''runs''"
  by (simp_all add: ARCHIVE_TABLES_def)

lemma archive_specs_step:
  "cutoff_for cfg now (ts_window_attr spec) = Inr cutoff \<Longrightarrow> archive_table spec cutoff tenant_id db = Inr (n, db') \<Longrightarrow>
     archive_specs (spec # specs) cfg now tenant_id db moved =
     archive_specs specs cfg now tenant_id (archive_emit (ts_table spec) n db') (moved @ [(ts_table spec, n)])"
  by (simp add: cutoff_for_def)

lemma archive_specs_refused:
  "cutoff_for cfg now (ts_window_attr spec) = Inr cutoff \<Longrightarrow> archive_table spec cutoff tenant_id db = Inl e \<Longrightarrow>
     archive_specs (spec # specs) cfg now tenant_id db moved = archive_specs specs cfg now tenant_id db moved"
  by (simp add: cutoff_for_def)

definition pass_effect :: "archive_db \<Rightarrow> int \<Rightarrow> int \<Rightarrow> int \<Rightarrow> int \<Rightarrow> int \<Rightarrow> archive_db \<Rightarrow> bool" where
  "pass_effect db jobs_cut steps_cut logs_cut runs_cut tenant_id db' \<longleftrightarrow>
     (let pd = ad_project db; st = pd_store pd; pd' = ad_project db'; st' = pd_store pd';
          free = runs_free db jobs_cut steps_cut logs_cut runs_cut tenant_id
      in db_jobs st' = filter (\<lambda>j. \<not> job_aged jobs_cut tenant_id j) (db_jobs st) \<and>
         ad_jobs db' = ad_jobs db @ filter (job_aged jobs_cut tenant_id) (db_jobs st) \<and>
         db_step_runs st' = filter (\<lambda>s. \<not> step_run_aged steps_cut s) (db_step_runs st) \<and>
         ad_step_runs db' = ad_step_runs db @ filter (step_run_aged steps_cut) (db_step_runs st) \<and>
         pd_logs pd' = filter (\<lambda>l. \<not> log_aged logs_cut l) (pd_logs pd) \<and>
         ad_logs db' = ad_logs db @ filter (log_aged logs_cut) (pd_logs pd) \<and>
         db_runs st' = (if free then filter (\<lambda>r. \<not> run_aged runs_cut r) (db_runs st) else db_runs st) \<and>
         ad_runs db' = (if free then ad_runs db @ filter (run_aged runs_cut) (db_runs st) else ad_runs db))"

lemma archive_once_pass:
  assumes "cutoff_for cfg now ''jobs_window'' = Inr jobs_cut" "cutoff_for cfg now ''steps_window'' = Inr steps_cut"
    "cutoff_for cfg now ''logs_window'' = Inr logs_cut" "cutoff_for cfg now ''runs_window'' = Inr runs_cut"
  shows "pass_effect db jobs_cut steps_cut logs_cut runs_cut tenant_id (fst (archive_once db now cfg tenant_id)) \<and>
     snd (archive_once db now cfg tenant_id) = Inr
       ([(''jobs'', length (filter (job_aged jobs_cut tenant_id) (db_jobs (pd_store (ad_project db))))),
         (''step_runs'', length (filter (step_run_aged steps_cut) (db_step_runs (pd_store (ad_project db))))),
         (''logs'', length (filter (log_aged logs_cut) (pd_logs (ad_project db))))] @
        (if runs_free db jobs_cut steps_cut logs_cut runs_cut tenant_id
         then [(''runs'', length (filter (run_aged runs_cut) (db_runs (pd_store (ad_project db)))))] else []))"
proof -
  let ?pd = "ad_project db" and ?st = "pd_store (ad_project db)"
  define d1 where "d1 = archive_emit ''jobs'' (length (filter (job_aged jobs_cut tenant_id) (db_jobs ?st)))
     (db\<lparr>ad_project := ?pd\<lparr>pd_store := ?st\<lparr>db_jobs := filter (\<lambda>j. \<not> job_aged jobs_cut tenant_id j) (db_jobs ?st)\<rparr>\<rparr>,
         ad_jobs := ad_jobs db @ filter (job_aged jobs_cut tenant_id) (db_jobs ?st)\<rparr>)"
  let ?p1 = "ad_project d1" and ?s1 = "pd_store (ad_project d1)"
  define d2 where "d2 = archive_emit ''step_runs'' (length (filter (step_run_aged steps_cut) (db_step_runs ?s1)))
     (d1\<lparr>ad_project := ?p1\<lparr>pd_store := ?s1\<lparr>db_step_runs := filter (\<lambda>j. \<not> step_run_aged steps_cut j) (db_step_runs ?s1)\<rparr>\<rparr>,
         ad_step_runs := ad_step_runs d1 @ filter (step_run_aged steps_cut) (db_step_runs ?s1)\<rparr>)"
  let ?p2 = "ad_project d2"
  define d3 where "d3 = archive_emit ''logs'' (length (filter (log_aged logs_cut) (pd_logs ?p2)))
     (d2\<lparr>ad_project := ?p2\<lparr>pd_logs := filter (\<lambda>j. \<not> log_aged logs_cut j) (pd_logs ?p2)\<rparr>,
         ad_logs := ad_logs d2 @ filter (log_aged logs_cut) (pd_logs ?p2)\<rparr>)"
  let ?m = "[(''jobs'', length (filter (job_aged jobs_cut tenant_id) (db_jobs ?st))),
      (''step_runs'', length (filter (step_run_aged steps_cut) (db_step_runs ?s1))),
      (''logs'', length (filter (log_aged logs_cut) (pd_logs ?p2)))]"
  have to_runs: "archive_once db now cfg tenant_id =
      archive_specs [ARCHIVE_TABLES ! 3] cfg now tenant_id d3 ?m"
    unfolding archive_once_def
    apply (subst archive_tables_unfold)
    apply (subst archive_specs_step [OF _ archive_jobs_spec [unfolded Let_def]], simp only: archive_tables_nth assms)
    apply (subst archive_specs_step [OF _ archive_steps_spec [unfolded Let_def]], simp only: archive_tables_nth assms)
    apply (subst archive_specs_step [OF _ archive_logs_spec [unfolded Let_def]], simp only: archive_tables_nth assms)
    unfolding archive_tables_nth d1_def [symmetric] d2_def [symmetric] d3_def [symmetric] append.simps ..
  have refs: "references_run (ad_project d3) =
      references_run (?pd\<lparr>pd_store := ?st\<lparr>db_jobs := filter (\<lambda>j. \<not> job_aged jobs_cut tenant_id j) (db_jobs ?st),
            db_step_runs := filter (\<lambda>s. \<not> step_run_aged steps_cut s) (db_step_runs ?st)\<rparr>,
         pd_logs := filter (\<lambda>l. \<not> log_aged logs_cut l) (pd_logs ?pd)\<rparr>)"
    by (simp add: fun_eq_iff references_run_def d3_def d2_def d1_def archive_emit_def)
  have runs3: "db_runs (pd_store (ad_project d3)) = db_runs ?st" by (simp add: d3_def d2_def d1_def)
  have free: "(filter (run_aged runs_cut) (db_runs ?st) = [] \<or>
       references_run (ad_project d3) (filter (\<lambda>r. \<not> run_aged runs_cut r) (db_runs ?st))) \<longleftrightarrow>
       runs_free db jobs_cut steps_cut logs_cut runs_cut tenant_id"
    unfolding refs runs_free_def Let_def ..
  show ?thesis
  proof (cases "runs_free db jobs_cut steps_cut logs_cut runs_cut tenant_id")
    case True
    have "archive_once db now cfg tenant_id =
        archive_specs [] cfg now tenant_id
          (archive_emit ''runs'' (length (filter (run_aged runs_cut) (db_runs ?st)))
            (d3\<lparr>ad_project := (ad_project d3)\<lparr>pd_store := (pd_store (ad_project d3))
                  \<lparr>db_runs := filter (\<lambda>j. \<not> run_aged runs_cut j) (db_runs ?st)\<rparr>\<rparr>,
               ad_runs := ad_runs d3 @ filter (run_aged runs_cut) (db_runs ?st)\<rparr>))
          (?m @ [(''runs'', length (filter (run_aged runs_cut) (db_runs ?st)))])"
      unfolding to_runs
      by (subst archive_specs_step [where cutoff = runs_cut])
        (simp_all only: archive_tables_nth assms archive_runs_spec Let_def free True runs3 if_True)
    then show ?thesis using True
      by (simp add: pass_effect_def d3_def d2_def d1_def)
  next
    case False
    have "archive_once db now cfg tenant_id = archive_specs [] cfg now tenant_id d3 ?m"
      unfolding to_runs
      by (subst archive_specs_refused [where cutoff = runs_cut and e = Archive_Integrity_Error])
        (simp_all only: archive_tables_nth assms archive_runs_spec Let_def runs3 free False if_False)
    then show ?thesis using False
      by (simp add: pass_effect_def d3_def d2_def d1_def)
  qed
qed


section \<open>The runs that stay\<close>

text \<open>An aged run that is still the last run of its pipeline keeps the whole batch of runs back.\<close>

definition pins :: "int \<Rightarrow> archive_db \<Rightarrow> bool" where
  "pins cutoff db \<longleftrightarrow>
     list_ex (\<lambda>p. list_ex (\<lambda>r. pp_last_run_id p = Some (r_id r) \<and> run_aged cutoff r)
       (db_runs (pd_store (ad_project db)))) (pd_pipelines (ad_project db))"

lemma pinned_breaks:
  assumes ok: "project_ok (ad_project db)" and pin: "pins cutoff db"
    and pipes: "pd_pipelines pd = pd_pipelines (ad_project db)"
  shows "filter (run_aged cutoff) (db_runs (pd_store (ad_project db))) \<noteq> [] \<and>
    \<not> references_run pd (filter (\<lambda>r. \<not> run_aged cutoff r) (db_runs (pd_store (ad_project db))))"
proof -
  let ?runs = "db_runs (pd_store (ad_project db))"
  obtain p r where pr: "p \<in> set (pd_pipelines (ad_project db))" "r \<in> set ?runs"
      "pp_last_run_id p = Some (r_id r)" "run_aged cutoff r"
    using pin by (auto simp: pins_def list_ex_iff)
  have "distinct (map r_id ?runs)" using ok by (simp add: project_ok_def run_ids_def)
  then have "r_id r \<notin> set (map r_id (filter (\<lambda>r. \<not> run_aged cutoff r) ?runs))"
    using pr(2,4) by (auto simp: distinct_map inj_on_def)
  then have "\<not> opt_in (pp_last_run_id p) (map r_id (filter (\<lambda>r. \<not> run_aged cutoff r) ?runs))"
    by (simp only: pr(3) opt_in_simps not_False_eq_True)
  then have "\<not> list_all (\<lambda>p. opt_in (pp_last_run_id p) (map r_id (filter (\<lambda>r. \<not> run_aged cutoff r) ?runs)))
      (pd_pipelines pd)"
    unfolding pipes list_all_iff using pr(1) by blast
  then show ?thesis using pr(2,4) by (auto simp: references_run_def filter_empty_conv)
qed

lemma pinned_not_free:
  "project_ok (ad_project db) \<Longrightarrow> pins runs_cut db \<Longrightarrow>
     \<not> runs_free db jobs_cut steps_cut logs_cut runs_cut tenant_id"
  unfolding runs_free_def Let_def by (intro notI) (elim disjE, insert pinned_breaks, simp, force)

lemma run_aged_later: "run_aged c r \<Longrightarrow> c \<le> d \<Longrightarrow> run_aged d r"
  by (auto simp: run_aged_def before_def split: option.splits)

lemma cutoff_for_mono:
  assumes "cutoff_for cfg now attr = Inr c" and "now \<le> later"
  shows "cutoff_for cfg later attr = Inr (c + (later - now))"
proof -
  obtain w where w: "parse_duration (window_of cfg attr) = Inr w" "\<not> now - w < DATETIME_MIN" "c = now - w"
    using assms(1) by (auto simp: cutoff_for_def bind_result_Inr_iff minus_window_def split: if_splits)
  then show ?thesis using assms(2) by (simp add: cutoff_for_def minus_window_def)
qed

lemma archive_specs_runs_stay:
  assumes ok: "project_ok (ad_project db)" and pin: "pins runs_cut db"
    and cut: "cutoff_for cfg now ''runs_window'' = Inr runs_cut"
    and specs: "list_all (\<lambda>s. ts_table s \<in> {''jobs'', ''step_runs'', ''logs''} \<or> s = ARCHIVE_TABLES ! 3) specs"
  shows "db_runs (pd_store (ad_project (fst (archive_specs specs cfg now tenant_id db moved)))) =
           db_runs (pd_store (ad_project db)) \<and>
         ad_runs (fst (archive_specs specs cfg now tenant_id db moved)) = ad_runs db"
  using ok pin specs
proof (induction specs arbitrary: db moved)
  case Nil
  then show ?case by simp
next
  case (Cons spec specs)
  show ?case
  proof (cases "cutoff_for cfg now (ts_window_attr spec)")
    case (Inl e)
    then show ?thesis by (simp add: cutoff_for_def)
  next
    case cutoff: (Inr c)
    show ?thesis
    proof (cases "archive_table spec c tenant_id db")
      case (Inl e)
      then show ?thesis using archive_specs_refused [OF cutoff Inl] Cons by simp
    next
      case (Inr res)
      obtain n db' where step: "archive_table spec c tenant_id db = Inr (n, db')" using Inr by (cases res) simp
      have "spec \<noteq> ARCHIVE_TABLES ! 3"
      proof
        assume *: "spec = ARCHIVE_TABLES ! 3"
        then have "c = runs_cut" using cutoff cut by (simp add: archive_tables_nth)
        then have "\<not> (filter (run_aged c) (db_runs (pd_store (ad_project db))) = [] \<or>
            references_run (ad_project db) (filter (\<lambda>r. \<not> run_aged c r) (db_runs (pd_store (ad_project db)))))"
          using pinned_breaks [OF Cons.prems(1,2) refl] by simp
        then show False using step unfolding * archive_runs_spec Let_def by simp
      qed
      then have "ts_table spec \<in> {''jobs'', ''step_runs'', ''logs''}" using Cons.prems(3) by simp
      then have same: "db_runs (pd_store (ad_project db')) = db_runs (pd_store (ad_project db))" "ad_runs db' = ad_runs db"
          "pd_pipelines (ad_project db') = pd_pipelines (ad_project db)"
        using step by (auto simp: archive_table_def Let_def bind_result_Inr_iff split: if_splits)
      have "project_ok (ad_project (archive_emit (ts_table spec) n db'))"
        by (rule archive_emit_ok [OF archive_table_ok [OF Cons.prems(1) step]])
      moreover have "pins runs_cut (archive_emit (ts_table spec) n db')"
        using Cons.prems(2) same by (simp add: pins_def)
      ultimately show ?thesis
        using Cons.IH [of "archive_emit (ts_table spec) n db'" "moved @ [(ts_table spec, n)]"] Cons.prems(3) same
        unfolding archive_specs_step [OF cutoff step] by simp
    qed
  qed
qed


lemma archive_tables_kinds:
  "list_all (\<lambda>s. ts_table s \<in> {''jobs'', ''step_runs'', ''logs''} \<or> s = ARCHIVE_TABLES ! 3) ARCHIVE_TABLES"
  by (simp add: ARCHIVE_TABLES_def)

lemma archiver_loop_Cons:
  "archiver_loop cfg tenant_id (now # polls) db =
     archiver_loop cfg tenant_id polls (fst (archive_once db now cfg tenant_id))"
  by (simp add: archiver_loop_def)

lemma archiver_loop_runs_stay:
  assumes "project_ok (ad_project db)" and "pins cutoff db" and "cutoff_for cfg start ''runs_window'' = Inr cutoff"
    and "list_all (\<lambda>now. start \<le> now) polls"
  shows "db_runs (pd_store (ad_project (archiver_loop cfg tenant_id polls db))) =
           db_runs (pd_store (ad_project db)) \<and> ad_runs (archiver_loop cfg tenant_id polls db) = ad_runs db"
  using assms
proof (induction polls arbitrary: db)
  case Nil
  then show ?case by (simp add: archiver_loop_def)
next
  case (Cons now polls)
  let ?db = "fst (archive_once db now cfg tenant_id)"
  let ?cut = "cutoff + (now - start)"
  have later: "start \<le> now" "cutoff \<le> ?cut" using Cons.prems(4) by simp_all
  have cut: "cutoff_for cfg now ''runs_window'' = Inr ?cut" using cutoff_for_mono [OF Cons.prems(3) later(1)] .
  have "pins ?cut db" using Cons.prems(2) run_aged_later [OF _ later(2)] by (auto simp: pins_def list_ex_iff)
  then have stay: "db_runs (pd_store (ad_project ?db)) = db_runs (pd_store (ad_project db))" "ad_runs ?db = ad_runs db"
    using archive_specs_runs_stay [OF Cons.prems(1) _ cut archive_tables_kinds] by (simp_all add: archive_once_def)
  have "pd_pipelines (ad_project ?db) = pd_pipelines (ad_project db)"
    using archive_specs_same [of ARCHIVE_TABLES cfg now tenant_id db "[]"] by (simp add: archive_once_def same_rest_def)
  then have "pins cutoff ?db" using Cons.prems(2) stay(1) by (simp add: pins_def)
  moreover have "project_ok (ad_project ?db)" using Cons.prems(1) by (simp add: archive_once_def archive_specs_ok)
  ultimately show ?case
    using Cons.IH [of ?db] Cons.prems(3,4) stay by (simp add: archiver_loop_Cons)
qed

section \<open>Durations\<close>

lemma decimal_snoc: "decimal (s @ [c]) = decimal s * 10 + (int (of_char c) - 48)"
  by (simp add: decimal_def)

lemma parse_duration_Inr:
  assumes "parse_duration value = Inr w"
  shows "\<exists>digits u n. py_strip value = digits @ [u] \<and> list_all is_digit digits \<and> digits \<noteq> [] \<and>
     map_of DURATION_UNIT_SECONDS u = Some n \<and> w = decimal digits * n * 1000000 \<and>
     0 < decimal digits * n \<and> decimal digits * n < 86400 * 1000000000"
proof -
  let ?s = "py_strip value"
  obtain u n where u: "dropWhile is_digit ?s = [u]" "map_of DURATION_UNIT_SECONDS u = Some n"
      "takeWhile is_digit ?s \<noteq> []" "w = decimal (takeWhile is_digit ?s) * n * 1000000"
      "0 < decimal (takeWhile is_digit ?s) * n" "decimal (takeWhile is_digit ?s) * n div 86400 \<le> 999999999"
    using assms by (auto simp: parse_duration_def Let_def split: list.splits option.splits if_splits)
  have "?s = takeWhile is_digit ?s @ [u]" using u(1) by (metis takeWhile_dropWhile_id)
  moreover have "list_all is_digit (takeWhile is_digit ?s)" by (auto simp: list_all_iff dest: set_takeWhileD)
  ultimately show ?thesis using u(2-6)
    by (intro exI [of _ "takeWhile is_digit ?s"] exI [of _ u] exI [of _ n]) auto
qed

section \<open>Properties\<close>

text \<open>
  C6: however often the archiver polls, whatever its configuration and whichever batches fail, no
  row is lost or invented: in each of the four tables, the active rows and the archived rows
  together are the same multiset as before. The tables it does not archive are untouched, and
  every key and foreign key of the store still holds.
\<close>

theorem archiver_loses_nothing:
  assumes "project_ok (ad_project db)"
  shows "same_rows (archiver_loop cfg tenant_id polls db) db \<and>
         same_rest (archiver_loop cfg tenant_id polls db) db \<and>
         project_ok (ad_project (archiver_loop cfg tenant_id polls db))"
  using assms archiver_loop_same archiver_loop_ok by blast

text \<open>
  C15: one pass with valid windows moves exactly the rows that are terminal and strictly older than
  the window of their table (jobs of the archiver's tenant only), appends them to the archive
  tables in order, and reports the counts; the runs move together or not at all, according to
  whether a reference to one of the aged runs remains after the children have moved.
\<close>

theorem archive_pass_moves_exactly:
  assumes "cutoff_for cfg now ''jobs_window'' = Inr jobs_cut" "cutoff_for cfg now ''steps_window'' = Inr steps_cut"
    "cutoff_for cfg now ''logs_window'' = Inr logs_cut" "cutoff_for cfg now ''runs_window'' = Inr runs_cut"
  shows "pass_effect db jobs_cut steps_cut logs_cut runs_cut tenant_id (fst (archive_once db now cfg tenant_id)) \<and>
     snd (archive_once db now cfg tenant_id) = Inr
       ([(''jobs'', length (filter (job_aged jobs_cut tenant_id) (db_jobs (pd_store (ad_project db))))),
         (''step_runs'', length (filter (step_run_aged steps_cut) (db_step_runs (pd_store (ad_project db))))),
         (''logs'', length (filter (log_aged logs_cut) (pd_logs (ad_project db))))] @
        (if runs_free db jobs_cut steps_cut logs_cut runs_cut tenant_id
         then [(''runs'', length (filter (run_aged runs_cut) (db_runs (pd_store (ad_project db)))))] else []))"
  using assms by (rule archive_once_pass)

text \<open>
  C29: as long as some pipeline's last run is itself past the window, no run is archived, however
  many other aged runs there are and however long the archiver polls: the single \<open>DELETE\<close> of the
  batch violates the foreign key from \<open>pipelines.last_run_id\<close> and is rolled back each time.
\<close>

theorem idle_pipeline_blocks_run_archive:
  assumes "project_ok (ad_project db)" and "pins cutoff db"
    and "cutoff_for cfg start ''runs_window'' = Inr cutoff" and "list_all (\<lambda>now. start \<le> now) polls"
  shows "db_runs (pd_store (ad_project (archiver_loop cfg tenant_id polls db))) =
           db_runs (pd_store (ad_project db)) \<and>
         ad_runs (archiver_loop cfg tenant_id polls db) = ad_runs db"
  using assms by (rule archiver_loop_runs_stay)

text \<open>
  A parsed window is digits followed by one unit; its length is that many units, at least a
  second and less than a billion days, and the cutoff it gives lies strictly before the present, so
  a row that has just finished is never old enough to move.
\<close>

theorem parse_duration_bounds:
  assumes "parse_duration value = Inr w"
  shows "1000000 \<le> w \<and> w < 86400 * 1000000000 * 1000000 \<and>
     (\<exists>digits u n. py_strip value = digits @ [u] \<and> list_all is_digit digits \<and>
        map_of DURATION_UNIT_SECONDS u = Some n \<and> w = decimal digits * n * 1000000) \<and>
     (case minus_window now w of Inl e \<Rightarrow> e = Overflow_Error \<and> now - w < DATETIME_MIN | Inr cutoff \<Rightarrow> cutoff < now)"
proof -
  obtain digits u n where d: "py_strip value = digits @ [u]" "list_all is_digit digits"
      "map_of DURATION_UNIT_SECONDS u = Some n" "w = decimal digits * n * 1000000"
      "0 < decimal digits * n" "decimal digits * n < 86400 * 1000000000"
    using parse_duration_Inr [OF assms] by blast
  define seconds where "seconds = decimal digits * n"
  have "w = seconds * 1000000" "0 < seconds" "seconds < 86400 * 1000000000"
    using d(4-6) unfolding seconds_def by simp_all
  then have "1000000 \<le> w \<and> w < 86400 * 1000000000 * 1000000" by simp
  then show ?thesis using d(1-4) by (auto simp: minus_window_def)
qed

section \<open>Samples\<close>

definition day :: int where
  "day = 86400000000"

definition sample_run :: "string \<Rightarrow> int \<Rightarrow> run_row" where
  "sample_run i t = \<lparr>r_id = i, r_kind = ''pipeline'', r_target_id = ''p'', r_target = None,
     r_pipeline_name = Some ''p'', r_parent_run_id = None, r_status = Run_Row_Success,
     r_started_at = Some t, r_completed_at = Some t, r_duration_ms = Some 0, r_error_message = None,
     r_created_at = t\<rparr>"

text \<open>A pipeline whose last run is the second of two old ones.\<close>

definition sample_db :: archive_db where
  "sample_db =
     \<lparr>ad_project = (empty_project (Some True))
        \<lparr>pd_store := (pd_store (empty_project (Some True)))
           \<lparr>db_runs := [sample_run ''r1'' 0, sample_run ''r2'' day], db_pipelines := [''p'']\<rparr>,
         pd_pipelines := [\<lparr>pp_name = ''p'', pp_description = [], pp_pipeline_dir = ''el/p'',
            pp_current_build_id = None, pp_created_at = 0, pp_updated_at = 0, pp_last_run_id = Some ''r2'',
            pp_last_run_status = Some ''success'', pp_last_run_at = Some day\<rparr>],
         pd_logs := [\<lparr>lg_id = 1, lg_run_id = ''r1'', lg_timestamp = 0, lg_level = ''info'', lg_source = ''dlt'',
            lg_message = ''loaded''\<rparr>], pd_log_next := 2\<rparr>,
      ad_jobs = [], ad_step_runs = [], ad_logs = [], ad_runs = []\<rparr>"

lemma sample_windows:
  "cutoff_for default_archive_config (40 * day) ''jobs_window'' = Inr (33 * day)"
  "cutoff_for default_archive_config (40 * day) ''steps_window'' = Inr (10 * day)"
  "cutoff_for default_archive_config (40 * day) ''logs_window'' = Inr (10 * day)"
  "cutoff_for default_archive_config (40 * day) ''runs_window'' = Inr (10 * day)"
  by code_simp+

lemma sample_db_ok: "project_ok (ad_project sample_db)" "pins (10 * day) sample_db"
  by code_simp+

theorem archiver_loses_nothing_witness:
  "same_rows (archiver_loop default_archive_config 1 [40 * day, 41 * day] sample_db) sample_db \<and>
   length (ad_logs (archiver_loop default_archive_config 1 [40 * day, 41 * day] sample_db)) = 1"
proof
  show "same_rows (archiver_loop default_archive_config 1 [40 * day, 41 * day] sample_db) sample_db"
    using archiver_loses_nothing [OF sample_db_ok(1)] by blast
qed code_simp

theorem archive_pass_moves_exactly_witness:
  "snd (archive_once sample_db (40 * day) default_archive_config 1) =
     Inr [(''jobs'', 0), (''step_runs'', 0), (''logs'', 1)]"
proof -
  have "\<not> runs_free sample_db (33 * day) (10 * day) (10 * day) (10 * day) 1"
    "length (filter (job_aged (33 * day) 1) (db_jobs (pd_store (ad_project sample_db)))) = 0"
    "length (filter (step_run_aged (10 * day)) (db_step_runs (pd_store (ad_project sample_db)))) = 0"
    "length (filter (log_aged (10 * day)) (pd_logs (ad_project sample_db))) = 1"
    by code_simp+
  then show ?thesis
    using archive_pass_moves_exactly [OF sample_windows, of sample_db 1] by simp
qed

theorem idle_pipeline_blocks_run_archive_witness:
  "length (db_runs (pd_store (ad_project
     (archiver_loop default_archive_config 1 [40 * day, 80 * day, 4000 * day] sample_db)))) = 2"
proof -
  have "list_all (\<lambda>now. 40 * day \<le> now) [40 * day, 80 * day, 4000 * day]" by code_simp
  then have "db_runs (pd_store (ad_project
      (archiver_loop default_archive_config 1 [40 * day, 80 * day, 4000 * day] sample_db))) =
      db_runs (pd_store (ad_project sample_db))"
    using idle_pipeline_blocks_run_archive [OF sample_db_ok sample_windows(4)] by blast
  moreover have "length (db_runs (pd_store (ad_project sample_db))) = 2" by code_simp
  ultimately show ?thesis by simp
qed

theorem parse_duration_bounds_witness:
  "parse_duration '' 12h '' = Inr 43200000000 \<and> (1000000 :: int) \<le> 43200000000"
proof -
  have p: "parse_duration '' 12h '' = Inr 43200000000" by code_simp
  with parse_duration_bounds [OF p, of 0] show ?thesis by simp
qed

end
