(* ===== verification/Permission_Modes.thy ===== *)
theory Permission_Modes
  imports Prelude
begin

text \<open>
  The permission lattice of \<open>core/agents/permissions/modes.py\<close> and the warehouse role
  rule of \<open>core/agents/permissions/warehouse_roles.py\<close>. The four modes are a linear
  order (an instance of the library's \<open>linorder\<close>), so the delegation clamp
  \<open>min_mode\<close> is the order's minimum and the library's facts about it apply.
\<close>

section \<open>The mode lattice\<close>

datatype permission_mode = READ_ONLY | PLAN | BUILD | DEPLOY

text \<open>The rank table \<open>_ORDER\<close> and the accessor \<open>rank\<close>.\<close>

fun mode_order :: "permission_mode \<Rightarrow> int" where
  "mode_order READ_ONLY = 0"
| "mode_order PLAN = 1"
| "mode_order BUILD = 2"
| "mode_order DEPLOY = 3"

definition rank :: "permission_mode \<Rightarrow> int" where
  "rank m = mode_order m"

definition min_mode :: "permission_mode \<Rightarrow> permission_mode \<Rightarrow> permission_mode" where
  "min_mode a b = (if mode_order a \<le> mode_order b then a else b)"

definition mode_permits :: "permission_mode \<Rightarrow> permission_mode \<Rightarrow> bool" where
  "mode_permits m required \<longleftrightarrow> mode_order m \<ge> mode_order required"

text \<open>\<open>_VERB_TO_MODE\<close>; an unknown verb raises \<open>KeyError\<close> (here \<open>Inl\<close> the verb).\<close>

definition verb_to_mode :: "string \<rightharpoonup> permission_mode" where
  "verb_to_mode = [''ask'' \<mapsto> READ_ONLY, ''plan'' \<mapsto> PLAN, ''build'' \<mapsto> BUILD, ''deploy'' \<mapsto> DEPLOY]"

definition mode_for_verb :: "string \<Rightarrow> string + permission_mode" where
  "mode_for_verb verb = (case verb_to_mode verb of None \<Rightarrow> Inl verb | Some m \<Rightarrow> Inr m)"

instantiation permission_mode :: linorder
begin

definition less_eq_permission_mode :: "permission_mode \<Rightarrow> permission_mode \<Rightarrow> bool" where
  "a \<le> b \<longleftrightarrow> mode_order a \<le> mode_order b"

definition less_permission_mode :: "permission_mode \<Rightarrow> permission_mode \<Rightarrow> bool" where
  "a < b \<longleftrightarrow> mode_order a < mode_order b"

instance
proof
  fix a b :: permission_mode
  show "a \<le> b \<Longrightarrow> b \<le> a \<Longrightarrow> a = b"
    by (cases a; cases b) (auto simp: less_eq_permission_mode_def)
qed (auto simp: less_eq_permission_mode_def less_permission_mode_def)

end

lemma min_mode_is_min: "min_mode a b = min a b"
  by (simp add: min_mode_def min_def less_eq_permission_mode_def)

lemma mode_permits_le: "mode_permits m r \<longleftrightarrow> r \<le> m"
  by (simp add: mode_permits_def less_eq_permission_mode_def)

lemma mode_permits_BUILD: "mode_permits m BUILD \<longleftrightarrow> m = BUILD \<or> m = DEPLOY"
  by (cases m) (simp_all add: mode_permits_def)

lemma mode_permits_DEPLOY: "mode_permits m DEPLOY \<longleftrightarrow> m = DEPLOY"
  by (cases m) (simp_all add: mode_permits_def)

lemma min_mode_lower: "min_mode a b \<le> a" "min_mode a b \<le> b"
  by (simp_all add: min_mode_is_min)

section \<open>Authority that grows with the mode\<close>

text \<open>
  The interface delegation relies on: some authority (a set of tools, of commands) indexed
  by the mode and monotone in it. A delegation chain runs at the clamp of the parent's mode
  and every capability along the way, so its authority is inside each of theirs.
\<close>

definition clamp_chain :: "permission_mode \<Rightarrow> permission_mode list \<Rightarrow> permission_mode" where
  "clamp_chain parent capabilities = foldl min_mode parent capabilities"

lemma clamp_chain_lower:
  "clamp_chain parent caps \<le> parent" "c \<in> set caps \<Longrightarrow> clamp_chain parent caps \<le> c"
proof -
  have below: "foldl min_mode p cs \<le> p" for p cs
    by (induction cs arbitrary: p) (auto intro: order_trans min_mode_lower(1))
  then show "clamp_chain parent caps \<le> parent" by (simp add: clamp_chain_def)
  have "c \<in> set cs \<Longrightarrow> foldl min_mode p cs \<le> c" for p cs
  proof (induction cs arbitrary: p)
    case Nil
    then show ?case by simp
  next
    case (Cons d cs)
    show ?case
    proof (cases "c = d")
      case True
      with below [of "min_mode p d" cs] min_mode_lower(2) [of p d] show ?thesis by simp
    next
      case False
      with Cons show ?thesis by simp
    qed
  qed
  then show "c \<in> set caps \<Longrightarrow> clamp_chain parent caps \<le> c" by (simp add: clamp_chain_def)
qed

locale mode_indexed_authority =
  fixes authority :: "permission_mode \<Rightarrow> 'a set"
  assumes authority_mono: "m \<le> m' \<Longrightarrow> authority m \<subseteq> authority m'"
begin

lemma clamp_authority: "authority (min_mode parent capability) \<subseteq> authority parent \<inter> authority capability"
  using authority_mono [OF min_mode_lower(1)] authority_mono [OF min_mode_lower(2)] by blast

lemma chain_authority:
  "authority (clamp_chain parent caps) \<subseteq> authority parent \<inter> (\<Inter>c \<in> set caps. authority c)"
  using authority_mono [OF clamp_chain_lower(1)] authority_mono [OF clamp_chain_lower(2)] by blast

lemma excluded_above: "x \<notin> authority m \<Longrightarrow> m' \<le> m \<Longrightarrow> x \<notin> authority m'"
  using authority_mono by blast

end

section \<open>Warehouse roles\<close>

datatype warehouse_role = READ_ROLE | DEPLOY_ROLE

datatype warehouse_error = WarehouseWriteDenied permission_mode

definition role_for :: "permission_mode \<Rightarrow> bool \<Rightarrow> warehouse_error + warehouse_role" where
  "role_for m is_write =
     (if \<not> is_write then Inr READ_ROLE
      else if \<not> mode_permits m DEPLOY then Inl (WarehouseWriteDenied m)
      else Inr DEPLOY_ROLE)"

lemma role_for_deploy_iff: "role_for m w = Inr DEPLOY_ROLE \<longleftrightarrow> w \<and> m = DEPLOY"
  by (simp add: role_for_def mode_permits_DEPLOY)

end
