(* ===== verification/Permission_Policy.thy ===== *)
theory Permission_Policy
  imports Permission_Modes
begin

text \<open>
  The permission floor of \<open>core/agents/permissions/policy.py\<close>: the tool sets, the bash
  tiering tables, the classification of imported MCP tools, and \<open>build_policy\<close>, which
  intersects the mode's floor with the configuration and the agent's grant and widens the
  result by registered MCP names only. A frozen set of strings is a set; paths are strings,
  already resolved (resolution is the operating system's, a parameter of \<open>build_policy\<close>).
\<close>

section \<open>Tool taxonomy\<close>

definition WRITE_TOOLS :: "string set" where
  "WRITE_TOOLS = {''edit'', ''create_file'', ''write_file'', ''run_snowflake_ddl''}"

definition SKILL_READ_TOOLS :: "string set" where
  "SKILL_READ_TOOLS =
    {''existing_dlt_inspect'', ''rest_api_explore'', ''dbt_manifest'', ''dbt_source_lookup'',
     ''dbt_conventions'', ''pipeline_inspect'', ''list_components'', ''list_dbt_models'',
     ''dlt_library''}"

definition ALL_TOOLS :: "string set" where
  "ALL_TOOLS =
    {''read_file'', ''glob'', ''grep'', ''web_fetch'', ''web_search'', ''todo'',
     ''run_snowflake_query'', ''sql'', ''lookup_skill_pack'', ''bash'', ''edit'',
     ''create_file'', ''write_file'', ''run_snowflake_ddl'', ''delegate''}
    \<union> SKILL_READ_TOOLS"

definition READ_TOOLS :: "string set" where
  "READ_TOOLS =
    {''read_file'', ''glob'', ''grep'', ''web_fetch'', ''web_search'', ''todo'',
     ''run_snowflake_query'', ''sql'', ''lookup_skill_pack'', ''bash'', ''delegate''}
    \<union> SKILL_READ_TOOLS"

section \<open>Imported MCP tools\<close>

definition MCP_TOOL_PREFIX :: string where
  "MCP_TOOL_PREFIX = ''mcp:''"

record mcp_tool_spec =
  mcp_name :: string
  mcp_writes :: bool

text \<open>Construction: \<open>__post_init__\<close> rejects a name outside the \<open>mcp:\<close> namespace.\<close>

definition make_mcp_tool_spec :: "string \<Rightarrow> bool \<Rightarrow> string + mcp_tool_spec" where
  "make_mcp_tool_spec n w =
     (if \<not> startswith n MCP_TOOL_PREFIX then Inl n
      else Inr \<lparr>mcp_name = n, mcp_writes = w\<rparr>)"

definition namespaced :: "mcp_tool_spec list \<Rightarrow> bool" where
  "namespaced specs \<longleftrightarrow> list_all (\<lambda>t. startswith (mcp_name t) MCP_TOOL_PREFIX) specs"

lemma make_mcp_tool_spec_namespaced:
  "make_mcp_tool_spec n w = Inr t \<Longrightarrow> namespaced [t]"
  by (auto simp: make_mcp_tool_spec_def namespaced_def split: if_splits)

text \<open>The classification loop: the permitted names and the prompt-tier names so far.\<close>

fun mcp_classify ::
  "bool \<Rightarrow> mcp_tool_spec list \<Rightarrow> string set \<Rightarrow> string set \<Rightarrow> string set \<times> string set" where
  "mcp_classify bod [] permitted prompt = (permitted, prompt)"
| "mcp_classify bod (t # ts) permitted prompt =
     (if \<not> mcp_writes t then mcp_classify bod ts (insert (mcp_name t) permitted) prompt
      else if bod then
        mcp_classify bod ts (insert (mcp_name t) permitted) (insert (mcp_name t) prompt)
      else mcp_classify bod ts permitted prompt)"

definition mcp_permitted_for_mode ::
  "permission_mode \<Rightarrow> mcp_tool_spec list \<Rightarrow> string set \<times> string set" where
  "mcp_permitted_for_mode m specs = mcp_classify (mode_permits m BUILD) specs {} {}"

section \<open>Bash tiering tables\<close>

datatype bash_tier = Tier_Allow | Tier_Prompt | Tier_Deny

record bash_rules =
  br_allow :: "string set"
  br_prompt :: "string set"
  br_deny :: "string set"
  br_default :: bash_tier

definition READ_BASH_ALLOW :: "string set" where
  "READ_BASH_ALLOW =
    {''pwd'', ''echo'', ''which'', ''true'', ''false'', ''date'', ''printenv'',
     ''git status'', ''git diff'', ''git log'', ''git show'', ''git branch'',
     ''git rev-parse'', ''git ls-files'', ''dbt ls'', ''dbt parse'', ''dbt compile'',
     ''dbt debug'', ''dlt --version'', ''carve pipelines validate''}"

definition BUILD_BASH_ALLOW :: "string set" where
  "BUILD_BASH_ALLOW =
    {''git add'', ''git commit'', ''git checkout'', ''git switch'', ''git restore'',
     ''git stash'', ''git merge'', ''git rebase'', ''git reset'', ''git tag'',
     ''dbt run'', ''dbt build'', ''dbt seed'', ''dbt test'', ''dbt snapshot'',
     ''dlt pipeline'', ''dlt init''}"

definition DEPLOY_BASH_PROMPT :: "string set" where
  "DEPLOY_BASH_PROMPT = {''git push'', ''gh pr create'', ''gh pr merge'', ''dlt deploy''}"

definition ALWAYS_DENY :: "string set" where
  "ALWAYS_DENY =
    {''sh'', ''bash'', ''zsh'', ''fish'', ''dash'', ''ksh'', ''csh'', ''tcsh'', ''eval'',
     ''exec'', ''source'', ''.'',
     ''sudo'', ''su'', ''doas'',
     ''python'', ''python2'', ''python3'', ''perl'', ''ruby'', ''node'', ''nodejs'',
     ''deno'', ''bun'', ''php'', ''lua'', ''Rscript'',
     ''pip'', ''pip3'', ''pipx'', ''uv'', ''uvx'', ''poetry'', ''conda'', ''npm'', ''npx'',
     ''pnpm'', ''yarn'', ''gem'', ''cargo'',
     ''curl'', ''wget'', ''nc'', ''ncat'', ''netcat'', ''socat'', ''ssh'', ''scp'',
     ''sftp'', ''rsync'', ''ftp'', ''telnet'',
     ''env'', ''xargs'', ''find'', ''awk'', ''gawk'', ''mawk'', ''sed'', ''watch'',
     ''timeout'', ''nohup'', ''nice'', ''ionice'', ''setsid'', ''stdbuf'', ''tee'',
     ''rm'', ''mv'', ''cp'', ''ln'', ''dd'', ''chmod'', ''chown'', ''chgrp'', ''mkfifo'',
     ''mknod'', ''truncate'', ''shred'', ''install''}"

definition DANGEROUS_BASH_FLAGS :: "string \<rightharpoonup> string list" where
  "DANGEROUS_BASH_FLAGS =
    [''git'' \<mapsto>
       [''-c'', ''--config-env'', ''--exec-path'', ''--upload-pack'', ''--receive-pack'',
        ''--ext-diff'', ''--no-index'', ''-C'', ''-o'', ''--output'', ''--git-dir'',
        ''--work-tree''],
     ''dbt'' \<mapsto>
       [''--profiles-dir'', ''--project-dir'', ''--profile'', ''--log-path'',
        ''--target-path''],
     ''dlt'' \<mapsto> [''--profiles-dir'', ''--project-dir'', ''--log-path'', ''--target-path''],
     ''carve'' \<mapsto> [''--project-dir'']]"

definition bash_rules_for_mode :: "permission_mode \<Rightarrow> bash_rules" where
  "bash_rules_for_mode m =
     (if m = READ_ONLY \<or> m = PLAN then
        \<lparr>br_allow = READ_BASH_ALLOW, br_prompt = {}, br_deny = ALWAYS_DENY,
         br_default = Tier_Deny\<rparr>
      else if m = BUILD then
        \<lparr>br_allow = READ_BASH_ALLOW \<union> BUILD_BASH_ALLOW, br_prompt = {},
         br_deny = ALWAYS_DENY, br_default = Tier_Deny\<rparr>
      else
        \<lparr>br_allow = READ_BASH_ALLOW \<union> BUILD_BASH_ALLOW, br_prompt = DEPLOY_BASH_PROMPT,
         br_deny = ALWAYS_DENY, br_default = Tier_Deny\<rparr>)"

definition permitted_tools_for_mode :: "permission_mode \<Rightarrow> string set" where
  "permitted_tools_for_mode m =
     (if m = READ_ONLY \<or> m = PLAN then READ_TOOLS
      else if m = BUILD then READ_TOOLS \<union> {''edit'', ''create_file'', ''write_file''}
      else ALL_TOOLS)"

section \<open>Inputs and the effective policy\<close>

record permissions_config =
  denied_tools :: "string set"
  bash_deny :: "string set"

record agent_policy =
  ap_tools :: "string set"
  ap_capability :: permission_mode
  ap_allowed_paths :: "string set option"

record effective_policy =
  ep_mode :: permission_mode
  ep_permitted_tools :: "string set"
  ep_bash :: bash_rules
  ep_allowed_paths :: "string set option"
  ep_mcp_prompt_tools :: "string set"

definition tool_permitted :: "effective_policy \<Rightarrow> string \<Rightarrow> bool" where
  "tool_permitted p t \<longleftrightarrow> t \<in> ep_permitted_tools p"

definition mcp_requires_prompt :: "effective_policy \<Rightarrow> string \<Rightarrow> bool" where
  "mcp_requires_prompt p t \<longleftrightarrow> t \<in> ep_mcp_prompt_tools p"

text \<open>
  \<open>_grant_admits\<close>: an exact grant entry, or an entry \<open>mcp:<server>:*\<close>, whose prefix up
  to the star admits every name of that server.
\<close>

definition is_wildcard :: "string \<Rightarrow> bool" where
  "is_wildcard entry \<longleftrightarrow>
     startswith entry MCP_TOOL_PREFIX \<and> endswith entry '':*'' \<and> count_list entry (CHR '':'') = 2"

definition wildcard_prefixes :: "string set \<Rightarrow> string set" where
  "wildcard_prefixes grant = butlast ` Set.filter is_wildcard grant"

definition grant_admits :: "string set \<Rightarrow> string set \<Rightarrow> string set" where
  "grant_admits mcp_names grant =
     (if grant = {} then {}
      else Set.filter (\<lambda>n. n \<in> grant \<or> (\<exists>p \<in> wildcard_prefixes grant. startswith n p)) mcp_names)"

text \<open>The configuration overlay on the bash table.\<close>

definition overlay_bash :: "bash_rules \<Rightarrow> permissions_config \<Rightarrow> bash_rules" where
  "overlay_bash b c =
     (if bash_deny c = {} then b
      else \<lparr>br_allow = br_allow b - bash_deny c, br_prompt = br_prompt b - bash_deny c,
            br_deny = br_deny b \<union> bash_deny c, br_default = br_default b\<rparr>)"

text \<open>The MCP names added for a mode and a grant: the permitted ones and the prompt ones.\<close>

definition mcp_widening ::
  "permission_mode \<Rightarrow> string set option \<Rightarrow> mcp_tool_spec list option \<Rightarrow> string set \<times> string set" where
  "mcp_widening m grant mcp =
     (case mcp of None \<Rightarrow> ({}, {})
      | Some specs \<Rightarrow>
          (let (permitted, prompt) = mcp_permitted_for_mode m specs
           in (case grant of None \<Rightarrow> (permitted, prompt)
               | Some g \<Rightarrow> (grant_admits permitted g, grant_admits prompt g))))"

definition build_policy ::
  "(string \<Rightarrow> string) \<Rightarrow> permission_mode \<Rightarrow> agent_policy option \<Rightarrow> permissions_config option \<Rightarrow>
   mcp_tool_spec list option \<Rightarrow> effective_policy" where
  "build_policy resolve m agent config mcp =
     (let base = permitted_tools_for_mode m;
          bash = bash_rules_for_mode m;
          permitted1 = (case config of None \<Rightarrow> base | Some c \<Rightarrow> base - denied_tools c);
          bash1 = (case config of None \<Rightarrow> bash | Some c \<Rightarrow> overlay_bash bash c);
          grant = map_option ap_tools agent;
          permitted2 = (case grant of None \<Rightarrow> permitted1 | Some g \<Rightarrow> permitted1 \<inter> g);
          allowed = (case agent of None \<Rightarrow> None
                     | Some a \<Rightarrow> map_option (\<lambda>ps. resolve ` ps) (ap_allowed_paths a));
          (mcp_permitted, mcp_prompt) = mcp_widening m grant mcp;
          permitted3 = permitted2 \<union> mcp_permitted;
          (permitted4, mcp_prompt4) =
            (case config of
               None \<Rightarrow> (permitted3, mcp_prompt)
             | Some c \<Rightarrow> (if mcp = None then (permitted3, mcp_prompt)
                          else (permitted3 - denied_tools c, mcp_prompt - denied_tools c)))
      in \<lparr>ep_mode = m, ep_permitted_tools = permitted4, ep_bash = bash1,
          ep_allowed_paths = allowed, ep_mcp_prompt_tools = mcp_prompt4\<rparr>)"

section \<open>The floor\<close>

lemma READ_subset_ALL: "READ_TOOLS \<subseteq> ALL_TOOLS"
  by (auto simp: READ_TOOLS_def ALL_TOOLS_def)

lemma permitted_floor_mono:
  "m \<le> m' \<Longrightarrow> permitted_tools_for_mode m \<subseteq> permitted_tools_for_mode m'"
proof -
  have "READ_TOOLS \<union> {''edit'', ''create_file'', ''write_file''} \<subseteq> ALL_TOOLS"
    by (auto simp: READ_TOOLS_def ALL_TOOLS_def)
  then show "m \<le> m' \<Longrightarrow> permitted_tools_for_mode m \<subseteq> permitted_tools_for_mode m'"
    by (cases m; cases m')
      (auto simp: permitted_tools_for_mode_def less_eq_permission_mode_def)
qed

interpretation floor: mode_indexed_authority permitted_tools_for_mode
  by unfold_locales (rule permitted_floor_mono)

lemma write_tools_not_read: "WRITE_TOOLS \<inter> READ_TOOLS = {}"
  by (simp add: WRITE_TOOLS_def READ_TOOLS_def SKILL_READ_TOOLS_def)

lemma write_tools_need_build:
  "t \<in> WRITE_TOOLS \<Longrightarrow> t \<in> permitted_tools_for_mode m \<Longrightarrow> BUILD \<le> m"
  using write_tools_not_read
  by (cases m) (auto simp: permitted_tools_for_mode_def less_eq_permission_mode_def)

lemma base_tools_not_namespaced: "t \<in> ALL_TOOLS \<Longrightarrow> \<not> startswith t MCP_TOOL_PREFIX"
  by (auto simp: ALL_TOOLS_def SKILL_READ_TOOLS_def startswith_def MCP_TOOL_PREFIX_def)

lemma permitted_floor_subset_ALL: "permitted_tools_for_mode m \<subseteq> ALL_TOOLS"
proof -
  have "m \<le> DEPLOY" by (cases m) (simp_all add: less_eq_permission_mode_def)
  from permitted_floor_mono [OF this] show ?thesis by (simp add: permitted_tools_for_mode_def)
qed

section \<open>MCP classification\<close>

lemma mcp_classify_eq:
  "mcp_classify bod ts P Q =
     (P \<union> mcp_name ` {t \<in> set ts. mcp_writes t \<longrightarrow> bod}, Q \<union> mcp_name ` {t \<in> set ts. mcp_writes t \<and> bod})"
  by (induction ts arbitrary: P Q) auto

lemma mcp_permitted_eq:
  "mcp_permitted_for_mode m ts =
     (mcp_name ` {t \<in> set ts. mcp_writes t \<longrightarrow> BUILD \<le> m},
      mcp_name ` {t \<in> set ts. mcp_writes t \<and> BUILD \<le> m})"
  by (simp add: mcp_permitted_for_mode_def mcp_classify_eq mode_permits_le)

lemma grant_admits_subset: "grant_admits ns g \<subseteq> ns"
  by (auto simp: grant_admits_def)

lemma grant_admits_mono: "ns \<subseteq> ns' \<Longrightarrow> grant_admits ns g \<subseteq> grant_admits ns' g"
  by (auto simp: grant_admits_def)

text \<open>
  The names the registration adds: each comes from a registered tool, a writer only from
  \<open>BUILD\<close> up, and a writer's name is a prompt name.
\<close>

definition registered :: "mcp_tool_spec list option \<Rightarrow> mcp_tool_spec set" where
  "registered mcp = (case mcp of None \<Rightarrow> {} | Some ts \<Rightarrow> set ts)"

definition mcp_reachable :: "permission_mode \<Rightarrow> mcp_tool_spec list option \<Rightarrow> string set" where
  "mcp_reachable m mcp = mcp_name ` {t \<in> registered mcp. mcp_writes t \<longrightarrow> BUILD \<le> m}"

definition mcp_writers :: "permission_mode \<Rightarrow> mcp_tool_spec list option \<Rightarrow> string set" where
  "mcp_writers m mcp = mcp_name ` {t \<in> registered mcp. mcp_writes t \<and> BUILD \<le> m}"

definition admitted :: "string set option \<Rightarrow> string set \<Rightarrow> string set" where
  "admitted grant ns = (case grant of None \<Rightarrow> ns | Some g \<Rightarrow> grant_admits ns g)"

lemma admitted_subset: "admitted grant ns \<subseteq> ns"
  using grant_admits_subset by (auto simp: admitted_def split: option.splits)

lemma admitted_mono: "ns \<subseteq> ns' \<Longrightarrow> admitted grant ns \<subseteq> admitted grant ns'"
  using grant_admits_mono by (auto simp: admitted_def split: option.splits)

lemma admitted_empty [simp]: "admitted grant {} = {}"
  using admitted_subset by auto

lemma mcp_widening_eq:
  "mcp_widening m grant mcp = (admitted grant (mcp_reachable m mcp), admitted grant (mcp_writers m mcp))"
proof (cases mcp)
  case None
  then show ?thesis
    by (simp add: mcp_widening_def mcp_reachable_def mcp_writers_def registered_def)
next
  case (Some ts)
  then show ?thesis
    by (cases grant) (simp_all add: mcp_widening_def mcp_permitted_eq mcp_reachable_def
        mcp_writers_def registered_def admitted_def)
qed

lemma mcp_reachable_mono: "m \<le> m' \<Longrightarrow> mcp_reachable m mcp \<subseteq> mcp_reachable m' mcp"
  unfolding mcp_reachable_def by (rule image_mono) (auto dest: order_trans)

lemma mcp_writers_subset: "mcp_writers m mcp \<subseteq> mcp_reachable m mcp"
  unfolding mcp_reachable_def mcp_writers_def by auto

text \<open>A wildcard admits names of its own server only.\<close>

lemma wildcard_prefix_shape:
  assumes "p \<in> wildcard_prefixes grant"
  shows "startswith p MCP_TOOL_PREFIX \<and> endswith p '':'' \<and> count_list p (CHR '':'') = 2"
proof -
  from assms obtain e where e: "e \<in> grant" "is_wildcard e" "p = butlast e"
    by (auto simp: wildcard_prefixes_def)
  then obtain b where b: "e = b @ '':*''"
    by (auto simp: is_wildcard_def endswith_def suffix_def)
  with e have p: "p = b @ '':''" by (simp add: butlast_append)
  from e(2) b have two: "count_list b (CHR '':'') = 1" and pre: "prefix ''mcp:'' (b @ '':*'')"
    by (simp_all add: is_wildcard_def startswith_def MCP_TOOL_PREFIX_def)
  from pre obtain zs where zs: "b @ '':*'' = ''mcp:'' @ zs" by (auto simp: prefix_def)
  then have "prefix ''mcp:'' (b @ '':'')"
    unfolding append_eq_append_conv2
    by (auto simp: Cons_eq_append_conv append_eq_Cons_conv prefix_def)
  with p two show ?thesis
    by (simp add: startswith_def MCP_TOOL_PREFIX_def endswith_def)
qed

section \<open>The effective policy\<close>

text \<open>The sets \<open>build_policy\<close> yields, without its intermediate steps.\<close>

definition config_denied :: "permissions_config option \<Rightarrow> string set" where
  "config_denied config = (case config of None \<Rightarrow> {} | Some c \<Rightarrow> denied_tools c)"

definition granted :: "agent_policy option \<Rightarrow> string set" where
  "granted agent = (case agent of None \<Rightarrow> UNIV | Some a \<Rightarrow> ap_tools a)"

lemma build_policy_permitted:
  "ep_permitted_tools (build_policy resolve m agent config mcp) =
     ((permitted_tools_for_mode m \<inter> granted agent)
      \<union> admitted (map_option ap_tools agent) (mcp_reachable m mcp)) - config_denied config"
  by (cases agent; cases config; cases mcp)
    (auto simp: build_policy_def mcp_widening_eq Let_def granted_def config_denied_def
       mcp_reachable_def registered_def)

lemma build_policy_prompt:
  "ep_mcp_prompt_tools (build_policy resolve m agent config mcp) =
     admitted (map_option ap_tools agent) (mcp_writers m mcp) - config_denied config"
  by (cases agent; cases config; cases mcp)
    (auto simp: build_policy_def mcp_widening_eq Let_def config_denied_def
       mcp_writers_def registered_def)

lemma build_policy_mode [simp]: "ep_mode (build_policy resolve m agent config mcp) = m"
  by (simp add: build_policy_def Let_def split: prod.splits)

lemma build_policy_bash:
  "ep_bash (build_policy resolve m agent config mcp) =
     (case config of None \<Rightarrow> bash_rules_for_mode m | Some c \<Rightarrow> overlay_bash (bash_rules_for_mode m) c)"
  by (simp add: build_policy_def Let_def split: prod.splits)

text \<open>A table no wider than the mode's floor: what a configuration overlay can produce.\<close>

definition within_floor :: "permission_mode \<Rightarrow> bash_rules \<Rightarrow> bool" where
  "within_floor m b \<longleftrightarrow>
     ALWAYS_DENY \<subseteq> br_deny b \<and>
     br_allow b \<subseteq> READ_BASH_ALLOW \<union> (if BUILD \<le> m then BUILD_BASH_ALLOW else {}) \<and>
     br_prompt b \<subseteq> (if m = DEPLOY then DEPLOY_BASH_PROMPT else {}) \<and>
     br_default b = Tier_Deny"

lemma build_policy_within_floor:
  "within_floor m (ep_bash (build_policy resolve m agent config mcp))"
proof -
  have "within_floor m (bash_rules_for_mode m)"
    by (cases m) (auto simp: within_floor_def bash_rules_for_mode_def less_eq_permission_mode_def)
  then have "within_floor m (overlay_bash (bash_rules_for_mode m) c)" for c
    by (auto simp: within_floor_def overlay_bash_def)
  with \<open>within_floor m (bash_rules_for_mode m)\<close> show ?thesis
    by (simp add: build_policy_bash split: option.splits)
qed

interpretation policy_tools: mode_indexed_authority
  "\<lambda>m. ep_permitted_tools (build_policy resolve m agent config mcp)"
  for resolve agent config mcp
proof
  fix m m' :: permission_mode
  assume "m \<le> m'"
  then have "permitted_tools_for_mode m \<subseteq> permitted_tools_for_mode m'"
    and "admitted g (mcp_reachable m mcp) \<subseteq> admitted g (mcp_reachable m' mcp)" for g
    by (rule permitted_floor_mono, intro admitted_mono mcp_reachable_mono)
  then show "ep_permitted_tools (build_policy resolve m agent config mcp)
      \<subseteq> ep_permitted_tools (build_policy resolve m' agent config mcp)"
    unfolding build_policy_permitted by blast
qed

lemma namespaced_reachable:
  assumes "namespaced ts" and "t \<in> mcp_reachable m (Some ts)"
  shows "startswith t MCP_TOOL_PREFIX"
  using assms by (auto simp: namespaced_def mcp_reachable_def registered_def list_all_iff)

end
