(* ===== verification/Bash_Gate.thy ===== *)
theory Bash_Gate
  imports Permission_Policy
begin

text \<open>
  The bash gate, \<open>core/agents/permissions/bash_gate.py\<close>: the metacharacter screen, the
  standard library's \<open>shlex.split\<close> (POSIX mode, white space as the only separator, no
  comments) as a state machine over the characters, the flag screen, and the tiering of the
  parsed command against a table of rules. A reason is kept as a constructor with its
  arguments instead of the message text.
\<close>

section \<open>shlex.split\<close>

datatype shlex_error = No_Closing_Quotation | No_Escaped_Character

text \<open>Where the lexer is: between words, in a word, in a quotation, after a backslash.\<close>

datatype shlex_state = Sh_White | Sh_Word | Sh_Quote char | Sh_Escape "char option"

definition sh_white :: "char \<Rightarrow> bool" where
  "sh_white c \<longleftrightarrow> c = CHR '' '' \<or> c = CHR 0x09 \<or> c = CHR 0x0D \<or> c = CHR 0x0A"

abbreviation backslash :: char where "backslash \<equiv> CHR 0x5C"
abbreviation double_quote :: char where "double_quote \<equiv> CHR 0x22"
abbreviation single_quote :: char where "single_quote \<equiv> CHR 0x27"

definition sh_quote :: "char \<Rightarrow> bool" where
  "sh_quote c \<longleftrightarrow> c = single_quote \<or> c = double_quote"

fun emit_token :: "string \<Rightarrow> shlex_error + string list \<Rightarrow> shlex_error + string list" where
  "emit_token t (Inl e) = Inl e"
| "emit_token t (Inr ts) = Inr (t # ts)"

fun shlex_go ::
  "shlex_state \<Rightarrow> bool \<Rightarrow> string \<Rightarrow> string \<Rightarrow> shlex_error + string list" where
  "shlex_go Sh_White q tok [] = Inr (if tok = [] \<and> \<not> q then [] else [tok])"
| "shlex_go Sh_Word q tok [] = Inr (if tok = [] \<and> \<not> q then [] else [tok])"
| "shlex_go (Sh_Quote k) q tok [] = Inl No_Closing_Quotation"
| "shlex_go (Sh_Escape k) q tok [] = Inl No_Escaped_Character"
| "shlex_go Sh_White q tok (c # cs) =
     (if sh_white c then
        (if tok \<noteq> [] \<or> q then emit_token tok (shlex_go Sh_White False [] cs)
         else shlex_go Sh_White q tok cs)
      else if c = backslash then shlex_go (Sh_Escape None) q tok cs
      else if sh_quote c then shlex_go (Sh_Quote c) q tok cs
      else shlex_go Sh_Word q [c] cs)"
| "shlex_go (Sh_Quote k) q tok (c # cs) =
     (if c = k then shlex_go Sh_Word True tok cs
      else if c = backslash \<and> k = double_quote then shlex_go (Sh_Escape (Some k)) True tok cs
      else shlex_go (Sh_Quote k) True (tok @ [c]) cs)"
| "shlex_go (Sh_Escape k) q tok (c # cs) =
     (case k of
        None \<Rightarrow> shlex_go Sh_Word q (tok @ [c]) cs
      | Some quote \<Rightarrow>
          (if c \<noteq> backslash \<and> c \<noteq> quote then shlex_go (Sh_Quote quote) q (tok @ [backslash, c]) cs
           else shlex_go (Sh_Quote quote) q (tok @ [c]) cs))"
| "shlex_go Sh_Word q tok (c # cs) =
     (if sh_white c then
        (if tok \<noteq> [] \<or> q then emit_token tok (shlex_go Sh_White False [] cs)
         else shlex_go Sh_White q tok cs)
      else if sh_quote c then shlex_go (Sh_Quote c) q tok cs
      else if c = backslash then shlex_go (Sh_Escape None) q tok cs
      else shlex_go Sh_Word q (tok @ [c]) cs)"

definition shlex_split :: "string \<Rightarrow> shlex_error + string list" where
  "shlex_split s = shlex_go Sh_White False [] s"

section \<open>The screens\<close>

definition METACHARACTERS :: "string list" where
  "METACHARACTERS =
    [''$('', ''${'', ''`'', '';'', ''&&'', ''||'', ''|'', ''>'', ''<'', ''&'',
     [CHR 0x0A], [CHR 0x0D]]"

definition SUBCOMMAND_PROGRAMS :: "string set" where
  "SUBCOMMAND_PROGRAMS = {''git'', ''dbt'', ''dlt'', ''gh'', ''carve''}"

definition contains_metacharacter :: "string \<Rightarrow> string option" where
  "contains_metacharacter command = List.find (\<lambda>m. occurs_in m command) METACHARACTERS"

fun first_flag :: "string list \<Rightarrow> string list \<Rightarrow> string option" where
  "first_flag flags [] = None"
| "first_flag flags (t # ts) =
     (case List.find (\<lambda>f. t = f \<or> startswith t (f @ ''='')) flags of
        Some f \<Rightarrow> Some f
      | None \<Rightarrow> first_flag flags ts)"

definition dangerous_flag :: "string \<Rightarrow> string list \<Rightarrow> string option" where
  "dangerous_flag prog_base argv =
     (case DANGEROUS_BASH_FLAGS prog_base of
        None \<Rightarrow> None
      | Some flags \<Rightarrow> if flags = [] then None else first_flag flags (drop 1 argv))"

section \<open>Tiering\<close>

datatype bash_reason =
    Empty_Command
  | Has_Metacharacter string
  | Parse_Failure shlex_error
  | No_Program
  | On_Deny_List string
  | Denied_In_Every_Mode string
  | Disallowed_Flag string string
  | Requires_Approval string
  | No_Reason
  | Not_On_Allow_List string

record bash_decision =
  bd_tier :: bash_tier
  bd_reason :: bash_reason
  bd_argv :: "string list"

text \<open>The lookup keys, most specific first.\<close>

definition bash_keys :: "string \<Rightarrow> string list \<Rightarrow> string list" where
  "bash_keys prog_base argv =
     (if prog_base \<in> SUBCOMMAND_PROGRAMS \<and> 2 \<le> length argv then
        (if 3 \<le> length argv
         then [prog_base @ '' '' @ argv ! 1 @ '' '' @ argv ! 2, prog_base @ '' '' @ argv ! 1, prog_base]
         else [prog_base @ '' '' @ argv ! 1, prog_base])
      else [prog_base])"

definition tier_argv :: "string list \<Rightarrow> bash_rules \<Rightarrow> bash_decision" where
  "tier_argv argv rules =
     (let prog_base = after_last_slash (hd argv);
          keys = bash_keys prog_base argv
      in (case List.find (\<lambda>k. k \<in> br_deny rules) keys of
            Some k \<Rightarrow> \<lparr>bd_tier = Tier_Deny, bd_reason = On_Deny_List k, bd_argv = argv\<rparr>
          | None \<Rightarrow>
         (if prog_base \<in> br_deny rules then
            \<lparr>bd_tier = Tier_Deny, bd_reason = Denied_In_Every_Mode prog_base, bd_argv = argv\<rparr>
          else
         (case dangerous_flag prog_base argv of
            Some f \<Rightarrow>
              \<lparr>bd_tier = Tier_Deny, bd_reason = Disallowed_Flag f prog_base, bd_argv = argv\<rparr>
          | None \<Rightarrow>
         (case List.find (\<lambda>k. k \<in> br_prompt rules) keys of
            Some k \<Rightarrow> \<lparr>bd_tier = Tier_Prompt, bd_reason = Requires_Approval k, bd_argv = argv\<rparr>
          | None \<Rightarrow>
         (if \<exists>k \<in> set keys. k \<in> br_allow rules then
            \<lparr>bd_tier = Tier_Allow, bd_reason = No_Reason, bd_argv = argv\<rparr>
          else
            \<lparr>bd_tier = br_default rules, bd_reason = Not_On_Allow_List prog_base,
             bd_argv = argv\<rparr>))))))"

definition tier_bash_command :: "string \<Rightarrow> bash_rules \<Rightarrow> bash_decision" where
  "tier_bash_command command rules =
     (if command = [] \<or> blank command then
        \<lparr>bd_tier = Tier_Deny, bd_reason = Empty_Command, bd_argv = []\<rparr>
      else
     (case contains_metacharacter command of
        Some m \<Rightarrow> \<lparr>bd_tier = Tier_Deny, bd_reason = Has_Metacharacter m, bd_argv = []\<rparr>
      | None \<Rightarrow>
     (case shlex_split command of
        Inl e \<Rightarrow> \<lparr>bd_tier = Tier_Deny, bd_reason = Parse_Failure e, bd_argv = []\<rparr>
      | Inr argv \<Rightarrow>
          (if argv = [] then \<lparr>bd_tier = Tier_Deny, bd_reason = No_Program, bd_argv = []\<rparr>
           else tier_argv argv rules))))"

section \<open>What the tiers mean\<close>

lemma find_None_set: "List.find P xs = None \<longleftrightarrow> (\<forall>x \<in> set xs. \<not> P x)"
  by (auto simp: find_None_iff)

lemma find_Some_set: "List.find P xs = Some x \<Longrightarrow> x \<in> set xs \<and> P x"
  by (induction xs) (auto split: if_splits)

lemma bash_keys_last: "prog_base \<in> set (bash_keys prog_base argv)"
  by (simp add: bash_keys_def)

lemma bash_keys_nonempty: "bash_keys prog_base argv \<noteq> []"
  by (simp add: bash_keys_def)

text \<open>What \<open>tier_argv\<close> needs to let a command through at a tier other than deny.\<close>

definition clean_argv :: "string list \<Rightarrow> bash_rules \<Rightarrow> bool" where
  "clean_argv argv rules \<longleftrightarrow>
     (\<forall>k \<in> set (bash_keys (after_last_slash (hd argv)) argv). k \<notin> br_deny rules) \<and>
     dangerous_flag (after_last_slash (hd argv)) argv = None"

lemma tier_argv_not_deny:
  assumes "bd_tier (tier_argv argv rules) \<noteq> Tier_Deny"
  shows "clean_argv argv rules"
  using assms
  by (auto simp: tier_argv_def clean_argv_def Let_def find_None_set
      split: option.splits if_splits)

lemma tier_argv_clean:
  assumes "clean_argv argv rules"
  shows "bd_tier (tier_argv argv rules) =
    (let keys = bash_keys (after_last_slash (hd argv)) argv
     in if \<exists>k \<in> set keys. k \<in> br_prompt rules then Tier_Prompt
        else if \<exists>k \<in> set keys. k \<in> br_allow rules then Tier_Allow
        else br_default rules)"
proof -
  let ?b = "after_last_slash (hd argv)"
  have deny: "List.find (\<lambda>k. k \<in> br_deny rules) (bash_keys ?b argv) = None"
    and base: "?b \<notin> br_deny rules" and flag: "dangerous_flag ?b argv = None"
    using assms bash_keys_last [of ?b argv] by (auto simp: clean_argv_def find_None_set)
  show ?thesis
  proof (cases "List.find (\<lambda>k. k \<in> br_prompt rules) (bash_keys ?b argv)")
    case None
    then have "\<not> (\<exists>k \<in> set (bash_keys ?b argv). k \<in> br_prompt rules)"
      by (simp add: find_None_set)
    with None show ?thesis by (simp add: tier_argv_def Let_def deny base flag)
  next
    case (Some k)
    then have "\<exists>k \<in> set (bash_keys ?b argv). k \<in> br_prompt rules"
      by (blast dest: find_Some_set)
    with Some show ?thesis by (simp add: tier_argv_def Let_def deny base flag)
  qed
qed

lemma tier_bash_not_deny:
  assumes "bd_tier (tier_bash_command command rules) \<noteq> Tier_Deny"
  obtains argv where "contains_metacharacter command = None"
    and "shlex_split command = Inr argv" and "argv \<noteq> []" and "clean_argv argv rules"
    and "tier_bash_command command rules = tier_argv argv rules"
  using assms tier_argv_not_deny
  by (auto simp: tier_bash_command_def split: if_splits option.splits sum.splits)

lemma contains_metacharacter_None:
  "contains_metacharacter command = None \<longleftrightarrow> (\<forall>m \<in> set METACHARACTERS. \<not> occurs_in m command)"
  by (simp add: contains_metacharacter_def find_None_set)

lemma first_flag_None:
  "first_flag flags ts = None \<longleftrightarrow>
     (\<forall>t \<in> set ts. \<forall>f \<in> set flags. t \<noteq> f \<and> \<not> startswith t (f @ ''=''))"
proof (induction ts)
  case Nil
  then show ?case by simp
next
  case (Cons t ts)
  show ?case
  proof (cases "List.find (\<lambda>f. t = f \<or> startswith t (f @ ''='')) flags")
    case None
    then have "\<forall>f \<in> set flags. t \<noteq> f \<and> \<not> startswith t (f @ ''='')"
      by (simp add: find_None_set)
    with None Cons.IH show ?thesis by simp
  next
    case (Some f)
    then have "f \<in> set flags \<and> (t = f \<or> startswith t (f @ ''=''))"
      by (rule find_Some_set)
    with Some show ?thesis by auto
  qed
qed

section \<open>The lexer on plain words\<close>

text \<open>A word the lexer takes literally: not empty, no white space, quote or backslash.\<close>

definition plain_char :: "char \<Rightarrow> bool" where
  "plain_char c \<longleftrightarrow> \<not> sh_white c \<and> \<not> sh_quote c \<and> c \<noteq> backslash"

definition plain_word :: "string \<Rightarrow> bool" where
  "plain_word w \<longleftrightarrow> w \<noteq> [] \<and> list_all plain_char w"

fun join_words :: "string list \<Rightarrow> string" where
  "join_words [] = []"
| "join_words [w] = w"
| "join_words (w # ws) = w @ CHR '' '' # join_words ws"

lemma shlex_word:
  "list_all plain_char w \<Longrightarrow> shlex_go Sh_Word q tok (w @ rest) = shlex_go Sh_Word q (tok @ w) rest"
  by (induction w arbitrary: tok) (auto simp: plain_char_def)

lemma shlex_word_start:
  assumes "plain_word w"
  shows "shlex_go Sh_White False [] (w @ rest) = shlex_go Sh_Word False w rest"
proof -
  from assms obtain c cs where w: "w = c # cs" "plain_char c" "list_all plain_char cs"
    by (cases w) (auto simp: plain_word_def)
  then show ?thesis by (simp add: plain_char_def shlex_word [where tok = "[c]", simplified] shlex_word)
qed

lemma sh_white_blank [simp]: "sh_white (CHR '' '')"
  by (simp add: sh_white_def)

lemma shlex_join: "list_all plain_word ws \<Longrightarrow> shlex_go Sh_White False [] (join_words ws) = Inr ws"
proof (induction ws rule: join_words.induct)
  case 1
  then show ?case by simp
next
  case (2 w)
  then have "plain_word w" by simp
  from shlex_word_start [OF this, of "[]"] \<open>plain_word w\<close> show ?case
    by (simp add: plain_word_def)
next
  case (3 w v vs)
  then have w: "plain_word w" and IH: "shlex_go Sh_White False [] (join_words (v # vs)) = Inr (v # vs)"
    by simp_all
  from shlex_word_start [OF w, of "CHR '' '' # join_words (v # vs)"] w IH show ?case
    by (simp add: plain_word_def)
qed

lemma plain_word_append: "plain_word v \<Longrightarrow> list_all plain_char w \<Longrightarrow> plain_word (v @ w)"
  by (simp add: plain_word_def)

section \<open>The tables seen through the gate\<close>

lemma clean_argv_within_floor:
  assumes "clean_argv argv b" and "within_floor m b"
  shows "after_last_slash (hd argv) \<notin> ALWAYS_DENY"
  using assms bash_keys_last by (fastforce simp: clean_argv_def within_floor_def)

lemma bash_rules_within_floor: "within_floor m (bash_rules_for_mode m)"
  using build_policy_within_floor [of m id None None None] by (simp add: build_policy_bash)

lemma clean_argv_floor: "clean_argv argv (bash_rules_for_mode m) = clean_argv argv (bash_rules_for_mode m')"
  by (simp add: clean_argv_def bash_rules_for_mode_def)

lemma tier_bash_via_argv:
  assumes "contains_metacharacter command = None" and "shlex_split command = Inr argv" and "argv \<noteq> []"
    and "\<not> blank command"
  shows "tier_bash_command command rules = tier_argv argv rules"
  using assms by (auto simp: tier_bash_command_def blank_def)

lemma tier_bash_not_deny_iff:
  "bd_tier (tier_bash_command command rules) \<noteq> Tier_Deny \<longleftrightarrow>
     command \<noteq> [] \<and> \<not> blank command \<and> contains_metacharacter command = None \<and>
     (\<exists>argv. shlex_split command = Inr argv \<and> argv \<noteq> [] \<and> bd_tier (tier_argv argv rules) \<noteq> Tier_Deny)"
  by (auto simp: tier_bash_command_def split: option.splits sum.splits)

lemma tier_argv_mono:
  assumes "m \<le> m'" and "bd_tier (tier_argv argv (bash_rules_for_mode m)) \<noteq> Tier_Deny"
  shows "bd_tier (tier_argv argv (bash_rules_for_mode m')) \<noteq> Tier_Deny"
proof -
  have clean: "clean_argv argv (bash_rules_for_mode m)" "clean_argv argv (bash_rules_for_mode m')"
    using tier_argv_not_deny [OF assms(2)] clean_argv_floor by blast+
  have sub: "br_allow (bash_rules_for_mode m) \<subseteq> br_allow (bash_rules_for_mode m')"
    "br_prompt (bash_rules_for_mode m) \<subseteq> br_prompt (bash_rules_for_mode m')"
    using assms(1) by (cases m; cases m'; auto simp: bash_rules_for_mode_def less_eq_permission_mode_def)+
  have default: "br_default (bash_rules_for_mode x) = Tier_Deny" for x
    by (simp add: bash_rules_for_mode_def)
  show ?thesis
    using assms(2) sub unfolding tier_argv_clean [OF clean(1)] tier_argv_clean [OF clean(2)] default
    by (auto simp: Let_def split: if_splits)
qed

interpretation bash_commands: mode_indexed_authority
  "\<lambda>m. {c. bd_tier (tier_bash_command c (bash_rules_for_mode m)) \<noteq> Tier_Deny}"
  by unfold_locales (use tier_argv_mono in \<open>auto simp: tier_bash_not_deny_iff\<close>)

section \<open>Properties\<close>



text \<open>
  The tier of a command follows the running mode, whatever agent, configuration and MCP
  tools are layered on: what is allowed matches a read entry, or a build entry and then the
  mode is at least \<open>BUILD\<close>; what is offered for approval matches a deploy entry and then
  the mode is \<open>DEPLOY\<close>.
\<close>

theorem tiers_follow_mode:
  assumes "tier_bash_command command (ep_bash (build_policy resolve m agent config mcp)) = d"
    and "bd_tier d \<noteq> Tier_Deny"
  shows "\<exists>argv key. shlex_split command = Inr argv \<and>
    key \<in> set (bash_keys (after_last_slash (hd argv)) argv) \<and>
    (if bd_tier d = Tier_Prompt then m = DEPLOY \<and> key \<in> DEPLOY_BASH_PROMPT
     else key \<in> READ_BASH_ALLOW \<or> BUILD \<le> m \<and> key \<in> BUILD_BASH_ALLOW)"
proof -
  let ?b = "ep_bash (build_policy resolve m agent config mcp)"
  have floor: "within_floor m ?b" by (rule build_policy_within_floor)
  from assms have "bd_tier (tier_bash_command command ?b) \<noteq> Tier_Deny" by simp
  then obtain argv where argv: "shlex_split command = Inr argv" "clean_argv argv ?b"
    "tier_bash_command command ?b = tier_argv argv ?b"
    by (rule tier_bash_not_deny)
  let ?keys = "set (bash_keys (after_last_slash (hd argv)) argv)"
  from assms argv(3) tier_argv_clean [OF argv(2)] have tier: "bd_tier d =
      (if \<exists>k \<in> ?keys. k \<in> br_prompt ?b then Tier_Prompt
       else if \<exists>k \<in> ?keys. k \<in> br_allow ?b then Tier_Allow else Tier_Deny)"
    using floor by (simp add: Let_def within_floor_def)
  show ?thesis
  proof (cases "bd_tier d = Tier_Prompt")
    case True
    with tier obtain k where "k \<in> ?keys" "k \<in> br_prompt ?b" by (auto split: if_splits)
    with floor True argv(1) show ?thesis by (auto simp: within_floor_def split: if_splits)
  next
    case False
    with tier assms(2) obtain k where "k \<in> ?keys" "k \<in> br_allow ?b" by (auto split: if_splits)
    with floor False argv(1) show ?thesis by (auto simp: within_floor_def split: if_splits)
  qed
qed

theorem tiers_follow_mode_witness:
  "\<exists>argv key. shlex_split ''/usr/bin/git push origin'' = Inr argv \<and>
    key \<in> set (bash_keys (after_last_slash (hd argv)) argv) \<and>
    (if Tier_Prompt = Tier_Prompt then DEPLOY = DEPLOY \<and> key \<in> DEPLOY_BASH_PROMPT
     else key \<in> READ_BASH_ALLOW \<or> BUILD \<le> DEPLOY \<and> key \<in> BUILD_BASH_ALLOW)"
proof -
  let ?d = "tier_bash_command ''/usr/bin/git push origin'' (ep_bash (build_policy id DEPLOY None None None))"
  have tier: "bd_tier ?d = Tier_Prompt" by code_simp
  show ?thesis using tiers_follow_mode [OF refl, of _ id DEPLOY None None None, of "''/usr/bin/git push origin''"]
    unfolding tier by simp
qed

text \<open>
  The lexer is transparent on plain words: splitting words joined by single blanks gives
  the words back, so the argument vector the tables see is the one that was written.
\<close>

lemma shlex_split_join: "list_all plain_word ws \<Longrightarrow> shlex_split (join_words ws) = Inr ws"
  by (simp add: shlex_split_def shlex_join)

text \<open>
  The flag screen compares whole tokens, and the shell expands after it: for every plain
  path, the command \<open>git diff --no-index$IFS<path>\<close> is one token to the lexer, matches no
  flag, and is allowed in every mode, the narrowest included.
\<close>

theorem flag_screen_misses_expansion:
  assumes "plain_word path"
    and "\<forall>meta \<in> set METACHARACTERS. \<not> occurs_in meta (''git diff --no-index$IFS'' @ path)"
  shows "bd_tier (tier_bash_command (''git diff --no-index$IFS'' @ path) (bash_rules_for_mode m)) = Tier_Allow"
proof -
  let ?argv = "[''git'', ''diff'', ''--no-index$IFS'' @ path]"
  have plain: "plain_word ''git''" "plain_word ''diff''" "plain_word ''--no-index$IFS''"
    by code_simp+
  then have words: "list_all plain_word ?argv"
    using assms(1) by (simp add: plain_word_append plain_word_def)
  have join: "join_words ?argv = ''git diff --no-index$IFS'' @ path" by simp
  have split: "shlex_split (''git diff --no-index$IFS'' @ path) = Inr ?argv"
    using shlex_join [OF words] unfolding join shlex_split_def by simp
  have base: "after_last_slash (hd ?argv) = ''git''" by (simp add: after_last_slash_def)
  have flag: "dangerous_flag ''git'' ?argv = None"
    by (auto simp: dangerous_flag_def DANGEROUS_BASH_FLAGS_def first_flag_None startswith_def)
  have deny: "\<forall>k \<in> set (bash_keys ''git'' ?argv). k \<notin> ALWAYS_DENY"
    by (auto simp: bash_keys_def SUBCOMMAND_PROGRAMS_def ALWAYS_DENY_def)
  have clean: "clean_argv ?argv (bash_rules_for_mode m)"
    unfolding clean_argv_def base using flag deny by (simp add: bash_rules_for_mode_def)
  have keys: "''git diff'' \<in> set (bash_keys ''git'' ?argv)" "''git diff'' \<in> br_allow (bash_rules_for_mode m)"
    by (simp_all add: bash_keys_def SUBCOMMAND_PROGRAMS_def bash_rules_for_mode_def READ_BASH_ALLOW_def)
  have prompt: "\<not> (\<exists>k \<in> set (bash_keys ''git'' ?argv). k \<in> br_prompt (bash_rules_for_mode m))"
    by (auto simp: bash_keys_def SUBCOMMAND_PROGRAMS_def bash_rules_for_mode_def DEPLOY_BASH_PROMPT_def)
  have "bd_tier (tier_argv ?argv (bash_rules_for_mode m)) = Tier_Allow"
    unfolding tier_argv_clean [OF clean] base Let_def using keys prompt by auto
  moreover have "\<not> blank (''git diff --no-index$IFS'' @ path)"
    by (simp add: blank_def py_space_def Let_def)
  ultimately show ?thesis
    using tier_bash_via_argv [OF _ split] assms(2) by (simp add: contains_metacharacter_None)
qed

theorem flag_screen_misses_expansion_witness:
  "bd_tier (tier_bash_command (''git diff --no-index$IFS'' @ ''/etc/passwd'') (bash_rules_for_mode READ_ONLY))
     = Tier_Allow"
  by (rule flag_screen_misses_expansion) code_simp+

end
