(* ===== verification/Permission_Gate.thy ===== *)
theory Permission_Gate
  imports Bash_Gate
begin

text \<open>
  The pre-execution gate, \<open>core/agents/permissions/gate.py\<close>: \<open>PermissionGate.check\<close>
  with its bash and prompt branches, and the write-path clamp. The approver of an
  interactive session is an argument; \<open>None\<close> is a run without one. A tool input is a
  dictionary of JSON values.
\<close>

section \<open>Decisions\<close>

datatype outcome = Outcome_Allow | Outcome_Deny | Outcome_Needs_User_Input

datatype gate_reason =
    Permitted
  | Not_Permitted string permission_mode
  | Write_Needs_Build string permission_mode
  | DDL_Needs_Deploy permission_mode
  | Command_Not_String
  | Bash_Denied bash_reason
  | Bash_Held bash_reason
  | Bash_Declined bash_reason
  | MCP_Held string
  | MCP_Declined string

record decision =
  dec_outcome :: outcome
  dec_reason :: gate_reason

definition decision_allowed :: "decision \<Rightarrow> bool" where
  "decision_allowed d \<longleftrightarrow> dec_outcome d = Outcome_Allow"

definition allow_decision :: decision where
  "allow_decision = \<lparr>dec_outcome = Outcome_Allow, dec_reason = Permitted\<rparr>"

definition deny_decision :: "gate_reason \<Rightarrow> decision" where
  "deny_decision r = \<lparr>dec_outcome = Outcome_Deny, dec_reason = r\<rparr>"

definition needs_user_input :: "gate_reason \<Rightarrow> decision" where
  "needs_user_input r = \<lparr>dec_outcome = Outcome_Needs_User_Input, dec_reason = r\<rparr>"

type_synonym tool_input = "string \<rightharpoonup> json"
type_synonym approver = "string \<Rightarrow> tool_input \<Rightarrow> bool"

definition TERMINATOR_TOOLS :: "string set" where
  "TERMINATOR_TOOLS = {''submit_result'', ''submit_plan'', ''submit_step'', ''submit_diagnosis''}"

section \<open>The check\<close>

definition resolve_prompt :: "string \<Rightarrow> tool_input \<Rightarrow> approver option \<Rightarrow> decision" where
  "resolve_prompt tool_name tool_input approver =
     (case approver of
        None \<Rightarrow> needs_user_input (MCP_Held tool_name)
      | Some ask \<Rightarrow>
          (if ask tool_name tool_input then allow_decision
           else needs_user_input (MCP_Declined tool_name)))"

definition check_bash :: "effective_policy \<Rightarrow> tool_input \<Rightarrow> approver option \<Rightarrow> decision" where
  "check_bash policy tool_input approver =
     (case tool_input ''command'' of
        Some (JString command) \<Rightarrow>
          (let d = tier_bash_command command (ep_bash policy)
           in (case bd_tier d of
                 Tier_Allow \<Rightarrow> allow_decision
               | Tier_Deny \<Rightarrow> deny_decision (Bash_Denied (bd_reason d))
               | Tier_Prompt \<Rightarrow>
                   (case approver of
                      None \<Rightarrow> needs_user_input (Bash_Held (bd_reason d))
                    | Some ask \<Rightarrow>
                        (if ask ''bash'' tool_input then allow_decision
                         else needs_user_input (Bash_Declined (bd_reason d))))))
      | _ \<Rightarrow> deny_decision Command_Not_String)"

definition gate_check ::
  "effective_policy \<Rightarrow> string \<Rightarrow> tool_input \<Rightarrow> approver option \<Rightarrow> decision" where
  "gate_check policy tool_name tool_input approver =
     (if tool_name \<in> TERMINATOR_TOOLS then allow_decision
      else if \<not> tool_permitted policy tool_name then
        deny_decision (Not_Permitted tool_name (ep_mode policy))
      else if tool_name \<in> WRITE_TOOLS \<and> \<not> mode_permits (ep_mode policy) BUILD then
        deny_decision (Write_Needs_Build tool_name (ep_mode policy))
      else if tool_name = ''run_snowflake_ddl'' \<and> \<not> mode_permits (ep_mode policy) DEPLOY then
        deny_decision (DDL_Needs_Deploy (ep_mode policy))
      else if tool_name = ''bash'' then check_bash policy tool_input approver
      else if mcp_requires_prompt policy tool_name then resolve_prompt tool_name tool_input approver
      else allow_decision)"

section \<open>Write paths\<close>

text \<open>
  Paths are lists of components; resolution (symbolic links, \<open>..\<close>) is the file system's
  and an argument. \<open>candidate.relative_to(root)\<close> raises unless \<open>root\<close> is a prefix.
\<close>

type_synonym path_parts = "string list"

definition is_write_path_allowed ::
  "(path_parts \<Rightarrow> path_parts) \<Rightarrow> path_parts \<Rightarrow> path_parts \<Rightarrow> path_parts set option \<Rightarrow> bool" where
  "is_write_path_allowed resolve candidate project_root allowed_paths =
     (let c = resolve candidate; root = resolve project_root
      in if \<not> prefix root c then False
         else (case allowed_paths of None \<Rightarrow> True | Some ps \<Rightarrow> c \<in> resolve ` ps))"

section \<open>Lemmas\<close>

lemma outcome_simps [simp]:
  "dec_outcome allow_decision = Outcome_Allow"
  "dec_outcome (deny_decision r) = Outcome_Deny"
  "dec_outcome (needs_user_input r) = Outcome_Needs_User_Input"
  by (simp_all add: allow_decision_def deny_decision_def needs_user_input_def)

lemma decision_allowed_simps [simp]:
  "decision_allowed allow_decision" "\<not> decision_allowed (deny_decision r)"
  "\<not> decision_allowed (needs_user_input r)"
  by (simp_all add: decision_allowed_def)

definition approved :: "approver option \<Rightarrow> string \<Rightarrow> tool_input \<Rightarrow> bool" where
  "approved approver tool_name tool_input = (case approver of None \<Rightarrow> False | Some ask \<Rightarrow> ask tool_name tool_input)"

lemma resolve_prompt_allowed:
  "decision_allowed (resolve_prompt t i approver) \<longleftrightarrow> approved approver t i"
  by (simp add: resolve_prompt_def approved_def split: option.splits)

lemma check_bash_allowed:
  "decision_allowed (check_bash policy i approver) \<longleftrightarrow>
     (\<exists>command. i ''command'' = Some (JString command) \<and>
        (bd_tier (tier_bash_command command (ep_bash policy)) = Tier_Allow \<or>
         bd_tier (tier_bash_command command (ep_bash policy)) = Tier_Prompt \<and> approved approver ''bash'' i))"
  by (simp add: check_bash_def approved_def Let_def split: option.splits json.splits bash_tier.splits)

lemma gate_allowed_iff:
  "decision_allowed (gate_check policy t i approver) \<longleftrightarrow>
    t \<in> TERMINATOR_TOOLS \<or>
    tool_permitted policy t \<and> (t \<in> WRITE_TOOLS \<longrightarrow> BUILD \<le> ep_mode policy) \<and>
    (t = ''run_snowflake_ddl'' \<longrightarrow> ep_mode policy = DEPLOY) \<and>
    (if t = ''bash'' then decision_allowed (check_bash policy i approver)
     else mcp_requires_prompt policy t \<longrightarrow> approved approver t i)"
  unfolding gate_check_def mode_permits_le [of _ BUILD] mode_permits_DEPLOY
  by (simp add: resolve_prompt_allowed)

lemma terminators_disjoint: "TERMINATOR_TOOLS \<inter> ALL_TOOLS = {}"
  by (simp add: TERMINATOR_TOOLS_def ALL_TOOLS_def SKILL_READ_TOOLS_def)

lemma write_tools_in_ALL: "WRITE_TOOLS \<subseteq> ALL_TOOLS"
  by (simp add: WRITE_TOOLS_def ALL_TOOLS_def)

section \<open>Properties\<close>

text \<open>
  C4: A write tool the gate allows runs at \<open>BUILD\<close> or above, warehouse DDL at \<open>DEPLOY\<close>
  only, and the agent asked for it, whatever agent file, configuration, MCP registration and
  approver are in force, and however long the delegation chain that led to the running mode:
  every mode along the chain permits the write.
\<close>

theorem write_tools_clamped:
  assumes "t \<in> WRITE_TOOLS"
    and "decision_allowed (gate_check
      (build_policy resolve (clamp_chain parent caps) agent config mcp) t i approver)"
  shows "(\<forall>c \<in> set (parent # caps). BUILD \<le> c \<and> (t = ''run_snowflake_ddl'' \<longrightarrow> c = DEPLOY)) \<and>
    (mcp = None \<longrightarrow> t \<in> granted agent)"
proof -
  let ?m = "clamp_chain parent caps"
  let ?p = "build_policy resolve ?m agent config mcp"
  have "t \<notin> TERMINATOR_TOOLS"
    using assms(1) terminators_disjoint write_tools_in_ALL by blast
  with assms(2) have "tool_permitted ?p t \<and> (t \<in> WRITE_TOOLS \<longrightarrow> BUILD \<le> ?m) \<and>
      (t = ''run_snowflake_ddl'' \<longrightarrow> ?m = DEPLOY)"
    by (simp only: gate_allowed_iff build_policy_mode) blast
  with assms(1) have build: "BUILD \<le> ?m" and ddl: "t = ''run_snowflake_ddl'' \<longrightarrow> ?m = DEPLOY"
    and permitted: "tool_permitted ?p t"
    by blast+
  have below: "?m \<le> c" if "c \<in> set (parent # caps)" for c
    using that clamp_chain_lower by auto
  have top: "DEPLOY \<le> c \<Longrightarrow> c = DEPLOY" for c
    by (cases c) (simp_all add: less_eq_permission_mode_def)
  from permitted have "mcp = None \<longrightarrow> t \<in> granted agent"
    by (auto simp: tool_permitted_def build_policy_permitted mcp_reachable_def registered_def)
  moreover have "BUILD \<le> c \<and> (t = ''run_snowflake_ddl'' \<longrightarrow> c = DEPLOY)" if "c \<in> set (parent # caps)" for c
  proof -
    from build below [OF that] have "BUILD \<le> c" by (rule order_trans)
    moreover have "c = DEPLOY" if "t = ''run_snowflake_ddl''"
      using ddl that below [OF \<open>c \<in> set (parent # caps)\<close>] by (intro top) simp
    ultimately show ?thesis by blast
  qed
  ultimately show ?thesis by blast
qed

theorem write_tools_clamped_witness:
  "''edit'' \<in> granted (Some \<lparr>ap_tools = {''edit''}, ap_capability = BUILD, ap_allowed_paths = None\<rparr>) \<and>
    list_all (\<lambda>c. BUILD \<le> c) [DEPLOY, BUILD]"
proof -
  let ?a = "Some \<lparr>ap_tools = {''edit''}, ap_capability = BUILD, ap_allowed_paths = None\<rparr>"
  have "''edit'' \<in> WRITE_TOOLS" by (simp add: WRITE_TOOLS_def)
  moreover have "decision_allowed (gate_check
      (build_policy id (clamp_chain DEPLOY [BUILD]) ?a None None) ''edit'' Map.empty None)"
    by code_simp
  ultimately show ?thesis
    using write_tools_clamped [of "''edit''" id DEPLOY "[BUILD]" ?a None None] by (simp add: list_all_iff)
qed

text \<open>
  C7: Closed world and fail closed. A tool the gate allows, other than a terminator, is either
  a base tool inside the mode's floor, or a registered MCP tool the grant admits; the agent
  granted it and no configuration denies it; and with no approver registered it is not
  prompt-tier, so a bash command was tiered allow and an MCP tool is not one of the writers.
\<close>

theorem gate_closed_world:
  assumes "namespaced ts" and "t \<notin> TERMINATOR_TOOLS"
    and "decision_allowed (gate_check (build_policy resolve m agent config (Some ts)) t i approver)"
  shows "t \<notin> config_denied config \<and>
    (if startswith t MCP_TOOL_PREFIX
     then \<exists>s \<in> set ts. mcp_name s = t \<and> (mcp_writes s \<longrightarrow> BUILD \<le> m) \<and>
            t \<in> admitted (map_option ap_tools agent) (mcp_reachable m (Some ts)) \<and>
            (approver = None \<longrightarrow> t \<notin> admitted (map_option ap_tools agent) (mcp_writers m (Some ts)))
     else t \<in> permitted_tools_for_mode m \<and> t \<in> granted agent \<and>
       (t = ''bash'' \<longrightarrow> approver = None \<longrightarrow>
         (\<exists>c. i ''command'' = Some (JString c) \<and>
            bd_tier (tier_bash_command c (ep_bash (build_policy resolve m agent config (Some ts)))) = Tier_Allow)))"
proof -
  let ?p = "build_policy resolve m agent config (Some ts)"
  let ?reach = "admitted (map_option ap_tools agent) (mcp_reachable m (Some ts))"
  from assms(2,3) have p: "tool_permitted ?p t"
    and bash: "t = ''bash'' \<Longrightarrow> decision_allowed (check_bash ?p i approver)"
    and prompt: "t \<noteq> ''bash'' \<Longrightarrow> mcp_requires_prompt ?p t \<Longrightarrow> approved approver t i"
    by (auto simp: gate_allowed_iff split: if_splits)
  from p have mem: "t \<notin> config_denied config"
    "t \<in> permitted_tools_for_mode m \<inter> granted agent \<or> t \<in> ?reach"
    by (auto simp: tool_permitted_def build_policy_permitted)
  show ?thesis
  proof (cases "startswith t MCP_TOOL_PREFIX")
    case True
    then have "t \<notin> ALL_TOOLS" using base_tools_not_namespaced by blast
    then have "t \<notin> permitted_tools_for_mode m" using permitted_floor_subset_ALL by blast
    with mem have r: "t \<in> ?reach" by blast
    then have "t \<in> mcp_reachable m (Some ts)" using admitted_subset by blast
    then obtain s where s: "s \<in> set ts" "mcp_name s = t" "mcp_writes s \<longrightarrow> BUILD \<le> m"
      by (auto simp: mcp_reachable_def registered_def)
    have "t \<noteq> ''bash''" using True by (auto simp: startswith_def MCP_TOOL_PREFIX_def)
    with prompt mem(1) have "approver = None \<longrightarrow> t \<notin> admitted (map_option ap_tools agent) (mcp_writers m (Some ts))"
      by (auto simp: mcp_requires_prompt_def build_policy_prompt approved_def)
    with True s r mem(1) show ?thesis by auto
  next
    case False
    have "t \<notin> ?reach"
      using False namespaced_reachable [OF assms(1)] admitted_subset by blast
    with mem bash False show ?thesis by (auto simp: check_bash_allowed approved_def)
  qed
qed

theorem gate_closed_world_witness:
  "''mcp:jira:search'' \<notin> config_denied (Some \<lparr>denied_tools = {''sql''}, bash_deny = {}\<rparr>) \<and>
    (\<exists>s \<in> set [\<lparr>mcp_name = ''mcp:jira:search'', mcp_writes = False\<rparr>].
       mcp_name s = ''mcp:jira:search'' \<and> (mcp_writes s \<longrightarrow> BUILD \<le> PLAN))"
proof -
  let ?ts = "[\<lparr>mcp_name = ''mcp:jira:search'', mcp_writes = False\<rparr>]"
  let ?a = "Some \<lparr>ap_tools = {''mcp:jira:*''}, ap_capability = BUILD, ap_allowed_paths = None\<rparr>"
  let ?c = "Some \<lparr>denied_tools = {''sql''}, bash_deny = {}\<rparr>"
  have "namespaced ?ts" by code_simp
  moreover have "''mcp:jira:search'' \<notin> TERMINATOR_TOOLS" by (simp add: TERMINATOR_TOOLS_def)
  moreover have "decision_allowed (gate_check (build_policy id PLAN ?a ?c (Some ?ts))
      ''mcp:jira:search'' Map.empty None)" by code_simp
  moreover have "startswith ''mcp:jira:search'' MCP_TOOL_PREFIX" by code_simp
  ultimately show ?thesis using gate_closed_world [of ?ts "''mcp:jira:search''" id PLAN ?a ?c] by auto
qed

end
