(* ===== verification/Agent_Loop.thy ===== *)
theory Agent_Loop
  imports Permission_Gate
begin

text \<open>
  The conversation loop of an agent: \<open>core/agents/loop.py\<close> with the token prices it charges
  (\<open>pricing.py\<close>), the cancellation token (\<open>cancel.py\<close>), the steering queue
  (\<open>steering.py\<close>) and the compaction of a long conversation (\<open>compaction.py\<close>).

  The language-model service, the executors of the tools, the skills and the hooks are
  arguments. They act on a state of type \<open>'w\<close>, which stands for everything outside the loop
  (files, warehouse, captures), and may raise; an exception is its message. What other
  threads do between two turns, tripping the token or pushing guidance, is an argument too.
  Left out: durations and the one-line summaries passed to the observer.
\<close>

section \<open>Prices\<close>

record model_pricing =
  input_per_mtok :: rat
  output_per_mtok :: rat
  cache_creation_per_mtok :: rat
  cache_read_per_mtok :: rat

definition PRICING :: "(string \<times> model_pricing) list" where
  "PRICING =
    [(''claude-opus-4-8'', \<lparr>input_per_mtok = 5, output_per_mtok = 25,
        cache_creation_per_mtok = 25 / 4, cache_read_per_mtok = 1 / 2\<rparr>),
     (''claude-sonnet-4-6'', \<lparr>input_per_mtok = 3, output_per_mtok = 15,
        cache_creation_per_mtok = 15 / 4, cache_read_per_mtok = 3 / 10\<rparr>),
     (''claude-haiku-4-5'', \<lparr>input_per_mtok = 1, output_per_mtok = 5,
        cache_creation_per_mtok = 5 / 4, cache_read_per_mtok = 1 / 10\<rparr>),
     (''claude-fable-5'', \<lparr>input_per_mtok = 10, output_per_mtok = 50,
        cache_creation_per_mtok = 25 / 2, cache_read_per_mtok = 1\<rparr>),
     (''claude-sonnet-4-5'', \<lparr>input_per_mtok = 3, output_per_mtok = 15,
        cache_creation_per_mtok = 15 / 4, cache_read_per_mtok = 3 / 10\<rparr>),
     (''claude-opus-4-5'', \<lparr>input_per_mtok = 15, output_per_mtok = 75,
        cache_creation_per_mtok = 75 / 4, cache_read_per_mtok = 3 / 2\<rparr>)]"

text \<open>\<open>str.isdigit\<close> on one code point below 256: the superscripts count.\<close>

definition py_digit :: "char \<Rightarrow> bool" where
  "py_digit c = (let n = of_char c :: nat in
     (48 \<le> n \<and> n \<le> 57) \<or> n = 178 \<or> n = 179 \<or> n = 185)"

text \<open>\<open>model.rsplit("-", 1)\<close> when there is a dash: what precedes and what follows the last one.\<close>

definition rsplit_dash :: "string \<Rightarrow> (string \<times> string) option" where
  "rsplit_dash s =
     (case dropWhile (\<lambda>c. c \<noteq> CHR ''-'') (rev s) of
        [] \<Rightarrow> None
      | _ # before \<Rightarrow> Some (rev before, rev (takeWhile (\<lambda>c. c \<noteq> CHR ''-'') (rev s))))"

definition lookup_pricing :: "string \<Rightarrow> model_pricing option" where
  "lookup_pricing model =
     (case map_of PRICING model of
        Some p \<Rightarrow> Some p
      | None \<Rightarrow>
          (case rsplit_dash model of
             None \<Rightarrow> None
           | Some (stem, date) \<Rightarrow>
               (if list_all py_digit date \<and> length date = 8 then map_of PRICING stem else None)))"

record token_usage =
  input_tokens :: int
  output_tokens :: int
  cache_creation_tokens :: int
  cache_read_tokens :: int

definition zero_usage :: token_usage where
  "zero_usage = \<lparr>input_tokens = 0, output_tokens = 0, cache_creation_tokens = 0, cache_read_tokens = 0\<rparr>"

definition compute_cost_usd :: "string \<Rightarrow> token_usage \<Rightarrow> rat" where
  "compute_cost_usd model u =
     (case lookup_pricing model of
        None \<Rightarrow> 0
      | Some p \<Rightarrow>
          (of_int (input_tokens u) * input_per_mtok p
           + of_int (output_tokens u) * output_per_mtok p
           + of_int (cache_creation_tokens u) * cache_creation_per_mtok p
           + of_int (cache_read_tokens u) * cache_read_per_mtok p) / 1000000)"

text \<open>The counters of one response; a field the service leaves out or empty counts as zero.\<close>

record api_usage =
  api_input :: "int option"
  api_output :: "int option"
  api_cache_creation :: "int option"
  api_cache_read :: "int option"

definition counter :: "int option \<Rightarrow> int" where
  "counter x = (case x of None \<Rightarrow> 0 | Some n \<Rightarrow> n)"

definition usage_add :: "api_usage \<Rightarrow> token_usage \<Rightarrow> token_usage" where
  "usage_add usage t =
     \<lparr>input_tokens = input_tokens t + counter (api_input usage),
      output_tokens = output_tokens t + counter (api_output usage),
      cache_creation_tokens = cache_creation_tokens t + counter (api_cache_creation usage),
      cache_read_tokens = cache_read_tokens t + counter (api_cache_read usage)\<rparr>"

section \<open>Conversations\<close>

text \<open>
  The blocks of a response as the client returns them. The loop looks at the \<open>type\<close>
  attribute of a block, which a block that is a plain dictionary does not have.
\<close>

datatype content_block =
    Text_Block string
  | Tool_Use_Block string string "tool_input option"
  | Other_Block json
  | Dict_Block json

datatype result_content =
    Plain string
  | Dumped json
  | Permission_Denied gate_reason
  | Needs_User_Approval gate_reason

record tool_result =
  tr_id :: string
  tr_content :: result_content
  tr_error :: bool

datatype chat_message =
    User_Text string
  | User_Results "tool_result list"
  | Assistant_Turn "content_block list"

definition block_input :: "tool_input option \<Rightarrow> tool_input" where
  "block_input i = (case i of None \<Rightarrow> Map.empty | Some m \<Rightarrow> m)"

fun serialize_block :: "content_block \<Rightarrow> content_block" where
  "serialize_block (Text_Block t) = Text_Block t"
| "serialize_block (Tool_Use_Block i n x) = Tool_Use_Block i n (Some (block_input x))"
| "serialize_block (Other_Block j) = Dict_Block j"
| "serialize_block (Dict_Block j) = Dict_Block j"

definition content_to_serializable :: "content_block list \<Rightarrow> content_block list" where
  "content_to_serializable = map serialize_block"

fun block_text :: "content_block \<Rightarrow> string" where
  "block_text (Text_Block t) = t"
| "block_text _ = []"

definition extract_text :: "content_block list \<Rightarrow> string" where
  "extract_text bs = concat (map block_text bs)"

record api_response =
  resp_content :: "content_block list"
  resp_stop :: "string option"
  resp_usage :: api_usage

datatype api_outcome =
    Responded api_response
  | Rate_Limited
  | Bad_Request string
  | Status_Error string
  | Api_Raised string

section \<open>Cancellation and steering\<close>

text \<open>The token is a flag, the queue a list; \<open>None\<close> is a loop that was given none.\<close>

definition cancel :: "bool option \<Rightarrow> bool option" where
  "cancel token = map_option (\<lambda>_. True) token"

definition raise_if_cancelled :: "bool option \<Rightarrow> bool" where
  "raise_if_cancelled token = (token = Some True)"

definition push :: "string \<Rightarrow> string list \<Rightarrow> string list" where
  "push m queue = (if blank m then queue else queue @ [m])"

definition drain :: "string list \<Rightarrow> string list \<times> string list" where
  "drain queue = (queue, [])"

text \<open>What other threads did since the last check: whether they cancelled, what they pushed.\<close>

record between_turns =
  bt_cancel :: bool
  bt_pushed :: "string list"

section \<open>The loop object\<close>

type_synonym ('w, 'a) effect = "'w \<Rightarrow> (string + 'a) \<times> 'w"
type_synonym 'w executor = "tool_input \<Rightarrow> ('w, json) effect"
type_synonym 'w hook = "string \<Rightarrow> tool_input \<Rightarrow> ('w, unit) effect"

record 'w tool =
  tool_name :: string
  tool_description :: string
  tool_schema :: json
  tool_executor :: "'w executor"

record skill_result =
  sk_data :: json
  sk_truncated :: bool
  sk_total_count :: "int option"
  sk_next_cursor :: "string option"

type_synonym 'w skill = "tool_input \<Rightarrow> ('w, skill_result) effect"

record 'w loop_config =
  lc_tools :: "(string \<times> 'w tool) list"
  lc_skills :: "(string \<times> 'w skill) list option"
  lc_skill_schemas :: "json list"
  lc_system :: string
  lc_model :: string
  lc_max_tokens :: int
  lc_max_retries :: int
  lc_retry_base_delay :: rat
  lc_logged :: bool
  lc_terminator :: "string option"
  lc_gate :: "effective_policy option"
  lc_approver :: "approver option"
  lc_pre_hook :: "'w hook option"
  lc_post_hook :: "'w hook option"

datatype loop_event =
    Turn_Started nat
  | Turn_Completed nat int int
  | Tool_Called string tool_input
  | Tool_Returned string bool
  | Loop_Done nat nat int int rat

datatype loop_log =
    Log_Called string tool_input
  | Log_Failed string string

record loop_state =
  ls_messages :: "chat_message list"
  ls_usage :: token_usage
  ls_calls :: nat
  ls_files :: "string list"
  ls_events :: "loop_event list"
  ls_logs :: "loop_log list"
  ls_slept :: "rat list"
  ls_token :: "bool option"
  ls_queue :: "string list option"

definition initial_state :: "bool option \<Rightarrow> string list option \<Rightarrow> loop_state" where
  "initial_state token queue =
     \<lparr>ls_messages = [], ls_usage = zero_usage, ls_calls = 0, ls_files = [], ls_events = [],
      ls_logs = [], ls_slept = [], ls_token = token, ls_queue = queue\<rparr>"

text \<open>
  The constructor: the tools become a dictionary by name, a skill must not share a name with
  a tool, and skills need a context. The other arguments are stored as they are.
\<close>

datatype init_error = Skill_Name_Collides string | Skill_Context_Required

definition tool_dict :: "'w tool list \<Rightarrow> (string \<times> 'w tool) list" where
  "tool_dict tools = dict_of (map (\<lambda>t. (tool_name t, t)) tools)"

definition init_loop :: "'w tool list \<Rightarrow> bool \<Rightarrow> 'w loop_config \<Rightarrow> init_error + 'w loop_config" where
  "init_loop tools has_context cfg =
     (let d = tool_dict tools
      in case lc_skills cfg of
           None \<Rightarrow> Inr (cfg\<lparr>lc_tools := d\<rparr>)
         | Some skills \<Rightarrow>
             (case find (\<lambda>n. map_of d n \<noteq> None) (map fst skills) of
                Some n \<Rightarrow> Inl (Skill_Name_Collides n)
              | None \<Rightarrow> if has_context then Inr (cfg\<lparr>lc_tools := d\<rparr>) else Inl Skill_Context_Required))"

definition emit :: "loop_event \<Rightarrow> loop_state \<Rightarrow> loop_state" where
  "emit e s = s\<lparr>ls_events := ls_events s @ [e]\<rparr>"

definition append_message :: "chat_message \<Rightarrow> loop_state \<Rightarrow> loop_state" where
  "append_message m s = s\<lparr>ls_messages := ls_messages s @ [m]\<rparr>"

definition log_tool :: "'w loop_config \<Rightarrow> loop_log \<Rightarrow> loop_state \<Rightarrow> loop_state" where
  "log_tool cfg l s = (if lc_logged cfg then s\<lparr>ls_logs := ls_logs s @ [l]\<rparr> else s)"

section \<open>Tool calls\<close>

definition seq_effect :: "(string + 'a) \<times> 'w \<Rightarrow> ('a \<Rightarrow> ('w, 'b) effect) \<Rightarrow> (string + 'b) \<times> 'w" where
  "seq_effect r f = (case r of (Inl e, w) \<Rightarrow> (Inl e, w) | (Inr x, w) \<Rightarrow> f x w)"

definition run_hook :: "'w hook option \<Rightarrow> string \<Rightarrow> tool_input \<Rightarrow> ('w, unit) effect" where
  "run_hook hook name input w = (case hook of None \<Rightarrow> (Inr (), w) | Some h \<Rightarrow> h name input w)"

definition skill_envelope :: "skill_result \<Rightarrow> json" where
  "skill_envelope r = JObject
     ([(''data'', sk_data r), (''truncated'', JBool (sk_truncated r)),
       (''total_count'', opt_json JInt (sk_total_count r))]
      @ (case sk_next_cursor r of None \<Rightarrow> [] | Some c \<Rightarrow> [(''next_cursor'', JString c)]))"

definition execute_skill :: "'w skill \<Rightarrow> 'w executor" where
  "execute_skill f input w = seq_effect (f input w) (\<lambda>r w'. (Inr (skill_envelope r), w'))"

text \<open>The dispatch: a tool of that name, else a skill of that name.\<close>

definition tool_body :: "'w loop_config \<Rightarrow> string \<Rightarrow> 'w executor option" where
  "tool_body cfg name =
     (case map_of (lc_tools cfg) name of
        Some t \<Rightarrow> Some (tool_executor t)
      | None \<Rightarrow>
          (case lc_skills cfg of
             None \<Rightarrow> None
           | Some skills \<Rightarrow> map_option execute_skill (map_of skills name)))"

definition gate_blocks :: "'w loop_config \<Rightarrow> string \<Rightarrow> tool_input \<Rightarrow> decision option" where
  "gate_blocks cfg name input =
     (case lc_gate cfg of
        None \<Rightarrow> None
      | Some policy \<Rightarrow>
          (let d = gate_check policy name input (lc_approver cfg)
           in if decision_allowed d then None else Some d))"

text \<open>Pre-hook, executor, post-hook; the first that raises ends the call.\<close>

definition guarded_call ::
  "'w loop_config \<Rightarrow> 'w executor \<Rightarrow> string \<Rightarrow> tool_input \<Rightarrow> ('w, json) effect" where
  "guarded_call cfg body name input w =
     seq_effect (run_hook (lc_pre_hook cfg) name input w) (\<lambda>_ w1.
       seq_effect (body input w1) (\<lambda>output w2.
         seq_effect (run_hook (lc_post_hook cfg) name input w2) (\<lambda>_ w3. (Inr output, w3))))"

definition error_result :: "string \<Rightarrow> result_content \<Rightarrow> tool_result" where
  "error_result i c = \<lparr>tr_id = i, tr_content = c, tr_error = True\<rparr>"

definition gate_blocked_result :: "string \<Rightarrow> decision \<Rightarrow> tool_result" where
  "gate_blocked_result i d =
     error_result i (if dec_outcome d = Outcome_Deny then Permission_Denied (dec_reason d)
                     else Needs_User_Approval (dec_reason d))"

definition stringify_tool_output :: "json \<Rightarrow> result_content" where
  "stringify_tool_output output = (case output of JString t \<Rightarrow> Plain t | _ \<Rightarrow> Dumped output)"

definition TRACKED_TOOLS :: "string list" where
  "TRACKED_TOOLS = [''edit'', ''create_file'', ''write_file'']"

definition tracked_path :: "string \<Rightarrow> json \<Rightarrow> string option" where
  "tracked_path name output =
     (if name \<in> set TRACKED_TOOLS then
        (case output of
           JObject kvs \<Rightarrow> (case map_of kvs ''path'' of Some (JString p) \<Rightarrow> Some p | _ \<Rightarrow> None)
         | _ \<Rightarrow> None)
      else None)"

definition add_file :: "string option \<Rightarrow> string list \<Rightarrow> string list" where
  "add_file path files =
     (case path of None \<Rightarrow> files | Some p \<Rightarrow> if p \<in> set files then files else files @ [p])"

definition track_file_change :: "string \<Rightarrow> json \<Rightarrow> loop_state \<Rightarrow> loop_state" where
  "track_file_change name output s = s\<lparr>ls_files := add_file (tracked_path name output) (ls_files s)\<rparr>"

definition count_call :: "loop_state \<Rightarrow> loop_state" where
  "count_call s = s\<lparr>ls_calls := ls_calls s + 1\<rparr>"

definition execute_call ::
  "'w loop_config \<Rightarrow> string \<Rightarrow> string \<Rightarrow> tool_input \<Rightarrow> loop_state \<Rightarrow> 'w \<Rightarrow>
     tool_result \<times> loop_state \<times> 'w" where
  "execute_call cfg i name input s w =
     (let s1 = count_call (emit (Tool_Called name input) (log_tool cfg (Log_Called name input) s));
          failed = emit (Tool_Returned name False)
      in case tool_body cfg name of
           None \<Rightarrow> (error_result i (Plain (''Unknown tool: '' @ py_repr name)), failed s1, w)
         | Some body \<Rightarrow>
             (case gate_blocks cfg name input of
                Some d \<Rightarrow> (gate_blocked_result i d, failed s1, w)
              | None \<Rightarrow>
                  (case guarded_call cfg body name input w of
                     (Inl e, w') \<Rightarrow>
                       (error_result i (Plain e), failed (log_tool cfg (Log_Failed name e) s1), w')
                   | (Inr output, w') \<Rightarrow>
                       (\<lparr>tr_id = i, tr_content = stringify_tool_output output, tr_error = False\<rparr>,
                        emit (Tool_Returned name True) (track_file_change name output s1), w'))))"

fun execute_tool_calls ::
  "'w loop_config \<Rightarrow> content_block list \<Rightarrow> loop_state \<Rightarrow> 'w \<Rightarrow>
     tool_result list \<times> loop_state \<times> 'w" where
  "execute_tool_calls cfg [] s w = ([], s, w)"
| "execute_tool_calls cfg (Tool_Use_Block i name x # bs) s w =
     (let (r, s', w') = execute_call cfg i name (block_input x) s w;
          (rs, s'', w'') = execute_tool_calls cfg bs s' w'
      in (r # rs, s'', w''))"
| "execute_tool_calls cfg (b # bs) s w = execute_tool_calls cfg bs s w"

fun calls_tool :: "string \<Rightarrow> content_block \<Rightarrow> bool" where
  "calls_tool t (Tool_Use_Block i n x) = (n = t)"
| "calls_tool t _ = False"

definition terminator_invoked :: "'w loop_config \<Rightarrow> content_block list \<Rightarrow> bool" where
  "terminator_invoked cfg bs =
     (case lc_terminator cfg of None \<Rightarrow> False | Some t \<Rightarrow> list_ex (calls_tool t) bs)"

section \<open>The service call\<close>

record api_request =
  req_model :: string
  req_system :: string
  req_max_tokens :: int
  req_tools :: "(string \<times> string \<times> json) list"
  req_skills :: "json list"
  req_messages :: "chat_message list"

type_synonym 'w messages_api = "api_request \<Rightarrow> 'w \<Rightarrow> api_outcome \<times> 'w"

datatype loop_error =
    Run_Cancelled
  | Max_Turns_Exceeded int
  | Unexpected_Stop_Reason "string option"
  | Rate_Limit_Exhausted int
  | Invalid_Request string
  | Agent_Error string
  | Service_Raised string

definition to_schema :: "'w tool \<Rightarrow> string \<times> string \<times> json" where
  "to_schema t = (tool_name t, tool_description t, tool_schema t)"

definition api_request_of :: "'w loop_config \<Rightarrow> loop_state \<Rightarrow> api_request" where
  "api_request_of cfg s =
     \<lparr>req_model = lc_model cfg, req_system = lc_system cfg, req_max_tokens = lc_max_tokens cfg,
      req_tools = map (to_schema \<circ> snd) (lc_tools cfg),
      req_skills = (case lc_skills cfg of None \<Rightarrow> [] | Some _ \<Rightarrow> lc_skill_schemas cfg),
      req_messages = ls_messages s\<rparr>"

definition sleep_for :: "rat \<Rightarrow> loop_state \<Rightarrow> loop_state" where
  "sleep_for d s = s\<lparr>ls_slept := ls_slept s @ [d]\<rparr>"

text \<open>\<open>left\<close> counts the attempts after this one.\<close>

fun call_attempts ::
  "'w messages_api \<Rightarrow> 'w loop_config \<Rightarrow> nat \<Rightarrow> nat \<Rightarrow> loop_state \<Rightarrow> 'w \<Rightarrow>
     (loop_error + api_response) \<times> loop_state \<times> 'w" where
  "call_attempts api cfg attempt left s w =
     (case api (api_request_of cfg s) w of
        (Responded r, w') \<Rightarrow> (Inr r, s, w')
      | (Bad_Request e, w') \<Rightarrow> (Inl (Invalid_Request e), s, w')
      | (Status_Error e, w') \<Rightarrow> (Inl (Agent_Error e), s, w')
      | (Api_Raised e, w') \<Rightarrow> (Inl (Service_Raised e), s, w')
      | (Rate_Limited, w') \<Rightarrow>
          (case left of
             0 \<Rightarrow> (Inl (Rate_Limit_Exhausted (lc_max_retries cfg)), s, w')
           | Suc left' \<Rightarrow>
               call_attempts api cfg (Suc attempt) left'
                 (sleep_for (lc_retry_base_delay cfg * 2 ^ attempt) s) w'))"

declare call_attempts.simps [simp del]

definition call_api ::
  "'w messages_api \<Rightarrow> 'w loop_config \<Rightarrow> loop_state \<Rightarrow> 'w \<Rightarrow>
     (loop_error + api_response) \<times> loop_state \<times> 'w" where
  "call_api api cfg s w =
     (if lc_max_retries cfg < 0 then (Inl (Rate_Limit_Exhausted (lc_max_retries cfg)), s, w)
      else call_attempts api cfg 0 (nat (lc_max_retries cfg)) s w)"

section \<open>Turns\<close>

record agent_result =
  ar_text :: string
  ar_usage :: token_usage
  ar_turns :: nat
  ar_messages :: "chat_message list"

definition interleave :: "between_turns \<Rightarrow> loop_state \<Rightarrow> loop_state" where
  "interleave b s =
     s\<lparr>ls_token := (if bt_cancel b then cancel (ls_token s) else ls_token s),
       ls_queue := map_option (\<lambda>q. fold push (bt_pushed b) q) (ls_queue s)\<rparr>"

definition drain_steering :: "loop_state \<Rightarrow> loop_state" where
  "drain_steering s =
     (case ls_queue s of
        None \<Rightarrow> s
      | Some q \<Rightarrow>
          (let (drained, rest) = drain q
           in s\<lparr>ls_messages := ls_messages s @ map User_Text drained, ls_queue := Some rest\<rparr>))"

definition record_response :: "nat \<Rightarrow> api_response \<Rightarrow> loop_state \<Rightarrow> loop_state" where
  "record_response turn r s =
     (let u = usage_add (resp_usage r) (ls_usage s)
      in append_message (Assistant_Turn (content_to_serializable (resp_content r)))
           (emit (Turn_Completed turn (input_tokens u) (output_tokens u)) (s\<lparr>ls_usage := u\<rparr>)))"

definition finish_run ::
  "'w loop_config \<Rightarrow> nat \<Rightarrow> string \<Rightarrow> loop_state \<Rightarrow> agent_result \<times> loop_state" where
  "finish_run cfg turn txt s =
     (let u = ls_usage s;
          s' = emit (Loop_Done turn (ls_calls s) (input_tokens u) (output_tokens u)
                 (compute_cost_usd (lc_model cfg) u)) s
      in (\<lparr>ar_text = txt, ar_usage = u, ar_turns = turn, ar_messages = ls_messages s'\<rparr>, s'))"

datatype turn_outcome = Turn_Raised loop_error | Turn_Ended agent_result | Turn_Continues

definition run_turn ::
  "'w messages_api \<Rightarrow> 'w loop_config \<Rightarrow> between_turns \<Rightarrow> nat \<Rightarrow> loop_state \<Rightarrow> 'w \<Rightarrow>
     turn_outcome \<times> loop_state \<times> 'w" where
  "run_turn api cfg b turn s0 w0 =
     (let s1 = interleave b s0
      in if raise_if_cancelled (ls_token s1) then (Turn_Raised Run_Cancelled, s1, w0)
         else
           (case call_api api cfg (emit (Turn_Started turn) (drain_steering s1)) w0 of
              (Inl e, s2, w2) \<Rightarrow> (Turn_Raised e, s2, w2)
            | (Inr r, s2, w2) \<Rightarrow>
                (let s3 = record_response turn r s2
                 in if resp_stop r = Some ''end_turn'' then
                      (let (res, s4) = finish_run cfg turn (extract_text (resp_content r)) s3
                       in (Turn_Ended res, s4, w2))
                    else if resp_stop r = Some ''tool_use'' then
                      (let (results, s4, w4) = execute_tool_calls cfg (resp_content r) s3 w2;
                           s5 = append_message (User_Results results) s4
                       in if terminator_invoked cfg (resp_content r) then
                            (let (res, s6) = finish_run cfg turn [] s5
                             in (Turn_Ended res, s6, w4))
                          else (Turn_Continues, s5, w4))
                    else (Turn_Raised (Unexpected_Stop_Reason (resp_stop r)), s3, w2))))"

text \<open>\<open>left\<close> counts the turns that remain, this one included.\<close>

fun run_turns ::
  "'w messages_api \<Rightarrow> 'w loop_config \<Rightarrow> (nat \<Rightarrow> between_turns) \<Rightarrow> int \<Rightarrow> nat \<Rightarrow> nat \<Rightarrow>
     loop_state \<Rightarrow> 'w \<Rightarrow> (loop_error + agent_result) \<times> loop_state \<times> 'w" where
  "run_turns api cfg env max_turns turn 0 s w = (Inl (Max_Turns_Exceeded max_turns), s, w)"
| "run_turns api cfg env max_turns turn (Suc left) s w =
     (case run_turn api cfg (env turn) turn s w of
        (Turn_Raised e, s', w') \<Rightarrow> (Inl e, s', w')
      | (Turn_Ended res, s', w') \<Rightarrow> (Inr res, s', w')
      | (Turn_Continues, s', w') \<Rightarrow> run_turns api cfg env max_turns (Suc turn) left s' w')"

definition run_loop ::
  "'w messages_api \<Rightarrow> 'w loop_config \<Rightarrow> (nat \<Rightarrow> between_turns) \<Rightarrow> string \<Rightarrow> int \<Rightarrow>
     loop_state \<Rightarrow> 'w \<Rightarrow> (loop_error + agent_result) \<times> loop_state \<times> 'w" where
  "run_loop api cfg env user_message max_turns s w =
     run_turns api cfg env max_turns 1 (nat max_turns) (append_message (User_Text user_message) s) w"

section \<open>Compaction\<close>

definition should_compact :: "int \<Rightarrow> int \<Rightarrow> rat \<Rightarrow> bool" where
  "should_compact token_count context_window threshold =
     (if context_window \<le> 0 then False
      else (let x = of_int context_window * threshold;
                limit = (if 0 \<le> x then \<lfloor>x\<rfloor> else \<lceil>x\<rceil>)
            in limit \<le> token_count))"

text \<open>\<open>xs[n:]\<close>: a negative bound counts from the end.\<close>

definition slice_from :: "'a list \<Rightarrow> int \<Rightarrow> 'a list" where
  "slice_from xs n = (if 0 \<le> n then drop (nat n) xs else drop (nat (int (length xs) + n)) xs)"

definition SUMMARY_HEADER :: string where
  "SUMMARY_HEADER = ''[Earlier conversation summarized to stay within context]'' @ [CHR 0x0A]"

definition compact_messages ::
  "(chat_message list \<Rightarrow> string) \<Rightarrow> int \<Rightarrow> chat_message list \<Rightarrow> chat_message list" where
  "compact_messages summarizer keep_recent messages =
     (if int (length messages) \<le> keep_recent then messages
      else User_Text (SUMMARY_HEADER @ summarizer (slice_to messages (- keep_recent)))
             # slice_from messages (- keep_recent))"

section \<open>What the loop does not run\<close>

text \<open>
  The same loop with other executors, skills and hooks. If they agree on every input the gate
  lets through, the two loops cannot be told apart: calls the gate blocks reach none of them.
\<close>

definition remap ::
  "(string \<Rightarrow> 'w executor \<Rightarrow> 'w executor) \<Rightarrow> (string \<Rightarrow> 'w skill \<Rightarrow> 'w skill) \<Rightarrow>
     ('w hook \<Rightarrow> 'w hook) \<Rightarrow> 'w loop_config \<Rightarrow> 'w loop_config" where
  "remap f g h cfg = cfg
     \<lparr>lc_tools := map (\<lambda>(n, t). (n, t\<lparr>tool_executor := f n (tool_executor t)\<rparr>)) (lc_tools cfg),
      lc_skills := map_option (map (\<lambda>(n, k). (n, g n k))) (lc_skills cfg),
      lc_pre_hook := map_option h (lc_pre_hook cfg),
      lc_post_hook := map_option h (lc_post_hook cfg)\<rparr>"

definition agree_when_allowed ::
  "'w loop_config \<Rightarrow> (string \<Rightarrow> 'w executor \<Rightarrow> 'w executor) \<Rightarrow> (string \<Rightarrow> 'w skill \<Rightarrow> 'w skill) \<Rightarrow>
     ('w hook \<Rightarrow> 'w hook) \<Rightarrow> bool" where
  "agree_when_allowed cfg f g h \<longleftrightarrow>
     (\<forall>name input. gate_blocks cfg name input = None \<and> tool_body cfg name \<noteq> None \<longrightarrow>
        (\<forall>e. f name e input = e input) \<and> (\<forall>k. g name k input = k input) \<and>
        (\<forall>k. h k name input = k name input))"

lemmas branch_congs =
  api_outcome.case_cong prod.case_cong sum.case_cong option.case_cong nat.case_cong if_cong

lemma map_of_map_second: "map_of (map (\<lambda>(k, v). (k, f k v)) xs) x = map_option (f x) (map_of xs x)"
  by (induction xs) auto

lemma remap_select [simp]:
  "lc_gate (remap f g h cfg) = lc_gate cfg" "lc_approver (remap f g h cfg) = lc_approver cfg"
  "lc_logged (remap f g h cfg) = lc_logged cfg" "lc_terminator (remap f g h cfg) = lc_terminator cfg"
  "lc_model (remap f g h cfg) = lc_model cfg" "lc_max_retries (remap f g h cfg) = lc_max_retries cfg"
  "lc_retry_base_delay (remap f g h cfg) = lc_retry_base_delay cfg"
  "lc_pre_hook (remap f g h cfg) = map_option h (lc_pre_hook cfg)"
  "lc_post_hook (remap f g h cfg) = map_option h (lc_post_hook cfg)"
  by (simp_all add: remap_def)

lemma gate_blocks_remap [simp]: "gate_blocks (remap f g h cfg) = gate_blocks cfg"
  by (simp add: gate_blocks_def fun_eq_iff split: option.split)

lemma api_request_remap [simp]: "api_request_of (remap f g h cfg) s = api_request_of cfg s"
  by (auto simp: api_request_of_def remap_def to_schema_def split: option.split)

lemma terminator_remap [simp]: "terminator_invoked (remap f g h cfg) = terminator_invoked cfg"
  by (simp add: terminator_invoked_def fun_eq_iff)

lemma log_tool_remap [simp]: "log_tool (remap f g h cfg) = log_tool cfg"
  by (simp add: log_tool_def fun_eq_iff)

lemma finish_run_remap [simp]: "finish_run (remap f g h cfg) = finish_run cfg"
  by (simp add: finish_run_def fun_eq_iff)

lemma call_attempts_remap:
  "call_attempts api (remap f g h cfg) attempt left s w = call_attempts api cfg attempt left s w"
proof (induction left arbitrary: attempt s w)
  case 0
  show ?case by (subst (1 2) call_attempts.simps) (simp cong: branch_congs)
next
  case (Suc left)
  show ?case
    by (subst (1 2) call_attempts.simps) (simp add: Suc.IH cong: branch_congs)
qed

lemma call_api_remap [simp]: "call_api api (remap f g h cfg) s w = call_api api cfg s w"
  by (simp add: call_api_def call_attempts_remap)

lemma tools_remap:
  "map_of (lc_tools (remap f g h cfg)) name =
     map_option (\<lambda>t. t\<lparr>tool_executor := f name (tool_executor t)\<rparr>) (map_of (lc_tools cfg) name)"
  by (simp add: remap_def map_of_map_second [of "\<lambda>n t. t\<lparr>tool_executor := f n (tool_executor t)\<rparr>"])

lemma skills_remap:
  "lc_skills (remap f g h cfg) = map_option (map (\<lambda>(n, k). (n, g n k))) (lc_skills cfg)"
  by (simp add: remap_def)

lemma tool_body_remap:
  "tool_body (remap f g h cfg) name =
     (case map_of (lc_tools cfg) name of
        Some t \<Rightarrow> Some (f name (tool_executor t))
      | None \<Rightarrow>
          (case lc_skills cfg of
             None \<Rightarrow> None
           | Some skills \<Rightarrow> map_option (\<lambda>k. execute_skill (g name k)) (map_of skills name)))"
  by (simp add: tool_body_def tools_remap skills_remap map_of_map_second option.map_comp comp_def
      split: option.split)

lemma tool_body_remap_None:
  "tool_body (remap f g h cfg) name = None \<longleftrightarrow> tool_body cfg name = None"
  by (simp add: tool_body_remap tool_body_def [of cfg] split: option.split)

lemma tool_body_remap_Some:
  assumes "agree_when_allowed cfg f g h" and "gate_blocks cfg name input = None"
    and "tool_body cfg name = Some body" and "tool_body (remap f g h cfg) name = Some body'"
  shows "body' input = body input"
proof -
  from assms(1-3) have "f name e input = e input" and "g name k input = k input" for e k
    by (auto simp: agree_when_allowed_def)
  then show ?thesis
    using assms(3,4) unfolding tool_body_remap tool_body_def [of cfg]
    by (auto intro!: ext simp: execute_skill_def split: option.splits)
qed

lemma run_hook_remap:
  assumes "agree_when_allowed cfg f g h" and "gate_blocks cfg name input = None"
    and "tool_body cfg name = Some body"
  shows "run_hook (map_option h k) name input w = run_hook k name input w"
  using assms by (auto simp: agree_when_allowed_def run_hook_def split: option.split)

lemma execute_call_remap:
  assumes "agree_when_allowed cfg f g h"
  shows "execute_call (remap f g h cfg) i name input s w = execute_call cfg i name input s w"
proof (cases "tool_body cfg name")
  case None
  then show ?thesis using tool_body_remap_None [of f g h cfg name] by (simp add: execute_call_def)
next
  case (Some body)
  then obtain body' where body': "tool_body (remap f g h cfg) name = Some body'"
    using tool_body_remap_None [of f g h cfg name] by fastforce
  show ?thesis
  proof (cases "gate_blocks cfg name input")
    case (Some d)
    with \<open>tool_body cfg name = Some body\<close> body' show ?thesis by (simp add: execute_call_def)
  next
    case None
    have "guarded_call (remap f g h cfg) body' name input w = guarded_call cfg body name input w"
      using tool_body_remap_Some [OF assms None \<open>tool_body cfg name = Some body\<close> body']
      by (simp add: guarded_call_def run_hook_remap [OF assms None \<open>tool_body cfg name = Some body\<close>])
    with \<open>tool_body cfg name = Some body\<close> body' None show ?thesis
      by (simp add: execute_call_def cong: branch_congs)
  qed
qed

lemma execute_tool_calls_remap:
  assumes "agree_when_allowed cfg f g h"
  shows "execute_tool_calls (remap f g h cfg) bs s w = execute_tool_calls cfg bs s w"
proof (induction bs arbitrary: s w)
  case (Cons b bs)
  show ?case by (cases b) (simp_all add: execute_call_remap [OF assms] Cons.IH)
qed simp

lemma run_turn_remap:
  assumes "agree_when_allowed cfg f g h"
  shows "run_turn api (remap f g h cfg) b turn s w = run_turn api cfg b turn s w"
  by (simp add: run_turn_def execute_tool_calls_remap [OF assms] cong: branch_congs)

lemma run_turns_remap:
  assumes "agree_when_allowed cfg f g h"
  shows "run_turns api (remap f g h cfg) env m turn left s w = run_turns api cfg env m turn left s w"
  by (induction left arbitrary: turn s w)
    (simp_all add: run_turn_remap [OF assms] split: prod.split turn_outcome.split)

lemma run_loop_remap:
  assumes "agree_when_allowed cfg f g h"
  shows "run_loop api (remap f g h cfg) env u m s w = run_loop api cfg env u m s w"
  by (simp add: run_loop_def run_turns_remap [OF assms])

text \<open>Executors, skills and hooks that misbehave arbitrarily on what the gate blocks.\<close>

definition sabotage ::
  "'w executor \<Rightarrow> 'w skill \<Rightarrow> 'w hook \<Rightarrow> 'w loop_config \<Rightarrow> 'w loop_config" where
  "sabotage bad bad_skill bad_hook cfg =
     remap (\<lambda>n e i w. if gate_blocks cfg n i = None then e i w else bad i w)
       (\<lambda>n k i w. if gate_blocks cfg n i = None then k i w else bad_skill i w)
       (\<lambda>k n i w. if gate_blocks cfg n i = None then k n i w else bad_hook n i w) cfg"

text \<open>
  C21: The gate is the boundary of the loop. Whatever the executors, the skills and the pre- and
  post-hooks would do on a call the gate blocks, a whole run, its result, its transcript,
  its counters and its effects are the same: such a call reaches none of them.
\<close>

theorem blocked_calls_reach_nothing:
  "run_loop api (sabotage bad bad_skill bad_hook cfg) env u max_turns s w =
     run_loop api cfg env u max_turns s w"
  unfolding sabotage_def by (rule run_loop_remap) (simp add: agree_when_allowed_def fun_eq_iff)

section \<open>Transcripts\<close>

fun tool_use_ids :: "content_block list \<Rightarrow> string list" where
  "tool_use_ids [] = []"
| "tool_use_ids (Tool_Use_Block i n x # bs) = i # tool_use_ids bs"
| "tool_use_ids (b # bs) = tool_use_ids bs"

fun tool_use_names :: "content_block list \<Rightarrow> string list" where
  "tool_use_names [] = []"
| "tool_use_names (Tool_Use_Block i n x # bs) = n # tool_use_names bs"
| "tool_use_names (b # bs) = tool_use_names bs"

text \<open>
  The shape the service demands: the tool calls of an assistant turn are answered, one result
  each and in order, by the message that follows it, and there are no other results. The
  first argument is the turn that awaits an answer.
\<close>

fun well_paired :: "content_block list option \<Rightarrow> chat_message list \<Rightarrow> bool" where
  "well_paired p [] = True"
| "well_paired None (User_Text t # ms) = well_paired None ms"
| "well_paired None (Assistant_Turn bs # ms) = well_paired (Some bs) ms"
| "well_paired None (User_Results rs # ms) = False"
| "well_paired (Some bs) (User_Results rs # ms) = (map tr_id rs = tool_use_ids bs \<and> well_paired None ms)"
| "well_paired (Some bs) (m # ms) = False"

fun awaiting :: "content_block list option \<Rightarrow> chat_message list \<Rightarrow> content_block list option" where
  "awaiting p [] = p"
| "awaiting p (Assistant_Turn bs # ms) = awaiting (Some bs) ms"
| "awaiting p (m # ms) = awaiting None ms"

text \<open>The path a result reports, and the paths all the results of a transcript report.\<close>

definition reported_path :: "string \<times> tool_result \<Rightarrow> string option" where
  "reported_path nr =
     (case nr of (name, r) \<Rightarrow>
        (if tr_error r then None
         else (case tr_content r of Dumped j \<Rightarrow> tracked_path name j | _ \<Rightarrow> None)))"

fun reported_paths :: "content_block list option \<Rightarrow> chat_message list \<Rightarrow> string option list" where
  "reported_paths p [] = []"
| "reported_paths p (Assistant_Turn bs # ms) = reported_paths (Some bs) ms"
| "reported_paths p (User_Text t # ms) = reported_paths None ms"
| "reported_paths p (User_Results rs # ms) =
     (case p of None \<Rightarrow> [] | Some bs \<Rightarrow> map reported_path (zip (tool_use_names bs) rs))
     @ reported_paths None ms"

fun assistant_turns :: "chat_message list \<Rightarrow> nat" where
  "assistant_turns [] = 0"
| "assistant_turns (Assistant_Turn bs # ms) = Suc (assistant_turns ms)"
| "assistant_turns (m # ms) = assistant_turns ms"

lemma awaiting_append: "awaiting p (xs @ ys) = awaiting (awaiting p xs) ys"
  by (induction p xs rule: awaiting.induct) simp_all

lemma well_paired_append:
  "well_paired p (xs @ ys) \<longleftrightarrow> well_paired p xs \<and> well_paired (awaiting p xs) ys"
  by (induction p xs rule: well_paired.induct) simp_all

lemma reported_paths_append:
  "reported_paths p (xs @ ys) = reported_paths p xs @ reported_paths (awaiting p xs) ys"
  by (induction p xs rule: reported_paths.induct) simp_all

lemma assistant_turns_append: "assistant_turns (xs @ ys) = assistant_turns xs + assistant_turns ys"
  by (induction xs rule: assistant_turns.induct) simp_all

lemmas transcript_append =
  awaiting_append well_paired_append reported_paths_append assistant_turns_append

lemma user_texts [simp]:
  "awaiting None (map User_Text ts) = None" "well_paired None (map User_Text ts)"
  "reported_paths p (map User_Text ts) = []" "assistant_turns (map User_Text ts) = 0"
  by (induction ts arbitrary: p) simp_all

lemma tool_use_ids_serialized [simp]:
  "tool_use_ids (content_to_serializable bs) = tool_use_ids bs"
  "tool_use_names (content_to_serializable bs) = tool_use_names bs"
  "extract_text (content_to_serializable bs) = extract_text bs"
  "list_ex (calls_tool t) (content_to_serializable bs) = list_ex (calls_tool t) bs"
proof (induction bs)
  case (Cons b bs)
  case 1 show ?case using Cons.IH(1) by (cases b) (simp_all add: content_to_serializable_def)
  case 2 show ?case using Cons.IH(2) by (cases b) (simp_all add: content_to_serializable_def)
  case 3 show ?case using Cons.IH(3) by (cases b) (simp_all add: content_to_serializable_def extract_text_def)
  case 4 show ?case using Cons.IH(4) by (cases b) (simp_all add: content_to_serializable_def)
qed (simp_all add: content_to_serializable_def extract_text_def)

lemma terminator_serialized [simp]:
  "terminator_invoked cfg (content_to_serializable bs) = terminator_invoked cfg bs"
  by (simp add: terminator_invoked_def split: option.split)

section \<open>What a call and a turn do to the loop's own state\<close>

lemma log_tool_select [simp]:
  "ls_messages (log_tool cfg l s) = ls_messages s" "ls_files (log_tool cfg l s) = ls_files s"
  by (simp_all add: log_tool_def)

lemma emit_select [simp]:
  "ls_messages (emit e s) = ls_messages s" "ls_files (emit e s) = ls_files s"
  "ls_slept (emit e s) = ls_slept s" "ls_usage (emit e s) = ls_usage s"
  by (simp_all add: emit_def)

lemma append_message_select [simp]:
  "ls_messages (append_message m s) = ls_messages s @ [m]"
  "ls_files (append_message m s) = ls_files s"
  by (simp_all add: append_message_def)

lemma execute_call_result:
  assumes "execute_call cfg i name input s w = (r, s', w')"
  shows "tr_id r = i" and "ls_messages s' = ls_messages s"
    and "ls_files s' = add_file (reported_path (name, r)) (ls_files s)"
  using assms
  by (auto simp: execute_call_def Let_def error_result_def gate_blocked_result_def count_call_def
      track_file_change_def reported_path_def add_file_def tracked_path_def stringify_tool_output_def
      split: option.splits prod.splits sum.splits json.splits if_splits)

lemma execute_tool_calls_result:
  assumes "execute_tool_calls cfg bs s w = (rs, s', w')"
  shows "map tr_id rs = tool_use_ids bs \<and> ls_messages s' = ls_messages s \<and>
    ls_files s' = fold add_file (map reported_path (zip (tool_use_names bs) rs)) (ls_files s)"
  using assms
proof (induction bs arbitrary: s w rs)
  case (Cons b bs)
  show ?case
  proof (cases b)
    case (Tool_Use_Block i n x)
    obtain r s1 w1 where call: "execute_call cfg i n (block_input x) s w = (r, s1, w1)"
      by (metis prod_cases3)
    obtain rs' where rest: "execute_tool_calls cfg bs s1 w1 = (rs', s', w')" and "rs = r # rs'"
      using Cons.prems by (auto simp: Tool_Use_Block call split: prod.splits)
    with Cons.IH [OF rest] execute_call_result [OF call] show ?thesis
      by (simp add: Tool_Use_Block)
  qed (use Cons in simp_all)
qed simp

lemma call_attempts_state:
  assumes "call_attempts api cfg attempt left s w = (out, s', w')"
  shows "ls_messages s' = ls_messages s \<and> ls_files s' = ls_files s \<and> (\<forall>n. out \<noteq> Inl (Max_Turns_Exceeded n))"
  using assms
proof (induction left arbitrary: attempt s w)
  case 0
  then show ?case
    by (subst (asm) call_attempts.simps) (auto split: api_outcome.splits prod.splits)
next
  case (Suc left)
  from Suc.prems show ?case
    by (subst (asm) call_attempts.simps)
      (auto split: api_outcome.splits prod.splits dest!: Suc.IH simp: sleep_for_def)
qed

lemma call_api_state:
  assumes "call_api api cfg s w = (out, s', w')"
  shows "ls_messages s' = ls_messages s \<and> ls_files s' = ls_files s \<and> (\<forall>n. out \<noteq> Inl (Max_Turns_Exceeded n))"
  using assms by (auto simp: call_api_def dest: call_attempts_state split: if_splits)

lemma interleave_select [simp]:
  "ls_messages (interleave b s) = ls_messages s" "ls_files (interleave b s) = ls_files s"
  by (simp_all add: interleave_def)

lemma drain_steering_select:
  "\<exists>texts. ls_messages (drain_steering s) = ls_messages s @ map User_Text texts"
  "ls_files (drain_steering s) = ls_files s"
  by (auto simp: drain_steering_def drain_def intro: exI [of _ "[]"] split: option.split)

lemma record_response_select [simp]:
  "ls_messages (record_response turn r s) =
     ls_messages s @ [Assistant_Turn (content_to_serializable (resp_content r))]"
  "ls_files (record_response turn r s) = ls_files s"
  by (simp_all add: record_response_def Let_def)

lemma finish_run_result:
  assumes "finish_run cfg turn txt s = (res, s')"
  shows "ar_text res = txt" and "ar_turns res = turn" and "ar_messages res = ls_messages s'"
    and "ls_messages s' = ls_messages s" and "ls_files s' = ls_files s"
  using assms by (auto simp: finish_run_def Let_def)

text \<open>The messages a turn adds after the guidance \<open>ts\<close>, by its outcome.\<close>

definition answers :: "loop_state \<Rightarrow> content_block list \<Rightarrow> tool_result list \<Rightarrow> loop_state \<Rightarrow> bool" where
  "answers s bs rs s' \<longleftrightarrow> map tr_id rs = tool_use_ids bs \<and>
     ls_files s' = fold add_file (map reported_path (zip (tool_use_names bs) rs)) (ls_files s)"

definition turn_adds ::
  "'w loop_config \<Rightarrow> nat \<Rightarrow> loop_state \<Rightarrow> turn_outcome \<Rightarrow> loop_state \<Rightarrow> chat_message list \<Rightarrow> bool" where
  "turn_adds cfg turn s out s' added \<longleftrightarrow>
     (case out of
        Turn_Raised e \<Rightarrow>
          (\<forall>n. e \<noteq> Max_Turns_Exceeded n) \<and> ls_files s' = ls_files s \<and>
          (added = [] \<or> (\<exists>bs. added = [Assistant_Turn bs]))
      | Turn_Ended res \<Rightarrow>
          ar_turns res = turn \<and> ar_messages res = ls_messages s' \<and>
          ((\<exists>bs. added = [Assistant_Turn bs] \<and> ar_text res = extract_text bs \<and> ls_files s' = ls_files s) \<or>
           (\<exists>bs rs. added = [Assistant_Turn bs, User_Results rs] \<and> answers s bs rs s' \<and>
              terminator_invoked cfg bs \<and> ar_text res = []))
      | Turn_Continues \<Rightarrow>
          (\<exists>bs rs. added = [Assistant_Turn bs, User_Results rs] \<and> answers s bs rs s' \<and>
             \<not> terminator_invoked cfg bs))"

lemma run_turn_adds:
  assumes "run_turn api cfg b turn s w = (out, s', w')"
  shows "\<exists>ts added. ls_messages s' = ls_messages s @ map User_Text ts @ added \<and>
    turn_adds cfg turn s out s' added"
proof (cases "raise_if_cancelled (ls_token (interleave b s))")
  case True
  with assms have "out = Turn_Raised Run_Cancelled" "s' = interleave b s"
    by (auto simp: run_turn_def Let_def)
  then show ?thesis by (intro exI [of _ "[]"]) (simp add: turn_adds_def)
next
  case False
  let ?s1 = "emit (Turn_Started turn) (drain_steering (interleave b s))"
  obtain ts where ts: "ls_messages ?s1 = ls_messages s @ map User_Text ts"
    using drain_steering_select(1) [of "interleave b s"] by auto
  have files: "ls_files ?s1 = ls_files s" by (simp add: drain_steering_select)
  obtain r2 s2 w2 where call: "call_api api cfg ?s1 w = (r2, s2, w2)" by (metis prod_cases3)
  note state = call_api_state [OF call]
  show ?thesis
  proof (cases r2)
    case (Inl e)
    with assms False call have "out = Turn_Raised e" "s' = s2" by (auto simp: run_turn_def Let_def)
    with state ts files Inl show ?thesis
      by (intro exI [of _ ts] exI [of _ "[]"]) (simp add: turn_adds_def)
  next
    case (Inr r)
    let ?s3 = "record_response turn r s2" and ?bs = "content_to_serializable (resp_content r)"
    have m3: "ls_messages ?s3 = ls_messages s @ map User_Text ts @ [Assistant_Turn ?bs]"
      and f3: "ls_files ?s3 = ls_files s"
      using state ts files by simp_all
    consider (ended) "resp_stop r = Some ''end_turn''" | (tools) "resp_stop r = Some ''tool_use''"
      | (other) "resp_stop r \<noteq> Some ''end_turn''" "resp_stop r \<noteq> Some ''tool_use''" by blast
    then show ?thesis
    proof cases
      case ended
      obtain res s4 where fin: "finish_run cfg turn (extract_text (resp_content r)) ?s3 = (res, s4)"
        by (metis surj_pair)
      with assms False call Inr ended have "out = Turn_Ended res" "s' = s4"
        by (auto simp: run_turn_def Let_def)
      with finish_run_result [OF fin] m3 f3 show ?thesis
        by (intro exI [of _ ts] exI [of _ "[Assistant_Turn ?bs]"]) (simp add: turn_adds_def)
    next
      case tools
      obtain rs s4 w4 where ex: "execute_tool_calls cfg (resp_content r) ?s3 w2 = (rs, s4, w4)"
        by (metis prod_cases3)
      let ?s5 = "append_message (User_Results rs) s4"
      obtain res s6 where fin: "finish_run cfg turn [] ?s5 = (res, s6)" by (metis surj_pair)
      from execute_tool_calls_result [OF ex] m3 f3
      have m5: "ls_messages ?s5 = ls_messages s @ map User_Text ts @ [Assistant_Turn ?bs, User_Results rs]"
        and ans: "answers s ?bs rs ?s5" and ans6: "answers s ?bs rs s6"
        using finish_run_result [OF fin] by (simp_all add: answers_def)
      show ?thesis
      proof (cases "terminator_invoked cfg (resp_content r)")
        case True
        with assms False call Inr tools ex fin have "out = Turn_Ended res" "s' = s6"
          by (auto simp: run_turn_def Let_def)
        with finish_run_result [OF fin] m5 ans6 True show ?thesis
          by (intro exI [of _ ts] exI [of _ "[Assistant_Turn ?bs, User_Results rs]"])
            (simp add: turn_adds_def)
      next
        case not_invoked: False
        with assms False call Inr tools ex have "out = Turn_Continues" "s' = ?s5"
          by (auto simp: run_turn_def Let_def)
        with m5 ans not_invoked show ?thesis
          by (intro exI [of _ ts] exI [of _ "[Assistant_Turn ?bs, User_Results rs]"])
            (simp add: turn_adds_def)
      qed
    next
      case other
      with assms False call Inr have "out = Turn_Raised (Unexpected_Stop_Reason (resp_stop r))" "s' = ?s3"
        by (auto simp: run_turn_def Let_def)
      with m3 f3 show ?thesis
        by (intro exI [of _ ts] exI [of _ "[Assistant_Turn ?bs]"]) (simp add: turn_adds_def)
    qed
  qed
qed

text \<open>The invariant of the loop between turns, and what holds of its state when it is over.\<close>

definition consistent :: "loop_state \<Rightarrow> bool" where
  "consistent s \<longleftrightarrow> well_paired None (ls_messages s) \<and>
     ls_files s = fold add_file (reported_paths None (ls_messages s)) []"

definition ready_for_turn :: "nat \<Rightarrow> loop_state \<Rightarrow> bool" where
  "ready_for_turn turn s \<longleftrightarrow> consistent s \<and> awaiting None (ls_messages s) = None \<and>
     Suc (assistant_turns (ls_messages s)) = turn"

lemma run_turn_consistent:
  assumes "run_turn api cfg b turn s w = (out, s', w')" and "ready_for_turn turn s"
  shows "consistent s'" and "out = Turn_Continues \<Longrightarrow> ready_for_turn (Suc turn) s'"
    and "out = Turn_Ended res \<Longrightarrow> assistant_turns (ls_messages s') = turn"
proof -
  from run_turn_adds [OF assms(1)] obtain ts added where
    m: "ls_messages s' = ls_messages s @ map User_Text ts @ added" and adds: "turn_adds cfg turn s out s' added"
    by blast
  from assms(2) have s: "well_paired None (ls_messages s)" "awaiting None (ls_messages s) = None"
    "ls_files s = fold add_file (reported_paths None (ls_messages s)) []"
    "Suc (assistant_turns (ls_messages s)) = turn"
    by (simp_all add: ready_for_turn_def consistent_def)
  have "consistent s' \<and> (out = Turn_Continues \<longrightarrow> ready_for_turn (Suc turn) s') \<and>
      (\<forall>res. out = Turn_Ended res \<longrightarrow> assistant_turns (ls_messages s') = turn)"
    using adds s
    by (auto simp: turn_adds_def answers_def consistent_def ready_for_turn_def m transcript_append
        split: turn_outcome.splits)
  then show "consistent s'" and "out = Turn_Continues \<Longrightarrow> ready_for_turn (Suc turn) s'"
    and "out = Turn_Ended res \<Longrightarrow> assistant_turns (ls_messages s') = turn"
    by blast+
qed

lemma run_turns_consistent:
  assumes "run_turns api cfg env m turn left s w = (out, s', w')" and "ready_for_turn turn s"
  shows "consistent s' \<and>
    (\<forall>res. out = Inr res \<longrightarrow> ar_turns res = assistant_turns (ls_messages s') \<and>
       turn \<le> ar_turns res \<and> ar_turns res < turn + left) \<and>
    (\<forall>n. out = Inl (Max_Turns_Exceeded n) \<longrightarrow>
       assistant_turns (ls_messages s') + 1 = turn + left \<and> awaiting None (ls_messages s') = None)"
  using assms
proof (induction left arbitrary: turn s w)
  case 0
  then show ?case by (auto simp: ready_for_turn_def)
next
  case (Suc left)
  obtain o1 s1 w1 where turn: "run_turn api cfg (env turn) turn s w = (o1, s1, w1)"
    by (metis prod_cases3)
  note inv = run_turn_consistent [OF turn Suc.prems(2)]
  show ?case
  proof (cases o1)
    case (Turn_Raised e)
    then have "out = Inl e" "s' = s1" using Suc.prems(1) turn by auto
    moreover have "e \<noteq> Max_Turns_Exceeded n" for n
      using run_turn_adds [OF turn] Turn_Raised by (auto simp: turn_adds_def)
    ultimately show ?thesis using inv(1) by auto
  next
    case (Turn_Ended res)
    then have "out = Inr res" "s' = s1" using Suc.prems(1) turn by auto
    moreover have "ar_turns res = turn"
      using run_turn_adds [OF turn] Turn_Ended by (auto simp: turn_adds_def)
    ultimately show ?thesis using inv(1,3) Turn_Ended by auto
  next
    case Turn_Continues
    then have "run_turns api cfg env m (Suc turn) left s1 w1 = (out, s', w')"
      using Suc.prems(1) turn by auto
    from Suc.IH [OF this inv(2) [OF Turn_Continues]] show ?thesis by auto
  qed
qed

lemma run_turns_ended:
  assumes "run_turns api cfg env m turn left s w = (Inr res, s', w')"
  shows "\<exists>t s0 w0. run_turn api cfg (env t) t s0 w0 = (Turn_Ended res, s', w')"
  using assms
proof (induction left arbitrary: turn s w)
  case (Suc left)
  then show ?case by (fastforce split: prod.splits turn_outcome.splits)
qed simp

lemma run_loop_ready:
  "ready_for_turn 1 (append_message (User_Text u) (initial_state token queue))"
  by (simp add: ready_for_turn_def consistent_def initial_state_def append_message_def)

lemma run_loop_consistent:
  assumes "run_loop api cfg env u m (initial_state token queue) w = (out, s', w')"
  shows "consistent s'"
proof -
  from assms have "run_turns api cfg env m 1 (nat m)
      (append_message (User_Text u) (initial_state token queue)) w = (out, s', w')"
    by (simp add: run_loop_def)
  from run_turns_consistent [OF this run_loop_ready] show ?thesis by blast
qed

section \<open>Invariants of the state outside\<close>

text \<open>
  A relation between the reported files and the state outside the loop which the service and
  every call the gate lets through keep holds of a whole run. A call that returns may report
  a file, one that raises does not.
\<close>

locale run_invariant =
  fixes J :: "string list \<Rightarrow> 'w \<Rightarrow> bool"
    and api :: "'w messages_api"
    and cfg :: "'w loop_config"
  assumes service: "J files w \<Longrightarrow> J files (snd (api req w))"
    and call_returns:
      "\<lbrakk>J files w; gate_blocks cfg name input = None; tool_body cfg name = Some body;
        guarded_call cfg body name input w = (Inr output, w')\<rbrakk>
       \<Longrightarrow> J (add_file (tracked_path name output) files) w'"
    and call_raises:
      "\<lbrakk>J files w; gate_blocks cfg name input = None; tool_body cfg name = Some body;
        guarded_call cfg body name input w = (Inl e, w')\<rbrakk> \<Longrightarrow> J files w'"
begin

lemma call_keeps:
  assumes "execute_call cfg i name input s w = (r, s', w')" and "J (ls_files s) w"
  shows "J (ls_files s') w'"
proof (cases "tool_body cfg name")
  case None
  with assms show ?thesis by (auto simp: execute_call_def Let_def count_call_def)
next
  case (Some body)
  note body = this
  show ?thesis
  proof (cases "gate_blocks cfg name input")
    case (Some d)
    with assms body show ?thesis by (auto simp: execute_call_def Let_def count_call_def)
  next
    case None
    obtain o1 w1 where call: "guarded_call cfg body name input w = (o1, w1)" by (metis surj_pair)
    show ?thesis
    proof (cases o1)
      case (Inl e)
      with call_raises [OF assms(2) None body] call have "J (ls_files s) w1" by blast
      with assms(1) None body call Inl show ?thesis
        by (auto simp: execute_call_def Let_def count_call_def)
    next
      case (Inr res)
      with call_returns [OF assms(2) None body] call
      have "J (add_file (tracked_path name res) (ls_files s)) w1" by blast
      with assms(1) None body call Inr show ?thesis
        by (auto simp: execute_call_def Let_def count_call_def track_file_change_def)
    qed
  qed
qed

lemma calls_keep:
  assumes "execute_tool_calls cfg bs s w = (rs, s', w')" and "J (ls_files s) w"
  shows "J (ls_files s') w'"
  using assms
proof (induction bs arbitrary: s w rs)
  case (Cons b bs)
  show ?case
  proof (cases b)
    case (Tool_Use_Block i n x)
    obtain r s1 w1 where call: "execute_call cfg i n (block_input x) s w = (r, s1, w1)"
      by (metis prod_cases3)
    then obtain rs' where "execute_tool_calls cfg bs s1 w1 = (rs', s', w')"
      using Cons.prems(1) Tool_Use_Block by (auto split: prod.splits)
    with Cons.IH call_keeps [OF call Cons.prems(2)] show ?thesis by blast
  qed (use Cons in auto)
qed simp

lemma attempts_keep:
  assumes "call_attempts api cfg attempt left s w = (out, s', w')" and "J files w"
  shows "J files w'"
  using assms
proof (induction left arbitrary: attempt s w)
  case 0
  have "w' = snd (api (api_request_of cfg s) w)"
    using 0 by (subst (asm) call_attempts.simps) (auto split: api_outcome.splits prod.splits)
  with service [OF 0(2)] show ?case by simp
next
  case (Suc left)
  obtain a w1 where api: "api (api_request_of cfg s) w = (a, w1)" by (metis surj_pair)
  then have w1: "J files w1" using service [OF Suc.prems(2), of "api_request_of cfg s"] by simp
  from Suc.prems(1) api w1 show ?case
    by (subst (asm) call_attempts.simps) (auto split: api_outcome.splits intro: Suc.IH)
qed

lemma service_keeps:
  "call_api api cfg s w = (out, s', w') \<Longrightarrow> J files w \<Longrightarrow> J files w'"
  by (auto simp: call_api_def split: if_splits intro: attempts_keep)

lemma turn_keeps:
  assumes "run_turn api cfg b turn s w = (out, s', w')" and "J (ls_files s) w"
  shows "J (ls_files s') w'"
proof (cases "raise_if_cancelled (ls_token (interleave b s))")
  case True
  with assms show ?thesis by (auto simp: run_turn_def Let_def)
next
  case False
  let ?s1 = "emit (Turn_Started turn) (drain_steering (interleave b s))"
  obtain r2 s2 w2 where call: "call_api api cfg ?s1 w = (r2, s2, w2)" by (metis prod_cases3)
  have files: "ls_files s2 = ls_files s"
    using call_api_state [OF call] by (simp add: drain_steering_select)
  have w2: "J (ls_files s) w2" by (rule service_keeps [OF call assms(2)])
  show ?thesis
  proof (cases r2)
    case (Inl e)
    with assms False call files w2 show ?thesis by (auto simp: run_turn_def Let_def)
  next
    case (Inr r)
    obtain rs s4 w4 where ex:
      "execute_tool_calls cfg (resp_content r) (record_response turn r s2) w2 = (rs, s4, w4)"
      by (metis prod_cases3)
    then have "J (ls_files s4) w4" using calls_keep files w2 by simp
    with assms(1) False call Inr files w2 ex show ?thesis
      by (auto simp: run_turn_def Let_def finish_run_def split: if_splits prod.splits)
  qed
qed

lemma turns_keep:
  "run_turns api cfg env m turn left s w = (out, s', w') \<Longrightarrow> J (ls_files s) w \<Longrightarrow> J (ls_files s') w'"
proof (induction left arbitrary: turn s w)
  case (Suc left)
  obtain o1 s1 w1 where turn: "run_turn api cfg (env turn) turn s w = (o1, s1, w1)"
    by (metis prod_cases3)
  note keep = turn_keeps [OF turn Suc.prems(2)]
  from Suc.prems(1) turn keep show ?case
    by (auto split: turn_outcome.splits intro: Suc.IH)
qed simp

lemma run_keeps:
  "run_loop api cfg env u m s w = (out, s', w') \<Longrightarrow> J (ls_files s) w \<Longrightarrow> J (ls_files s') w'"
  by (auto simp: run_loop_def intro: turns_keep)

end

section \<open>Retries and compaction\<close>

text \<open>The world after \<open>k\<close> calls that were all rate-limited.\<close>

fun after_rate_limits :: "'w messages_api \<Rightarrow> api_request \<Rightarrow> nat \<Rightarrow> 'w \<Rightarrow> 'w option" where
  "after_rate_limits api req 0 w = Some w"
| "after_rate_limits api req (Suc k) w =
     (case api req w of (Rate_Limited, w') \<Rightarrow> after_rate_limits api req k w' | _ \<Rightarrow> None)"

fun outcome_of :: "loop_error \<Rightarrow> api_outcome \<Rightarrow> loop_error + api_response" where
  "outcome_of exhausted (Responded r) = Inr r"
| "outcome_of exhausted Rate_Limited = Inl exhausted"
| "outcome_of exhausted (Bad_Request e) = Inl (Invalid_Request e)"
| "outcome_of exhausted (Status_Error e) = Inl (Agent_Error e)"
| "outcome_of exhausted (Api_Raised e) = Inl (Service_Raised e)"

lemma api_request_sleep [simp]: "api_request_of cfg (sleep_for d s) = api_request_of cfg s"
  by (simp add: api_request_of_def sleep_for_def)

lemma ls_slept_sleep [simp]: "ls_slept (sleep_for d s) = ls_slept s @ [d]"
  by (simp add: sleep_for_def)

lemma call_attempts_backs_off:
  assumes "call_attempts api cfg attempt left s w = (out, s', w')"
  shows "\<exists>k wk a. k \<le> left \<and> after_rate_limits api (api_request_of cfg s) k w = Some wk \<and>
    api (api_request_of cfg s) wk = (a, w') \<and> (a = Rate_Limited \<longrightarrow> k = left) \<and>
    out = outcome_of (Rate_Limit_Exhausted (lc_max_retries cfg)) a \<and>
    ls_slept s' = ls_slept s @ map (\<lambda>j. lc_retry_base_delay cfg * 2 ^ (attempt + j)) [0..<k]"
  using assms
proof (induction left arbitrary: attempt s w)
  case 0
  obtain a w1 where api: "api (api_request_of cfg s) w = (a, w1)" by (metis surj_pair)
  with 0 show ?case
    by (subst (asm) call_attempts.simps, intro exI [of _ 0] exI [of _ w] exI [of _ a])
      (auto split: api_outcome.splits)
next
  case (Suc left)
  obtain a w1 where api: "api (api_request_of cfg s) w = (a, w1)" by (metis surj_pair)
  show ?case
  proof (cases "a = Rate_Limited")
    case True
    let ?s1 = "sleep_for (lc_retry_base_delay cfg * 2 ^ attempt) s"
    have "call_attempts api cfg (Suc attempt) left ?s1 w1 = (out, s', w')"
      using Suc.prems True api by (subst (asm) call_attempts.simps) simp
    from Suc.IH [OF this] obtain k wk a' where ih: "k \<le> left"
      "after_rate_limits api (api_request_of cfg s) k w1 = Some wk"
      "api (api_request_of cfg s) wk = (a', w')" "a' = Rate_Limited \<longrightarrow> k = left"
      "out = outcome_of (Rate_Limit_Exhausted (lc_max_retries cfg)) a'"
      "ls_slept s' = ls_slept ?s1 @ map (\<lambda>j. lc_retry_base_delay cfg * 2 ^ (Suc attempt + j)) [0..<k]"
      by auto
    have "map (\<lambda>j. lc_retry_base_delay cfg * 2 ^ (attempt + j)) [0..<Suc k] =
        lc_retry_base_delay cfg * 2 ^ attempt #
        map (\<lambda>j. lc_retry_base_delay cfg * 2 ^ (Suc attempt + j)) [0..<k]"
      by (simp add: upt_conv_Cons map_Suc_upt [symmetric] comp_def del: upt_Suc)
    with ih api True show ?thesis
      by (intro exI [of _ "Suc k"] exI [of _ wk] exI [of _ a']) simp
  next
    case False
    with Suc.prems api show ?thesis
      by (subst (asm) call_attempts.simps, intro exI [of _ 0] exI [of _ w] exI [of _ a])
        (auto split: api_outcome.splits)
  qed
qed

lemma slices_split:
  assumes "0 < k" and "k < int (length xs)"
  shows "slice_to xs (- k) @ slice_from xs (- k) = xs" and "int (length (slice_from xs (- k))) = k"
  using assms by (simp_all add: slice_to_def slice_from_def)

section \<open>Properties\<close>


text \<open>
  \<open>files_changed\<close> is the harness's own account: when a run is over, however it ended, the
  list is exactly the paths reported by the successful results of the write tools in the
  transcript, each once, in the order of their first report.
\<close>

theorem files_changed_from_results:
  "case run_loop api cfg env u max_turns (initial_state token queue) w of
     (_, s', _) \<Rightarrow> ls_files s' = fold add_file (reported_paths None (ls_messages s')) []"
proof -
  obtain out s' w' where run: "run_loop api cfg env u max_turns (initial_state token queue) w = (out, s', w')"
    by (metis prod_cases3)
  with run_loop_consistent [OF run] show ?thesis by (simp add: consistent_def)
qed

text \<open>
  How a run ends. A result comes after at least one and at most \<open>max_turns\<close> assistant turns,
  counted correctly, and the transcript ends either with a turn of text, which is the
  result's text, or with a turn that invoked the terminator, answered, and an empty text.
  The turn limit is reported only after exactly \<open>max_turns\<close> turns that all called tools and
  were answered.
\<close>

theorem run_ends_within_max_turns:
  "case run_loop api cfg env u max_turns (initial_state token queue) w of
     (Inr res, s', _) \<Rightarrow>
       1 \<le> ar_turns res \<and> int (ar_turns res) \<le> max_turns \<and>
       ar_turns res = assistant_turns (ar_messages res) \<and> ar_messages res = ls_messages s' \<and>
       (\<exists>ms bs. (ls_messages s' = ms @ [Assistant_Turn bs] \<and> ar_text res = extract_text bs) \<or>
         (\<exists>rs. ls_messages s' = ms @ [Assistant_Turn bs, User_Results rs] \<and>
            terminator_invoked cfg bs \<and> ar_text res = []))
   | (Inl (Max_Turns_Exceeded n), s', _) \<Rightarrow>
       n = max_turns \<and> assistant_turns (ls_messages s') = nat max_turns \<and>
       awaiting None (ls_messages s') = None
   | _ \<Rightarrow> True"
proof -
  let ?s = "append_message (User_Text u) (initial_state token queue)"
  obtain out s' w' where run: "run_loop api cfg env u max_turns (initial_state token queue) w = (out, s', w')"
    by (metis prod_cases3)
  then have turns: "run_turns api cfg env max_turns 1 (nat max_turns) ?s w = (out, s', w')"
    by (simp add: run_loop_def)
  note inv = run_turns_consistent [OF turns run_loop_ready]
  show ?thesis
  proof (cases out)
    case (Inr res)
    from run_turns_ended [of api cfg env max_turns 1 "nat max_turns" ?s w res s' w'] turns Inr
    obtain t s0 w0 where "run_turn api cfg (env t) t s0 w0 = (Turn_Ended res, s', w')" by auto
    from run_turn_adds [OF this] obtain ts added where
      m: "ls_messages s' = ls_messages s0 @ map User_Text ts @ added"
      and adds: "turn_adds cfg t s0 (Turn_Ended res) s' added" by blast
    have "\<exists>ms bs. (ls_messages s' = ms @ [Assistant_Turn bs] \<and> ar_text res = extract_text bs) \<or>
        (\<exists>rs. ls_messages s' = ms @ [Assistant_Turn bs, User_Results rs] \<and>
          terminator_invoked cfg bs \<and> ar_text res = [])"
      using adds m by (intro exI [of _ "ls_messages s0 @ map User_Text ts"]) (auto simp: turn_adds_def)
    moreover from adds have "ar_messages res = ls_messages s'" by (simp add: turn_adds_def)
    ultimately show ?thesis using run inv Inr by auto
  next
    case (Inl e)
    have "n = max_turns" if "run_turns api cfg env max_turns t l s1 w1 = (Inl (Max_Turns_Exceeded n), s', w')"
      for n t l s1 w1 using that
    proof (induction l arbitrary: t s1 w1)
      case (Suc l)
      obtain o2 s2 w2 where turn: "run_turn api cfg (env t) t s1 w1 = (o2, s2, w2)" by (metis prod_cases3)
      with Suc show ?case
        using run_turn_adds [OF turn] by (cases o2) (auto simp: turn_adds_def)
    qed simp
    with turns run inv Inl show ?thesis by (auto split: loop_error.split)
  qed
qed

text \<open>
  The retry policy of a service call. Some number \<open>k\<close> of calls, at most \<open>max_retries\<close>, are
  rate-limited and each is followed by a sleep, twice as long as the one before; one more call
  decides: its response or its error is the outcome, and being rate-limited again is one only
  when all the retries are used up. Every attempt sends the same request. In all, the sleeps
  last \<open>(2 ^ k - 1)\<close> times the base delay.
\<close>

theorem call_api_backs_off:
  assumes "0 \<le> lc_max_retries cfg" and "call_api api cfg s w = (out, s', w')"
  shows "\<exists>k wk a. int k \<le> lc_max_retries cfg \<and>
    after_rate_limits api (api_request_of cfg s) k w = Some wk \<and>
    api (api_request_of cfg s) wk = (a, w') \<and>
    (a = Rate_Limited \<longrightarrow> int k = lc_max_retries cfg) \<and>
    out = outcome_of (Rate_Limit_Exhausted (lc_max_retries cfg)) a \<and>
    (\<exists>ds. ls_slept s' = ls_slept s @ ds \<and> ds = map (\<lambda>j. lc_retry_base_delay cfg * 2 ^ j) [0..<k] \<and>
       sum_list ds = (2 ^ k - 1) * lc_retry_base_delay cfg)"
proof -
  have sum: "sum_list (map (\<lambda>j. d * 2 ^ j) [0..<k]) = (2 ^ k - 1) * d" for d :: rat and k
    by (induction k) (simp_all add: algebra_simps)
  from assms have "call_attempts api cfg 0 (nat (lc_max_retries cfg)) s w = (out, s', w')"
    by (simp add: call_api_def)
  from call_attempts_backs_off [OF this] obtain k wk a where
    "k \<le> nat (lc_max_retries cfg)" "after_rate_limits api (api_request_of cfg s) k w = Some wk"
    "api (api_request_of cfg s) wk = (a, w')" "a = Rate_Limited \<longrightarrow> k = nat (lc_max_retries cfg)"
    "out = outcome_of (Rate_Limit_Exhausted (lc_max_retries cfg)) a"
    "ls_slept s' = ls_slept s @ map (\<lambda>j. lc_retry_base_delay cfg * 2 ^ j) [0..<k]"
    by auto
  with assms(1) sum show ?thesis
    by (intro exI [of _ k] exI [of _ wk] exI [of _ a]) auto
qed

definition plain_config :: "'w tool list \<Rightarrow> 'w loop_config" where
  "plain_config tools =
     \<lparr>lc_tools = tool_dict tools, lc_skills = None, lc_skill_schemas = [], lc_system = ''sys'',
      lc_model = ''claude-haiku-4-5'', lc_max_tokens = 4096, lc_max_retries = 3,
      lc_retry_base_delay = 1, lc_logged = False, lc_terminator = None, lc_gate = None,
      lc_approver = None, lc_pre_hook = None, lc_post_hook = None\<rparr>"

definition busy_twice :: "nat messages_api" where
  "busy_twice req n = (if n < 2 then (Rate_Limited, n + 1) else (Bad_Request ''no'', n))"

theorem call_api_backs_off_witness:
  "\<exists>k wk req. int k \<le> 3 \<and> after_rate_limits busy_twice req k 0 = Some wk"
proof -
  let ?cfg = "plain_config [] :: nat loop_config" and ?s = "initial_state None None"
  obtain out s' w' where call: "call_api busy_twice ?cfg ?s 0 = (out, s', w')" by (rule prod_cases3)
  have retries: "lc_max_retries ?cfg = 3" by (simp add: plain_config_def)
  then have "0 \<le> lc_max_retries ?cfg" by simp
  from call_api_backs_off [OF this call] retries show ?thesis by metis
qed

text \<open>
  Compaction, with \<open>keep_recent\<close> at least one. A conversation that is not longer is returned
  as it is; otherwise the last \<open>keep_recent\<close> messages are kept verbatim behind one summary of
  all the others. The result has the shape the service demands exactly when the cut does not
  fall between an assistant turn and the results that answer it: nothing in the code makes
  sure of that, and a cut there leaves results without their calls.
\<close>

theorem compaction_keeps_recent:
  assumes "0 < keep_recent" and "well_paired None messages"
  shows "if int (length messages) \<le> keep_recent
    then compact_messages summarizer keep_recent messages = messages
    else (\<exists>old recent. messages = old @ recent \<and> int (length recent) = keep_recent \<and>
      compact_messages summarizer keep_recent messages =
        User_Text (SUMMARY_HEADER @ summarizer old) # recent \<and>
      (well_paired None (compact_messages summarizer keep_recent messages) \<longleftrightarrow> awaiting None old = None))"
proof (cases "int (length messages) \<le> keep_recent")
  case True
  then show ?thesis by (simp add: compact_messages_def)
next
  case False
  let ?old = "slice_to messages (- keep_recent)" and ?recent = "slice_from messages (- keep_recent)"
  from False assms(1) have split: "?old @ ?recent = messages" "int (length ?recent) = keep_recent"
    using slices_split [of keep_recent messages] by auto
  then have "well_paired (awaiting None ?old) ?recent"
    using assms(2) by (metis well_paired_append)
  moreover have "?recent \<noteq> []" using split(2) assms(1) by auto
  ultimately have "well_paired None ?recent \<longleftrightarrow> awaiting None ?old = None"
    by (cases "awaiting None ?old"; cases ?recent; cases "hd ?recent") auto
  with split False have goal: "messages = ?old @ ?recent \<and> int (length ?recent) = keep_recent \<and>
      compact_messages summarizer keep_recent messages =
        User_Text (SUMMARY_HEADER @ summarizer ?old) # ?recent \<and>
      (well_paired None (compact_messages summarizer keep_recent messages) \<longleftrightarrow> awaiting None ?old = None)"
    by (simp add: compact_messages_def)
  show ?thesis by (subst if_not_P [OF False], intro exI, rule goal)
qed

definition sample_exchange :: "chat_message list" where
  "sample_exchange =
    (let use = Assistant_Turn [Tool_Use_Block ''t'' ''grep'' None];
         res = User_Results [\<lparr>tr_id = ''t'', tr_content = Plain [], tr_error = False\<rparr>]
     in [User_Text ''goal'', use, res, use, res, use, res, Assistant_Turn [Text_Block ''done'']])"

theorem compaction_keeps_recent_witness:
  "\<exists>old recent. sample_exchange = old @ recent \<and> int (length recent) = 6 \<and>
     compact_messages (\<lambda>_. ''s'') 6 sample_exchange = User_Text (SUMMARY_HEADER @ ''s'') # recent \<and>
     \<not> well_paired None (compact_messages (\<lambda>_. ''s'') 6 sample_exchange)"
proof -
  have "\<not> well_paired None (compact_messages (\<lambda>_. ''s'') 6 sample_exchange)" by code_simp
  moreover have "well_paired None sample_exchange" by code_simp
  moreover have "\<not> int (length sample_exchange) \<le> 6" by code_simp
  ultimately show ?thesis
    using compaction_keeps_recent [of 6 sample_exchange "\<lambda>_. ''s''"]
    by (metis zero_less_numeral)
qed

end
