(* ===== verification/File_Tools.thy ===== *)
theory File_Tools
  imports Agent_Loop "HOL-Library.List_Lexorder"
begin

text \<open>
  The tools that touch files and the ones that guard them: \<open>create_file\<close> and \<open>edit\<close> of
  \<open>core/agents/tools/fs_tools.py\<close>, \<open>read_file\<close>, the two \<open>write_file\<close> tools and the SQL guard
  of \<open>core/agents/m1_tools.py\<close>, the secret-path deny-list of \<open>secrets_denylist.py\<close>, and the
  environment filter of \<open>bash_tool.py\<close>.

  A file system maps absolute, resolved paths to nodes. What the operating system adds is an
  argument: how a path resolves, which reads and writes it refuses, and how it words an error.
  No caller passes an \<open>on_change\<close> callback other than the default, which does nothing.
\<close>

section \<open>Strings\<close>

text \<open>\<open>s.count(p)\<close> and \<open>s.replace(p, q)\<close>: occurrences from the left that do not overlap.\<close>

function count_sub :: "string \<Rightarrow> string \<Rightarrow> nat" where
  "count_sub p s =
     (if p = [] then Suc (length s)
      else (case s of
              [] \<Rightarrow> 0
            | c # cs \<Rightarrow> if prefix p s then Suc (count_sub p (drop (length p) s)) else count_sub p cs))"
  by pat_completeness auto
termination by (relation "measure (length \<circ> snd)") auto

declare count_sub.simps [simp del]

function replace_sub :: "string \<Rightarrow> string \<Rightarrow> string \<Rightarrow> string" where
  "replace_sub p q s =
     (if p = [] then q @ concat (map (\<lambda>c. c # q) s)
      else (case s of
              [] \<Rightarrow> []
            | c # cs \<Rightarrow>
                if prefix p s then q @ replace_sub p q (drop (length p) s)
                else c # replace_sub p q cs))"
  by pat_completeness auto
termination by (relation "measure (length \<circ> snd \<circ> snd)") auto

declare replace_sub.simps [simp del]

text \<open>\<open>len(s.encode("utf-8"))\<close> for code points below 256.\<close>

definition utf8_length :: "string \<Rightarrow> nat" where
  "utf8_length s = (\<Sum>c\<leftarrow>s. if (of_char c :: nat) < 128 then 1 else 2)"

text \<open>\<open>str\<close> of a natural number.\<close>

fun str_nat :: "nat \<Rightarrow> string" where
  "str_nat n = (if n < 10 then [char_of (48 + n)] else str_nat (n div 10) @ [char_of (48 + n mod 10)])"

declare str_nat.simps [simp del]

text \<open>\<open>str.casefold\<close> on the code points below 256, the micro sign apart.\<close>

definition casefold_char :: "char \<Rightarrow> string" where
  "casefold_char c =
     (let n = of_char c :: nat in
      if (65 \<le> n \<and> n \<le> 90) \<or> (192 \<le> n \<and> n \<le> 222 \<and> n \<noteq> 215) then [char_of (n + 32)]
      else if n = 223 then ''ss'' else [c])"

definition casefold :: "string \<Rightarrow> string" where
  "casefold s = concat (map casefold_char s)"

definition rstrip_chars :: "char set \<Rightarrow> string \<Rightarrow> string" where
  "rstrip_chars cs s = rev (dropWhile (\<lambda>c. c \<in> cs) (rev s))"

text \<open>\<open>fnmatch\<close> for patterns whose only special character is the star.\<close>

fun glob_match :: "string \<Rightarrow> string \<Rightarrow> bool" where
  "glob_match [] s = (s = [])"
| "glob_match (p # ps) [] = (p = CHR ''*'' \<and> glob_match ps [])"
| "glob_match (p # ps) (c # cs) =
     (if p = CHR ''*'' then glob_match ps (c # cs) \<or> glob_match (p # ps) cs
      else p = c \<and> glob_match ps cs)"

text \<open>The truth value of a JSON value.\<close>

fun truthy :: "json \<Rightarrow> bool" where
  "truthy JNull = False"
| "truthy (JBool b) = b"
| "truthy (JInt n) = (n \<noteq> 0)"
| "truthy (JString s) = (s \<noteq> [])"
| "truthy (JTime t) = True"
| "truthy (JList xs) = (xs \<noteq> [])"
| "truthy (JObject kvs) = (kvs \<noteq> [])"

section \<open>Paths\<close>

definition parts_of :: "string \<Rightarrow> path_parts" where
  "parts_of s = filter (\<lambda>p. p \<noteq> [] \<and> p \<noteq> ''.'') (split_slash s)"

text \<open>\<open>base / s\<close>: an absolute \<open>s\<close> replaces the base.\<close>

definition join_path :: "path_parts \<Rightarrow> string \<Rightarrow> path_parts" where
  "join_path base s = (if startswith s ''/'' then parts_of s else base @ parts_of s)"

definition last_part :: "path_parts \<Rightarrow> string" where
  "last_part p = (if p = [] then [] else last p)"

fun join_slash :: "string list \<Rightarrow> string" where
  "join_slash [] = []"
| "join_slash [p] = p"
| "join_slash (p # q # ps) = p @ ''/'' @ join_slash (q # ps)"

definition path_str :: "path_parts \<Rightarrow> string" where
  "path_str p = ''/'' @ join_slash p"

definition relative_str :: "path_parts \<Rightarrow> string" where
  "relative_str p = (if p = [] then ''.'' else join_slash p)"

section \<open>Secret paths\<close>

definition DENIED_NAME_GLOBS :: "string list" where
  "DENIED_NAME_GLOBS = [''.env'', ''.env.*'', ''secrets.toml'', ''*.pem'']"

definition normalize_name :: "string \<Rightarrow> string" where
  "normalize_name name = casefold (rstrip_chars {CHR ''.'', CHR '' ''} name)"

definition is_secret_path :: "path_parts \<Rightarrow> bool" where
  "is_secret_path p = list_ex (\<lambda>pat. glob_match pat (normalize_name (last_part p))) DENIED_NAME_GLOBS"

section \<open>The file system\<close>

datatype node = File_Node string | Dir_Node

type_synonym file_system = "path_parts \<rightharpoonup> node"

datatype os_error = File_Exists | Not_A_Directory | Is_A_Directory | Refused

record os_env =
  os_resolve :: "path_parts \<Rightarrow> path_parts"
  os_refuses_read :: "path_parts \<Rightarrow> bool"
  os_refuses_write :: "path_parts \<Rightarrow> bool"
  os_message :: "os_error \<Rightarrow> path_parts \<Rightarrow> string"

text \<open>\<open>path.mkdir(parents=True, exist_ok=True)\<close>.\<close>

definition mkdir :: "path_parts \<Rightarrow> file_system \<Rightarrow> file_system" where
  "mkdir q fs = (if fs q = None then fs(q \<mapsto> Dir_Node) else fs)"

definition mkdir_parents :: "os_env \<Rightarrow> path_parts \<Rightarrow> file_system \<Rightarrow> os_error + file_system" where
  "mkdir_parents os p fs =
     (case fs p of
        Some Dir_Node \<Rightarrow> Inr fs
      | Some (File_Node _) \<Rightarrow> Inl File_Exists
      | None \<Rightarrow>
          if list_ex (\<lambda>q. fs q \<noteq> None \<and> fs q \<noteq> Some Dir_Node) (prefixes p) then Inl Not_A_Directory
          else if os_refuses_write os p then Inl Refused
          else Inr (fold mkdir (prefixes p) fs))"

definition write_text :: "os_env \<Rightarrow> path_parts \<Rightarrow> string \<Rightarrow> file_system \<Rightarrow> os_error + file_system" where
  "write_text os p content fs =
     (if fs p = Some Dir_Node then Inl Is_A_Directory
      else if os_refuses_write os p then Inl Refused
      else Inr (fs(p \<mapsto> File_Node content)))"

definition mkdir_and_write ::
  "os_env \<Rightarrow> path_parts \<Rightarrow> string \<Rightarrow> file_system \<Rightarrow> (os_error + unit) \<times> file_system" where
  "mkdir_and_write os p content fs =
     (case mkdir_parents os (butlast p) fs of
        Inl e \<Rightarrow> (Inl e, fs)
      | Inr fs' \<Rightarrow>
          (case write_text os p content fs' of
             Inl e \<Rightarrow> (Inl e, fs')
           | Inr fs'' \<Rightarrow> (Inr (), fs'')))"

section \<open>Tools on files\<close>

text \<open>
  An executor of this theory acts on the file system, the first part of the state; the rest
  of the state is left alone.
\<close>

type_synonym fs_executor = "tool_input \<Rightarrow> file_system \<Rightarrow> (string + json) \<times> file_system"

definition on_files :: "fs_executor \<Rightarrow> (file_system \<times> 'x) executor" where
  "on_files e input w = (let (r, fs') = e input (fst w) in (r, (fs', snd w)))"

definition string_arg :: "tool_input \<Rightarrow> string \<Rightarrow> string option" where
  "string_arg input key = (case input key of Some (JString s) \<Rightarrow> Some s | _ \<Rightarrow> None)"

definition written_result :: "string \<Rightarrow> (string \<times> json) list \<Rightarrow> string \<Rightarrow> json" where
  "written_result path extra content =
     JObject ([(''path'', JString path)] @ extra @ [(''bytes_written'', JInt (int (utf8_length content)))])"

text \<open>The paths of the allow-list as the error message lists them.\<close>

fun permitted_listing ::
  "os_env \<Rightarrow> path_parts \<Rightarrow> path_parts list \<Rightarrow> string + string list" where
  "permitted_listing os proj [] = Inr []"
| "permitted_listing os proj (p # ps) =
     (let shown = (if prefix proj (os_resolve os p) then
                     (if prefix proj p then Inr (relative_str (drop (length proj) p))
                      else Inl (py_repr (path_str p) @ '' is not in the subpath of '' @ py_repr (path_str proj)))
                   else Inr (path_str p))
      in bind_result shown (\<lambda>s. bind_result (permitted_listing os proj ps) (\<lambda>r. Inr (s # r))))"

definition resolve_writable ::
  "os_env \<Rightarrow> path_parts \<Rightarrow> path_parts list option \<Rightarrow> string option \<Rightarrow> string + path_parts" where
  "resolve_writable os proj allowed path =
     (case path of
        None \<Rightarrow> Inl ''`path` must be a non-empty string.''
      | Some s \<Rightarrow>
          if s = [] then Inl ''`path` must be a non-empty string.''
          else
            (let candidate = os_resolve os (join_path proj s)
             in if is_write_path_allowed (os_resolve os) candidate proj (map_option set allowed) then Inr candidate
                else if \<not> prefix proj candidate then
                  Inl (''Path '' @ py_repr s @ '' is outside the project directory.'')
                else
                  bind_result (permitted_listing os proj (case allowed of None \<Rightarrow> [] | Some ps \<Rightarrow> remdups ps))
                    (\<lambda>ps. Inl (''Path '' @ py_repr s @ '' is not on the write allow-list. Allowed: ''
                            @ py_list_repr (sort ps)))))"

definition create_file :: "os_env \<Rightarrow> path_parts \<Rightarrow> path_parts list option \<Rightarrow> fs_executor" where
  "create_file os proj allowed input fs =
     (case string_arg input ''content'' of
        None \<Rightarrow> (Inl ''`content` must be a string.'', fs)
      | Some content \<Rightarrow>
          (case resolve_writable os proj allowed (string_arg input ''path'') of
             Inl e \<Rightarrow> (Inl e, fs)
           | Inr target \<Rightarrow>
               (let path = the (string_arg input ''path'')
                in if fs target \<noteq> None then
                     (Inl (''File already exists: '' @ path @ ''. Use `edit` to change an ''
                        @ ''existing file; `create_file` only creates new files.''), fs)
                   else
                     (case mkdir_and_write os target content fs of
                        (Inl e, fs') \<Rightarrow>
                          (Inl (''Failed to create '' @ path @ '': '' @ os_message os e target), fs')
                      | (Inr _, fs') \<Rightarrow> (Inr (written_result path [] content), fs')))))"

definition read_text :: "os_env \<Rightarrow> path_parts \<Rightarrow> file_system \<Rightarrow> os_error + string" where
  "read_text os p fs =
     (case fs p of
        Some (File_Node content) \<Rightarrow> if os_refuses_read os p then Inl Refused else Inr content
      | _ \<Rightarrow> Inl Is_A_Directory)"

definition is_file_node :: "node option \<Rightarrow> bool" where
  "is_file_node n = (case n of Some (File_Node _) \<Rightarrow> True | _ \<Rightarrow> False)"

definition edit_target ::
  "os_env \<Rightarrow> path_parts \<Rightarrow> string \<Rightarrow> string \<Rightarrow> string \<Rightarrow> bool \<Rightarrow> file_system \<Rightarrow>
     (string + json) \<times> file_system" where
  "edit_target os target path old new replace_all fs =
     (case read_text os target fs of
        Inl e \<Rightarrow> (Inl (''Failed to read '' @ path @ '': '' @ os_message os e target), fs)
      | Inr current \<Rightarrow>
          (let count = count_sub old current
           in if count = 0 then
                (Inl (''`old_string` not found in '' @ path @ ''. The file may have ''
                   @ ''changed since you last read it; re-read it and retry.''), fs)
              else if 1 < count \<and> \<not> replace_all then
                (Inl (''`old_string` matched '' @ str_nat count @ '' times in '' @ path @ ''. Provide a ''
                   @ ''larger, unique `old_string`, or set replace_all=true to ''
                   @ ''replace every occurrence.''), fs)
              else
                (let updated = replace_sub old new current
                 in case write_text os target updated fs of
                      Inl e \<Rightarrow> (Inl (''Failed to write '' @ path @ '': '' @ os_message os e target), fs)
                    | Inr fs' \<Rightarrow>
                        (Inr (written_result path
                           [(''replacements'', JInt (if replace_all then int count else 1))] updated), fs'))))"

definition edit_file :: "os_env \<Rightarrow> path_parts \<Rightarrow> path_parts list option \<Rightarrow> fs_executor" where
  "edit_file os proj allowed input fs =
     (case string_arg input ''old_string'' of
        None \<Rightarrow> (Inl ''`old_string` must be a string.'', fs)
      | Some old \<Rightarrow>
          (case string_arg input ''new_string'' of
             None \<Rightarrow> (Inl ''`new_string` must be a string.'', fs)
           | Some new \<Rightarrow>
               if old = new then
                 (Inl ''`old_string` and `new_string` are identical; nothing to do.'', fs)
               else
                 (case resolve_writable os proj allowed (string_arg input ''path'') of
                    Inl e \<Rightarrow> (Inl e, fs)
                  | Inr target \<Rightarrow>
                      (let path = the (string_arg input ''path'');
                           replace_all = (case input ''replace_all'' of None \<Rightarrow> False | Some v \<Rightarrow> truthy v)
                       in if \<not> is_file_node (fs target) then
                            (Inl (''File not found: '' @ path @ ''. `edit` cannot create files; use ''
                               @ ''`create_file` for new files.''), fs)
                          else edit_target os target path old new replace_all fs))))"

definition resolve_under_root :: "os_env \<Rightarrow> path_parts \<Rightarrow> string \<Rightarrow> string + path_parts" where
  "resolve_under_root os project_dir relative =
     (if relative = [] then Inl ''Path must be a non-empty string.''
      else
        (let candidate = os_resolve os (join_path project_dir relative)
         in if prefix (os_resolve os project_dir) candidate then Inr candidate
            else Inl (''Path '' @ py_repr relative
                   @ '' is outside the project directory and cannot be accessed.'')))"

definition secret_path_reason :: "string \<Rightarrow> string" where
  "secret_path_reason path =
     ''Reading '' @ py_repr (last_part (parts_of path)) @ '' is not allowed: it may contain ''
     @ ''credentials (dotenv / secrets.toml / private key). Secret files ''
     @ ''are denied to every tool in every mode.''"

definition read_file :: "os_env \<Rightarrow> path_parts \<Rightarrow> fs_executor" where
  "read_file os project_dir input fs =
     (case string_arg input ''path'' of
        None \<Rightarrow> (Inl ''`path` must be a string.'', fs)
      | Some path \<Rightarrow>
          (case resolve_under_root os project_dir path of
             Inl e \<Rightarrow> (Inl e, fs)
           | Inr target \<Rightarrow>
               if is_secret_path target \<or> is_secret_path (parts_of path) then
                 (Inl (secret_path_reason path), fs)
               else if fs target = None then (Inl (''File not found: '' @ path), fs)
               else if \<not> is_file_node (fs target) then
                 (Inl (''Path is not a regular file: '' @ path), fs)
               else
                 (case read_text os target fs of
                    Inl e \<Rightarrow> (Inl (''Failed to read '' @ path @ '': '' @ os_message os e target), fs)
                  | Inr content \<Rightarrow> (Inr (JString content), fs))))"

definition write_file :: "os_env \<Rightarrow> path_parts \<Rightarrow> fs_executor" where
  "write_file os project_dir input fs =
     (case string_arg input ''path'' of
        None \<Rightarrow> (Inl ''`path` must be a string.'', fs)
      | Some path \<Rightarrow>
          (case string_arg input ''content'' of
             None \<Rightarrow> (Inl ''`content` must be a string.'', fs)
           | Some content \<Rightarrow>
               (case resolve_under_root os project_dir path of
                  Inl e \<Rightarrow> (Inl e, fs)
                | Inr target \<Rightarrow>
                    (case mkdir_and_write os target content fs of
                       (Inl e, fs') \<Rightarrow>
                         (Inl (''Failed to write '' @ path @ '': '' @ os_message os e target), fs')
                     | (Inr _, fs') \<Rightarrow> (Inr (written_result path [] content), fs')))))"

text \<open>The variant with an allow-list, whose entries are resolved when the tool is built.\<close>

definition allowlisted_write_file :: "os_env \<Rightarrow> path_parts \<Rightarrow> path_parts list \<Rightarrow> fs_executor" where
  "allowlisted_write_file os proj allowed input fs =
     (let allowed_resolved = remdups (map (os_resolve os) allowed);
          bad_path = (Inl ''`path` must be a non-empty string.'', fs)
      in case string_arg input ''path'' of
           None \<Rightarrow> bad_path
         | Some path \<Rightarrow>
             if path = [] then bad_path
             else
               (case string_arg input ''content'' of
                  None \<Rightarrow> (Inl ''`content` must be a string.'', fs)
                | Some content \<Rightarrow>
                    (let candidate = os_resolve os (join_path proj path)
                     in if \<not> prefix proj candidate then
                          (Inl (''Path '' @ py_repr path @ '' is outside the project directory.''), fs)
                        else if candidate \<notin> set allowed_resolved then
                          (case find (\<lambda>p. \<not> prefix proj p) allowed_resolved of
                             Some p \<Rightarrow>
                               (Inl (py_repr (path_str p) @ '' is not in the subpath of ''
                                  @ py_repr (path_str proj)), fs)
                           | None \<Rightarrow>
                               (Inl (''Path '' @ py_repr path @ '' is not on the write allow-list. Allowed: ''
                                  @ py_list_repr (sort (map (\<lambda>p. relative_str (drop (length proj) p))
                                      allowed_resolved))), fs))
                        else
                          (case mkdir_and_write os candidate content fs of
                             (Inl e, fs') \<Rightarrow>
                               (Inl (''Failed to write '' @ path @ '': '' @ os_message os e candidate), fs')
                           | (Inr _, fs') \<Rightarrow> (Inr (written_result path [] content), fs')))))"

section \<open>The environment of a shell command and the query guard\<close>

definition ENV_ALLOW_EXACT :: "string list" where
  "ENV_ALLOW_EXACT =
    [''PATH'', ''HOME'', ''USER'', ''LOGNAME'', ''SHELL'', ''LANG'', ''LANGUAGE'', ''TERM'', ''TMPDIR'',
     ''TEMP'', ''TMP'', ''TZ'', ''PWD'', ''COLUMNS'', ''LINES'', ''VIRTUAL_ENV'', ''DBT_PROFILES_DIR'',
     ''GIT_CONFIG_GLOBAL'', ''GH_CONFIG_DIR'', ''UV_CACHE_DIR'', ''PIP_CACHE_DIR'', ''XDG_CACHE_HOME'',
     ''XDG_CONFIG_HOME'', ''XDG_DATA_HOME'']"

definition ENV_ALLOW_PREFIXES :: "string list" where
  "ENV_ALLOW_PREFIXES = [''LC_'']"

text \<open>The credential pattern: parts found anywhere, and one that must end the name.\<close>

definition CREDENTIAL_PARTS :: "string list" where
  "CREDENTIAL_PARTS =
    [''PASSWORD'', ''SECRET'', ''TOKEN'', ''APIKEY'', ''API_KEY'', ''PRIVATE'', ''CREDENTIAL'', ''PASSWD'',
     ''PASSPHRASE'', ''SNOWFLAKE'', ''AWS'', ''AZURE'', ''GCP'', ''GOOGLE_APPLICATION'', ''ANTHROPIC'',
     ''OPENAI'']"

definition upper_char :: "char \<Rightarrow> char" where
  "upper_char c = (let n = of_char c :: nat in if 97 \<le> n \<and> n \<le> 122 then char_of (n - 32) else c)"

definition credential_name :: "string \<Rightarrow> bool" where
  "credential_name name =
     (let u = map upper_char name
      in list_ex (\<lambda>p. occurs_in p u) CREDENTIAL_PARTS \<or> suffix ''_KEY'' u
         \<or> suffix (''_KEY'' @ [CHR 0x0A]) u)"

definition env_var_allowed :: "string \<Rightarrow> bool" where
  "env_var_allowed name =
     (name \<in> set ENV_ALLOW_EXACT \<or> list_ex (startswith name) ENV_ALLOW_PREFIXES)"

definition scrubbed_env :: "(string \<times> string) list \<Rightarrow> (string \<times> string) list" where
  "scrubbed_env environ = filter (\<lambda>(k, v). env_var_allowed k \<and> \<not> credential_name k) environ"

definition MAX_TIMEOUT :: int where
  "MAX_TIMEOUT = 600"

definition bounded_timeout :: "int \<Rightarrow> int" where
  "bounded_timeout timeout = max 1 (min timeout MAX_TIMEOUT)"

text \<open>\<open>_SQL_LINE_COMMENT_RE.sub(" ", sql)\<close>, scanning from the left.\<close>

fun strip_line_comments :: "bool \<Rightarrow> string \<Rightarrow> string" where
  "strip_line_comments inside [] = []"
| "strip_line_comments True (c # cs) =
     (if c = CHR 0x0A then c # strip_line_comments False cs else strip_line_comments True cs)"
| "strip_line_comments False (c # cs) =
     (if c = CHR ''-'' \<and> cs \<noteq> [] \<and> hd cs = CHR ''-'' then CHR '' '' # strip_line_comments True cs
      else c # strip_line_comments False cs)"

definition READ_PREFIXES :: "string list" where
  "READ_PREFIXES = [''SELECT'', ''SHOW'', ''DESCRIBE'', ''DESC'', ''WITH'']"

definition is_safe_select :: "string \<Rightarrow> bool" where
  "is_safe_select sql =
     (if occurs_in ''/*'' sql then False
      else if \<not> blank (drop 1 (dropWhile (\<lambda>c. c \<noteq> CHR '';'') sql)) then False
      else
        (let stripped = dropWhile py_space (dropWhile (\<lambda>c. c = CHR ''('')
               (dropWhile py_space (strip_line_comments False sql)));
             word = map upper_char (takeWhile (\<lambda>c. \<not> py_space c) stripped)
         in stripped \<noteq> [] \<and> rstrip_chars {CHR '';''} word \<in> set READ_PREFIXES))"

section \<open>Counting and replacing\<close>

lemma sub_at_match:
  assumes "p \<noteq> []"
  shows "count_sub p (p @ b) = Suc (count_sub p b)" and "replace_sub p q (p @ b) = q @ replace_sub p q b"
proof -
  from assms obtain x xs where p: "p = x # xs" by (cases p) auto
  show "count_sub p (p @ b) = Suc (count_sub p b)"
    unfolding p by (subst count_sub.simps) simp
  show "replace_sub p q (p @ b) = q @ replace_sub p q b"
    unfolding p by (subst replace_sub.simps) simp
qed

lemma count_sub_leftmost:
  assumes "p \<noteq> []"
  shows "(count_sub p s = 0 \<and> \<not> occurs_in p s \<and> replace_sub p q s = s) \<or>
    (\<exists>a b. s = a @ p @ b \<and> count_sub p s = Suc (count_sub p b) \<and>
       replace_sub p q s = a @ q @ replace_sub p q b)"
proof (induction s)
  case Nil
  show ?case using assms by (simp add: count_sub.simps replace_sub.simps)
next
  case (Cons c cs)
  show ?case
  proof (cases "prefix p (c # cs)")
    case True
    then obtain b where b: "c # cs = p @ b" by (auto simp: prefix_def)
    with sub_at_match [OF assms] show ?thesis
      by (intro disjI2 exI [where x = "[]"] exI [where x = b]) simp
  next
    case False
    have "count_sub p (c # cs) = count_sub p cs"
      using assms False by (subst count_sub.simps) simp
    moreover have "replace_sub p q (c # cs) = c # replace_sub p q cs"
      using assms False by (subst replace_sub.simps) simp
    ultimately show ?thesis using Cons.IH False by (metis append_Cons occurs_in.simps(2))
  qed
qed

lemma count_sub_0:
  assumes "p \<noteq> []"
  shows "count_sub p s = 0 \<longleftrightarrow> \<not> occurs_in p s"
proof -
  have "occurs_in p (a @ p @ b)" for a b by (auto simp: occurs_in_iff)
  with count_sub_leftmost [OF assms, of s "[]"] show ?thesis by fastforce
qed

lemma replace_sub_none: "p \<noteq> [] \<Longrightarrow> \<not> occurs_in p s \<Longrightarrow> replace_sub p q s = s"
  using count_sub_leftmost [of p s q] by (auto simp: occurs_in_iff)

lemma count_sub_1:
  assumes "p \<noteq> []" and "count_sub p s = 1"
  shows "\<exists>a b. s = a @ p @ b \<and> replace_sub p q s = a @ q @ b \<and> \<not> occurs_in p b"
proof -
  from count_sub_leftmost [OF assms(1), of s q] assms(2) obtain a b where
    "s = a @ p @ b" "count_sub p b = 0" "replace_sub p q s = a @ q @ replace_sub p q b"
    by auto
  with count_sub_0 [OF assms(1)] replace_sub_none [OF assms(1)] show ?thesis by metis
qed

lemma count_sub_empty: "count_sub [] s = Suc (length s)"
  by (simp add: count_sub.simps)

section \<open>What the tools write\<close>

lemma resolve_writable_target:
  assumes "resolve_writable os proj allowed path = Inr target"
  shows "is_write_path_allowed (os_resolve os) target proj (map_option set allowed) \<and>
    (\<exists>s. path = Some s \<and> target = os_resolve os (join_path proj s))"
  using assms
  by (auto simp: resolve_writable_def Let_def bind_result_Inr_iff split: option.splits if_splits)

lemma mkdirs_frame:
  "fold mkdir qs fs r \<noteq> fs r \<Longrightarrow> r \<in> set qs \<and> fs r = None \<and> fold mkdir qs fs r = Some Dir_Node"
proof (induction qs arbitrary: fs)
  case (Cons q qs)
  have step: "mkdir q fs r = fs r \<or> r = q \<and> fs r = None \<and> mkdir q fs r = Some Dir_Node"
    by (auto simp: mkdir_def)
  show ?case
  proof (cases "fold mkdir qs (mkdir q fs) r = mkdir q fs r")
    case True
    with step Cons.prems show ?thesis by auto
  next
    case False
    from Cons.IH [OF this] step Cons.prems show ?thesis by auto
  qed
qed simp

lemma mkdir_parents_frame:
  assumes "mkdir_parents os p fs = Inr fs'" and "fs' q \<noteq> fs q"
  shows "prefix q p \<and> fs q = None \<and> fs' q = Some Dir_Node"
  using assms mkdirs_frame [of "prefixes p" fs q]
  by (auto simp: mkdir_parents_def split: option.splits node.splits if_splits)

lemma write_text_frame:
  "write_text os p content fs = Inr fs' \<Longrightarrow> fs' = fs(p \<mapsto> File_Node content)"
  by (auto simp: write_text_def split: if_splits)

text \<open>A path changed by a write, or a directory created on the way to it.\<close>

definition changed_by_write :: "path_parts \<Rightarrow> path_parts \<Rightarrow> file_system \<Rightarrow> file_system \<Rightarrow> bool" where
  "changed_by_write target q fs fs' \<longleftrightarrow>
     q = target \<or> prefix q (butlast target) \<and> fs q = None \<and> fs' q = Some Dir_Node"

lemma mkdir_and_write_frame:
  assumes "mkdir_and_write os target content fs = (r, fs')" and "fs' q \<noteq> fs q"
  shows "(r = Inr () \<and> q = target) \<or> (prefix q (butlast target) \<and> fs q = None \<and> fs' q = Some Dir_Node)"
proof -
  from assms obtain fs1 where mk: "mkdir_parents os (butlast target) fs = Inr fs1"
    by (auto simp: mkdir_and_write_def split: sum.splits)
  show ?thesis
  proof (cases "write_text os target content fs1")
    case (Inl e)
    with assms mk mkdir_parents_frame [OF mk, of q] show ?thesis by (auto simp: mkdir_and_write_def)
  next
    case (Inr fs2)
    with assms(1) mk have "fs' = fs2" "r = Inr ()" by (auto simp: mkdir_and_write_def)
    with write_text_frame [OF Inr] assms(2) mkdir_parents_frame [OF mk, of q] show ?thesis by auto
  qed
qed

lemma mkdir_and_write_target:
  "mkdir_and_write os target content fs = (Inr u, fs') \<Longrightarrow> fs' target = Some (File_Node content)"
  by (auto simp: mkdir_and_write_def dest: write_text_frame split: sum.splits)

text \<open>
  What a call of a tool leaves behind: nothing but new directories if it raises; otherwise at
  most the file it reports, whose path resolves inside the project and the allow-list.
\<close>

definition touches ::
  "os_env \<Rightarrow> path_parts \<Rightarrow> path_parts list option \<Rightarrow> (string + json) \<Rightarrow> file_system \<Rightarrow> file_system \<Rightarrow> bool"
  where
  "touches os proj allowed r fs fs' \<longleftrightarrow>
     (\<forall>q. fs' q \<noteq> fs q \<longrightarrow>
        (fs q = None \<and> fs' q = Some Dir_Node) \<or>
        (\<exists>path kvs. r = Inr (JObject ((''path'', JString path) # kvs)) \<and>
           q = os_resolve os (join_path proj path) \<and>
           is_write_path_allowed (os_resolve os) q proj (map_option set allowed)))"

lemma touches_cases:
  assumes "touches os proj allowed r fs fs'" and "fs' q \<noteq> fs q"
  obtains (newdir) "fs q = None" "fs' q = Some Dir_Node"
    | (target) path kvs where "r = Inr (JObject ((''path'', JString path) # kvs))"
        "q = os_resolve os (join_path proj path)"
        "is_write_path_allowed (os_resolve os) q proj (map_option set allowed)"
  using assms(1) [unfolded touches_def, THEN spec, of q] assms(2) that by auto

lemma touches_same [simp]: "touches os proj allowed r fs fs"
  by (simp add: touches_def)

lemma create_file_touches:
  assumes "create_file os proj allowed input fs = (r, fs')"
  shows "touches os proj allowed r fs fs'"
proof (cases "fs' = fs")
  case False
  with assms obtain content target where c: "string_arg input ''content'' = Some content"
    and t: "resolve_writable os proj allowed (string_arg input ''path'') = Inr target"
    and "fs target = None"
    by (auto simp: create_file_def Let_def split: option.splits sum.splits if_splits)
  obtain u fs1 where w: "mkdir_and_write os target content fs = (u, fs1)" by (metis surj_pair)
  from resolve_writable_target [OF t] obtain s where s: "string_arg input ''path'' = Some s"
    "target = os_resolve os (join_path proj s)"
    "is_write_path_allowed (os_resolve os) target proj (map_option set allowed)" by blast
  from assms c t w s(1) \<open>fs target = None\<close> have "fs1 = fs'"
    "u = Inr () \<Longrightarrow> r = Inr (written_result s [] content)"
    by (auto simp: create_file_def Let_def split: sum.splits)
  with mkdir_and_write_frame [OF w] s show ?thesis
    by (fastforce simp: touches_def written_result_def)
qed simp

lemma read_file_touches:
  "read_file os proj input fs = (r, fs') \<Longrightarrow> fs' = fs"
  by (auto simp: read_file_def split: option.splits sum.splits if_splits)

lemma edit_target_cases:
  assumes "edit_target os target path old new replace_all fs = (r, fs')"
  shows "(\<exists>e. r = Inl e) \<and> fs' = fs \<or>
    (\<exists>current. fs target = Some (File_Node current) \<and> count_sub old current \<noteq> 0 \<and>
       (replace_all \<or> count_sub old current = 1) \<and>
       fs' = fs(target \<mapsto> File_Node (replace_sub old new current)) \<and>
       r = Inr (written_result path [(''replacements'', JInt (int (count_sub old current)))]
             (replace_sub old new current)))"
proof (cases "read_text os target fs")
  case (Inl e)
  with assms show ?thesis by (auto simp: edit_target_def)
next
  case (Inr current)
  then have "fs target = Some (File_Node current)"
    by (auto simp: read_text_def split: option.splits node.splits if_splits)
  with assms Inr show ?thesis
    by (auto simp: edit_target_def Let_def not_less le_Suc_eq split: sum.splits if_splits dest!: write_text_frame)
qed

lemma edit_file_cases:
  assumes "edit_file os proj allowed input fs = (r, fs')"
  shows "(\<exists>e. r = Inl e) \<and> fs' = fs \<or>
    (\<exists>old new path target replace_all. string_arg input ''old_string'' = Some old \<and>
       string_arg input ''new_string'' = Some new \<and> string_arg input ''path'' = Some path \<and>
       target = os_resolve os (join_path proj path) \<and>
       is_write_path_allowed (os_resolve os) target proj (map_option set allowed) \<and>
       replace_all = (case input ''replace_all'' of None \<Rightarrow> False | Some v \<Rightarrow> truthy v) \<and>
       edit_target os target path old new replace_all fs = (r, fs'))"
proof -
  consider (raised) e where "r = Inl e" "fs' = fs"
    | (edited) old new target where "string_arg input ''old_string'' = Some old"
        "string_arg input ''new_string'' = Some new"
        "resolve_writable os proj allowed (string_arg input ''path'') = Inr target"
        "edit_target os target (the (string_arg input ''path'')) old new
           (case input ''replace_all'' of None \<Rightarrow> False | Some v \<Rightarrow> truthy v) fs = (r, fs')"
    using assms by (auto simp: edit_file_def Let_def split: option.splits sum.splits if_splits)
  then show ?thesis
  proof cases
    case edited
    with resolve_writable_target [OF edited(3)] show ?thesis by auto
  qed simp
qed

lemma edit_file_touches:
  assumes "edit_file os proj allowed input fs = (r, fs')"
  shows "touches os proj allowed r fs fs'"
  using edit_file_cases [OF assms]
proof
  assume "\<exists>old new path target replace_all. string_arg input ''old_string'' = Some old \<and>
       string_arg input ''new_string'' = Some new \<and> string_arg input ''path'' = Some path \<and>
       target = os_resolve os (join_path proj path) \<and>
       is_write_path_allowed (os_resolve os) target proj (map_option set allowed) \<and>
       replace_all = (case input ''replace_all'' of None \<Rightarrow> False | Some v \<Rightarrow> truthy v) \<and>
       edit_target os target path old new replace_all fs = (r, fs')"
  then obtain old new path target replace_all where
    t: "target = os_resolve os (join_path proj path)"
      "is_write_path_allowed (os_resolve os) target proj (map_option set allowed)"
    and e: "edit_target os target path old new replace_all fs = (r, fs')" by blast
  from edit_target_cases [OF e] t show ?thesis
    by (auto simp: touches_def written_result_def)
qed simp

section \<open>Agents that edit files\<close>

text \<open>
  The tools as the loop sees them; \<open>doc\<close> is the description and the schema written for the
  model. A service call leaves the files alone.
\<close>

definition make_tool :: "string \<Rightarrow> string \<times> json \<Rightarrow> 'w executor \<Rightarrow> 'w tool" where
  "make_tool name doc e =
     \<lparr>tool_name = name, tool_description = fst doc, tool_schema = snd doc, tool_executor = e\<rparr>"

definition file_tools ::
  "(string \<Rightarrow> string \<times> json) \<Rightarrow> os_env \<Rightarrow> path_parts \<Rightarrow> path_parts list option \<Rightarrow>
     (file_system \<times> 'x) tool list" where
  "file_tools docs os proj allowed =
     [make_tool ''read_file'' (docs ''read_file'') (on_files (read_file os proj)),
      make_tool ''edit'' (docs ''edit'') (on_files (edit_file os proj allowed)),
      make_tool ''create_file'' (docs ''create_file'') (on_files (create_file os proj allowed))]"

definition file_agent ::
  "(string \<Rightarrow> string \<times> json) \<Rightarrow> os_env \<Rightarrow> path_parts \<Rightarrow> path_parts list option \<Rightarrow>
     (file_system \<times> 'x) loop_config \<Rightarrow> (file_system \<times> 'x) loop_config" where
  "file_agent docs os proj allowed cfg = cfg
     \<lparr>lc_tools := tool_dict (file_tools docs os proj allowed), lc_skills := None,
      lc_pre_hook := None, lc_post_hook := None\<rparr>"

definition remote :: "'x messages_api \<Rightarrow> (file_system \<times> 'x) messages_api" where
  "remote api req w = (let (a, x) = api req (snd w) in (a, (fst w, x)))"

text \<open>Every path is as it was, or a new directory, or an allowed target that is reported.\<close>

definition reports_changes ::
  "os_env \<Rightarrow> path_parts \<Rightarrow> path_parts list option \<Rightarrow> file_system \<Rightarrow> string list \<Rightarrow>
     file_system \<times> 'x \<Rightarrow> bool" where
  "reports_changes os proj allowed fs0 files w \<longleftrightarrow>
     (\<forall>q. fst w q = fs0 q \<or> (fs0 q = None \<and> fst w q = Some Dir_Node) \<or>
        is_write_path_allowed (os_resolve os) q proj (map_option set allowed) \<and>
        q \<in> (\<lambda>path. os_resolve os (join_path proj path)) ` set files)"

lemma file_agent_select [simp]:
  "lc_pre_hook (file_agent docs os proj allowed cfg) = None"
  "lc_post_hook (file_agent docs os proj allowed cfg) = None"
  "lc_skills (file_agent docs os proj allowed cfg) = None"
  by (simp_all add: file_agent_def)

lemma file_agent_tools:
  "lc_tools (file_agent docs os proj allowed cfg) =
     map (\<lambda>t. (tool_name t, t)) (file_tools docs os proj allowed)"
  by (simp add: file_agent_def tool_dict_def dict_of_distinct file_tools_def make_tool_def)

lemma file_agent_body:
  assumes "tool_body (file_agent docs os proj allowed cfg) name = Some body"
  shows "name = ''read_file'' \<and> body = on_files (read_file os proj) \<or>
    name = ''edit'' \<and> body = on_files (edit_file os proj allowed) \<or>
    name = ''create_file'' \<and> body = on_files (create_file os proj allowed)"
  using assms
  by (auto simp: tool_body_def file_agent_tools file_tools_def make_tool_def
      split: if_splits option.splits)

lemma guarded_call_no_hooks:
  "lc_pre_hook cfg = None \<Longrightarrow> lc_post_hook cfg = None \<Longrightarrow> guarded_call cfg body name input w = body input w"
  by (simp add: guarded_call_def run_hook_def seq_effect_def split: prod.split sum.split)

lemma on_files_result:
  "on_files e input w = (r, w') \<Longrightarrow> e input (fst w) = (r, fst w') \<and> snd w' = snd w"
  by (auto simp: on_files_def split: prod.splits)

lemma reported_file:
  assumes "name \<in> set TRACKED_TOOLS"
  shows "add_file (tracked_path name (JObject ((''path'', JString path) # kvs))) files =
    (if path \<in> set files then files else files @ [path])"
  using assms by (simp add: tracked_path_def add_file_def)

lemma set_add_file: "set files \<subseteq> set (add_file p files)"
  by (auto simp: add_file_def split: option.split)

lemma reports_step:
  assumes "reports_changes os proj allowed fs0 files w"
    and "touches os proj allowed r (fst w) (fst w')"
    and "fst w' = fst w \<or> name \<in> set TRACKED_TOOLS"
  shows "reports_changes os proj allowed fs0
    (case r of Inl _ \<Rightarrow> files | Inr res \<Rightarrow> add_file (tracked_path name res) files) w'"
proof -
  let ?files' = "case r of Inl _ \<Rightarrow> files | Inr res \<Rightarrow> add_file (tracked_path name res) files"
  have more: "set files \<subseteq> set ?files'" using set_add_file by (cases r) auto
  show ?thesis unfolding reports_changes_def
  proof
    fix q
    from assms(1) have old: "fst w q = fs0 q \<or> (fs0 q = None \<and> fst w q = Some Dir_Node) \<or>
        is_write_path_allowed (os_resolve os) q proj (map_option set allowed) \<and>
        q \<in> (\<lambda>path. os_resolve os (join_path proj path)) ` set files"
      by (auto simp: reports_changes_def)
    show "fst w' q = fs0 q \<or> (fs0 q = None \<and> fst w' q = Some Dir_Node) \<or>
        is_write_path_allowed (os_resolve os) q proj (map_option set allowed) \<and>
        q \<in> (\<lambda>path. os_resolve os (join_path proj path)) ` set ?files'"
    proof (cases "fst w' q = fst w q")
      case True
      with old more show ?thesis by auto
    next
      case False
      then have tracked: "name \<in> set TRACKED_TOOLS" using assms(3) by metis
      from assms(2) False show ?thesis
      proof (cases rule: touches_cases)
        case newdir
        with old more show ?thesis by auto
      next
        case (target path kvs)
        then have "path \<in> set ?files'" using reported_file [OF tracked] by simp
        with target show ?thesis by blast
      qed
    qed
  qed
qed

text \<open>A tool either leaves the files alone or is one of the two that change a file and report it.\<close>

definition reporting_tool ::
  "os_env \<Rightarrow> path_parts \<Rightarrow> path_parts list option \<Rightarrow> string \<Rightarrow> (file_system \<times> 'x) executor \<Rightarrow> bool" where
  "reporting_tool os proj allowed name body \<longleftrightarrow>
     (\<forall>input w. fst (snd (body input w)) = fst w) \<or>
     name = ''edit'' \<and> body = on_files (edit_file os proj allowed) \<or>
     name = ''create_file'' \<and> body = on_files (create_file os proj allowed)"

lemma reporting_tool_touches:
  assumes "reporting_tool os proj allowed name body" and "body input w = (r, w')"
  shows "touches os proj allowed r (fst w) (fst w') \<and> (fst w' = fst w \<or> name \<in> set TRACKED_TOOLS)"
  using assms(1) unfolding reporting_tool_def
proof (elim disjE conjE)
  assume "\<forall>input w. fst (snd (body input w)) = fst w"
  with assms(2) have "fst w' = fst w" by (metis snd_conv)
  then show ?thesis by simp
next
  assume "name = ''edit''" "body = on_files (edit_file os proj allowed)"
  then have "touches os proj allowed r (fst w) (fst w')"
    using assms(2) on_files_result edit_file_touches by blast
  with \<open>name = ''edit''\<close> show ?thesis by (simp add: TRACKED_TOOLS_def)
next
  assume "name = ''create_file''" "body = on_files (create_file os proj allowed)"
  then have "touches os proj allowed r (fst w) (fst w')"
    using assms(2) on_files_result create_file_touches by blast
  with \<open>name = ''create_file''\<close> show ?thesis by (simp add: TRACKED_TOOLS_def)
qed

lemma read_file_keeps: "fst (snd (on_files (read_file os proj) input w)) = fst w"
  using read_file_touches by (auto simp: on_files_def split: prod.split)

lemma file_agent_call:
  assumes "reports_changes os proj allowed fs0 files w"
    and "tool_body (file_agent docs os proj allowed cfg) name = Some body"
    and "guarded_call (file_agent docs os proj allowed cfg) body name input w = (r, w')"
  shows "reports_changes os proj allowed fs0
    (case r of Inl _ \<Rightarrow> files | Inr res \<Rightarrow> add_file (tracked_path name res) files) w'"
proof -
  from assms(3) have body: "body input w = (r, w')" by (simp add: guarded_call_no_hooks)
  have "reporting_tool os proj allowed name body"
    using file_agent_body [OF assms(2)] read_file_keeps unfolding reporting_tool_def by blast
  note t = reporting_tool_touches [OF this body]
  show ?thesis by (rule reports_step [OF assms(1) conjunct1 [OF t] conjunct2 [OF t]])
qed

interpretation file_agent_run: run_invariant
  "reports_changes os proj allowed fs0" "remote api" "file_agent docs os proj allowed cfg"
  for os proj allowed fs0 api docs cfg
proof unfold_locales
  fix files and w :: "file_system \<times> 'a" and req
  assume "reports_changes os proj allowed fs0 files w"
  then show "reports_changes os proj allowed fs0 files (snd (remote api req w))"
    by (simp add: reports_changes_def remote_def split: prod.split)
next
  fix files and w w' :: "file_system \<times> 'a" and name input body res
  assume "reports_changes os proj allowed fs0 files w"
    "tool_body (file_agent docs os proj allowed cfg) name = Some body"
    "guarded_call (file_agent docs os proj allowed cfg) body name input w = (Inr res, w')"
  from file_agent_call [OF this] show "reports_changes os proj allowed fs0
      (add_file (tracked_path name res) files) w'" by simp
next
  fix files and w w' :: "file_system \<times> 'a" and name input body e
  assume "reports_changes os proj allowed fs0 files w"
    "tool_body (file_agent docs os proj allowed cfg) name = Some body"
    "guarded_call (file_agent docs os proj allowed cfg) body name input w = (Inl e, w')"
  from file_agent_call [OF this] show "reports_changes os proj allowed fs0 files w'" by simp
qed

section \<open>Properties\<close>



definition plain_os :: os_env where
  "plain_os = \<lparr>os_resolve = id, os_refuses_read = (\<lambda>_. False), os_refuses_write = (\<lambda>_. False),
     os_message = (\<lambda>_ _. ''error'')\<rparr>"

definition sample_edit :: tool_input where
  "sample_edit =
     [''path'' \<mapsto> JString ''f'', ''old_string'' \<mapsto> JString ''aa'', ''new_string'' \<mapsto> JString ''b'']"

definition sample_files :: file_system where
  "sample_files = [[''p'', ''f''] \<mapsto> File_Node ''aaa'']"


text \<open>
  Reading keeps secrets. \<open>read_file\<close> changes nothing, and what it returns is the content of a
  regular file inside the project none of whose two names, the resolved one and the requested
  one, is on the deny-list.
\<close>

theorem read_file_keeps_secrets:
  assumes "read_file os proj input fs = (Inr res, fs')"
  shows "fs' = fs \<and> (\<exists>path target content. string_arg input ''path'' = Some path \<and>
    target = os_resolve os (join_path proj path) \<and> prefix (os_resolve os proj) target \<and>
    \<not> is_secret_path target \<and> \<not> is_secret_path (parts_of path) \<and>
    fs target = Some (File_Node content) \<and> res = JString content)"
  using assms
  by (auto simp: read_file_def resolve_under_root_def read_text_def is_file_node_def Let_def
      split: option.splits sum.splits if_splits node.splits)

theorem read_file_keeps_secrets_witness:
  "\<exists>path. string_arg [''path'' \<mapsto> JString ''a/b.sql''] ''path'' = Some path \<and> \<not> is_secret_path (parts_of path)"
proof -
  let ?fs = "[[''p'', ''a'', ''b.sql''] \<mapsto> File_Node ''select 1'']"
  let ?in = "[''path'' \<mapsto> JString ''a/b.sql'']"
  have "case read_file plain_os [''p''] ?in ?fs of (Inr res, _) \<Rightarrow> True | _ \<Rightarrow> False" by code_simp
  then obtain res fs' where "read_file plain_os [''p''] ?in ?fs = (Inr res, fs')"
    by (auto split: sum.splits prod.splits)
  from read_file_keeps_secrets [OF this] show ?thesis by blast
qed

lemma raising_post_hook_invariant:
  assumes "lc_post_hook cfg = Some h" and "\<And>name input w. \<exists>e. fst (h name input w) = Inl e"
  shows "run_invariant (\<lambda>files _. files = files0) api cfg"
proof unfold_locales
  fix files name input body res and w w' :: 'a
  assume "guarded_call cfg body name input w = (Inr res, w')"
  moreover have "h name input v \<noteq> (Inr (), v')" for v v'
    using assms(2) [of name input v] by auto
  ultimately show "add_file (tracked_path name res) files = files0"
    using assms(1) by (auto simp: guarded_call_def seq_effect_def run_hook_def split: prod.splits sum.splits)
qed

text \<open>
  A post-hook that raises hides what the tool has done. The write happens before the hook
  and is not undone, but the call is reported as failed and the file is never listed: with a
  post-hook that always raises, \<open>files_changed\<close> is empty however a run ends.
\<close>

theorem raising_post_hook_hides_writes:
  assumes "lc_post_hook cfg = Some h" and "\<And>name input w. \<exists>e. fst (h name input w) = Inl e"
  shows "case run_loop api cfg env u max_turns (initial_state token queue) w of
     (_, s', _) \<Rightarrow> ls_files s' = []"
proof -
  obtain out s' w' where run: "run_loop api cfg env u max_turns (initial_state token queue) w = (out, s', w')"
    by (metis prod_cases3)
  have "ls_files (initial_state token queue) = []" by (simp add: initial_state_def)
  from run_invariant.run_keeps [OF raising_post_hook_invariant [OF assms] run this] run
  show ?thesis by simp
qed

definition edit_then_stop :: "(file_system \<times> nat) messages_api" where
  "edit_then_stop req w =
     (let usage = \<lparr>api_input = None, api_output = None, api_cache_creation = None, api_cache_read = None\<rparr>
      in if snd w = 0 then
           (Responded \<lparr>resp_content = [Tool_Use_Block ''t1'' ''edit'' (Some sample_edit)],
              resp_stop = Some ''tool_use'', resp_usage = usage\<rparr>, (fst w, 1))
         else
           (Responded \<lparr>resp_content = [Text_Block ''done''], resp_stop = Some ''end_turn'',
              resp_usage = usage\<rparr>, w))"

definition hooked_agent :: "(file_system \<times> nat) loop_config" where
  "hooked_agent =
     (file_agent (\<lambda>_. ([], JNull)) plain_os [''p''] None (plain_config []))
       \<lparr>lc_post_hook := Some (\<lambda>_ _ w. (Inl ''lint failed'', w))\<rparr>"

theorem raising_post_hook_hides_writes_witness:
  "case run_loop edit_then_stop hooked_agent (\<lambda>_. \<lparr>bt_cancel = False, bt_pushed = []\<rparr>) ''go'' 5
      (initial_state None None) (sample_files, 0) of
     (Inr res, s', w') \<Rightarrow> fst w' [''p'', ''f''] = Some (File_Node ''ba'') \<and> ls_files s' = []
   | _ \<Rightarrow> False"
proof -
  let ?run = "run_loop edit_then_stop hooked_agent (\<lambda>_. \<lparr>bt_cancel = False, bt_pushed = []\<rparr>) ''go'' 5
      (initial_state None None) (sample_files, 0)"
  have "lc_post_hook hooked_agent = Some (\<lambda>_ _ w. (Inl ''lint failed'', w))"
    by (simp add: hooked_agent_def)
  from raising_post_hook_hides_writes [OF this] have "case ?run of (_, s', _) \<Rightarrow> ls_files s' = []"
    by simp
  moreover have "case ?run of (Inr res, s', w') \<Rightarrow> fst w' [''p'', ''f''] = Some (File_Node ''ba'') | _ \<Rightarrow> False"
    by code_simp
  ultimately show ?thesis by (auto split: prod.splits sum.splits)
qed

lemma scrubbed_env_clean:
  "(k, v) \<in> set (scrubbed_env environ) \<Longrightarrow> env_var_allowed k \<and> \<not> credential_name k"
  by (simp add: scrubbed_env_def)

lemma bounded_timeout_range: "1 \<le> bounded_timeout t \<and> bounded_timeout t \<le> 600"
  by (simp add: bounded_timeout_def MAX_TIMEOUT_def)

text \<open>The query guard reads the first word only: a statement that writes behind a CTE passes.\<close>

lemma safe_select_accepts_cte_write: "is_safe_select ''WITH x AS (SELECT 1) DELETE FROM t''"
  by code_simp

text \<open>A name on the deny-list is refused by \<open>read_file\<close> but not by \<open>edit\<close>.\<close>

lemma edit_reaches_secrets:
  "case edit_file plain_os [''p''] None
      [''path'' \<mapsto> JString ''.env'', ''old_string'' \<mapsto> JString ''K=1'', ''new_string'' \<mapsto> JString ''K=2'']
      [[''p'', ''.env''] \<mapsto> File_Node ''K=1''] of (Inr _, _) \<Rightarrow> True | _ \<Rightarrow> False"
  by code_simp

end
