(* ===== verification/Agent_Files.thy ===== *)
theory Agent_Files
  imports File_Tools
begin

text \<open>
  Declarative agents: the loader of an agent file (\<open>core/agents/loader.py\<close>), discovery with
  its cache (\<open>discovery.py\<close>), the registry (\<open>subagent_registry.py\<close>), the router
  (\<open>routing.py\<close>) and the advisory lint (\<open>lint.py\<close>). The YAML parser, which the code calls in
  its safe mode, and the disk are arguments. Log lines are left out.
\<close>

section \<open>Lines\<close>

text \<open>
  Cutting into lines at the breaks a predicate names, a carriage return with its line feed
  counting as one; the second argument is the line so far. \<open>str.splitlines\<close> knows more breaks
  than iteration over a file.
\<close>

fun lines_from :: "(char \<Rightarrow> bool) \<Rightarrow> string \<Rightarrow> string \<Rightarrow> string list" where
  "lines_from brk line [] = (if line = [] then [] else [rev line])"
| "lines_from brk line (c # cs) =
     (if c = CHR 0x0D \<and> cs \<noteq> [] \<and> hd cs = CHR 0x0A then rev line # lines_from brk [] (tl cs)
      else if brk c then rev line # lines_from brk [] cs
      else lines_from brk (c # line) cs)"

definition line_break :: "char \<Rightarrow> bool" where
  "line_break c = (let n = of_char c :: nat in (10 \<le> n \<and> n \<le> 13) \<or> (28 \<le> n \<and> n \<le> 30) \<or> n = 133)"

definition splitlines :: "string \<Rightarrow> string list" where
  "splitlines = lines_from line_break []"

definition file_lines :: "string \<Rightarrow> string list" where
  "file_lines = lines_from (\<lambda>c. c = CHR 0x0A \<or> c = CHR 0x0D) []"

fun join_lines :: "string list \<Rightarrow> string" where
  "join_lines [] = []"
| "join_lines [l] = l"
| "join_lines (l # m # ls) = l @ CHR 0x0A # join_lines (m # ls)"

section \<open>The loader\<close>

record agent_file =
  af_name :: string
  af_description :: string
  af_body :: string
  af_max_mode :: permission_mode
  af_source :: path_parts
  af_model :: "string option"
  af_tools :: "string list"
  af_allowed_paths :: "string list"
  af_classifications :: "string list"

datatype load_error =
    Cannot_Stat
  | Too_Large int
  | Cannot_Read
  | Not_Utf8
  | No_Opening_Fence
  | Unterminated_Frontmatter
  | Malformed_Yaml string
  | Frontmatter_Not_Mapping
  | Missing_Text string
  | Bad_Optional_Text string
  | Not_A_Text_List string
  | Mode_Not_Text
  | Unknown_Mode string

datatype disk_content = Text_Content string | Unreadable_Content | Undecodable_Content

record disk_file =
  df_mtime :: int
  df_size :: int
  df_content :: disk_content

record agent_disk =
  ad_file :: "path_parts \<Rightarrow> disk_file option"
  ad_is_file :: "path_parts \<Rightarrow> bool"
  ad_is_dir :: "path_parts \<Rightarrow> bool"
  ad_glob_md :: "path_parts \<Rightarrow> path_parts list"
  ad_resolve :: "path_parts \<Rightarrow> path_parts"

type_synonym yaml_parser = "string \<Rightarrow> string + json"

definition MAX_AGENT_FILE_BYTES :: int where
  "MAX_AGENT_FILE_BYTES = 64 * 1024"

definition FENCE :: string where
  "FENCE = ''---''"

definition read_bounded :: "agent_disk \<Rightarrow> path_parts \<Rightarrow> int \<Rightarrow> load_error + string" where
  "read_bounded disk p max_bytes =
     (case ad_file disk p of
        None \<Rightarrow> Inl Cannot_Stat
      | Some f \<Rightarrow>
          if max_bytes < df_size f then Inl (Too_Large (df_size f))
          else (case df_content f of
                  Text_Content t \<Rightarrow> Inr t
                | Unreadable_Content \<Rightarrow> Inl Cannot_Read
                | Undecodable_Content \<Rightarrow> Inl Not_Utf8))"

definition is_fence :: "string \<Rightarrow> bool" where
  "is_fence line = (py_strip line = FENCE)"

definition split_frontmatter :: "yaml_parser \<Rightarrow> string \<Rightarrow> load_error + (string \<times> json) list \<times> string" where
  "split_frontmatter yaml txt =
     (case splitlines txt of
        [] \<Rightarrow> Inl No_Opening_Fence
      | first # rest \<Rightarrow>
          if \<not> is_fence first then Inl No_Opening_Fence
          else
            (case dropWhile (\<lambda>l. \<not> is_fence l) rest of
               [] \<Rightarrow> Inl Unterminated_Frontmatter
             | closing # after \<Rightarrow>
                 (let body = py_strip (join_lines after)
                  in case yaml (join_lines (takeWhile (\<lambda>l. \<not> is_fence l) rest)) of
                       Inl e \<Rightarrow> Inl (Malformed_Yaml e)
                     | Inr JNull \<Rightarrow> Inr ([], body)
                     | Inr (JObject kvs) \<Rightarrow> Inr (kvs, body)
                     | Inr _ \<Rightarrow> Inl Frontmatter_Not_Mapping)))"

definition read_frontmatter_file ::
  "yaml_parser \<Rightarrow> agent_disk \<Rightarrow> path_parts \<Rightarrow> int \<Rightarrow> load_error + (string \<times> json) list \<times> string" where
  "read_frontmatter_file yaml disk p max_bytes =
     bind_result (read_bounded disk p max_bytes) (split_frontmatter yaml)"

definition require_str :: "(string \<times> json) list \<Rightarrow> string \<Rightarrow> load_error + string" where
  "require_str fm key =
     (case map_of fm key of
        Some (JString s) \<Rightarrow> if blank s then Inl (Missing_Text key) else Inr (py_strip s)
      | _ \<Rightarrow> Inl (Missing_Text key))"

definition optional_str :: "(string \<times> json) list \<Rightarrow> string \<Rightarrow> load_error + string option" where
  "optional_str fm key =
     (case map_of fm key of
        None \<Rightarrow> Inr None
      | Some JNull \<Rightarrow> Inr None
      | Some (JString s) \<Rightarrow> if blank s then Inl (Bad_Optional_Text key) else Inr (Some (py_strip s))
      | Some _ \<Rightarrow> Inl (Bad_Optional_Text key))"

fun all_strings :: "json list \<Rightarrow> string list option" where
  "all_strings [] = Some []"
| "all_strings (JString s # js) = map_option (Cons s) (all_strings js)"
| "all_strings (j # js) = None"

definition str_list :: "(string \<times> json) list \<Rightarrow> string \<Rightarrow> load_error + string list" where
  "str_list fm key =
     (case map_of fm key of
        None \<Rightarrow> Inr []
      | Some JNull \<Rightarrow> Inr []
      | Some (JList js) \<Rightarrow>
          (case all_strings js of
             None \<Rightarrow> Inl (Not_A_Text_List key)
           | Some ss \<Rightarrow> Inr (map py_strip ss))
      | Some _ \<Rightarrow> Inl (Not_A_Text_List key))"

definition mode_values :: "(string \<times> permission_mode) list" where
  "mode_values =
     [(''read_only'', READ_ONLY), (''plan'', PLAN), (''build'', BUILD), (''deploy'', DEPLOY)]"

definition parse_mode :: "(string \<times> json) list \<Rightarrow> load_error + permission_mode" where
  "parse_mode fm =
     (case map_of fm ''max_mode'' of
        None \<Rightarrow> Inr READ_ONLY
      | Some JNull \<Rightarrow> Inr READ_ONLY
      | Some (JString raw) \<Rightarrow>
          (case map_of mode_values (py_strip raw) of
             None \<Rightarrow> Inl (Unknown_Mode raw)
           | Some m \<Rightarrow> Inr m)
      | Some _ \<Rightarrow> Inl Mode_Not_Text)"

definition build_agent_file ::
  "(string \<times> json) list \<Rightarrow> string \<Rightarrow> path_parts \<Rightarrow> load_error + agent_file" where
  "build_agent_file fm body p =
     bind_result (require_str fm ''name'') (\<lambda>name.
     bind_result (require_str fm ''description'') (\<lambda>description.
     bind_result (optional_str fm ''model'') (\<lambda>model.
     bind_result (str_list fm ''tools'') (\<lambda>tools.
     bind_result (str_list fm ''allowed_paths'') (\<lambda>allowed.
     bind_result (str_list fm ''classifications'') (\<lambda>classes.
     bind_result (parse_mode fm) (\<lambda>mode.
       Inr \<lparr>af_name = name, af_description = description, af_body = body, af_max_mode = mode,
            af_source = p, af_model = model, af_tools = tools, af_allowed_paths = allowed,
            af_classifications = classes\<rparr>)))))))"

definition load_agent_file :: "yaml_parser \<Rightarrow> agent_disk \<Rightarrow> path_parts \<Rightarrow> load_error + agent_file" where
  "load_agent_file yaml disk p0 =
     (let p = ad_resolve disk p0
      in bind_result (read_frontmatter_file yaml disk p MAX_AGENT_FILE_BYTES)
           (\<lambda>(fm, body). build_agent_file fm body p))"

section \<open>The registry\<close>

text \<open>What a tool factory yields: a name to be bound later, or a tool that is ready.\<close>

datatype 'w declared_tool = Grant_Stub string | Ready_Tool "'w tool"

fun declared_name :: "'w declared_tool \<Rightarrow> string" where
  "declared_name (Grant_Stub n) = n"
| "declared_name (Ready_Tool t) = tool_name t"

record 'w agent_spec =
  sp_name :: string
  sp_system_prompt :: string
  sp_capability :: permission_mode
  sp_tool_factory :: "path_parts \<Rightarrow> 'w declared_tool list"
  sp_model :: "string option"
  sp_classifications :: "string list"
  sp_description :: string

definition declarative_tool_factory :: "string list \<Rightarrow> path_parts \<Rightarrow> 'w declared_tool list" where
  "declarative_tool_factory names p = map Grant_Stub names"

definition spec_from_agent_file :: "agent_file \<Rightarrow> 'w agent_spec" where
  "spec_from_agent_file a =
     \<lparr>sp_name = af_name a, sp_system_prompt = af_body a, sp_capability = af_max_mode a,
      sp_tool_factory = declarative_tool_factory (af_tools a), sp_model = af_model a,
      sp_classifications = af_classifications a, sp_description = af_description a\<rparr>"

type_synonym 'w registry = "(string \<times> 'w agent_spec) list"

definition register :: "'w agent_spec \<Rightarrow> 'w registry \<Rightarrow> 'w registry" where
  "register spec reg = AList.update (sp_name spec) spec reg"

fun stage_agents :: "agent_file list \<Rightarrow> 'w registry \<Rightarrow> string + 'w registry" where
  "stage_agents [] staged = Inr staged"
| "stage_agents (a # agents) staged =
     (if map_of staged (af_name a) \<noteq> None then Inl (af_name a)
      else stage_agents agents (staged @ [(af_name a, spec_from_agent_file a)]))"

text \<open>A batch is staged first and committed as a whole; \<open>Inl\<close> names the duplicate.\<close>

definition register_files :: "agent_file list \<Rightarrow> 'w registry \<Rightarrow> string + 'w registry" where
  "register_files agents reg =
     (case stage_agents agents [] of
        Inl n \<Rightarrow> Inl n
      | Inr staged \<Rightarrow> Inr (fold (\<lambda>(n, spec). AList.update n spec) staged reg))"

definition resolve_agent :: "'w registry \<Rightarrow> string \<Rightarrow> 'w agent_spec option" where
  "resolve_agent reg name = map_of reg name"

definition registry_names :: "'w registry \<Rightarrow> string list" where
  "registry_names reg = sort (map fst reg)"

definition registry_specs :: "'w registry \<Rightarrow> 'w agent_spec list" where
  "registry_specs reg = map (\<lambda>n. the (map_of reg n)) (registry_names reg)"

section \<open>Routing\<close>

datatype route_error = No_Agent_Match string | Nothing_To_Route_On

definition select_agent :: "'w registry \<Rightarrow> string option \<Rightarrow> string option \<Rightarrow> route_error + string" where
  "select_agent reg classification override =
     (case override of
        Some n \<Rightarrow> if map_of reg n \<noteq> None then Inr n else Inl (No_Agent_Match n)
      | None \<Rightarrow>
          (case classification of
             None \<Rightarrow> Inl Nothing_To_Route_On
           | Some c \<Rightarrow>
               (case map sp_name (filter (\<lambda>spec. c \<in> set (sp_classifications spec)) (registry_specs reg)) of
                  [] \<Rightarrow> Inl (No_Agent_Match c)
                | n # _ \<Rightarrow> Inr n)))"

section \<open>Discovery\<close>

type_synonym agent_cache = "path_parts \<rightharpoonup> int \<times> agent_file"

record agent_root =
  ar_directory :: path_parts
  ar_label :: string

text \<open>
  The first line that is not blank is a fence. A file that cannot be read has none; so has one
  that is not UTF-8, where the code lets the decoding error escape.
\<close>

definition has_frontmatter_fence :: "agent_disk \<Rightarrow> path_parts \<Rightarrow> bool" where
  "has_frontmatter_fence disk p =
     (case ad_file disk p of
        Some f \<Rightarrow>
          (case df_content f of
             Text_Content t \<Rightarrow>
               (case dropWhile blank (file_lines t) of [] \<Rightarrow> False | l # _ \<Rightarrow> is_fence l)
           | _ \<Rightarrow> False)
      | None \<Rightarrow> False)"

definition parse_cached ::
  "yaml_parser \<Rightarrow> agent_disk \<Rightarrow> path_parts \<Rightarrow> agent_cache \<Rightarrow> agent_file option \<times> agent_cache" where
  "parse_cached yaml disk p0 cache =
     (let p = ad_resolve disk p0
      in case ad_file disk p of
           None \<Rightarrow> (None, cache(p := None))
         | Some f \<Rightarrow>
             (let reparse = (case load_agent_file yaml disk p of
                               Inl e \<Rightarrow> (None, cache(p := None))
                             | Inr a \<Rightarrow> (Some a, cache(p \<mapsto> (df_mtime f, a))))
              in case cache p of
                   Some (mtime, a) \<Rightarrow> if mtime = df_mtime f then (Some a, cache) else reparse
                 | None \<Rightarrow> reparse))"

text \<open>The checks before a file is parsed: a regular file, inside the root, no built-in doc.\<close>

definition considered :: "agent_disk \<Rightarrow> agent_root \<Rightarrow> path_parts \<Rightarrow> bool" where
  "considered disk r p \<longleftrightarrow>
     ad_is_file disk p \<and> prefix (ad_resolve disk (ar_directory r)) (ad_resolve disk p) \<and>
     (ar_label r = ''builtin'' \<longrightarrow> has_frontmatter_fence disk p)"

fun parse_paths ::
  "yaml_parser \<Rightarrow> agent_disk \<Rightarrow> agent_root \<Rightarrow> path_parts list \<Rightarrow> agent_cache \<Rightarrow>
     agent_file list \<times> agent_cache" where
  "parse_paths yaml disk r [] cache = ([], cache)"
| "parse_paths yaml disk r (p # ps) cache =
     (if \<not> considered disk r p then parse_paths yaml disk r ps cache
      else
        (let (parsed, cache') = parse_cached yaml disk p cache;
             (agents, cache'') = parse_paths yaml disk r ps cache'
         in (case parsed of None \<Rightarrow> agents | Some a \<Rightarrow> a # agents, cache'')))"

definition parse_root ::
  "yaml_parser \<Rightarrow> agent_disk \<Rightarrow> agent_root \<Rightarrow> agent_cache \<Rightarrow> agent_file list \<times> agent_cache" where
  "parse_root yaml disk r cache =
     (if \<not> ad_is_dir disk (ar_directory r) then ([], cache)
      else parse_paths yaml disk r (sort (ad_glob_md disk (ar_directory r))) cache)"

fun register_roots ::
  "yaml_parser \<Rightarrow> agent_disk \<Rightarrow> agent_root list \<Rightarrow> agent_cache \<Rightarrow> 'w registry \<Rightarrow>
     (string + 'w registry) \<times> agent_cache" where
  "register_roots yaml disk [] cache reg = (Inr reg, cache)"
| "register_roots yaml disk (r # roots) cache reg =
     (let (agents, cache') = parse_root yaml disk r cache
      in case register_files agents reg of
           Inl n \<Rightarrow> (Inl n, cache')
         | Inr reg' \<Rightarrow> register_roots yaml disk roots cache' reg')"

definition build_registry ::
  "yaml_parser \<Rightarrow> agent_disk \<Rightarrow> agent_root list \<Rightarrow> agent_cache \<Rightarrow> (string + 'w registry) \<times> agent_cache"
  where
  "build_registry yaml disk roots cache = register_roots yaml disk roots cache []"

section \<open>Lint\<close>

definition tool_min_mode :: "string \<Rightarrow> permission_mode option" where
  "tool_min_mode t =
     (if t = ''run_snowflake_ddl'' then Some DEPLOY
      else if t \<in> WRITE_TOOLS then Some BUILD else None)"

text \<open>The tools it warns about, with the mode each would need.\<close>

definition lint_agent_grants :: "agent_file \<Rightarrow> (string \<times> permission_mode) list" where
  "lint_agent_grants a =
     concat (map (\<lambda>t. case tool_min_mode t of
         None \<Rightarrow> []
       | Some m \<Rightarrow> if mode_permits (af_max_mode a) m then [] else [(t, m)]) (af_tools a))"

section \<open>Lemmas on lines\<close>

definition plain_line :: "string \<Rightarrow> bool" where
  "plain_line l \<longleftrightarrow> list_all (\<lambda>c. \<not> line_break c) l"

lemma plain_line_simps [simp]:
  "plain_line []" "plain_line (c # cs) \<longleftrightarrow> \<not> line_break c \<and> plain_line cs"
  by (simp_all add: plain_line_def)

lemma line_breaks [simp]: "line_break (CHR 0x0A)" "line_break (CHR 0x0D)"
  by code_simp+

lemma lines_from_plain:
  "plain_line l \<Longrightarrow> lines_from line_break acc l = (if rev acc @ l = [] then [] else [rev acc @ l])"
proof (induction l arbitrary: acc)
  case (Cons c cs)
  then have "c \<noteq> CHR 0x0D" using line_breaks(2) by (auto simp del: line_breaks)
  with Cons show ?case by simp
qed simp

lemma lines_from_line:
  "plain_line l \<Longrightarrow>
     lines_from line_break acc (l @ CHR 0x0A # rest) = (rev acc @ l) # lines_from line_break [] rest"
proof (induction l arbitrary: acc)
  case (Cons c cs)
  then have "c \<noteq> CHR 0x0D" using line_breaks(2) by (auto simp del: line_breaks)
  with Cons show ?case by simp
qed simp

lemma splitlines_join:
  assumes "list_all plain_line ls" and "ls \<noteq> [] \<Longrightarrow> last ls \<noteq> []"
  shows "splitlines (join_lines ls) = ls"
  using assms
proof (induction ls rule: join_lines.induct)
  case (2 l)
  then show ?case by (simp add: splitlines_def lines_from_plain)
next
  case (3 l m ls)
  then show ?case by (simp add: splitlines_def lines_from_line)
qed (simp add: splitlines_def)

text \<open>
  Writing an agent file and loading it. A file made of a fence, the lines of a frontmatter,
  a fence and the lines of a body is split into what the parser makes of exactly those
  frontmatter lines, and the body without surrounding white space, whatever the body contains:
  later fences belong to it. Only the frontmatter must not contain a fence, and the last line
  must not be empty.
\<close>

theorem frontmatter_round_trip:
  assumes "list_all plain_line fm" and "list_all plain_line body"
    and "list_all (\<lambda>l. \<not> is_fence l) fm" and "body = [] \<or> last body \<noteq> []"
  shows "split_frontmatter yaml (join_lines ([FENCE] @ fm @ [FENCE] @ body)) =
    (case yaml (join_lines fm) of
       Inl e \<Rightarrow> Inl (Malformed_Yaml e)
     | Inr JNull \<Rightarrow> Inr ([], py_strip (join_lines body))
     | Inr (JObject kvs) \<Rightarrow> Inr (kvs, py_strip (join_lines body))
     | Inr _ \<Rightarrow> Inl Frontmatter_Not_Mapping)"
proof -
  have fence: "plain_line FENCE" "is_fence FENCE" "FENCE \<noteq> []" by code_simp+
  have "splitlines (join_lines ([FENCE] @ fm @ [FENCE] @ body)) = [FENCE] @ fm @ [FENCE] @ body"
  proof (rule splitlines_join)
    show "list_all plain_line ([FENCE] @ fm @ [FENCE] @ body)" using assms fence by simp
    show "last ([FENCE] @ fm @ [FENCE] @ body) \<noteq> []" using assms(4) fence by auto
  qed
  moreover have "dropWhile (\<lambda>l. \<not> is_fence l) (fm @ FENCE # body) = FENCE # body"
    and "takeWhile (\<lambda>l. \<not> is_fence l) (fm @ FENCE # body) = fm"
    using assms(3) fence(2) by (simp_all add: list_all_iff dropWhile_append2 takeWhile_append2)
  ultimately show ?thesis using fence(2)
    by (simp add: split_frontmatter_def Let_def split: sum.split json.split)
qed

theorem frontmatter_round_trip_witness:
  "split_frontmatter (\<lambda>s. Inr (JObject [(''raw'', JString s)]))
      (join_lines ([FENCE] @ [''name: qa''] @ [FENCE] @ [''Review.'', ''---'', ''End.''])) =
    Inr ([(''raw'', JString ''name: qa'')], py_strip (join_lines [''Review.'', ''---'', ''End.'']))"
proof -
  have "list_all plain_line [''name: qa'']" "list_all plain_line [''Review.'', ''---'', ''End.'']"
    "list_all (\<lambda>l. \<not> is_fence l) [''name: qa'']" by code_simp+
  then show ?thesis
    using frontmatter_round_trip [of "[''name: qa'']" "[''Review.'', ''---'', ''End.'']"
        "\<lambda>s. Inr (JObject [(''raw'', JString s)])"] by simp
qed

section \<open>The cache is not seen\<close>

text \<open>Discovery without a cache.\<close>

definition parse_fresh :: "yaml_parser \<Rightarrow> agent_disk \<Rightarrow> path_parts \<Rightarrow> agent_file option" where
  "parse_fresh yaml disk p0 =
     (let p = ad_resolve disk p0
      in case ad_file disk p of
           None \<Rightarrow> None
         | Some _ \<Rightarrow> (case load_agent_file yaml disk p of Inl e \<Rightarrow> None | Inr a \<Rightarrow> Some a))"

definition fresh_root :: "yaml_parser \<Rightarrow> agent_disk \<Rightarrow> agent_root \<Rightarrow> agent_file list" where
  "fresh_root yaml disk r =
     (if \<not> ad_is_dir disk (ar_directory r) then []
      else List.map_filter (parse_fresh yaml disk)
        (filter (considered disk r) (sort (ad_glob_md disk (ar_directory r)))))"

fun fresh_registry ::
  "yaml_parser \<Rightarrow> agent_disk \<Rightarrow> agent_root list \<Rightarrow> 'w registry \<Rightarrow> string + 'w registry" where
  "fresh_registry yaml disk [] reg = Inr reg"
| "fresh_registry yaml disk (r # roots) reg =
     bind_result (register_files (fresh_root yaml disk r) reg) (fresh_registry yaml disk roots)"

text \<open>A modification time identifies a version of a file, among the disks of a history.\<close>

definition mtime_identifies :: "yaml_parser \<Rightarrow> agent_disk set \<Rightarrow> bool" where
  "mtime_identifies yaml disks \<longleftrightarrow>
     (\<forall>d \<in> disks. \<forall>d' \<in> disks. \<forall>p f f'. ad_file d p = Some f \<and> ad_file d' p = Some f' \<and>
        df_mtime f = df_mtime f' \<longrightarrow> load_agent_file yaml d p = load_agent_file yaml d' p)"

definition cache_faithful :: "yaml_parser \<Rightarrow> agent_disk set \<Rightarrow> agent_cache \<Rightarrow> bool" where
  "cache_faithful yaml disks cache \<longleftrightarrow>
     (\<forall>p m a. cache p = Some (m, a) \<longrightarrow>
        (\<exists>d \<in> disks. \<exists>f. ad_file d p = Some f \<and> df_mtime f = m \<and> load_agent_file yaml d p = Inr a))"

lemma parse_cached_fresh:
  assumes "mtime_identifies yaml disks" and "d \<in> disks" and "cache_faithful yaml disks cache"
  shows "fst (parse_cached yaml d p cache) = parse_fresh yaml d p \<and>
    cache_faithful yaml disks (snd (parse_cached yaml d p cache))"
proof (cases "ad_file d (ad_resolve d p)")
  case None
  with assms(3) show ?thesis by (auto simp: parse_cached_def parse_fresh_def cache_faithful_def)
next
  case (Some f)
  let ?p = "ad_resolve d p"
  have hit: "load_agent_file yaml d ?p = Inr a" if hit: "cache ?p = Some (df_mtime f, a)" for a
  proof -
    from assms(3) hit obtain d' f' where "d' \<in> disks" "ad_file d' ?p = Some f'"
      "df_mtime f' = df_mtime f" "load_agent_file yaml d' ?p = Inr a"
      unfolding cache_faithful_def by blast
    with assms(1,2) Some show ?thesis unfolding mtime_identifies_def by metis
  qed
  have miss: "cache_faithful yaml disks (cache(?p \<mapsto> (df_mtime f, a)))"
    if "load_agent_file yaml d ?p = Inr a" for a
    using assms(2,3) Some that unfolding cache_faithful_def by auto
  have drop: "cache_faithful yaml disks (cache(?p := None))"
    using assms(3) unfolding cache_faithful_def by auto
  show ?thesis
    using Some hit miss drop assms(3)
    by (auto simp: parse_cached_def parse_fresh_def Let_def split: option.split sum.split)
qed

lemma parse_paths_fresh:
  assumes "mtime_identifies yaml disks" and "d \<in> disks" and "cache_faithful yaml disks cache"
  shows "fst (parse_paths yaml d r ps cache) =
      List.map_filter (parse_fresh yaml d) (filter (considered d r) ps) \<and>
    cache_faithful yaml disks (snd (parse_paths yaml d r ps cache))"
  using assms(3)
proof (induction ps arbitrary: cache)
  case (Cons p ps)
  show ?case
  proof (cases "considered d r p")
    case True
    with Cons.IH [of "snd (parse_cached yaml d p cache)"] parse_cached_fresh [OF assms(1,2) Cons.prems, of p]
    show ?thesis
      by (auto simp: map_filter_simps split: prod.splits option.splits)
  qed (use Cons in simp)
qed (simp add: map_filter_simps)

lemma parse_root_fresh:
  assumes "mtime_identifies yaml disks" and "d \<in> disks" and "cache_faithful yaml disks cache"
  shows "fst (parse_root yaml d r cache) = fresh_root yaml d r \<and>
    cache_faithful yaml disks (snd (parse_root yaml d r cache))"
  using parse_paths_fresh [OF assms] assms(3) by (simp add: parse_root_def fresh_root_def)

lemma register_roots_fresh:
  assumes "mtime_identifies yaml disks" and "d \<in> disks" and "cache_faithful yaml disks cache"
  shows "fst (register_roots yaml d roots cache reg) = fresh_registry yaml d roots reg \<and>
    cache_faithful yaml disks (snd (register_roots yaml d roots cache reg))"
  using assms(3)
proof (induction roots arbitrary: cache reg)
  case (Cons r roots)
  obtain agents cache' where parse: "parse_root yaml d r cache = (agents, cache')" by (metis surj_pair)
  with parse_root_fresh [OF assms(1,2) Cons.prems, of r]
  have "agents = fresh_root yaml d r" "cache_faithful yaml disks cache'" by auto
  with Cons.IH parse show ?case by (auto split: sum.split)
qed simp

text \<open>A history of dispatches: each finds its own disk and the cache the one before has left.\<close>

fun dispatches ::
  "yaml_parser \<Rightarrow> agent_root list \<Rightarrow> agent_disk list \<Rightarrow> agent_cache \<Rightarrow> (string + 'w registry) list" where
  "dispatches yaml roots [] cache = []"
| "dispatches yaml roots (d # ds) cache =
     (let (reg, cache') = build_registry yaml d roots cache in reg # dispatches yaml roots ds cache')"

lemma dispatches_fresh:
  assumes "mtime_identifies yaml disks" and "set ds \<subseteq> disks" and "cache_faithful yaml disks cache"
  shows "(dispatches yaml roots ds cache :: (string + 'w registry) list) =
    map (\<lambda>d. fresh_registry yaml d roots []) ds"
  using assms(2,3)
proof (induction ds arbitrary: cache)
  case (Cons d ds)
  then have "d \<in> disks" by simp
  from register_roots_fresh [OF assms(1) this Cons.prems(2), of roots "[] :: 'w registry"] Cons show ?case
    by (auto simp: build_registry_def split: prod.splits)
qed simp


definition one_agent_disk :: "int \<Rightarrow> string \<Rightarrow> agent_disk" where
  "one_agent_disk mtime body =
     \<lparr>ad_file = (\<lambda>p. if p = [''agents'', ''qa.md''] then
          Some \<lparr>df_mtime = mtime, df_size = 40,
            df_content = Text_Content (join_lines [FENCE, ''name: qa'', FENCE, body])\<rparr> else None),
      ad_is_file = (\<lambda>p. p = [''agents'', ''qa.md'']), ad_is_dir = (\<lambda>p. p = [''agents'']),
      ad_glob_md = (\<lambda>_. [[''agents'', ''qa.md'']]), ad_resolve = id\<rparr>"

definition sample_yaml :: yaml_parser where
  "sample_yaml s = Inr (JObject [(''name'', JString ''qa''), (''description'', JString ''reviews''),
     (''tools'', JList [JString ''grep'', JString ''edit'']), (''max_mode'', JString ''plan'')])"


section \<open>Registration, routing and lint\<close>

definition stageable :: "agent_file list \<Rightarrow> 'w registry \<Rightarrow> bool" where
  "stageable agents staged \<longleftrightarrow>
     distinct (map af_name agents) \<and> af_name ` set agents \<inter> fst ` set staged = {}"

lemma stage_agents_result:
  "case stage_agents agents staged of
     Inl n \<Rightarrow> \<not> stageable agents staged
   | Inr staged' \<Rightarrow> stageable agents staged \<and>
       staged' = staged @ map (\<lambda>a. (af_name a, spec_from_agent_file a)) agents"
proof (induction agents arbitrary: staged)
  case (Cons a agents)
  show ?case
  proof (cases "map_of staged (af_name a)")
    case (Some s)
    then have "af_name a \<in> fst ` set staged" by (metis domI dom_map_of_conv_image_fst)
    with Some show ?thesis by (simp add: stageable_def)
  next
    case None
    then have "af_name a \<notin> fst ` set staged" by (simp add: map_of_eq_None_iff)
    then have "stageable (a # agents) staged \<longleftrightarrow>
        stageable agents (staged @ [(af_name a, spec_from_agent_file a)])"
      by (auto simp: stageable_def)
    with None Cons.IH [of "staged @ [(af_name a, spec_from_agent_file a)]"] show ?thesis
      by (simp split: sum.splits)
  qed
qed (simp add: stageable_def)

lemma register_files_result:
  "case register_files agents (reg :: 'w registry) of
     Inl n \<Rightarrow> \<not> distinct (map af_name agents)
   | Inr reg' \<Rightarrow> distinct (map af_name agents) \<and>
       reg' = fold (\<lambda>a. AList.update (af_name a) (spec_from_agent_file a)) agents reg"
  using stage_agents_result [of agents "[] :: 'w registry"]
  by (auto simp: register_files_def fold_map comp_def stageable_def split: sum.splits)

lemma lookup_fold_update:
  "map_of (fold (\<lambda>a. AList.update (f a) (g a)) xs reg) n =
     (case find (\<lambda>a. f a = n) (rev xs) of Some a \<Rightarrow> Some (g a) | None \<Rightarrow> map_of reg n)"
proof (induction xs rule: rev_induct)
  case (snoc x xs)
  then show ?case by (simp add: update_conv')
qed simp

text \<open>Every agent is registered under its own name, once.\<close>

definition well_keyed :: "'w registry \<Rightarrow> bool" where
  "well_keyed reg \<longleftrightarrow> distinct (map fst reg) \<and> (\<forall>n spec. map_of reg n = Some spec \<longrightarrow> sp_name spec = n)"

lemma well_keyed_update: "well_keyed reg \<Longrightarrow> sp_name spec = n \<Longrightarrow> well_keyed (AList.update n spec reg)"
  by (simp add: well_keyed_def distinct_update update_conv')

lemma well_keyed_register: "well_keyed reg \<Longrightarrow> well_keyed (register spec reg)"
  by (simp add: register_def well_keyed_update)

lemma well_keyed_fold:
  "well_keyed reg \<Longrightarrow>
     well_keyed (fold (\<lambda>a. AList.update (af_name a) (spec_from_agent_file a)) agents reg)"
  by (induction agents arbitrary: reg) (simp_all add: well_keyed_update spec_from_agent_file_def)

lemma fresh_registry_result:
  "case fresh_registry yaml d roots reg of
     Inl n \<Rightarrow> \<not> list_all (\<lambda>r. distinct (map af_name (fresh_root yaml d r))) roots
   | Inr reg' \<Rightarrow> list_all (\<lambda>r. distinct (map af_name (fresh_root yaml d r))) roots \<and>
       reg' = fold (\<lambda>a. AList.update (af_name a) (spec_from_agent_file a))
         (concat (map (fresh_root yaml d) roots)) reg"
proof (induction roots arbitrary: reg)
  case (Cons r roots)
  from register_files_result [of "fresh_root yaml d r" reg] show ?case
  proof (cases "register_files (fresh_root yaml d r) reg")
    case (Inr reg1)
    with register_files_result [of "fresh_root yaml d r" reg] Cons.IH [of reg1] show ?thesis
      by (simp split: sum.splits)
  qed auto
qed simp

lemma build_registry_fresh:
  "fst (build_registry yaml d roots Map.empty) = (fresh_registry yaml d roots [] :: string + 'w registry)"
proof -
  have "mtime_identifies yaml {d}" and "cache_faithful yaml {d} Map.empty"
    by (simp_all add: mtime_identifies_def cache_faithful_def)
  from register_roots_fresh [OF this(1) _ this(2), of d roots "[] :: 'w registry"] show ?thesis
    by (simp add: build_registry_def)
qed

lemma sorted_registry_specs:
  assumes "well_keyed reg"
  shows "map sp_name (registry_specs reg) = registry_names reg"
proof -
  have "sp_name (the (map_of reg n)) = n" if "n \<in> set (registry_names reg)" for n
  proof -
    from that have "n \<in> dom (map_of reg)" by (simp add: registry_names_def dom_map_of_conv_image_fst)
    with assms show ?thesis by (auto simp: well_keyed_def)
  qed
  then show ?thesis by (simp add: registry_specs_def comp_def map_idI)
qed

text \<open>
  What discovery registers. It fails exactly when two files of one root claim one name.
  Otherwise an agent is found under its own name only, and what is found is the definition in
  the last root that has the name: a user's file replaces the built-in one.
\<close>

theorem user_agents_override_builtins:
  "case (fst (build_registry yaml d roots Map.empty) :: string + 'w registry) of
     Inl n \<Rightarrow> \<not> list_all (\<lambda>r. distinct (map af_name (fresh_root yaml d r))) roots
   | Inr reg \<Rightarrow> list_all (\<lambda>r. distinct (map af_name (fresh_root yaml d r))) roots \<and>
       well_keyed reg \<and>
       (\<forall>n. resolve_agent reg n = map_option spec_from_agent_file
         (find (\<lambda>a. af_name a = n) (rev (concat (map (fresh_root yaml d) roots)))))"
proof -
  have "well_keyed ([] :: 'w registry)" by (simp add: well_keyed_def)
  then show ?thesis
    using fresh_registry_result [of yaml d roots "[] :: 'w registry"] unfolding build_registry_fresh
    by (auto simp: resolve_agent_def lookup_fold_update well_keyed_fold split: sum.splits option.splits)
qed

text \<open>
  Routing never picks a wrong agent. Without an override the router returns the lowest name
  among the registered agents that handle the classification and fails when there is none; an
  override is returned if it is registered and fails otherwise, whatever the classification.
\<close>

theorem select_agent_picks_lowest:
  assumes "well_keyed reg"
  shows "case select_agent reg classification override of
      Inr n \<Rightarrow>
        (\<exists>spec. map_of reg n = Some spec \<and>
           (override = Some n \<or>
            override = None \<and> (\<exists>c. classification = Some c \<and> c \<in> set (sp_classifications spec) \<and>
              (\<forall>n' spec'. map_of reg n' = Some spec' \<and> c \<in> set (sp_classifications spec') \<longrightarrow> n \<le> n'))))
    | Inl (No_Agent_Match x) \<Rightarrow>
        override = Some x \<and> map_of reg x = None \<or>
        override = None \<and> classification = Some x \<and>
          (\<forall>n spec. map_of reg n = Some spec \<longrightarrow> x \<notin> set (sp_classifications spec))
    | Inl Nothing_To_Route_On \<Rightarrow> override = None \<and> classification = None"
proof (cases override)
  case (Some n)
  then show ?thesis by (auto simp: select_agent_def)
next
  case None
  show ?thesis
  proof (cases classification)
    case (Some c)
    let ?handles = "\<lambda>n. c \<in> set (sp_classifications (the (map_of reg n)))"
    let ?hits = "filter ?handles (registry_names reg)"
    have "map sp_name (filter (\<lambda>spec. c \<in> set (sp_classifications spec)) (registry_specs reg)) =
        map (sp_name \<circ> (\<lambda>n. the (map_of reg n))) ?hits"
      by (simp add: registry_specs_def filter_map comp_def)
    also have "\<dots> = ?hits"
    proof (rule map_idI)
      fix n assume "n \<in> set ?hits"
      then have "n \<in> dom (map_of reg)" by (simp add: registry_names_def dom_map_of_conv_image_fst)
      with assms show "(sp_name \<circ> (\<lambda>n. the (map_of reg n))) n = n" by (auto simp: well_keyed_def)
    qed
    finally have hits: "map sp_name (filter (\<lambda>spec. c \<in> set (sp_classifications spec))
        (registry_specs reg)) = ?hits" .
    have mem: "n \<in> set ?hits \<longleftrightarrow> (\<exists>spec. map_of reg n = Some spec \<and> c \<in> set (sp_classifications spec))" for n
    proof -
      have "n \<in> set (registry_names reg) \<longleftrightarrow> n \<in> dom (map_of reg)"
        by (simp add: registry_names_def dom_map_of_conv_image_fst)
      then show ?thesis by auto
    qed
    have srt: "sorted ?hits" by (simp add: registry_names_def sorted_wrt_filter)
    show ?thesis
    proof (cases ?hits)
      case Nil
      with hits None Some have "select_agent reg classification override = Inl (No_Agent_Match c)"
        by (simp add: select_agent_def)
      moreover from Nil mem have "\<forall>n spec. map_of reg n = Some spec \<longrightarrow> c \<notin> set (sp_classifications spec)"
        by (metis list.set(1) empty_iff)
      ultimately show ?thesis using None Some by simp
    next
      case (Cons n ns)
      with hits None Some have "select_agent reg classification override = Inr n"
        by (simp add: select_agent_def)
      moreover from Cons mem [of n] obtain spec where "map_of reg n = Some spec" "c \<in> set (sp_classifications spec)"
        by auto
      moreover have "n \<le> n'" if "map_of reg n' = Some spec'" "c \<in> set (sp_classifications spec')" for n' spec'
      proof -
        from that mem have "n' \<in> set (n # ns)" using Cons by metis
        with srt Cons show ?thesis by auto
      qed
      ultimately show ?thesis using None Some by auto
    qed
  qed (use None in \<open>simp add: select_agent_def\<close>)
qed

definition sample_registry :: "unit registry" where
  "sample_registry =
     (let a = (\<lambda>n. \<lparr>af_name = n, af_description = ''d'', af_body = [], af_max_mode = BUILD, af_source = [],
         af_model = None, af_tools = [], af_allowed_paths = [], af_classifications = [''new_pipeline'']\<rparr>)
      in fold (\<lambda>n. register (spec_from_agent_file (a n))) [''dlt'', ''dbt''] [])"

theorem select_agent_picks_lowest_witness:
  "\<exists>spec. map_of sample_registry ''dbt'' = Some spec \<and> ''new_pipeline'' \<in> set (sp_classifications spec) \<and>
     ''dbt'' \<le> ''dlt''"
proof -
  have "well_keyed ([] :: unit registry)" by (simp add: well_keyed_def)
  then have keyed: "well_keyed sample_registry"
    by (simp add: sample_registry_def Let_def well_keyed_register)
  have pick: "select_agent sample_registry (Some ''new_pipeline'') None = Inr ''dbt''" by code_simp
  have "map_of sample_registry ''dlt'' \<noteq> None" by code_simp
  then obtain s where "map_of sample_registry ''dlt'' = Some s" by auto
  moreover have "case map_of sample_registry ''dlt'' of Some s \<Rightarrow> ''new_pipeline'' \<in> set (sp_classifications s) | None \<Rightarrow> False"
    by code_simp
  ultimately show ?thesis
    using select_agent_picks_lowest [OF keyed, of None "Some ''new_pipeline''"] pick by auto
qed

end
