(* ===== verification/Delegation.thy ===== *)
theory Delegation
  imports Agent_Files
begin

text \<open>
  Delegation to a subagent: \<open>SubagentRunner.run\<close> of \<open>core/agents/delegation.py\<close>, the binding of
  granted names to tools (\<open>tool_binding.py\<close>) and the \<open>submit_result\<close> terminator
  (\<open>tools/submit_result.py\<close>).

  A delegation acts on a file system and on the rest of the world; the child's loop runs on
  that state and its own capture, which no other tool can reach. The executors the binder
  builds from other modules (search, shell, web, todo) and the tools a caller injects are
  arguments. The values of the context bundle are taken as their \<open>str\<close>.
\<close>

section \<open>The terminator\<close>

record submit_capture =
  sc_payload :: "tool_input option"
  sc_called :: bool

definition fresh_capture :: submit_capture where
  "fresh_capture = \<lparr>sc_payload = None, sc_called = False\<rparr>"

definition VALID_STATUS :: "string list" where
  "VALID_STATUS = [''succeeded'', ''needs_user_input'', ''failed'']"

definition submitted :: "submit_capture \<Rightarrow> bool" where
  "submitted c \<longleftrightarrow> sc_payload c \<noteq> None"

text \<open>Membership in a frozen set hashes the value: a list or an object raises.\<close>

definition capture_status :: "submit_capture \<Rightarrow> string + string" where
  "capture_status c =
     (case sc_payload c of
        None \<Rightarrow> Inr ''failed''
      | Some payload \<Rightarrow>
          (case payload ''status'' of
             Some (JString s) \<Rightarrow> Inr (if s \<in> set VALID_STATUS then s else ''failed'')
           | Some (JList _) \<Rightarrow> Inl ''unhashable type''
           | Some (JObject _) \<Rightarrow> Inl ''unhashable type''
           | _ \<Rightarrow> Inr ''failed''))"

definition capture_summary :: "submit_capture \<Rightarrow> string" where
  "capture_summary c =
     (case sc_payload c of
        None \<Rightarrow> []
      | Some payload \<Rightarrow> (case payload ''summary'' of Some (JString s) \<Rightarrow> s | _ \<Rightarrow> []))"

definition capture_outputs :: "submit_capture \<Rightarrow> (string \<times> json) list" where
  "capture_outputs c =
     (case sc_payload c of
        None \<Rightarrow> []
      | Some payload \<Rightarrow> (case payload ''outputs'' of Some (JObject kvs) \<Rightarrow> kvs | _ \<Rightarrow> []))"

definition submit_result :: "('w \<times> submit_capture) executor" where
  "submit_result input wc =
     (if sc_called (snd wc) then
        (Inl (''submit_result already called; only one terminal payload ''
            @ ''may be submitted per delegation.''), wc)
      else
        (Inr (JObject [(''status'', JString ''submitted'')]),
         (fst wc, \<lparr>sc_payload = Some input, sc_called = True\<rparr>)))"

definition make_submit_result_tool :: "string \<times> json \<Rightarrow> ('w \<times> submit_capture) tool" where
  "make_submit_result_tool doc = make_tool ''submit_result'' doc submit_result"

section \<open>Binding\<close>

record 'x binding_context =
  bc_os :: os_env
  bc_project_dir :: path_parts
  bc_docs :: "string \<Rightarrow> string \<times> json"
  bc_other :: "string \<Rightarrow> (file_system \<times> 'x) executor"
  bc_skill_pack :: "(file_system \<times> 'x) tool option"
  bc_extra_tools :: "(string \<times> (file_system \<times> 'x) tool) list"

definition OTHER_BASE_TOOLS :: "string list" where
  "OTHER_BASE_TOOLS = [''grep'', ''glob'', ''bash'', ''web_fetch'', ''web_search'', ''todo'']"

definition base_builder :: "'x binding_context \<Rightarrow> string \<Rightarrow> (file_system \<times> 'x) executor option" where
  "base_builder ctx name =
     (if name = ''read_file'' then Some (on_files (read_file (bc_os ctx) (bc_project_dir ctx)))
      else if name = ''edit'' then
        Some (on_files (edit_file (bc_os ctx) (os_resolve (bc_os ctx) (bc_project_dir ctx)) None))
      else if name = ''create_file'' then
        Some (on_files (create_file (bc_os ctx) (os_resolve (bc_os ctx) (bc_project_dir ctx)) None))
      else if name \<in> set OTHER_BASE_TOOLS then Some (bc_other ctx name)
      else None)"

definition grant_stub_tool :: "string \<Rightarrow> 'w tool" where
  "grant_stub_tool name =
     make_tool name (''Declaratively-granted tool '' @ py_repr name @ '' (executor bound by the harness).'',
         JObject [(''type'', JString ''object''), (''properties'', JObject [])])
       (\<lambda>_ w. (Inl (''Tool '' @ py_repr name @ '' was granted declaratively but has no bound ''
                 @ ''executor; the harness must supply it before invocation.''), w))"

text \<open>\<open>Inl\<close> is the error of an injected tool that does not carry the granted name.\<close>

definition bind_one :: "'x binding_context \<Rightarrow> string \<Rightarrow> string + (file_system \<times> 'x) tool" where
  "bind_one ctx name =
     (case map_of (bc_extra_tools ctx) name of
        Some injected \<Rightarrow> if tool_name injected \<noteq> name then Inl name else Inr injected
      | None \<Rightarrow>
          (case base_builder ctx name of
             Some e \<Rightarrow> Inr (make_tool name (bc_docs ctx name) e)
           | None \<Rightarrow>
               (if name = ''lookup_skill_pack'' \<and> bc_skill_pack ctx \<noteq> None
                then Inr (the (bc_skill_pack ctx))
                else Inr (grant_stub_tool name))))"

fun bind_tools ::
  "'x binding_context \<Rightarrow> (file_system \<times> 'x) declared_tool list \<Rightarrow> string set \<Rightarrow>
     string + (file_system \<times> 'x) tool list" where
  "bind_tools ctx [] seen = Inr []"
| "bind_tools ctx (t # ts) seen =
     (if declared_name t \<in> seen then bind_tools ctx ts seen
      else
        bind_result (case t of Grant_Stub n \<Rightarrow> bind_one ctx n | Ready_Tool tool \<Rightarrow> Inr tool) (\<lambda>b.
        bind_result (bind_tools ctx ts (insert (declared_name t) seen)) (\<lambda>bs. Inr (b # bs))))"

definition bind_grant_tools ::
  "'x binding_context \<Rightarrow> (file_system \<times> 'x) declared_tool list \<Rightarrow> string + (file_system \<times> 'x) tool list"
  where
  "bind_grant_tools ctx ts = bind_tools ctx ts {}"

section \<open>The runner\<close>

definition MAX_DELEGATION_DEPTH :: int where
  "MAX_DELEGATION_DEPTH = 2"

type_synonym 'w hook_factory = "permission_mode \<Rightarrow> 'w hook option \<times> 'w hook option"

record 'x subagent_runner =
  sr_registry :: "(file_system \<times> 'x) registry"
  sr_context :: "'x binding_context"
  sr_client :: "(file_system \<times> 'x) messages_api"
  sr_model :: string
  sr_model_tiers :: "(string \<times> string) list"
  sr_approver :: "approver option"
  sr_max_turns :: int
  sr_max_tokens :: int
  sr_hook_factory :: "(file_system \<times> 'x) hook_factory option"

datatype subagent_error =
    Depth_Exceeded int
  | Unknown_Subagent string
  | Mismatched_Injection string
  | Child_Failed loop_error
  | Bad_Payload string

record delegation_result =
  dr_status :: string
  dr_summary :: string
  dr_files_changed :: "string list"
  dr_outputs :: "(string \<times> json) list"
  dr_usage :: token_usage
  dr_cost_usd :: rat

text \<open>Acting on the state of the delegation from within the child's loop.\<close>

definition outer :: "('w, 'a) effect \<Rightarrow> ('w \<times> 'c, 'a) effect" where
  "outer e wc = (let (r, w') = e (fst wc) in (r, (w', snd wc)))"

definition outer_tool :: "'w tool \<Rightarrow> ('w \<times> 'c) tool" where
  "outer_tool t =
     \<lparr>tool_name = tool_name t, tool_description = tool_description t, tool_schema = tool_schema t,
      tool_executor = (\<lambda>input. outer (tool_executor t input))\<rparr>"

definition outer_hook :: "'w hook \<Rightarrow> ('w \<times> 'c) hook" where
  "outer_hook h name input = outer (h name input)"

definition outer_api :: "'w messages_api \<Rightarrow> ('w \<times> 'c) messages_api" where
  "outer_api api req wc = (let (a, w') = api req (fst wc) in (a, (w', snd wc)))"

definition rstrip :: "string \<Rightarrow> string" where
  "rstrip s = rev (dropWhile py_space (rev s))"

definition compose_subagent_prompt :: "string \<Rightarrow> (string \<times> string) list \<Rightarrow> string" where
  "compose_subagent_prompt base shared =
     (if shared = [] then base
      else base @ [CHR 0x0A, CHR 0x0A]
         @ rstrip (join_lines ([''## Context'', []]
             @ concat (map (\<lambda>k. [''### '' @ k, the (map_of shared k), []]) (sort (map fst shared))))))"

definition child_policy ::
  "permission_mode \<Rightarrow> (file_system \<times> 'x) agent_spec \<Rightarrow> path_parts \<Rightarrow> effective_policy" where
  "child_policy mode spec dir =
     build_policy id mode
       (Some \<lparr>ap_tools = set (map declared_name (sp_tool_factory spec dir)),
              ap_capability = sp_capability spec, ap_allowed_paths = None\<rparr>) None None"

definition child_model :: "'x subagent_runner \<Rightarrow> (file_system \<times> 'x) agent_spec \<Rightarrow> string" where
  "child_model runner spec =
     (case sp_model spec of
        None \<Rightarrow> sr_model runner
      | Some m \<Rightarrow> (case map_of (sr_model_tiers runner) m of None \<Rightarrow> m | Some m' \<Rightarrow> m'))"

definition child_config ::
  "'x subagent_runner \<Rightarrow> (file_system \<times> 'x) agent_spec \<Rightarrow> permission_mode \<Rightarrow>
     (file_system \<times> 'x) tool list \<Rightarrow> (string \<times> string) list \<Rightarrow>
     ((file_system \<times> 'x) \<times> submit_capture) loop_config" where
  "child_config runner spec mode tools shared =
     (let hooks = (case sr_hook_factory runner of None \<Rightarrow> (None, None) | Some f \<Rightarrow> f mode)
      in \<lparr>lc_tools = tool_dict (map outer_tool tools
                       @ [make_submit_result_tool (bc_docs (sr_context runner) ''submit_result'')]),
          lc_skills = None, lc_skill_schemas = [],
          lc_system = compose_subagent_prompt (sp_system_prompt spec) shared,
          lc_model = child_model runner spec, lc_max_tokens = sr_max_tokens runner,
          lc_max_retries = 3, lc_retry_base_delay = 1, lc_logged = False,
          lc_terminator = Some ''submit_result'',
          lc_gate = Some (child_policy mode spec (bc_project_dir (sr_context runner))),
          lc_approver = sr_approver runner,
          lc_pre_hook = map_option outer_hook (fst hooks),
          lc_post_hook = map_option outer_hook (snd hooks)\<rparr>)"

definition quiet_between :: "nat \<Rightarrow> between_turns" where
  "quiet_between turn = \<lparr>bt_cancel = False, bt_pushed = []\<rparr>"

definition delegation_outcome ::
  "'x subagent_runner \<Rightarrow> (file_system \<times> 'x) agent_spec \<Rightarrow> agent_result \<Rightarrow> loop_state \<Rightarrow> submit_capture \<Rightarrow>
     subagent_error + delegation_result" where
  "delegation_outcome runner spec res s c =
     (let cost = compute_cost_usd (child_model runner spec) (ar_usage res)
      in if \<not> submitted c then
           Inr \<lparr>dr_status = ''failed'',
                dr_summary = (if ar_text res \<noteq> [] then ar_text res
                              else ''Subagent finished without calling submit_result.''),
                dr_files_changed = ls_files s, dr_outputs = [], dr_usage = ar_usage res,
                dr_cost_usd = cost\<rparr>
         else
           (case capture_status c of
              Inl e \<Rightarrow> Inl (Bad_Payload e)
            | Inr status \<Rightarrow>
                Inr \<lparr>dr_status = status,
                     dr_summary = (if capture_summary c \<noteq> [] then capture_summary c else ar_text res),
                     dr_files_changed = ls_files s, dr_outputs = capture_outputs c,
                     dr_usage = ar_usage res, dr_cost_usd = cost\<rparr>))"

definition run_subagent ::
  "'x subagent_runner \<Rightarrow> string \<Rightarrow> string \<Rightarrow> (string \<times> string) list \<Rightarrow> permission_mode \<Rightarrow> int \<Rightarrow>
     file_system \<times> 'x \<Rightarrow> (subagent_error + delegation_result) \<times> file_system \<times> 'x" where
  "run_subagent runner agent task shared parent_mode depth w =
     (if MAX_DELEGATION_DEPTH < depth then (Inl (Depth_Exceeded depth), w)
      else
        (case resolve_agent (sr_registry runner) agent of
           None \<Rightarrow> (Inl (Unknown_Subagent agent), w)
         | Some spec \<Rightarrow>
             (let mode = min_mode parent_mode (sp_capability spec);
                  dir = bc_project_dir (sr_context runner)
              in case bind_grant_tools (sr_context runner) (sp_tool_factory spec dir) of
                   Inl n \<Rightarrow> (Inl (Mismatched_Injection n), w)
                 | Inr tools \<Rightarrow>
                     (case run_loop (outer_api (sr_client runner)) (child_config runner spec mode tools shared)
                        quiet_between task (sr_max_turns runner) (initial_state None None) (w, fresh_capture) of
                        (Inl e, s', wc) \<Rightarrow> (Inl (Child_Failed e), fst wc)
                      | (Inr res, s', wc) \<Rightarrow> (delegation_outcome runner spec res s' (snd wc), fst wc)))))"

section \<open>The tools of a child\<close>

lemma bind_tools_all:
  assumes "bind_tools ctx ts seen = Inr tools"
    and "\<And>n t. Grant_Stub n \<in> set ts \<Longrightarrow> bind_one ctx n = Inr t \<Longrightarrow> P t"
    and "\<And>t. Ready_Tool t \<in> set ts \<Longrightarrow> P t"
  shows "\<forall>t \<in> set tools. P t"
  using assms
proof (induction ts arbitrary: seen tools)
  case (Cons d ts)
  show ?case
  proof (cases "declared_name d \<in> seen")
    case True
    with Cons.prems Cons.IH [of seen tools] show ?thesis by auto
  next
    case False
    with Cons.prems(1) obtain b bs where
      b: "(case d of Grant_Stub n \<Rightarrow> bind_one ctx n | Ready_Tool tool \<Rightarrow> Inr tool) = Inr b"
      and bs: "bind_tools ctx ts (insert (declared_name d) seen) = Inr bs" and "tools = b # bs"
      by (auto simp: bind_result_Inr_iff)
    moreover have "P b" using b Cons.prems(2,3) by (cases d) auto
    moreover have "\<forall>t \<in> set bs. P t" using Cons.IH [OF bs] Cons.prems(2,3) by auto
    ultimately show ?thesis by simp
  qed
qed simp

lemma bind_one_cases:
  assumes "bind_one ctx n = Inr t"
  shows "(\<exists>injected. t = injected \<and> (n, injected) \<in> set (bc_extra_tools ctx) \<and> tool_name t = n) \<or>
    (\<exists>e. base_builder ctx n = Some e \<and> t = make_tool n (bc_docs ctx n) e) \<or>
    bc_skill_pack ctx = Some t \<or> t = grant_stub_tool n"
  using assms
  by (auto simp: bind_one_def dest: map_of_SomeD split: option.splits if_splits)

lemma child_body:
  assumes "tool_body (child_config runner spec mode tools shared) name = Some body"
  shows "(name = ''submit_result'' \<and> body = submit_result) \<or>
    (\<exists>t \<in> set tools. tool_name t = name \<and> body = (\<lambda>input. outer (tool_executor t input)))"
proof -
  let ?submit = "make_submit_result_tool (bc_docs (sr_context runner) ''submit_result'')"
  let ?all = "map outer_tool tools @ [?submit]"
  have tools: "lc_tools (child_config runner spec mode tools shared) = tool_dict ?all"
    and skills: "lc_skills (child_config runner spec mode tools shared) = None"
    by (simp_all add: child_config_def Let_def)
  from assms obtain t where t: "map_of (tool_dict ?all) name = Some t" and body: "body = tool_executor t"
    unfolding tool_body_def tools skills by (auto split: option.splits)
  from t have "(name, t) \<in> set (rev (map (\<lambda>t. (tool_name t, t)) ?all))"
    unfolding tool_dict_def map_of_dict_of by (rule map_of_SomeD)
  then show ?thesis
    using body by (auto simp: make_submit_result_tool_def make_tool_def outer_tool_def)
qed

lemma child_hooks [simp]:
  "lc_pre_hook (child_config runner spec mode tools shared) =
     map_option outer_hook (case sr_hook_factory runner of None \<Rightarrow> None | Some f \<Rightarrow> fst (f mode))"
  "lc_post_hook (child_config runner spec mode tools shared) =
     map_option outer_hook (case sr_hook_factory runner of None \<Rightarrow> None | Some f \<Rightarrow> snd (f mode))"
  "lc_gate (child_config runner spec mode tools shared) =
     Some (child_policy mode spec (bc_project_dir (sr_context runner)))"
  by (simp_all add: child_config_def Let_def split: option.split)

text \<open>What leaves the files alone.\<close>

definition keeps_files :: "(file_system \<times> 'x, 'a) effect \<Rightarrow> bool" where
  "keeps_files e \<longleftrightarrow> (\<forall>w. fst (snd (e w)) = fst w)"

definition service_keeps_files :: "(file_system \<times> 'x) messages_api \<Rightarrow> bool" where
  "service_keeps_files api \<longleftrightarrow> (\<forall>req w. fst (snd (api req w)) = fst w)"

definition hooks_keep_files :: "(file_system \<times> 'x) hook_factory option \<Rightarrow> permission_mode \<Rightarrow> bool" where
  "hooks_keep_files factory mode \<longleftrightarrow>
     (case factory of None \<Rightarrow> True
      | Some f \<Rightarrow> (\<forall>h name input. (fst (f mode) = Some h \<or> snd (f mode) = Some h) \<longrightarrow> keeps_files (h name input)))"

definition foreign_tools ::
  "'x subagent_runner \<Rightarrow> (file_system \<times> 'x) agent_spec \<Rightarrow> (file_system \<times> 'x) tool set" where
  "foreign_tools runner spec =
     snd ` set (bc_extra_tools (sr_context runner)) \<union> set_option (bc_skill_pack (sr_context runner))
     \<union> {t. Ready_Tool t \<in> set (sp_tool_factory spec (bc_project_dir (sr_context runner)))}"

definition others_keep_files :: "'x subagent_runner \<Rightarrow> bool" where
  "others_keep_files runner \<longleftrightarrow> (\<forall>name input. keeps_files (bc_other (sr_context runner) name input))"

lemma outer_result:
  "outer e wc = (r, wc') \<Longrightarrow> e (fst wc) = (r, fst wc') \<and> snd wc' = snd wc"
  by (auto simp: outer_def split: prod.splits)

lemma outer_keeps: "keeps_files e \<Longrightarrow> fst (fst (snd (outer e wc))) = fst (fst wc)"
  unfolding keeps_files_def by (simp only: outer_def split_beta Let_def fst_conv snd_conv)

lemma hook_keeps:
  assumes "hooks_keep_files (sr_hook_factory runner) mode"
  shows "fst (fst (snd (run_hook (lc_pre_hook (child_config runner spec mode tools shared)) name input wc))) =
      fst (fst wc)"
    and "fst (fst (snd (run_hook (lc_post_hook (child_config runner spec mode tools shared)) name input wc))) =
      fst (fst wc)"
  using assms
  by (auto simp: run_hook_def hooks_keep_files_def outer_hook_def outer_keeps split: option.splits)

lemma bound_tools_cases:
  assumes "bind_grant_tools (sr_context runner) (sp_tool_factory spec (bc_project_dir (sr_context runner)))
      = Inr tools"
    and "t \<in> set tools"
  shows "t \<in> foreign_tools runner spec \<or>
    (\<exists>e. base_builder (sr_context runner) (tool_name t) = Some e \<and> tool_executor t = e) \<or>
    (\<forall>input. keeps_files (tool_executor t input))"
proof -
  let ?P = "\<lambda>t. t \<in> foreign_tools runner spec \<or>
    (\<exists>e. base_builder (sr_context runner) (tool_name t) = Some e \<and> tool_executor t = e) \<or>
    (\<forall>input. keeps_files (tool_executor t input))"
  have one: "?P t" if "bind_one (sr_context runner) n = Inr t" for n t
    using bind_one_cases [OF that]
    by (auto simp: foreign_tools_def make_tool_def grant_stub_tool_def keeps_files_def image_iff
        intro: bexI [where x = "(tool_name t, t)"])
  have "\<forall>t \<in> set tools. ?P t"
    by (rule bind_tools_all [OF assms(1) [unfolded bind_grant_tools_def]])
      (use one in \<open>auto simp: foreign_tools_def\<close>)
  with assms(2) show ?thesis by blast
qed

section \<open>Two invariants of a child's run\<close>

lemma write_tool_blocked:
  assumes "name \<in> WRITE_TOOLS" and "lc_gate cfg = Some policy" and "\<not> BUILD \<le> ep_mode policy"
  shows "gate_blocks cfg name input \<noteq> None"
proof -
  have "name \<notin> TERMINATOR_TOOLS"
    using assms(1) terminators_disjoint write_tools_in_ALL by blast
  with assms show ?thesis by (simp add: gate_blocks_def gate_allowed_iff)
qed

lemma base_builder_kinds:
  assumes "base_builder ctx name = Some e" and "\<And>n input. keeps_files (bc_other ctx n input)"
  shows "(\<forall>input. keeps_files (e input)) \<or>
    name = ''edit'' \<and> e = on_files (edit_file (bc_os ctx) (os_resolve (bc_os ctx) (bc_project_dir ctx)) None) \<or>
    name = ''create_file'' \<and>
      e = on_files (create_file (bc_os ctx) (os_resolve (bc_os ctx) (bc_project_dir ctx)) None)"
proof -
  consider "name = ''read_file''" | "name = ''edit''" | "name = ''create_file''"
    | "name \<noteq> ''read_file''" "name \<noteq> ''edit''" "name \<noteq> ''create_file''" by blast
  then show ?thesis
  proof cases
    case 1
    with assms(1) read_file_keeps show ?thesis by (auto simp: base_builder_def keeps_files_def)
  next
    case 4
    with assms show ?thesis by (auto simp: base_builder_def split: if_splits)
  qed (use assms(1) in \<open>simp_all add: base_builder_def\<close>)
qed

text \<open>Foreign tools that do not change files, except under a name the mode blocks.\<close>

definition foreign_writes_gated :: "'x subagent_runner \<Rightarrow> (file_system \<times> 'x) agent_spec \<Rightarrow> bool" where
  "foreign_writes_gated runner spec \<longleftrightarrow>
     (\<forall>t \<in> foreign_tools runner spec. tool_name t \<in> WRITE_TOOLS \<or> (\<forall>input. keeps_files (tool_executor t input)))"

definition foreign_keep_files :: "'x subagent_runner \<Rightarrow> (file_system \<times> 'x) agent_spec \<Rightarrow> bool" where
  "foreign_keep_files runner spec \<longleftrightarrow>
     (\<forall>t \<in> foreign_tools runner spec. \<forall>input. keeps_files (tool_executor t input))"

definition post_hooks_return :: "'w hook_factory option \<Rightarrow> bool" where
  "post_hooks_return factory \<longleftrightarrow>
     (case factory of None \<Rightarrow> True
      | Some f \<Rightarrow> (\<forall>mode h name input w. snd (f mode) = Some h \<longrightarrow> is_ok (fst (h name input w))))"

lemma guarded_call_keeps:
  assumes "hooks_keep_files (sr_hook_factory runner) mode"
    and "\<And>wc. fst (fst (snd (body input wc))) = fst (fst wc)"
    and "guarded_call (child_config runner spec mode tools shared) body name input wc = (r, wc')"
  shows "fst (fst wc') = fst (fst wc)"
proof -
  let ?cfg = "child_config runner spec mode tools shared"
  have pre: "fst (fst (snd (run_hook (lc_pre_hook ?cfg) name input v))) = fst (fst v)"
    and post: "fst (fst (snd (run_hook (lc_post_hook ?cfg) name input v))) = fst (fst v)" for v
    using hook_keeps [OF assms(1)] by blast+
  obtain h1 v1 where h1: "run_hook (lc_pre_hook ?cfg) name input wc = (h1, v1)" by (metis surj_pair)
  obtain b v2 where b: "body input v1 = (b, v2)" by (metis surj_pair)
  obtain h2 v3 where h2: "run_hook (lc_post_hook ?cfg) name input v2 = (h2, v3)" by (metis surj_pair)
  have "fst (fst v1) = fst (fst wc)" using pre [of wc] h1 by simp
  moreover have "fst (fst v2) = fst (fst v1)" using assms(2) [of v1] b by simp
  moreover have "fst (fst v3) = fst (fst v2)" using post [of v2] h2 by simp
  moreover have "wc' = v1 \<or> wc' = v2 \<or> wc' = v3"
    using assms(3) h1 b h2
    by (cases h1; cases b; cases h2) (auto simp: guarded_call_def seq_effect_def simp del: child_hooks)
  ultimately show ?thesis by auto
qed

lemma read_only_child:
  assumes mode: "\<not> BUILD \<le> mode"
    and bind: "bind_grant_tools (sr_context runner)
      (sp_tool_factory spec (bc_project_dir (sr_context runner))) = Inr tools"
    and service: "service_keeps_files (sr_client runner)" and others: "others_keep_files runner"
    and hooks: "hooks_keep_files (sr_hook_factory runner) mode"
    and foreign: "foreign_writes_gated runner spec"
  shows "run_invariant (\<lambda>_ wc. fst (fst wc) = fs0) (outer_api (sr_client runner))
    (child_config runner spec mode tools shared)"
proof -
  let ?cfg = "child_config runner spec mode tools shared"
  have keep: "fst (fst wc') = fst (fst wc)"
    if gate: "gate_blocks ?cfg name input = None" and body: "tool_body ?cfg name = Some body"
      and call: "guarded_call ?cfg body name input wc = (r, wc')" for name input body wc r wc'
  proof (rule guarded_call_keeps [OF hooks _ call])
    have "ep_mode (child_policy mode spec dir) = mode" for dir by (simp add: child_policy_def)
    with gate mode write_tool_blocked [of name ?cfg] have safe: "name \<notin> WRITE_TOOLS" by fastforce
    show "fst (fst (snd (body input v))) = fst (fst v)" for v
      using child_body [OF body]
    proof (elim disjE conjE bexE)
      assume "body = submit_result"
      then show ?thesis by (simp add: submit_result_def)
    next
      fix t assume t: "t \<in> set tools" "tool_name t = name" "body = (\<lambda>input. outer (tool_executor t input))"
      have edits: "''edit'' \<in> WRITE_TOOLS" "''create_file'' \<in> WRITE_TOOLS" by (simp_all add: WRITE_TOOLS_def)
      have "keeps_files (tool_executor t input)"
        using bound_tools_cases [OF bind t(1)] foreign safe t(2) others base_builder_kinds edits
        unfolding foreign_writes_gated_def others_keep_files_def by metis
      with t(3) outer_keeps show ?thesis by simp
    qed
  qed
  show ?thesis
  proof unfold_locales
    fix files :: "string list" and wc :: "(file_system \<times> 'a) \<times> submit_capture" and req
    assume "fst (fst wc) = fs0"
    with service show "fst (fst (snd (outer_api (sr_client runner) req wc))) = fs0"
      unfolding service_keeps_files_def by (simp only: outer_api_def split_beta Let_def fst_conv snd_conv)
  qed (use keep in blast)+
qed

section \<open>A sample delegation\<close>

text \<open>A child that edits a file, submits, and has nothing more to say.\<close>

definition edit_submit_stop :: "(file_system \<times> nat) messages_api" where
  "edit_submit_stop req w =
     (let usage = \<lparr>api_input = None, api_output = None, api_cache_creation = None, api_cache_read = None\<rparr>;
          say = (\<lambda>blocks stop. Responded \<lparr>resp_content = blocks, resp_stop = Some stop, resp_usage = usage\<rparr>)
      in if snd w = 0 then
           (say [Tool_Use_Block ''t1'' ''edit'' (Some sample_edit)] ''tool_use'', (fst w, 1))
         else if snd w = 1 then
           (say [Tool_Use_Block ''t2'' ''submit_result''
              (Some [''status'' \<mapsto> JString ''succeeded'', ''summary'' \<mapsto> JString ''edited''])] ''tool_use'', (fst w, 2))
         else (say [Text_Block ''done''] ''end_turn'', w))"

definition sample_developer :: agent_file where
  "sample_developer =
     \<lparr>af_name = ''dev'', af_description = ''edits'', af_body = ''You edit.'', af_max_mode = BUILD,
      af_source = [], af_model = None, af_tools = [''read_file'', ''edit''], af_allowed_paths = [''el/**''],
      af_classifications = []\<rparr>"

definition sample_runner :: "nat subagent_runner" where
  "sample_runner =
     \<lparr>sr_registry = register (spec_from_agent_file sample_developer) [],
      sr_context = \<lparr>bc_os = plain_os, bc_project_dir = [''p''], bc_docs = (\<lambda>_. ([], JNull)),
        bc_other = (\<lambda>_ _ w. (Inl ''unused'', w)), bc_skill_pack = None, bc_extra_tools = []\<rparr>,
      sr_client = edit_submit_stop, sr_model = ''claude-haiku-4-5'', sr_model_tiers = [],
      sr_approver = None, sr_max_turns = 30, sr_max_tokens = 4096, sr_hook_factory = None\<rparr>"

lemma sample_runner_quiet:
  "service_keeps_files (sr_client sample_runner)" "others_keep_files sample_runner"
  "hooks_keep_files (sr_hook_factory sample_runner) mode" "post_hooks_return (sr_hook_factory sample_runner)"
  by (simp_all add: sample_runner_def service_keeps_files_def edit_submit_stop_def others_keep_files_def
      keeps_files_def hooks_keep_files_def post_hooks_return_def Let_def)

lemma sample_runner_foreign:
  assumes "resolve_agent (sr_registry sample_runner) agent = Some spec"
  shows "foreign_tools sample_runner spec = {}"
  using assms
  by (auto simp: resolve_agent_def sample_runner_def register_def foreign_tools_def spec_from_agent_file_def
      declarative_tool_factory_def split: if_splits)

section \<open>Delegations below BUILD\<close>

lemma run_subagent_below_build:
  assumes "\<not> BUILD \<le> parent_mode"
    and "service_keeps_files (sr_client runner)" and "others_keep_files runner"
    and "\<And>mode. hooks_keep_files (sr_hook_factory runner) mode"
    and "\<And>spec. resolve_agent (sr_registry runner) agent = Some spec \<Longrightarrow> foreign_writes_gated runner spec"
  shows "fst (snd (run_subagent runner agent task shared parent_mode depth w)) = fst w"
proof (cases "resolve_agent (sr_registry runner) agent")
  case None
  then show ?thesis by (simp add: run_subagent_def)
next
  case (Some spec)
  let ?mode = "min_mode parent_mode (sp_capability spec)"
  let ?bound = "bind_grant_tools (sr_context runner) (sp_tool_factory spec (bc_project_dir (sr_context runner)))"
  have mode: "\<not> BUILD \<le> ?mode" using assms(1) min_mode_lower(1) order_trans by blast
  show ?thesis
  proof (cases ?bound)
    case (Inl n)
    with Some show ?thesis by (simp add: run_subagent_def Let_def)
  next
    case (Inr tools)
    obtain out s' wc where run: "run_loop (outer_api (sr_client runner))
        (child_config runner spec ?mode tools shared) quiet_between task (sr_max_turns runner)
        (initial_state None None) (w, fresh_capture) = (out, s', wc)" by (metis prod_cases3)
    have "fst (fst wc) = fst w"
      by (rule run_invariant.run_keeps [OF read_only_child [OF mode Inr assms(2,3,4) assms(5) [OF Some]] run]) simp
    with Some Inr run show ?thesis by (cases out) (auto simp: run_subagent_def Let_def)
  qed
qed

section \<open>Properties\<close>



lemma reporting_child:
  assumes bind: "bind_grant_tools (sr_context runner)
      (sp_tool_factory spec (bc_project_dir (sr_context runner))) = Inr tools"
    and service: "service_keeps_files (sr_client runner)" and others: "others_keep_files runner"
    and hooks: "hooks_keep_files (sr_hook_factory runner) mode"
    and quiet: "post_hooks_return (sr_hook_factory runner)"
    and foreign: "foreign_keep_files runner spec"
  defines "os \<equiv> bc_os (sr_context runner)"
  defines "proj \<equiv> os_resolve os (bc_project_dir (sr_context runner))"
  shows "run_invariant (\<lambda>files wc. reports_changes os proj None fs0 files (fst wc))
    (outer_api (sr_client runner)) (child_config runner spec mode tools shared)"
proof -
  let ?cfg = "child_config runner spec mode tools shared"
  let ?J = "\<lambda>files wc. reports_changes os proj None fs0 files (fst wc)"
  have same: "?J files wc'" if "?J files wc" "fst (fst wc') = fst (fst wc)" for files wc wc'
    using that by (simp add: reports_changes_def)
  have keep: "?J (case r of Inl _ \<Rightarrow> files | Inr res \<Rightarrow> add_file (tracked_path name res) files) wc'"
    if inv: "?J files wc" and body: "tool_body ?cfg name = Some body"
      and call: "guarded_call ?cfg body name input wc = (r, wc')" for files name input body wc r wc'
  proof -
    obtain h1 v1 where h1: "run_hook (lc_pre_hook ?cfg) name input wc = (h1, v1)" by (metis surj_pair)
    obtain b v2 where b: "body input v1 = (b, v2)" by (metis surj_pair)
    obtain h2 v3 where h2: "run_hook (lc_post_hook ?cfg) name input v2 = (h2, v3)" by (metis surj_pair)
    have k1: "fst (fst v1) = fst (fst wc)" and k3: "fst (fst v3) = fst (fst v2)"
      using hook_keeps [OF hooks] h1 h2 by (metis snd_conv)+
    have ok: "is_ok h2"
    proof (cases "lc_post_hook ?cfg")
      case None
      with h2 show ?thesis by (auto simp: run_hook_def)
    next
      case (Some k)
      then obtain f h where f: "sr_hook_factory runner = Some f" "snd (f mode) = Some h" "k = outer_hook h"
        by (auto split: option.splits)
      with Some h2 have "outer (h name input) v2 = (h2, v3)" by (simp add: run_hook_def outer_hook_def)
      then have "fst (h name input (fst v2)) = h2" using outer_result by (metis fst_conv)
      moreover from quiet f have "is_ok (fst (h name input v))" for v
        unfolding post_hooks_return_def by (simp del: split_paired_All)
      ultimately show ?thesis by metis
    qed
    have cases: "(\<exists>e. h1 = Inl e \<and> r = Inl e \<and> wc' = v1) \<or>
        (\<exists>e. b = Inl e \<and> r = Inl e \<and> wc' = v2) \<or> (\<exists>x. b = Inr x \<and> r = Inr x \<and> wc' = v3)"
      using call h1 b h2 ok
      by (cases h1; cases b; cases h2) (auto simp: guarded_call_def seq_effect_def simp del: child_hooks)
    have inv1: "?J files v1" using same [OF inv k1] .
    have step: "touches os proj None b (fst (fst v1)) (fst (fst v2)) \<and>
        (fst (fst v2) = fst (fst v1) \<or> name \<in> set TRACKED_TOOLS)"
      using child_body [OF body]
    proof (elim disjE conjE bexE)
      assume "body = submit_result"
      with b show ?thesis by (auto simp: submit_result_def split: if_splits)
    next
      fix t assume t: "t \<in> set tools" "tool_name t = name" "body = (\<lambda>input. outer (tool_executor t input))"
      with b outer_result have e: "tool_executor t input (fst v1) = (b, fst v2)" by blast
      have "(\<forall>input. keeps_files (tool_executor t input)) \<or>
          name = ''edit'' \<and> tool_executor t = on_files (edit_file os proj None) \<or>
          name = ''create_file'' \<and> tool_executor t = on_files (create_file os proj None)"
        using bound_tools_cases [OF bind t(1)]
      proof (elim disjE exE conjE)
        assume "t \<in> foreign_tools runner spec"
        with foreign show ?thesis by (simp add: foreign_keep_files_def)
      next
        fix e assume e: "base_builder (sr_context runner) (tool_name t) = Some e" "tool_executor t = e"
        from base_builder_kinds [OF e(1)] others e(2) t(2) show ?thesis
          by (auto simp: others_keep_files_def os_def proj_def)
      qed simp
      then have "reporting_tool os proj None name (tool_executor t)"
        unfolding reporting_tool_def keeps_files_def by blast
      from reporting_tool_touches [OF this e] show ?thesis .
    qed
    have inv2: "?J (case b of Inl _ \<Rightarrow> files | Inr res \<Rightarrow> add_file (tracked_path name res) files) v2"
      by (rule reports_step [OF inv1 conjunct1 [OF step] conjunct2 [OF step]])
    from cases show ?thesis
    proof (elim disjE exE conjE)
      fix x assume "b = Inr x" "r = Inr x" "wc' = v3"
      with same [OF inv2 k3] show ?thesis by simp
    qed (use inv1 inv2 in simp_all)
  qed
  show ?thesis
  proof unfold_locales
    fix files and wc :: "(file_system \<times> 'a) \<times> submit_capture" and req
    assume "?J files wc"
    then show "?J files (snd (outer_api (sr_client runner) req wc))"
      by (rule same) (use service in \<open>simp only: service_keeps_files_def outer_api_def split_beta Let_def fst_conv snd_conv\<close>)
  next
    fix files and wc wc' :: "(file_system \<times> 'a) \<times> submit_capture" and name input body res
    assume "?J files wc" "tool_body ?cfg name = Some body" "guarded_call ?cfg body name input wc = (Inr res, wc')"
    from keep [OF this] show "?J (add_file (tracked_path name res) files) wc'" by simp
  next
    fix files and wc wc' :: "(file_system \<times> 'a) \<times> submit_capture" and name input body e
    assume "?J files wc" "tool_body ?cfg name = Some body" "guarded_call ?cfg body name input wc = (Inl e, wc')"
    from keep [OF this] show "?J files wc'" by simp
  qed
qed

text \<open>
  What a delegation reports is what it changed. With hooks that return, a delegation that
  yields a result has changed, besides new directories, only files inside the project that its
  \<open>files_changed\<close> names, whatever the child claims in its \<open>submit_result\<close>.
\<close>

theorem delegation_reports_its_changes:
  assumes "service_keeps_files (sr_client runner)" and "others_keep_files runner"
    and "\<And>mode. hooks_keep_files (sr_hook_factory runner) mode"
    and "post_hooks_return (sr_hook_factory runner)"
    and "\<And>spec. resolve_agent (sr_registry runner) agent = Some spec \<Longrightarrow> foreign_keep_files runner spec"
  shows "case run_subagent runner agent task shared parent_mode depth w of
      (Inr res, w') \<Rightarrow>
        reports_changes (bc_os (sr_context runner))
          (os_resolve (bc_os (sr_context runner)) (bc_project_dir (sr_context runner))) None (fst w)
          (dr_files_changed res) w'
    | (Inl _, _) \<Rightarrow> True"
proof (cases "MAX_DELEGATION_DEPTH < depth")
  case True
  then show ?thesis by (simp add: run_subagent_def)
next
  case depth: False
  show ?thesis
  proof (cases "resolve_agent (sr_registry runner) agent")
    case None
    with depth show ?thesis by (simp add: run_subagent_def)
  next
    case (Some spec)
    let ?mode = "min_mode parent_mode (sp_capability spec)"
    let ?bound = "bind_grant_tools (sr_context runner) (sp_tool_factory spec (bc_project_dir (sr_context runner)))"
    show ?thesis
    proof (cases ?bound)
      case (Inl n)
      with Some depth show ?thesis by (simp add: run_subagent_def Let_def)
    next
      case (Inr tools)
      obtain out s' wc where run: "run_loop (outer_api (sr_client runner))
          (child_config runner spec ?mode tools shared) quiet_between task (sr_max_turns runner)
          (initial_state None None) (w, fresh_capture) = (out, s', wc)" by (metis prod_cases3)
      have "reports_changes (bc_os (sr_context runner))
          (os_resolve (bc_os (sr_context runner)) (bc_project_dir (sr_context runner))) None (fst w)
          (ls_files s') (fst wc)"
        by (rule run_invariant.run_keeps [OF reporting_child [OF Inr assms(1-4) assms(5) [OF Some]] run])
          (simp add: reports_changes_def)
      with Some depth Inr run show ?thesis
        by (cases out) (auto simp: run_subagent_def Let_def delegation_outcome_def
            split: sum.splits if_splits)
    qed
  qed
qed

theorem delegation_reports_its_changes_witness:
  "case run_subagent sample_runner ''dev'' ''edit f'' [] DEPLOY 1 (sample_files, 0) of
      (Inr res, w') \<Rightarrow> reports_changes plain_os [''p''] None sample_files (dr_files_changed res) w' \<and>
        fst w' [''p'', ''f''] = Some (File_Node ''ba'') \<and> dr_files_changed res = [''f''] \<and>
        dr_status res = ''succeeded''
    | (Inl _, _) \<Rightarrow> False"
proof -
  let ?run = "run_subagent sample_runner ''dev'' ''edit f'' [] DEPLOY 1 (sample_files, 0)"
  have "foreign_keep_files sample_runner spec"
    if "resolve_agent (sr_registry sample_runner) ''dev'' = Some spec" for spec
    using sample_runner_foreign [OF that] by (simp add: foreign_keep_files_def)
  note reported = delegation_reports_its_changes [where agent = "''dev''" and task = "''edit f''" and shared = "[]" and
      parent_mode = DEPLOY and depth = 1 and w = "(sample_files, 0)", OF sample_runner_quiet this]
  have os: "bc_os (sr_context sample_runner) = plain_os"
    "os_resolve plain_os (bc_project_dir (sr_context sample_runner)) = [''p'']"
    by (simp_all add: sample_runner_def plain_os_def)
  have "case ?run of (Inr res, w') \<Rightarrow> fst w' [''p'', ''f''] = Some (File_Node ''ba'') \<and>
      dr_files_changed res = [''f''] \<and> dr_status res = ''succeeded'' | (Inl _, _) \<Rightarrow> False"
    by code_simp
  with reported show ?thesis unfolding os fst_conv by (auto split: prod.splits sum.splits simp del: split_paired_All)
qed

lemma lint_iff:
  "(t, m) \<in> set (lint_agent_grants a) \<longleftrightarrow>
     t \<in> set (af_tools a) \<and> tool_min_mode t = Some m \<and> \<not> mode_permits (af_max_mode a) m"
  unfolding lint_agent_grants_def set_concat set_map UN_iff bex_simps
  by (auto split: option.splits if_splits intro!: bexI [of _ t])

text \<open>
  The lint is exact on write tools. It warns about a granted write tool if and only if the
  gate would refuse the tool to this agent in every delegation, whatever the parent's mode, the
  input and the approver.
\<close>

theorem lint_flags_exactly_dead_grants:
  assumes "t \<in> set (af_tools a)" and "t \<in> WRITE_TOOLS"
  shows "t \<in> fst ` set (lint_agent_grants a) \<longleftrightarrow>
    (\<forall>parent input approver. \<not> decision_allowed (gate_check
       (child_policy (min_mode parent (af_max_mode a)) (spec_from_agent_file a) dir) t input approver))"
proof -
  obtain need where need: "tool_min_mode t = Some need"
    and needed: "need = (if t = ''run_snowflake_ddl'' then DEPLOY else BUILD)"
    using assms(2) by (auto simp: tool_min_mode_def)
  have "t \<in> fst ` set (lint_agent_grants a) \<longleftrightarrow> \<not> need \<le> af_max_mode a"
    using assms(1) need lint_iff [of t _ a] by (force simp: mode_permits_le)
  moreover have "decision_allowed (gate_check (child_policy m (spec_from_agent_file a) dir) t input approver)
      \<longleftrightarrow> need \<le> m" for m input approver
  proof -
    have "t \<notin> TERMINATOR_TOOLS" "t \<noteq> ''bash''"
      using assms(2) terminators_disjoint write_tools_in_ALL by (auto simp: WRITE_TOOLS_def)
    moreover have "ep_mode (child_policy m (spec_from_agent_file a) dir) = m" by (simp add: child_policy_def)
    moreover have "tool_permitted (child_policy m (spec_from_agent_file a) dir) t \<longleftrightarrow> t \<in> permitted_tools_for_mode m"
      using assms(1) by (simp add: tool_permitted_def child_policy_def build_policy_permitted granted_def
          config_denied_def mcp_reachable_def registered_def spec_from_agent_file_def
          declarative_tool_factory_def comp_def)
    moreover have "\<not> mcp_requires_prompt (child_policy m (spec_from_agent_file a) dir) t"
      by (simp add: mcp_requires_prompt_def child_policy_def build_policy_prompt mcp_writers_def registered_def)
    moreover have "t \<in> permitted_tools_for_mode m \<and> (t = ''run_snowflake_ddl'' \<longrightarrow> m = DEPLOY) \<longleftrightarrow> need \<le> m"
      using assms(2) needed write_tools_not_read
      by (cases m) (auto simp: permitted_tools_for_mode_def WRITE_TOOLS_def ALL_TOOLS_def
          less_eq_permission_mode_def)
    ultimately show ?thesis using assms(2) write_tools_need_build
      by (auto simp: gate_allowed_iff)
  qed
  moreover have "(\<forall>parent. \<not> need \<le> min_mode parent (af_max_mode a)) \<longleftrightarrow> \<not> need \<le> af_max_mode a"
    using min_mode_lower(2) order_trans by (metis min_mode_is_min min.idem)
  ultimately show ?thesis by metis
qed

theorem lint_flags_exactly_dead_grants_witness:
  "''edit'' \<in> fst ` set (lint_agent_grants (sample_developer\<lparr>af_max_mode := PLAN\<rparr>)) \<and>
    ''edit'' \<notin> fst ` set (lint_agent_grants sample_developer)"
proof -
  let ?a = "sample_developer\<lparr>af_max_mode := PLAN\<rparr>"
  have "''edit'' \<in> set (af_tools ?a)" "''edit'' \<in> set (af_tools sample_developer)" "''edit'' \<in> WRITE_TOOLS"
    by (simp_all add: sample_developer_def WRITE_TOOLS_def)
  note exact = lint_flags_exactly_dead_grants [OF this(1,3)] lint_flags_exactly_dead_grants [OF this(2,3)]
  have "''edit'' \<in> fst ` set (lint_agent_grants ?a)" by code_simp
  moreover have "decision_allowed (gate_check (child_policy (min_mode BUILD (af_max_mode sample_developer))
      (spec_from_agent_file sample_developer :: (file_system \<times> nat) agent_spec) []) ''edit'' Map.empty None)"
    by code_simp
  ultimately show ?thesis using exact(2) by blast
qed

end
