(* ===== verification/Review.thy ===== *)
theory Review
  imports Delegation
begin

text \<open>
  How work is checked before it is accepted: the bounded verification loop
  (\<open>core/agents/verification.py\<close>) and the review fan-out (\<open>core/agents/review_fan_out.py\<close>).
  The gated shell tool, the parser of a check's output, the fix step, the delegation and the
  validation of a finding by pydantic are arguments.
\<close>

section \<open>Checks\<close>

record check_result =
  cr_passed :: bool
  cr_summary :: string
  cr_details :: "(string \<times> json) list"

record completed_process =
  cp_args :: string
  cp_returncode :: int
  cp_stdout :: string

definition MAX_VERIFICATION_ITERATIONS :: int where
  "MAX_VERIFICATION_ITERATIONS = 4"

text \<open>What the tool returned, as a finished process; Python counts a boolean as an integer.\<close>

definition completed_of :: "string \<Rightarrow> json \<Rightarrow> completed_process" where
  "completed_of cmd res =
     (let kvs = (case res of JObject kvs \<Rightarrow> kvs | _ \<Rightarrow> [])
      in \<lparr>cp_args = cmd,
          cp_returncode = (case map_of kvs ''exit_code'' of
             Some (JInt n) \<Rightarrow> n | Some (JBool b) \<Rightarrow> if b then 1 else 0 | _ \<Rightarrow> -1),
          cp_stdout = (case map_of kvs ''stdout'' of Some (JString s) \<Rightarrow> s | _ \<Rightarrow> [])\<rparr>)"

definition run_check ::
  "'w executor \<Rightarrow> (completed_process \<Rightarrow> ('w, check_result) effect) \<Rightarrow> string \<Rightarrow> int \<Rightarrow>
     ('w, check_result) effect" where
  "run_check bash parse cmd timeout w =
     seq_effect (bash [''command'' \<mapsto> JString cmd, ''timeout'' \<mapsto> JInt timeout] w)
       (\<lambda>res w'. parse (completed_of cmd res) w')"

record verification_outcome =
  vo_status :: string
  vo_iterations :: nat
  vo_last_result :: check_result

text \<open>\<open>left\<close> counts the iterations after this one.\<close>

fun verify_from ::
  "('w, check_result) effect \<Rightarrow> (check_result \<Rightarrow> ('w, bool) effect) \<Rightarrow> nat \<Rightarrow> nat \<Rightarrow>
     ('w, verification_outcome) effect" where
  "verify_from check fix_step iteration left w =
     seq_effect (check w) (\<lambda>last w'.
       let stop = (\<lambda>status. \<lparr>vo_status = status, vo_iterations = iteration, vo_last_result = last\<rparr>)
       in if cr_passed last then (Inr (stop ''passed''), w')
          else (case left of
                  0 \<Rightarrow> (Inr (stop ''needs_user_input''), w')
                | Suc left' \<Rightarrow>
                    seq_effect (fix_step last w') (\<lambda>attempted w''.
                      if attempted then verify_from check fix_step (Suc iteration) left' w''
                      else (Inr (stop ''needs_user_input''), w''))))"

declare verify_from.simps [simp del]

definition verification_loop ::
  "'w executor \<Rightarrow> (completed_process \<Rightarrow> ('w, check_result) effect) \<Rightarrow> string \<Rightarrow> int \<Rightarrow> int \<Rightarrow>
     (check_result \<Rightarrow> ('w, bool) effect) \<Rightarrow> ('w, verification_outcome) effect" where
  "verification_loop bash parse cmd max_iterations timeout fix_step =
     verify_from (run_check bash parse cmd timeout) fix_step 1 (nat (max 1 max_iterations) - 1)"

section \<open>Reviews\<close>

datatype severity = Blocker | Major | Minor | Info

definition FAILING_SEVERITIES :: "severity list" where
  "FAILING_SEVERITIES = [Blocker, Major]"

record finding =
  fd_reviewer :: string
  fd_severity :: severity
  fd_file :: string
  fd_line :: "int option"
  fd_message :: string
  fd_suggested_change :: "string option"

datatype review_error =
    Reviewer_Needs_Input string
  | Findings_Missing string
  | Findings_Not_List string
  | Finding_Not_Object string nat
  | Finding_Malformed string nat string
  | Delegation_Raised string

record review_result =
  rr_findings :: "finding list"
  rr_passed :: bool
  rr_by_reviewer :: "(string \<times> finding list) list"
  rr_raw :: "(string \<times> delegation_result) list"

definition REVIEWER_SEQUENCE :: "string list" where
  "REVIEWER_SEQUENCE = [''dlt-qa'', ''dlt-security'']"

definition DBT_REVIEWER_SEQUENCE :: "string list" where
  "DBT_REVIEWER_SEQUENCE = [''dbt-qa'']"

type_synonym finding_validator = "(string \<times> json) list \<Rightarrow> string + finding"

fun parse_items :: "finding_validator \<Rightarrow> string \<Rightarrow> nat \<Rightarrow> json list \<Rightarrow> review_error + finding list" where
  "parse_items validate reviewer index [] = Inr []"
| "parse_items validate reviewer index (JObject kvs # items) =
     (case validate (AList.update ''reviewer'' (JString reviewer) kvs) of
        Inl e \<Rightarrow> Inl (Finding_Malformed reviewer index e)
      | Inr f \<Rightarrow> bind_result (parse_items validate reviewer (Suc index) items) (\<lambda>fs. Inr (f # fs)))"
| "parse_items validate reviewer index (j # items) = Inl (Finding_Not_Object reviewer index)"

definition parse_findings ::
  "finding_validator \<Rightarrow> string \<Rightarrow> delegation_result \<Rightarrow> review_error + finding list" where
  "parse_findings validate reviewer res =
     (if dr_status res = ''needs_user_input'' then Inl (Reviewer_Needs_Input reviewer)
      else (case map_of (dr_outputs res) ''findings'' of
              None \<Rightarrow> Inl (Findings_Missing reviewer)
            | Some JNull \<Rightarrow> Inl (Findings_Missing reviewer)
            | Some (JList items) \<Rightarrow> parse_items validate reviewer 0 items
            | Some _ \<Rightarrow> Inl (Findings_Not_List reviewer)))"

type_synonym 'w delegate_fn = "string \<Rightarrow> string \<Rightarrow> (string \<times> string) list \<Rightarrow> ('w, delegation_result) effect"

definition review_task :: "string \<Rightarrow> string" where
  "review_task reviewer =
     ''Adversarially review the engineer's diff for the goal below. ''
     @ ''Report findings as structured outputs; do not edit. Reviewer: '' @ reviewer @ ''.''"

fun review_each ::
  "finding_validator \<Rightarrow> 'w delegate_fn \<Rightarrow> (string \<times> string) list \<Rightarrow> string list \<Rightarrow> 'w \<Rightarrow>
     (review_error + (string \<times> delegation_result \<times> finding list) list) \<times> 'w" where
  "review_each validate delegate shared [] w = (Inr [], w)"
| "review_each validate delegate shared (reviewer # reviewers) w =
     (case delegate reviewer (review_task reviewer) shared w of
        (Inl e, w') \<Rightarrow> (Inl (Delegation_Raised e), w')
      | (Inr res, w') \<Rightarrow>
          (case parse_findings validate reviewer res of
             Inl e \<Rightarrow> (Inl e, w')
           | Inr fs \<Rightarrow>
               (case review_each validate delegate shared reviewers w' of
                  (Inl e, w'') \<Rightarrow> (Inl e, w'')
                | (Inr rest, w'') \<Rightarrow> (Inr ((reviewer, res, fs) # rest), w''))))"

definition failing :: "finding \<Rightarrow> bool" where
  "failing f = (fd_severity f \<in> set FAILING_SEVERITIES)"

definition review_fan_out ::
  "finding_validator \<Rightarrow> 'w delegate_fn \<Rightarrow> string \<Rightarrow> string \<Rightarrow> string list \<Rightarrow> 'w \<Rightarrow>
     (review_error + review_result) \<times> 'w" where
  "review_fan_out validate delegate diff goal reviewers w =
     (case review_each validate delegate [(''diff'', diff), (''goal'', goal)] reviewers w of
        (Inl e, w') \<Rightarrow> (Inl e, w')
      | (Inr reviews, w') \<Rightarrow>
          (let findings = concat (map (snd \<circ> snd) reviews)
           in (Inr \<lparr>rr_findings = findings, rr_passed = (\<not> list_ex failing findings),
                    rr_by_reviewer = dict_of (map (\<lambda>(r, res, fs). (r, fs)) reviews),
                    rr_raw = dict_of (map (\<lambda>(r, res, fs). (r, res)) reviews)\<rparr>, w')))"

section \<open>Properties\<close>

lemma verify_from_outcome:
  assumes "verify_from check fix_step iteration left w = (Inr out, w')"
  shows "iteration \<le> vo_iterations out \<and> vo_iterations out \<le> iteration + left \<and>
    vo_status out = (if cr_passed (vo_last_result out) then ''passed'' else ''needs_user_input'') \<and>
    (\<exists>v v'. check v = (Inr (vo_last_result out), v') \<and>
       (cr_passed (vo_last_result out) \<or> vo_iterations out = iteration + left \<or>
        (\<exists>v''. fix_step (vo_last_result out) v' = (Inr False, v''))))"
  using assms
proof (induction left arbitrary: iteration w)
  case 0
  obtain c w1 where "check w = (c, w1)" by (metis surj_pair)
  with 0 show ?case
    unfolding verify_from.simps [of check fix_step iteration 0 w]
    by (auto simp: seq_effect_def Let_def split: sum.splits if_splits) (metis+)
next
  case (Suc left)
  obtain c w1 where check: "check w = (c, w1)" by (metis surj_pair)
  with Suc.prems obtain last where c: "c = Inr last"
    by (subst (asm) verify_from.simps) (auto simp: seq_effect_def split: sum.splits)
  show ?case
  proof (cases "cr_passed last")
    case True
    with Suc.prems check c have "out = \<lparr>vo_status = ''passed'', vo_iterations = iteration, vo_last_result = last\<rparr>"
      by (subst (asm) verify_from.simps) (auto simp: seq_effect_def Let_def)
    with True check c show ?thesis by auto
  next
    case False
    obtain f w2 where fixed: "fix_step last w1 = (f, w2)" by (metis surj_pair)
    with Suc.prems check c False obtain attempted where f: "f = Inr attempted"
      by (subst (asm) verify_from.simps) (auto simp: seq_effect_def Let_def split: sum.splits)
    show ?thesis
    proof (cases attempted)
      case True
      with Suc.prems check c False fixed f have "verify_from check fix_step (Suc iteration) left w2 = (Inr out, w')"
        by (subst (asm) verify_from.simps) (simp add: seq_effect_def Let_def)
      from Suc.IH [OF this] show ?thesis by auto
    next
      case not_attempted: False
      with Suc.prems check c False fixed f
      have "out = \<lparr>vo_status = ''needs_user_input'', vo_iterations = iteration, vo_last_result = last\<rparr>"
        by (subst (asm) verify_from.simps) (auto simp: seq_effect_def Let_def)
      moreover from fixed f not_attempted have "fix_step last w1 = (Inr False, w2)" by simp
      ultimately show ?thesis using False check c by auto
    qed
  qed
qed

text \<open>
  The verification loop is bounded and honest. It ends after at least one and at most
  \<open>max_iterations\<close> checks (one if that is not positive). It says passed exactly when the last check
  it ran passed, and otherwise asks for the user, either because the checks are used up or
  because the fix step gave up on that very result.
\<close>

theorem verification_is_bounded:
  assumes "verification_loop bash parse cmd max_iterations timeout fix_step w = (Inr out, w')"
  shows "1 \<le> vo_iterations out \<and> int (vo_iterations out) \<le> max 1 max_iterations \<and>
    vo_status out = (if cr_passed (vo_last_result out) then ''passed'' else ''needs_user_input'') \<and>
    (\<exists>v v'. run_check bash parse cmd timeout v = (Inr (vo_last_result out), v') \<and>
       (cr_passed (vo_last_result out) \<or> int (vo_iterations out) = max 1 max_iterations \<or>
        (\<exists>v''. fix_step (vo_last_result out) v' = (Inr False, v''))))"
proof -
  from verify_from_outcome [OF assms [unfolded verification_loop_def]]
  show ?thesis by (auto simp: nat_le_iff of_nat_diff) fastforce+
qed

definition validator_keeps_reviewer :: "finding_validator \<Rightarrow> bool" where
  "validator_keeps_reviewer validate \<longleftrightarrow>
     (\<forall>kvs f r. validate kvs = Inr f \<and> map_of kvs ''reviewer'' = Some (JString r) \<longrightarrow> fd_reviewer f = r)"

lemma parse_items_stamped:
  assumes "validator_keeps_reviewer validate"
    and "parse_items validate reviewer index items = Inr fs" and "f \<in> set fs"
  shows "fd_reviewer f = reviewer"
  using assms
proof (induction validate reviewer index items arbitrary: fs rule: parse_items.induct)
  case (2 validate reviewer index kvs items)
  then obtain g gs where g: "validate (AList.update ''reviewer'' (JString reviewer) kvs) = Inr g"
    and gs: "parse_items validate reviewer (Suc index) items = Inr gs" and "fs = g # gs"
    by (auto simp: bind_result_Inr_iff split: sum.splits)
  moreover have "fd_reviewer g = reviewer"
  proof -
    have "map_of (AList.update ''reviewer'' (JString reviewer) kvs) ''reviewer'' = Some (JString reviewer)"
      by (simp add: update_conv')
    then show ?thesis using 2(2) g unfolding validator_keeps_reviewer_def by blast
  qed
  ultimately show ?case using "2.IH" [OF g _ gs] 2 by auto
qed auto

lemma parse_findings_result:
  assumes "validator_keeps_reviewer validate" and "parse_findings validate reviewer res = Inr fs"
  shows "dr_status res \<noteq> ''needs_user_input'' \<and>
    (\<exists>items. map_of (dr_outputs res) ''findings'' = Some (JList items) \<and>
       parse_items validate reviewer 0 items = Inr fs) \<and> (\<forall>f \<in> set fs. fd_reviewer f = reviewer)"
  using assms(2) parse_items_stamped [OF assms(1)]
  by (auto simp: parse_findings_def split: if_splits option.splits json.splits)

lemma review_each_result:
  assumes "validator_keeps_reviewer validate"
    and "review_each validate delegate shared reviewers w = (Inr reviews, w')"
  shows "map fst reviews = reviewers \<and>
    (\<forall>(r, res, fs) \<in> set reviews. parse_findings validate r res = Inr fs)"
  using assms(2)
proof (induction reviewers arbitrary: w reviews)
  case (Cons r rs)
  from Cons.prems obtain res w1 fs rest w2 where
    "delegate r (review_task r) shared w = (Inr res, w1)" and fs: "parse_findings validate r res = Inr fs"
    and rest: "review_each validate delegate shared rs w1 = (Inr rest, w2)"
    and "reviews = (r, res, fs) # rest" "w2 = w'"
    by (auto split: prod.splits sum.splits)
  with Cons.IH [of w1 rest] show ?case by auto
qed simp

text \<open>
  A review passes exactly when no reviewer raised a blocker or a major finding, and it
  fails loudly rather than pass on a verdict it cannot read: when it returns, every reviewer of
  the sequence answered with a list of well-formed findings and none asked for input, the
  findings are those lists in order, and each carries the name of the reviewer that was asked,
  whatever name the payload had.
\<close>

theorem review_is_complete:
  assumes "validator_keeps_reviewer validate"
    and "review_fan_out validate delegate diff goal reviewers w = (Inr result, w')"
  shows "(rr_passed result \<longleftrightarrow> (\<forall>f \<in> set (rr_findings result). fd_severity f \<in> {Minor, Info})) \<and>
    (\<exists>reviews :: (string \<times> delegation_result \<times> finding list) list. map fst reviews = reviewers \<and>
       rr_findings result = concat (map (snd \<circ> snd) reviews) \<and>
       (\<forall>(r, res, fs) \<in> set reviews. dr_status res \<noteq> ''needs_user_input'' \<and>
          (\<exists>items. map_of (dr_outputs res) ''findings'' = Some (JList items) \<and>
             parse_items validate r 0 items = Inr fs) \<and>
          (\<forall>f \<in> set fs. fd_reviewer f = r)))"
proof -
  from assms(2) obtain reviews where
    each: "review_each validate delegate [(''diff'', diff), (''goal'', goal)] reviewers w = (Inr reviews, w')"
    and findings: "rr_findings result = concat (map (snd \<circ> snd) reviews)"
    and passed: "rr_passed result = (\<not> list_ex failing (rr_findings result))"
    by (auto simp: review_fan_out_def Let_def split: prod.splits sum.splits)
  note parsed = review_each_result [OF assms(1) each]
  have "failing f \<longleftrightarrow> fd_severity f \<notin> {Minor, Info}" for f
    by (cases "fd_severity f") (simp_all add: failing_def FAILING_SEVERITIES_def)
  with passed have sev: "rr_passed result \<longleftrightarrow> (\<forall>f \<in> set (rr_findings result). fd_severity f \<in> {Minor, Info})"
    by (auto simp: list_ex_iff)
  have "\<forall>(r, res, fs) \<in> set reviews. dr_status res \<noteq> ''needs_user_input'' \<and>
      (\<exists>items. map_of (dr_outputs res) ''findings'' = Some (JList items) \<and>
         parse_items validate r 0 items = Inr fs) \<and> (\<forall>f \<in> set fs. fd_reviewer f = r)"
  proof (rule ballI, clarify)
    fix r res fs assume "(r, res, fs) \<in> set reviews"
    with parsed have "parse_findings validate r res = Inr fs" by auto
    from parse_findings_result [OF assms(1) this]
    show "dr_status res \<noteq> ''needs_user_input'' \<and>
      (\<exists>items. map_of (dr_outputs res) ''findings'' = Some (JList items) \<and>
         parse_items validate r 0 items = Inr fs) \<and> (\<forall>f \<in> set fs. fd_reviewer f = r)" .
  qed
  note each_ok = this
  show ?thesis
    by (rule conjI [OF sev], rule exI [of _ reviews], intro conjI conjunct1 [OF parsed] findings each_ok)
qed

text \<open>A validator for samples: a severity it knows, texts where texts belong.\<close>

definition sample_validate :: finding_validator where
  "sample_validate kvs =
     (case (map_of kvs ''reviewer'', map_of kvs ''severity'', map_of kvs ''message'') of
        (Some (JString r), Some (JString s), Some (JString m)) \<Rightarrow>
          (case map_of [(''blocker'', Blocker), (''major'', Major), (''minor'', Minor), (''info'', Info)] s of
             Some sev \<Rightarrow> Inr \<lparr>fd_reviewer = r, fd_severity = sev, fd_file = [], fd_line = None,
                            fd_message = m, fd_suggested_change = None\<rparr>
           | None \<Rightarrow> Inl ''severity'')
      | _ \<Rightarrow> Inl ''missing'')"

lemma sample_validate_keeps: "validator_keeps_reviewer sample_validate"
  by (auto simp: validator_keeps_reviewer_def sample_validate_def split: option.splits json.splits if_splits)

definition reviewer_says :: "string \<Rightarrow> json list \<Rightarrow> unit delegate_fn" where
  "reviewer_says status findings reviewer task shared w =
     (Inr \<lparr>dr_status = status, dr_summary = [], dr_files_changed = [],
           dr_outputs = [(''findings'', JList findings)], dr_usage = zero_usage, dr_cost_usd = 0\<rparr>, w)"

text \<open>A reviewer that reports its own run as failed counts as a clean pass.\<close>

theorem review_is_complete_witness:
  "case review_fan_out sample_validate (reviewer_says ''failed'' []) ''diff'' ''goal'' REVIEWER_SEQUENCE () of
     (Inr result, _) \<Rightarrow> rr_passed result \<and> (\<exists>reviews. map fst reviews = REVIEWER_SEQUENCE \<and>
        rr_findings result = concat (map (snd \<circ> snd) (reviews :: (string \<times> delegation_result \<times> finding list) list)))
   | _ \<Rightarrow> False"
proof -
  let ?run = "review_fan_out sample_validate (reviewer_says ''failed'' []) ''diff'' ''goal'' REVIEWER_SEQUENCE ()"
  have "case ?run of (Inr result, _) \<Rightarrow> rr_passed result | _ \<Rightarrow> False" by code_simp
  then obtain result where run: "?run = (Inr result, ())" and "rr_passed result"
    by (auto split: prod.splits sum.splits)
  with review_is_complete [OF sample_validate_keeps run] show ?thesis by auto
qed

theorem verification_is_bounded_witness:
  "\<exists>out. verification_loop (\<lambda>_ n. (Inr (JObject [(''exit_code'', JInt n)]), n - 1))
      (\<lambda>p n. (Inr \<lparr>cr_passed = cp_returncode p = 0, cr_summary = [], cr_details = []\<rparr>, n))
      ''dbt build'' 4 120 (\<lambda>_ n. (Inr True, n)) 2 = (Inr out, -1) \<and> vo_status out = ''passed'' \<and>
    1 \<le> vo_iterations out \<and> int (vo_iterations out) \<le> 4"
proof -
  let ?run = "verification_loop (\<lambda>_ n. (Inr (JObject [(''exit_code'', JInt n)]), n - 1))
      (\<lambda>p n. (Inr \<lparr>cr_passed = cp_returncode p = 0, cr_summary = [], cr_details = []\<rparr>, n))
      ''dbt build'' 4 120 (\<lambda>_ n. (Inr True, n)) 2"
  have "case ?run of (Inr out, n) \<Rightarrow> n = -1 \<and> vo_status out = ''passed'' | _ \<Rightarrow> False" by code_simp
  then obtain out where run: "?run = (Inr out, -1)" and "vo_status out = ''passed''"
    by (auto split: prod.splits sum.splits)
  with verification_is_bounded [OF run] show ?thesis by auto
qed

end
