(* ===== verification/Effects.thy ===== *)
theory Effects
  imports Prelude
begin

text \<open>
  Python code that changes a state and may raise: an action maps a state to the exception or the
  value, and to the state it leaves, also when it raises. \<open>attempt\<close> is \<open>try ... except\<close>.

  A triple \<open>holds P m Q E\<close> says that from a state where \<open>P\<close> holds the action ends in a state
  where \<open>Q\<close> holds of its value, or raises in a state where \<open>E\<close> holds of its exception. The rules
  follow the shape of an action.
\<close>

type_synonym ('e, 's, 'a) action = "'s \<Rightarrow> ('e + 'a) \<times> 's"

definition give :: "'a \<Rightarrow> ('e, 's, 'a) action" where
  "give x s = (Inr x, s)"

definition raise :: "'e \<Rightarrow> ('e, 's, 'a) action" where
  "raise e s = (Inl e, s)"

definition bind_act :: "('e, 's, 'a) action \<Rightarrow> ('a \<Rightarrow> ('e, 's, 'b) action) \<Rightarrow> ('e, 's, 'b) action" where
  "bind_act m f s = (case m s of (Inl e, s') \<Rightarrow> (Inl e, s') | (Inr x, s') \<Rightarrow> f x s')"

definition attempt :: "('e, 's, 'a) action \<Rightarrow> ('e \<Rightarrow> ('f, 's, 'a) action) \<Rightarrow> ('f, 's, 'a) action" where
  "attempt m h s = (case m s of (Inl e, s') \<Rightarrow> h e s' | (Inr x, s') \<Rightarrow> (Inr x, s'))"

text \<open>A computation that only reads the state, and one given by its result.\<close>

definition asks :: "('s \<Rightarrow> 'a) \<Rightarrow> ('e, 's, 'a) action" where
  "asks f s = (Inr (f s), s)"

definition of_result :: "'e + 'a \<Rightarrow> ('e, 's, 'a) action" where
  "of_result r s = (r, s)"

definition check :: "bool \<Rightarrow> 'e \<Rightarrow> ('e, 's, unit) action" where
  "check b e = (if b then give () else raise e)"

fun for_each :: "('a \<Rightarrow> ('e, 's, 'b) action) \<Rightarrow> 'a list \<Rightarrow> ('e, 's, 'b list) action" where
  "for_each f [] = give []"
| "for_each f (x # xs) = bind_act (f x) (\<lambda>y. bind_act (for_each f xs) (\<lambda>ys. give (y # ys)))"

lemma action_simps [simp]:
  "give x s = (Inr x, s)" "raise e s = (Inl e, s)" "asks f s = (Inr (f s), s)" "of_result r s = (r, s)"
  by (simp_all add: give_def raise_def asks_def of_result_def)

lemma bind_act_simps [simp]:
  "m s = (Inl e, s') \<Longrightarrow> bind_act m f s = (Inl e, s')" "m s = (Inr x, s') \<Longrightarrow> bind_act m f s = f x s'"
  by (simp_all add: bind_act_def)

lemma attempt_simps [simp]:
  "m s = (Inl e, s') \<Longrightarrow> attempt m h s = h e s'" "m s = (Inr x, s') \<Longrightarrow> attempt m h s = (Inr x, s')"
  by (simp_all add: attempt_def)

lemma bind_act_Inr:
  "bind_act m f s = (Inr y, s'') \<longleftrightarrow> (\<exists>x s'. m s = (Inr x, s') \<and> f x s' = (Inr y, s''))"
  by (auto simp: bind_act_def split: prod.splits sum.splits)

lemma bind_act_Inl:
  "bind_act m f s = (Inl e, s'') \<longleftrightarrow> m s = (Inl e, s'') \<or> (\<exists>x s'. m s = (Inr x, s') \<and> f x s' = (Inl e, s''))"
  by (auto simp: bind_act_def split: prod.splits sum.splits)

lemma bind_act_InrE:
  "bind_act m f s = (Inr y, s'') \<Longrightarrow> (\<And>x s'. m s = (Inr x, s') \<Longrightarrow> f x s' = (Inr y, s'') \<Longrightarrow> P) \<Longrightarrow> P"
  by (auto simp: bind_act_Inr)

lemma check_Inr: "check b e s = (Inr u, s') \<longleftrightarrow> b \<and> s' = s"
  by (auto simp: check_def)

lemma check_Inl: "check b e s = (Inl x, s') \<longleftrightarrow> \<not> b \<and> x = e \<and> s' = s"
  by (auto simp: check_def)

section \<open>Triples\<close>

definition holds ::
  "('s \<Rightarrow> bool) \<Rightarrow> ('e, 's, 'a) action \<Rightarrow> ('a \<Rightarrow> 's \<Rightarrow> bool) \<Rightarrow> ('e \<Rightarrow> 's \<Rightarrow> bool) \<Rightarrow> bool" where
  "holds P m Q E \<longleftrightarrow> (\<forall>s. P s \<longrightarrow> (case m s of (Inl e, s') \<Rightarrow> E e s' | (Inr x, s') \<Rightarrow> Q x s'))"

named_theorems triple

lemma holdsI:
  "(\<And>s x s'. P s \<Longrightarrow> m s = (Inr x, s') \<Longrightarrow> Q x s') \<Longrightarrow> (\<And>s e s'. P s \<Longrightarrow> m s = (Inl e, s') \<Longrightarrow> E e s') \<Longrightarrow>
     holds P m Q E"
  by (auto simp: holds_def split: prod.splits sum.splits)

lemma holds_Inr: "holds P m Q E \<Longrightarrow> P s \<Longrightarrow> m s = (Inr x, s') \<Longrightarrow> Q x s'"
  by (fastforce simp: holds_def)

lemma holds_Inl: "holds P m Q E \<Longrightarrow> P s \<Longrightarrow> m s = (Inl e, s') \<Longrightarrow> E e s'"
  by (fastforce simp: holds_def)

lemma holds_state: "holds P m (\<lambda>_. R) (\<lambda>_. R) \<Longrightarrow> P s \<Longrightarrow> R (snd (m s))"
  unfolding holds_def by (cases "m s"; cases "fst (m s)") (metis (mono_tags, lifting) case_prod_conv fst_conv snd_conv sum.case)+

lemma holds_weaken:
  "holds P m Q E \<Longrightarrow> (\<And>s. P' s \<Longrightarrow> P s) \<Longrightarrow> (\<And>x s. Q x s \<Longrightarrow> Q' x s) \<Longrightarrow> (\<And>e s. E e s \<Longrightarrow> E' e s) \<Longrightarrow>
     holds P' m Q' E'"
  by (fastforce simp: holds_def split: prod.splits sum.splits)

text \<open>What does not depend on the state is kept.\<close>

lemma holds_frame: "holds P m Q E \<Longrightarrow> holds (\<lambda>s. P s \<and> c) m (\<lambda>x s. Q x s \<and> c) (\<lambda>e s. E e s \<and> c)"
  by (rule holdsI) (auto dest: holds_Inr holds_Inl)

lemma holds_give [triple]: "(\<And>s. P s \<Longrightarrow> Q x s) \<Longrightarrow> holds P (give x) Q E"
  by (simp add: holds_def)

lemma holds_raise [triple]: "(\<And>s. P s \<Longrightarrow> E e s) \<Longrightarrow> holds P (raise e) Q E"
  by (simp add: holds_def)

lemma holds_asks [triple]: "(\<And>s. P s \<Longrightarrow> Q (f s) s) \<Longrightarrow> holds P (asks f) Q E"
  by (simp add: holds_def)

lemma holds_of_result:
  "(\<And>x s. r = Inr x \<Longrightarrow> P s \<Longrightarrow> Q x s) \<Longrightarrow> (\<And>e s. r = Inl e \<Longrightarrow> P s \<Longrightarrow> E e s) \<Longrightarrow> holds P (of_result r) Q E"
  by (cases r) (simp_all add: holds_def)

lemma holds_bind [triple]:
  "holds P m R E \<Longrightarrow> (\<And>x. holds (R x) (f x) Q E) \<Longrightarrow> holds P (bind_act m f) Q E"
  by (fastforce simp: holds_def bind_act_def split: prod.splits sum.splits)

lemma holds_attempt [triple]:
  "holds P m Q R \<Longrightarrow> (\<And>e. holds (R e) (h e) Q E) \<Longrightarrow> holds P (attempt m h) Q E"
  by (fastforce simp: holds_def attempt_def split: prod.splits sum.splits)

lemma holds_check [triple]:
  "(\<And>s. b \<Longrightarrow> P s \<Longrightarrow> Q () s) \<Longrightarrow> (\<And>s. \<not> b \<Longrightarrow> P s \<Longrightarrow> E e s) \<Longrightarrow> holds P (check b e) Q E"
  by (simp add: holds_def check_def)

lemma holds_if: "(b \<Longrightarrow> holds P m Q E) \<Longrightarrow> (\<not> b \<Longrightarrow> holds P n Q E) \<Longrightarrow> holds P (if b then m else n) Q E"
  by simp

text \<open>An assertion on the state that every element keeps is kept by the loop.\<close>

lemma holds_for_each:
  assumes "\<And>x. x \<in> set xs \<Longrightarrow> holds P (f x) (\<lambda>y s. P s \<and> R x y) (\<lambda>e. E e)"
  shows "holds P (for_each f xs) (\<lambda>ys s. P s \<and> list_all2 R xs ys) E"
  using assms
proof (induction xs)
  case Nil
  then show ?case by (simp add: holds_def)
next
  case (Cons x xs)
  have head: "holds P (f x) (\<lambda>y s. P s \<and> R x y) E" using Cons.prems [of x] by simp
  have tail: "holds P (for_each f xs) (\<lambda>ys s. P s \<and> list_all2 R xs ys) E" using Cons by simp
  show ?case
    unfolding for_each.simps
  proof (rule holds_bind [OF head])
    fix y
    show "holds (\<lambda>s. P s \<and> R x y) (bind_act (for_each f xs) (\<lambda>ys. give (y # ys)))
        (\<lambda>ys s. P s \<and> list_all2 R (x # xs) ys) E"
      by (rule holdsI) (auto simp: bind_act_Inr bind_act_Inl dest: holds_Inr [OF tail] holds_Inl [OF tail])
  qed
qed

lemma for_each_length:
  "for_each f xs s = (Inr ys, s') \<Longrightarrow> length ys = length xs"
  by (induction xs arbitrary: ys s s') (auto simp: bind_act_Inr)

text \<open>An action on one part of a pair.\<close>

definition on_left :: "('e, 's, 'a) action \<Rightarrow> ('e, 's \<times> 't, 'a) action" where
  "on_left m st = (let (r, s') = m (fst st) in (r, (s', snd st)))"

definition on_right :: "('e, 't, 'a) action \<Rightarrow> ('e, 's \<times> 't, 'a) action" where
  "on_right m st = (let (r, t') = m (snd st) in (r, (fst st, t')))"

lemma fst_on_right [simp]: "fst (snd (on_right m st)) = fst st"
  by (simp add: on_right_def split: prod.split)

lemma snd_on_left [simp]: "snd (snd (on_left m st)) = snd st"
  by (simp add: on_left_def split: prod.split)

lemma on_right_eq: "on_right m (s, t) = (let (r, t') = m t in (r, (s, t')))"
  by (simp add: on_right_def)

lemma on_left_eq: "on_left m (s, t) = (let (r, s') = m s in (r, (s', t)))"
  by (simp add: on_left_def)

text \<open>The exception under another name.\<close>

definition with_error :: "('e \<Rightarrow> 'f) \<Rightarrow> ('e, 's, 'a) action \<Rightarrow> ('f, 's, 'a) action" where
  "with_error g m = attempt m (\<lambda>e. raise (g e))"

lemma with_error_eq: "with_error g m s = (case m s of (Inl e, s') \<Rightarrow> (Inl (g e), s') | (Inr x, s') \<Rightarrow> (Inr x, s'))"
  by (simp add: with_error_def attempt_def split: prod.split sum.split)


lemma with_error_Inr: "with_error g m s = (Inr x, s') \<longleftrightarrow> m s = (Inr x, s')"
  by (auto simp: with_error_eq split: prod.splits sum.splits)

lemma with_error_Inl: "with_error g m s = (Inl e, s') \<longleftrightarrow> (\<exists>e0. m s = (Inl e0, s') \<and> e = g e0)"
  by (auto simp: with_error_eq split: prod.splits sum.splits)

end
