(* ===== verification/Goal_Routing.thy ===== *)
theory Goal_Routing
  imports Review Effects Component_Locator
begin

text \<open>
  From a goal to the engineers that work on it and the reviewers that check it:
  \<open>cli/orchestrator/goal_classifier.py\<close>, \<open>goal_decomposer.py\<close>, \<open>delegation_run.py\<close>,
  \<open>review_wiring.py\<close>, \<open>cost_rollup.py\<close>, and the names of targets and artifacts
  (\<open>core/targets/names.py\<close>, \<open>core/targets/resolution.py\<close>).

  The model service is an argument: it answers a request with content blocks or raises. So are
  the pieces a delegation is assembled from (the bound tools per mode, the model tiers, the
  approver), the validation of a finding and the line diff of the standard library. Telemetry is
  recorded on a best-effort basis beside the calls and is left out.
\<close>

section \<open>Target and artifact names\<close>

text \<open>\<open>^[a-z][a-z0-9_]*$\<close>, matched in full.\<close>

definition name_ok :: "string \<Rightarrow> bool" where
  "name_ok s = (case s of [] \<Rightarrow> False
     | c # cs \<Rightarrow> is_lower c \<and> list_all (\<lambda>d. is_lower d \<or> is_digit d \<or> d = CHR ''_'') cs)"

definition validate_artifact_name :: "string \<Rightarrow> string + string" where
  "validate_artifact_name name = (if name_ok name then Inr name else Inl name)"

definition validate_target_name :: "string \<Rightarrow> string + unit" where
  "validate_target_name name = (if name_ok name then Inr () else Inl name)"

datatype target_error = Invalid_Target string string | Unknown_Target string

text \<open>
  The flag, the environment variable and the configured default, the first that is neither
  absent nor empty; \<open>configured\<close> is \<open>None\<close> without a configuration.
\<close>

definition present :: "string option \<Rightarrow> bool" where
  "present s = (case s of None \<Rightarrow> False | Some t \<Rightarrow> t \<noteq> [])"

definition resolve_active_target :: "string option \<Rightarrow> string option \<Rightarrow> string option \<Rightarrow> target_error + string" where
  "resolve_active_target cli_flag env_value configured =
     (let (resolved, source) =
            (if present cli_flag then (the cli_flag, ''--target'')
             else if present env_value then (the env_value, ''CARVE_TARGET'')
             else if present configured then (the configured, ''carve.toml default_target'')
             else (''dev'', ''fallback''))
      in case validate_target_name resolved of
           Inl n \<Rightarrow> Inl (Invalid_Target n source)
         | Inr _ \<Rightarrow> Inr resolved)"

definition require_target :: "string \<Rightarrow> string list \<Rightarrow> target_error + unit" where
  "require_target name available = (if name \<in> set available then Inr () else Inl (Unknown_Target name))"

section \<open>Classification\<close>

datatype routing_error =
    Empty_Goal
  | No_Classifications
  | No_Label
  | No_Sub_Goals
  | Unknown_Label string
  | Client_Raised string

record routing_request =
  rq_model :: string
  rq_max_tokens :: int
  rq_tool :: string
  rq_labels :: "string list"
  rq_goal :: string

type_synonym 'w routing_client = "routing_request \<Rightarrow> (string, 'w, content_block list) action"

definition candidate_classifications :: "'w registry \<Rightarrow> string list" where
  "candidate_classifications reg = sort (remdups (concat (map sp_classifications (registry_specs reg))))"

text \<open>A non-empty string after stripping.\<close>

definition stripped_text :: "json option \<Rightarrow> string option" where
  "stripped_text j = (case j of Some (JString s) \<Rightarrow> if blank s then None else Some (py_strip s) | _ \<Rightarrow> None)"

fun extract_label :: "content_block list \<Rightarrow> string option" where
  "extract_label [] = None"
| "extract_label (Tool_Use_Block i name input # blocks) =
     (if name = ''classify_goal''
      then (case stripped_text (block_input input ''label'') of
              Some label \<Rightarrow> Some label
            | None \<Rightarrow> extract_label blocks)
      else extract_label blocks)"
| "extract_label (b # blocks) = extract_label blocks"

definition classify_goal ::
  "'w routing_client \<Rightarrow> string \<Rightarrow> 'v registry \<Rightarrow> string \<Rightarrow> (routing_error, 'w, string) action" where
  "classify_goal client model reg goal =
     (let candidates = candidate_classifications reg
      in bind_act (check (\<not> blank goal) Empty_Goal) (\<lambda>_.
         bind_act (check (candidates \<noteq> []) No_Classifications) (\<lambda>_.
         bind_act (with_error Client_Raised (client \<lparr>rq_model = model, rq_max_tokens = 256,
                     rq_tool = ''classify_goal'', rq_labels = candidates, rq_goal = py_strip goal\<rparr>)) (\<lambda>content.
           case extract_label content of
             None \<Rightarrow> raise No_Label
           | Some label \<Rightarrow> if label \<in> set candidates then give label else raise (Unknown_Label label)))))"

section \<open>Decomposition\<close>

record sub_goal =
  sg_sub_goal :: string
  sg_classification :: string

text \<open>One item that is not usable makes the whole answer unusable.\<close>

fun sub_goals_of :: "json list \<Rightarrow> sub_goal list option" where
  "sub_goals_of [] = Some []"
| "sub_goals_of (JObject kvs # items) =
     (case (stripped_text (map_of kvs ''sub_goal''), stripped_text (map_of kvs ''classification'')) of
        (Some g, Some c) \<Rightarrow>
          map_option (\<lambda>rest. \<lparr>sg_sub_goal = g, sg_classification = c\<rparr> # rest) (sub_goals_of items)
      | _ \<Rightarrow> None)"
| "sub_goals_of (j # items) = None"

fun extract_sub_goals :: "content_block list \<Rightarrow> sub_goal list" where
  "extract_sub_goals [] = []"
| "extract_sub_goals (Tool_Use_Block i name input # blocks) =
     (if name = ''decompose_goal''
      then (case block_input input ''sub_goals'' of
              Some (JList items) \<Rightarrow> (case sub_goals_of items of None \<Rightarrow> [] | Some gs \<Rightarrow> gs)
            | _ \<Rightarrow> [])
      else extract_sub_goals blocks)"
| "extract_sub_goals (b # blocks) = extract_sub_goals blocks"

definition decompose_goal ::
  "'w routing_client \<Rightarrow> string \<Rightarrow> 'v registry \<Rightarrow> string \<Rightarrow> (routing_error, 'w, sub_goal list) action" where
  "decompose_goal client model reg goal =
     (let candidates = candidate_classifications reg
      in bind_act (check (\<not> blank goal) Empty_Goal) (\<lambda>_.
         bind_act (check (candidates \<noteq> []) No_Classifications) (\<lambda>_.
         bind_act (with_error Client_Raised (client \<lparr>rq_model = model, rq_max_tokens = 1024,
                     rq_tool = ''decompose_goal'', rq_labels = candidates, rq_goal = py_strip goal\<rparr>)) (\<lambda>content.
           let sub_goals = extract_sub_goals content
           in bind_act (check (sub_goals \<noteq> []) No_Sub_Goals) (\<lambda>_.
              case List.find (\<lambda>g. sg_classification g \<notin> set candidates) sub_goals of
                Some g \<Rightarrow> raise (Unknown_Label (sg_classification g))
              | None \<Rightarrow> give sub_goals)))))"

section \<open>Delegation to the engineers\<close>

datatype engine_error = Route_Failed route_error | Delegation_Failed subagent_error

record 'x delegation_env =
  de_context :: "permission_mode \<Rightarrow> 'x binding_context"
  de_client :: "(file_system \<times> 'x) messages_api"
  de_model :: string
  de_model_tiers :: "(string \<times> string) list"
  de_approver :: "approver option"
  de_max_turns :: int

definition build_runner ::
  "'x delegation_env \<Rightarrow> (file_system \<times> 'x) registry \<Rightarrow> permission_mode \<Rightarrow>
     (file_system \<times> 'x) hook_factory option \<Rightarrow> 'x subagent_runner" where
  "build_runner env reg parent_mode hook_factory =
     \<lparr>sr_registry = reg, sr_context = de_context env parent_mode, sr_client = de_client env,
      sr_model = de_model env, sr_model_tiers = de_model_tiers env, sr_approver = de_approver env,
      sr_max_turns = de_max_turns env, sr_max_tokens = 4096, sr_hook_factory = hook_factory\<rparr>"

definition capacity_for :: "permission_mode \<Rightarrow> string" where
  "capacity_for parent_mode = (if parent_mode = BUILD then ''build'' else ''design'')"

definition delegate_engine ::
  "(file_system \<times> 'x) registry \<Rightarrow> 'x subagent_runner \<Rightarrow> permission_mode \<Rightarrow> sub_goal \<Rightarrow>
     (engine_error, file_system \<times> 'x, delegation_result) action" where
  "delegate_engine reg runner parent_mode g =
     bind_act (with_error Route_Failed (of_result (select_agent reg (Some (sg_classification g)) None))) (\<lambda>agent.
       with_error Delegation_Failed
         (run_subagent runner agent (sg_sub_goal g)
            [(''goal_slice'', sg_sub_goal g), (''classification'', sg_classification g),
             (''capacity'', capacity_for parent_mode)] parent_mode 1))"

definition run_engines ::
  "(file_system \<times> 'x) registry \<Rightarrow> 'x subagent_runner \<Rightarrow> permission_mode \<Rightarrow> sub_goal list \<Rightarrow>
     (engine_error, file_system \<times> 'x, delegation_result list) action" where
  "run_engines reg runner parent_mode sub_goals = for_each (delegate_engine reg runner parent_mode) sub_goals"

datatype single_error = Not_Classified routing_error | Engine_Failed engine_error

definition run_single_engine ::
  "(file_system \<times> 'x) routing_client \<Rightarrow> (file_system \<times> 'x) registry \<Rightarrow> 'x subagent_runner \<Rightarrow>
     permission_mode \<Rightarrow> string \<Rightarrow> (single_error, file_system \<times> 'x, delegation_result) action" where
  "run_single_engine client reg runner parent_mode goal =
     bind_act (with_error Not_Classified (classify_goal client (sr_model runner) reg goal)) (\<lambda>label.
       with_error Engine_Failed
         (delegate_engine reg runner parent_mode \<lparr>sg_sub_goal = goal, sg_classification = label\<rparr>))"

section \<open>Cost\<close>

record runtime_estimate =
  re_first_run_seconds :: "rat option"
  re_subsequent_run_seconds :: "rat option"

record cost_rollup =
  cu_usage :: token_usage
  cu_cost_usd :: rat
  cu_runtime :: runtime_estimate

definition FIRST_RUN_KEYS :: "string list" where
  "FIRST_RUN_KEYS = [''first_run_seconds'', ''first_load_seconds'', ''full_refresh_seconds'']"

definition SUBSEQUENT_KEYS :: "string list" where
  "SUBSEQUENT_KEYS = [''subsequent_run_seconds'', ''incremental_seconds'', ''incremental_run_seconds'']"

text \<open>The numbers of a payload are integers in the model.\<close>

fun extract_duration :: "(string \<times> json) list \<Rightarrow> string list \<Rightarrow> rat option" where
  "extract_duration outputs [] = None"
| "extract_duration outputs (k # ks) =
     (case map_of outputs k of
        Some (JInt n) \<Rightarrow> if 0 < n then Some (of_int n) else extract_duration outputs ks
      | _ \<Rightarrow> extract_duration outputs ks)"

definition add_duration :: "rat option \<Rightarrow> rat option \<Rightarrow> rat option" where
  "add_duration known d =
     (case d of None \<Rightarrow> known | Some x \<Rightarrow> Some ((case known of None \<Rightarrow> 0 | Some t \<Rightarrow> t) + x))"

definition compose_runtime_estimate :: "delegation_result list \<Rightarrow> runtime_estimate" where
  "compose_runtime_estimate results =
     fold (\<lambda>r e. \<lparr>re_first_run_seconds =
                   add_duration (re_first_run_seconds e) (extract_duration (dr_outputs r) FIRST_RUN_KEYS),
                 re_subsequent_run_seconds =
                   add_duration (re_subsequent_run_seconds e) (extract_duration (dr_outputs r) SUBSEQUENT_KEYS)\<rparr>)
       results \<lparr>re_first_run_seconds = None, re_subsequent_run_seconds = None\<rparr>"

definition usage_plus :: "token_usage \<Rightarrow> token_usage \<Rightarrow> token_usage" where
  "usage_plus u v =
     \<lparr>input_tokens = input_tokens u + input_tokens v, output_tokens = output_tokens u + output_tokens v,
      cache_creation_tokens = cache_creation_tokens u + cache_creation_tokens v,
      cache_read_tokens = cache_read_tokens u + cache_read_tokens v\<rparr>"

definition roll_up_cost :: "delegation_result list \<Rightarrow> cost_rollup" where
  "roll_up_cost results =
     (let (usage, cost) = fold (\<lambda>r (u, c). (usage_plus u (dr_usage r), c + dr_cost_usd r)) results (zero_usage, 0)
      in \<lparr>cu_usage = usage, cu_cost_usd = cost, cu_runtime = compose_runtime_estimate results\<rparr>)"

section \<open>The reviewers of a build\<close>

definition REVIEWERS_BY_ENGINE :: "(string \<times> string list) list" where
  "REVIEWERS_BY_ENGINE =
     [(''dlt-engineer'', REVIEWER_SEQUENCE), (''dbt-engineer'', DBT_REVIEWER_SEQUENCE)]"

definition add_new :: "'a list \<Rightarrow> 'a list \<Rightarrow> 'a list" where
  "add_new xs ordered = fold (\<lambda>x acc. if x \<in> set acc then acc else acc @ [x]) xs ordered"

fun reviewers_from :: "'w registry \<Rightarrow> string list \<Rightarrow> string list \<Rightarrow> route_error + string list" where
  "reviewers_from reg [] ordered = Inr ordered"
| "reviewers_from reg (c # cs) ordered =
     bind_result (select_agent reg (Some c) None) (\<lambda>agent.
       reviewers_from reg cs
         (case map_of REVIEWERS_BY_ENGINE agent of None \<Rightarrow> ordered | Some rs \<Rightarrow> add_new rs ordered))"

definition select_reviewer_sequence :: "'w registry \<Rightarrow> string list \<Rightarrow> route_error + string list" where
  "select_reviewer_sequence reg classifications = reviewers_from reg classifications []"

text \<open>
  The library's unified diff of two texts under a path, and whether a content is text. A file
  whose bytes do not decode has a content that is not text.
\<close>

record diff_env =
  df_unified :: "string \<Rightarrow> string \<Rightarrow> string \<Rightarrow> string"
  df_text :: "string \<Rightarrow> bool"

definition diff_chunk ::
  "os_env \<Rightarrow> diff_env \<Rightarrow> path_parts \<Rightarrow> (path_parts \<rightharpoonup> string) \<Rightarrow> file_system \<Rightarrow> string \<Rightarrow> os_error + string" where
  "diff_chunk os df dir pre_build fs rel =
     (let p = os_resolve os (join_path dir rel);
          old = (case pre_build p of None \<Rightarrow> [] | Some t \<Rightarrow> t)
      in if is_file_node (fs p)
         then bind_result (read_text os p fs) (\<lambda>content.
           if df_text df content then Inr (df_unified df rel old content)
           else Inr (''Binary files a/'' @ rel @ '' and b/'' @ rel @ '' differ'' @ [CHR 0x0A]))
         else Inr (df_unified df rel old []))"

fun join_results :: "('e + string) list \<Rightarrow> 'e + string" where
  "join_results [] = Inr []"
| "join_results (r # rs) = bind_result r (\<lambda>s. bind_result (join_results rs) (\<lambda>t. Inr (s @ t)))"

definition render_authored_diff ::
  "os_env \<Rightarrow> diff_env \<Rightarrow> path_parts \<Rightarrow> (path_parts \<rightharpoonup> string) \<Rightarrow> string list \<Rightarrow> file_system \<Rightarrow> os_error + string" where
  "render_authored_diff os df dir pre_build files_changed fs =
     join_results (map (diff_chunk os df dir pre_build fs) (sort (remdups files_changed)))"

datatype fan_out_error = Review_Route route_error | Review_Os os_error | Review_Failed review_error

text \<open>Each reviewer is delegated to at \<open>READ_ONLY\<close>; \<open>text\<close> words what a delegation raises.\<close>

definition reviewer_delegate ::
  "(subagent_error \<Rightarrow> string) \<Rightarrow> 'x subagent_runner \<Rightarrow> (file_system \<times> 'x) delegate_fn" where
  "reviewer_delegate describe runner agent task shared =
     with_error describe (run_subagent runner agent task shared READ_ONLY 1)"

definition run_review_fan_out ::
  "(subagent_error \<Rightarrow> string) \<Rightarrow> finding_validator \<Rightarrow> os_env \<Rightarrow> diff_env \<Rightarrow> path_parts \<Rightarrow>
     (file_system \<times> 'x) registry \<Rightarrow> 'x subagent_runner \<Rightarrow> (path_parts \<rightharpoonup> string) \<Rightarrow>
     string list \<Rightarrow> string list \<Rightarrow> string \<Rightarrow> (fan_out_error, file_system \<times> 'x, review_result) action" where
  "run_review_fan_out describe validate os df dir reg runner pre_build classifications files_changed goal =
     bind_act (with_error Review_Route (of_result (select_reviewer_sequence reg classifications))) (\<lambda>reviewers.
     bind_act (asks (\<lambda>w. render_authored_diff os df dir pre_build files_changed (fst w))) (\<lambda>rendered.
     bind_act (with_error Review_Os (of_result rendered)) (\<lambda>diff.
       with_error Review_Failed
         (review_fan_out validate (reviewer_delegate describe runner) diff goal reviewers))))"


section \<open>Routing lemmas\<close>

lemma candidate_routes:
  assumes "c \<in> set (candidate_classifications reg)"
  shows "\<exists>agent. select_agent reg (Some c) None = Inr agent"
proof -
  obtain spec where spec: "spec \<in> set (registry_specs reg)" "c \<in> set (sp_classifications spec)"
    using assms by (auto simp: candidate_classifications_def)
  then have "filter (\<lambda>spec. c \<in> set (sp_classifications spec)) (registry_specs reg) \<noteq> []"
    by (auto simp: filter_empty_conv)
  then show ?thesis by (simp add: select_agent_def split: list.split)
qed

lemma stripped_text_Some: "stripped_text j = Some s \<Longrightarrow> (\<exists>t. j = Some (JString t) \<and> \<not> blank t \<and> s = py_strip t)"
  by (auto simp: stripped_text_def split: option.splits json.splits if_splits)

lemma dropWhile_all_blank: "dropWhile py_space s = [] \<longleftrightarrow> blank s"
  by (simp add: blank_def list_all_iff dropWhile_eq_Nil_conv)

lemma blank_rev [simp]: "blank (rev s) = blank s"
  by (simp add: blank_def list_all_iff)

lemma dropWhile_blank_iff: "blank (dropWhile py_space s) \<longleftrightarrow> blank s"
  by (induction s) (auto simp: blank_def)

lemma blank_py_strip [simp]: "blank (py_strip t) = blank t"
  by (simp add: py_strip_def dropWhile_blank_iff)

lemma sub_goals_of_usable:
  "sub_goals_of items = Some gs \<Longrightarrow> list_all (\<lambda>g. \<not> blank (sg_sub_goal g) \<and> \<not> blank (sg_classification g)) gs"
  by (induction items arbitrary: gs rule: sub_goals_of.induct)
    (auto dest!: stripped_text_Some split: option.splits)

lemma extract_sub_goals_usable:
  "list_all (\<lambda>g. \<not> blank (sg_sub_goal g) \<and> \<not> blank (sg_classification g)) (extract_sub_goals blocks)"
  by (induction blocks rule: extract_sub_goals.induct)
    (auto dest: sub_goals_of_usable split: option.splits json.splits)

lemma decompose_goal_Inr:
  assumes "decompose_goal client model reg goal w = (Inr gs, w')"
  shows "gs \<noteq> [] \<and> list_all (\<lambda>g. \<not> blank (sg_sub_goal g) \<and>
    sg_classification g \<in> set (candidate_classifications reg)) gs"
proof -
  obtain content where gs: "gs = extract_sub_goals content" "gs \<noteq> []"
      "List.find (\<lambda>g. sg_classification g \<notin> set (candidate_classifications reg)) gs = None"
    using assms by (auto simp: decompose_goal_def Let_def bind_act_Inr check_Inr split: option.splits)
  have "list_all (\<lambda>g. sg_classification g \<in> set (candidate_classifications reg)) gs"
    using gs(3) by (auto simp: find_None_iff list_all_iff)
  then show ?thesis using gs(1,2) extract_sub_goals_usable [of content] by (simp add: list_all_iff)
qed

section \<open>Reviewer sequences\<close>

definition reviewers_of :: "string \<Rightarrow> string list" where
  "reviewers_of agent = (case map_of REVIEWERS_BY_ENGINE agent of None \<Rightarrow> [] | Some rs \<Rightarrow> rs)"

text \<open>Each element at its first place.\<close>

definition first_places :: "'a list \<Rightarrow> 'a list" where
  "first_places xs = rev (remdups (rev xs))"

lemma first_places_snoc:
  "first_places (xs @ [x]) = (if x \<in> set xs then first_places xs else first_places xs @ [x])"
  by (simp add: first_places_def)

lemma set_first_places [simp]: "set (first_places xs) = set xs"
  by (simp add: first_places_def)

lemma add_new_first_places: "add_new ys (first_places xs) = first_places (xs @ ys)"
proof (induction ys rule: rev_induct)
  case Nil
  then show ?case by (simp add: add_new_def)
next
  case (snoc y ys)
  have "add_new (ys @ [y]) (first_places xs) =
      (let acc = add_new ys (first_places xs) in if y \<in> set acc then acc else acc @ [y])"
    by (simp add: add_new_def)
  then show ?case using snoc first_places_snoc [of "xs @ ys" y] by (simp add: Let_def)
qed

lemma reviewers_from_Inr:
  assumes "reviewers_from reg cs (first_places xs) = Inr rs"
  shows "\<exists>agents. list_all2 (\<lambda>c a. select_agent reg (Some c) None = Inr a) cs agents \<and>
    rs = first_places (xs @ concat (map reviewers_of agents))"
  using assms
proof (induction cs arbitrary: xs)
  case Nil
  then show ?case by simp
next
  case (Cons c cs)
  obtain a where a: "select_agent reg (Some c) None = Inr a"
      "reviewers_from reg cs (case map_of REVIEWERS_BY_ENGINE a of None \<Rightarrow> first_places xs
         | Some rs \<Rightarrow> add_new rs (first_places xs)) = Inr rs"
    using Cons.prems by (auto simp: bind_result_Inr_iff)
  have "reviewers_from reg cs (first_places (xs @ reviewers_of a)) = Inr rs"
    using a(2) by (simp add: reviewers_of_def add_new_first_places split: option.splits)
  from Cons.IH [OF this] obtain agents where
    "list_all2 (\<lambda>c a. select_agent reg (Some c) None = Inr a) cs agents"
    "rs = first_places ((xs @ reviewers_of a) @ concat (map reviewers_of agents))" by blast
  then show ?case using a(1) by (intro exI [of _ "a # agents"]) simp
qed

section \<open>Files below BUILD\<close>

lemma with_error_state [simp]: "snd (with_error g m s) = snd (m s)"
  by (simp add: with_error_eq split: prod.split sum.split)

lemma engine_keeps_files:
  assumes "\<not> BUILD \<le> mode" and "service_keeps_files (sr_client runner)" and "others_keep_files runner"
    and "\<And>m. hooks_keep_files (sr_hook_factory runner) m"
    and "\<And>agent spec. resolve_agent (sr_registry runner) agent = Some spec \<Longrightarrow> foreign_writes_gated runner spec"
  shows "holds (\<lambda>w. fst w = fs) (delegate_engine reg runner mode g) (\<lambda>r w. fst w = fs) (\<lambda>e w. fst w = fs)"
proof -
  have keep: "fst (snd (run_subagent runner agent task shared mode 1 w)) = fst w" for agent task shared w
    by (rule run_subagent_below_build [OF assms])
  have run: "holds (\<lambda>w. fst w = fs) (with_error Delegation_Failed (run_subagent runner agent task shared mode 1))
      (\<lambda>r w. fst w = fs) (\<lambda>e w. fst w = fs)" for agent task shared
    using keep [of agent task shared] by (intro holdsI) (metis snd_conv with_error_state)+
  show ?thesis
    unfolding delegate_engine_def
  proof (rule holds_bind)
    show "holds (\<lambda>w. fst w = fs)
        (with_error Route_Failed (of_result (select_agent reg (Some (sg_classification g)) None)))
        (\<lambda>_ w. fst w = fs) (\<lambda>e w. fst w = fs)"
      by (simp add: holds_def with_error_eq split: sum.split)
  qed (rule run)
qed

lemma engines_keep_files:
  assumes "\<not> BUILD \<le> mode" and "service_keeps_files (sr_client runner)" and "others_keep_files runner"
    and "\<And>m. hooks_keep_files (sr_hook_factory runner) m"
    and "\<And>agent spec. resolve_agent (sr_registry runner) agent = Some spec \<Longrightarrow> foreign_writes_gated runner spec"
  shows "fst (snd (run_engines reg runner mode gs w)) = fst w"
proof -
  have "holds (\<lambda>v. fst v = fst w) (run_engines reg runner mode gs)
      (\<lambda>ys v. fst v = fst w \<and> list_all2 (\<lambda>_ _. True) gs ys) (\<lambda>e v. fst v = fst w)"
    unfolding run_engines_def
    using engine_keeps_files [OF assms, where fs = "fst w"] by (intro holds_for_each) simp
  then have "holds (\<lambda>v. fst v = fst w) (run_engines reg runner mode gs)
      (\<lambda>_ v. fst v = fst w) (\<lambda>_ v. fst v = fst w)"
    by (rule holds_weaken) auto
  from holds_state [OF this] show ?thesis by simp
qed

lemma review_each_keeps:
  assumes "\<And>agent task shared v. fst (snd (delegate agent task shared v)) = fst v"
  shows "fst (snd (review_each validate delegate shared reviewers w)) = fst w"
proof (induction reviewers arbitrary: w)
  case Nil
  then show ?case by simp
next
  case (Cons r rs)
  obtain res w1 where d: "delegate r (review_task r) shared w = (res, w1)" by (metis surj_pair)
  have "fst w1 = fst w" using assms [of r "review_task r" shared w] d by simp
  then show ?case using Cons.IH [of w1] d
    by (auto split: sum.splits prod.splits)
qed

lemma review_fan_out_keeps:
  assumes "\<And>agent task shared v. fst (snd (delegate agent task shared v)) = fst v"
  shows "fst (snd (review_fan_out validate delegate diff goal reviewers w)) = fst w"
  using review_each_keeps [where delegate = delegate and validate = validate and
      shared = "[(''diff'', diff), (''goal'', goal)]" and reviewers = reviewers and w = w, OF assms]
  by (auto simp: review_fan_out_def Let_def split: prod.splits sum.splits)


lemma reviews_keep_files:
  assumes "service_keeps_files (sr_client runner)" and "others_keep_files runner"
    and "\<And>m. hooks_keep_files (sr_hook_factory runner) m"
    and "\<And>agent spec. resolve_agent (sr_registry runner) agent = Some spec \<Longrightarrow> foreign_writes_gated runner spec"
  shows "fst (snd (run_review_fan_out describe validate os df dir reg runner pre_build cs files goal w)) = fst w"
proof -
  have low: "\<not> BUILD \<le> READ_ONLY" by (simp add: less_eq_permission_mode_def)
  have keep: "fst (snd (reviewer_delegate describe runner agent task shared v)) = fst v" for agent task shared v
    unfolding reviewer_delegate_def with_error_state by (rule run_subagent_below_build [OF low assms])
  have fan: "holds (\<lambda>v. fst v = fst w)
      (with_error Review_Failed (review_fan_out validate (reviewer_delegate describe runner) diff goal reviewers))
      (\<lambda>_ v. fst v = fst w) (\<lambda>_ v. fst v = fst w)" for diff reviewers
    using review_fan_out_keeps [where delegate = "reviewer_delegate describe runner" and validate = validate and
        diff = diff and goal = goal and reviewers = reviewers, OF keep]
    by (intro holdsI) (metis snd_conv with_error_state)+
  have "holds (\<lambda>v. fst v = fst w)
      (run_review_fan_out describe validate os df dir reg runner pre_build cs files goal)
      (\<lambda>_ v. fst v = fst w) (\<lambda>_ v. fst v = fst w)"
    unfolding run_review_fan_out_def
    by (intro holds_bind [where R = "\<lambda>_ v. fst v = fst w"] fan)
      (simp_all add: holds_def with_error_eq split: sum.split)
  from holds_state [OF this] show ?thesis by simp
qed


definition quiet_runner :: "'x subagent_runner \<Rightarrow> bool" where
  "quiet_runner runner \<longleftrightarrow> service_keeps_files (sr_client runner) \<and> others_keep_files runner \<and>
     (\<forall>m. hooks_keep_files (sr_hook_factory runner) m) \<and>
     (\<forall>agent spec. resolve_agent (sr_registry runner) agent = Some spec \<longrightarrow> foreign_writes_gated runner spec)"

section \<open>Properties\<close>

text \<open>
  C40: whatever the model answers, a decomposition that is accepted is a non-empty list of
  non-empty sub-goals, and each of them routes: the registry the labels came from has an agent
  for its classification, so the engines never meet a sub-goal without one.
\<close>

theorem decomposed_goals_route:
  assumes "decompose_goal client model reg goal w = (Inr gs, w')"
  shows "gs \<noteq> [] \<and> list_all (\<lambda>g. \<not> blank (sg_sub_goal g) \<and>
    is_ok (select_agent reg (Some (sg_classification g)) None)) gs"
  using decompose_goal_Inr [OF assms] candidate_routes [of _ reg]
  by (auto simp: list_all_iff is_ok_iff)

text \<open>
  The reviewers of a build are those of its engineers and no others: the concatenation of the
  engineers' reviewer lists in the order of the sub-goals, each reviewer kept at its first place
  and run once.
\<close>

theorem reviewer_sequence_is_union:
  assumes "select_reviewer_sequence reg cs = Inr rs"
  shows "\<exists>agents. list_all2 (\<lambda>c a. select_agent reg (Some c) None = Inr a) cs agents \<and>
    rs = first_places (concat (map reviewers_of agents)) \<and> distinct rs"
proof -
  have "reviewers_from reg cs (first_places []) = Inr rs"
    using assms by (simp add: select_reviewer_sequence_def first_places_def)
  from reviewers_from_Inr [OF this] show ?thesis by (auto simp: first_places_def)
qed



section \<open>Samples\<close>

definition sample_engineer :: "string \<Rightarrow> string \<Rightarrow> agent_file" where
  "sample_engineer name label = sample_developer\<lparr>af_name := name, af_classifications := [label]\<rparr>"

definition engine_registry :: "(file_system \<times> nat) registry" where
  "engine_registry =
     register (spec_from_agent_file (sample_engineer ''dbt-engineer'' ''new_model''))
       (register (spec_from_agent_file (sample_engineer ''dlt-engineer'' ''new_pipeline'')) [])"

definition engine_runner :: "nat subagent_runner" where
  "engine_runner = sample_runner\<lparr>sr_registry := engine_registry\<rparr>"

definition canned_client :: "(file_system \<times> nat) routing_client" where
  "canned_client req = give
     [Text_Block ''Two steps.'',
      Tool_Use_Block ''t'' ''decompose_goal'' (Some [''sub_goals'' \<mapsto> JList
        [JObject [(''sub_goal'', JString '' load orders ''), (''classification'', JString ''new_pipeline'')],
         JObject [(''sub_goal'', JString ''stage orders''), (''classification'', JString ''new_model'')]]])]"

definition sample_goals :: "sub_goal list" where
  "sample_goals = [\<lparr>sg_sub_goal = ''load orders'', sg_classification = ''new_pipeline''\<rparr>,
                   \<lparr>sg_sub_goal = ''stage orders'', sg_classification = ''new_model''\<rparr>]"

lemma engine_runner_quiet: "quiet_runner engine_runner"
proof -
  have "foreign_tools engine_runner spec = {}"
    if "resolve_agent (sr_registry engine_runner) agent = Some spec" for agent spec
    using that
    by (auto simp: resolve_agent_def engine_runner_def engine_registry_def sample_runner_def register_def
        foreign_tools_def spec_from_agent_file_def declarative_tool_factory_def sample_engineer_def
        sample_developer_def split: if_splits)
  then have "foreign_writes_gated engine_runner spec"
    if "resolve_agent (sr_registry engine_runner) agent = Some spec" for agent spec
    using that by (simp add: foreign_writes_gated_def)
  then show ?thesis
    by (auto simp: quiet_runner_def engine_runner_def sample_runner_def service_keeps_files_def edit_submit_stop_def
        others_keep_files_def keeps_files_def hooks_keep_files_def Let_def)
qed

theorem decomposed_goals_route_witness:
  "fst (decompose_goal canned_client ''m'' engine_registry ''load and stage orders'' (sample_files, 0)) = Inr sample_goals \<and>
   list_all (\<lambda>g. is_ok (select_agent engine_registry (Some (sg_classification g)) None)) sample_goals"
proof -
  have "fst (decompose_goal canned_client ''m'' engine_registry ''load and stage orders'' (sample_files, 0)) = Inr sample_goals"
    by code_simp
  then obtain w' where run:
      "decompose_goal canned_client ''m'' engine_registry ''load and stage orders'' (sample_files, 0) = (Inr sample_goals, w')"
    by (metis prod.collapse)
  with decomposed_goals_route [OF run] show ?thesis by (simp add: list_all_iff)
qed

theorem reviewer_sequence_is_union_witness:
  "select_reviewer_sequence engine_registry [''new_model'', ''new_pipeline'', ''new_model''] =
     Inr [''dbt-qa'', ''dlt-qa'', ''dlt-security''] \<and> distinct [''dbt-qa'', ''dlt-qa'', ''dlt-security'']"
proof -
  have sel: "select_reviewer_sequence engine_registry [''new_model'', ''new_pipeline'', ''new_model''] =
     Inr [''dbt-qa'', ''dlt-qa'', ''dlt-security'']" by code_simp
  with reviewer_sequence_is_union [OF sel] show ?thesis by blast
qed


end
