(* ===== verification/Build_Flow.thy ===== *)
theory Build_Flow
  imports Project_Store Goal_Routing
begin

text \<open>
  \<open>carve build\<close>: \<open>build_plan\<close> of \<open>cli/orchestrator/builder.py\<close> with its two paths, the single
  agent and the engineers followed by the review gate.

  The state is the committed store (theory \<open>Project_Store\<close>), the files and the rest of the world.
  Every call of the repository is one transaction; \<open>be_store_up\<close> says which of them reach the
  database, and a call that does not raises and changes nothing. The clock and the drawn ids are
  given per call. Arguments stand for the prompt texts, the hooks file and its commands, the
  agents directory, the listing of a directory, the writer of \<open>destination.toml\<close> and the wording
  of exceptions.
\<close>

section \<open>Designs\<close>

type_synonym design = "(string \<times> json) list"

datatype build_exc =
    Plan_Not_Found string
  | Config_Drift string string string
  | Plan_Expired string int
  | Wrong_Phase string
  | Bad_Task_Graph string
  | Missing_Design string
  | Bad_Pipeline_Name json
  | Bad_Target target_error
  | Client_Missing
  | Store_Failed db_error
  | Store_Down
  | Setup_Failed string
  | Hooks_Malformed string
  | Engine_Raised engine_error
  | Agent_Raised loop_error
  | Review_Raised fan_out_error
  | File_Failed os_error
  | Outside_Project path_parts
  | Wrapped build_exc
  | Post_Hook_Raised string

definition load_plan_design :: "plan \<Rightarrow> build_exc + design" where
  "load_plan_design p =
     (case pl_task_graph p of
        JNull \<Rightarrow> Inl (Missing_Design (pl_id p))
      | JObject kvs \<Rightarrow>
          (case map_of kvs ''design'' of
             Some (JObject d) \<Rightarrow> Inr d
           | _ \<Rightarrow> Inl (Missing_Design (pl_id p)))
      | _ \<Rightarrow> Inl (Bad_Task_Graph (pl_id p)))"

text \<open>The overrides of the command line; an empty value clears the field.\<close>

definition override_destination :: "(string \<times> string) list \<Rightarrow> design \<Rightarrow> design" where
  "override_destination overrides d =
     (if overrides = [] then d
      else (let block = (case map_of d ''destination'' of Some (JObject kvs) \<Rightarrow> kvs | _ \<Rightarrow> [])
            in AList.update ''destination''
                 (JObject (fold (\<lambda>(k, v) kvs. if v = [] then AList.delete k kvs else AList.update k (JString v) kvs)
                   overrides block)) d))"

definition pipeline_name_from :: "plan \<Rightarrow> design \<Rightarrow> build_exc + string" where
  "pipeline_name_from p d =
     (let candidate = (if present (pl_pipeline_name p) then JString (the (pl_pipeline_name p))
                       else (case map_of d ''pipeline_name'' of None \<Rightarrow> JNull | Some j \<Rightarrow> j))
      in case candidate of
           JString s \<Rightarrow> (case validate_artifact_name s of Inl _ \<Rightarrow> Inl (Bad_Pipeline_Name candidate) | Inr n \<Rightarrow> Inr n)
         | _ \<Rightarrow> Inl (Bad_Pipeline_Name candidate))"

definition design_description :: "design \<Rightarrow> string" where
  "design_description d = (case map_of d ''description'' of Some (JString s) \<Rightarrow> s | _ \<Rightarrow> [])"

definition extract_requirements :: "design \<Rightarrow> string list" where
  "extract_requirements d =
     (case map_of d ''requirements'' of
        Some (JList items) \<Rightarrow>
          (case all_strings items of Some ss \<Rightarrow> ss | None \<Rightarrow> [''snowflake-connector-python''])
      | _ \<Rightarrow> [''snowflake-connector-python''])"

fun reconstruct_entries :: "json list \<Rightarrow> sub_goal list" where
  "reconstruct_entries [] = []"
| "reconstruct_entries (JObject kvs # entries) =
     (case (stripped_text (map_of kvs ''sub_goal''), stripped_text (map_of kvs ''classification'')) of
        (Some g, Some c) \<Rightarrow> \<lparr>sg_sub_goal = g, sg_classification = c\<rparr> # reconstruct_entries entries
      | _ \<Rightarrow> reconstruct_entries entries)"
| "reconstruct_entries (j # entries) = reconstruct_entries entries"

definition reconstruct_sub_goals :: "design \<Rightarrow> sub_goal list" where
  "reconstruct_sub_goals d =
     (case map_of d ''planned_by_engine'' of Some (JList entries) \<Rightarrow> reconstruct_entries entries | _ \<Rightarrow> [])"

fun string_items :: "json list \<Rightarrow> string list" where
  "string_items [] = []"
| "string_items (JString s # items) = s # string_items items"
| "string_items (j # items) = string_items items"

definition string_list_at :: "(string \<times> json) list \<Rightarrow> string \<Rightarrow> string list" where
  "string_list_at kvs k = (case map_of kvs k of Some (JList items) \<Rightarrow> string_items items | _ \<Rightarrow> [])"

fun entry_files :: "json list \<Rightarrow> string list" where
  "entry_files [] = []"
| "entry_files (JObject kvs # entries) = string_list_at kvs ''files'' @ entry_files entries"
| "entry_files (j # entries) = entry_files entries"

definition planned_files :: "design \<Rightarrow> string list" where
  "planned_files d =
     first_places ((case map_of d ''planned_by_engine'' of Some (JList entries) \<Rightarrow> entry_files entries | _ \<Rightarrow> [])
       @ string_list_at d ''planned_files'')"

section \<open>Artifacts\<close>

record build_artifact =
  ba_plan_id :: string
  ba_pipeline_name :: string
  ba_pipeline_dir :: string
  ba_target :: string
  ba_files_written :: "string list"
  ba_summary :: string
  ba_run_id :: string
  ba_success :: bool
  ba_build_id :: "string option"
  ba_tokens_input :: int
  ba_tokens_output :: int
  ba_cost_usd :: rat
  ba_review_passed :: bool
  ba_review_findings :: "json list"
  ba_review_blocking_count :: nat

fun severity_value :: "severity \<Rightarrow> string" where
  "severity_value Blocker = ''blocker''"
| "severity_value Major = ''major''"
| "severity_value Minor = ''minor''"
| "severity_value Info = ''info''"

definition finding_summary :: "finding \<Rightarrow> json" where
  "finding_summary f =
     JObject [(''reviewer'', JString (fd_reviewer f)), (''severity'', JString (severity_value (fd_severity f))),
              (''file'', JString (fd_file f)), (''line'', opt_json JInt (fd_line f)),
              (''message'', JString (fd_message f))]"

definition blocking_findings :: "review_result option \<Rightarrow> finding list" where
  "blocking_findings review = (case review of None \<Rightarrow> [] | Some r \<Rightarrow> filter failing (rr_findings r))"

definition review_manifest_block :: "review_result \<Rightarrow> json" where
  "review_manifest_block r =
     JObject [(''passed'', JBool (rr_passed r)), (''findings'', JList (map finding_summary (rr_findings r)))]"

fun join_bar :: "string list \<Rightarrow> string" where
  "join_bar [] = []"
| "join_bar [s] = s"
| "join_bar (s # t # ts) = s @ '' | '' @ join_bar (t # ts)"

definition summarize_findings :: "finding list \<Rightarrow> string" where
  "summarize_findings fs =
     join_bar (map (\<lambda>f. ''['' @ severity_value (fd_severity f) @ ''] '' @ fd_reviewer f @ '' '' @ fd_file f
                          @ '': '' @ fd_message f) fs)"

definition union_files_changed :: "delegation_result list \<Rightarrow> string list" where
  "union_files_changed results = add_new (concat (map dr_files_changed results)) []"

definition multi_engine_artifact ::
  "string \<Rightarrow> string \<Rightarrow> string \<Rightarrow> string list \<Rightarrow> string \<Rightarrow> string \<Rightarrow> bool \<Rightarrow> string option \<Rightarrow>
     cost_rollup \<Rightarrow> review_result option \<Rightarrow> build_artifact" where
  "multi_engine_artifact plan_id name target files summary run_id success build_id rollup review =
     \<lparr>ba_plan_id = plan_id, ba_pipeline_name = name, ba_pipeline_dir = ''el/'' @ name, ba_target = target,
      ba_files_written = files, ba_summary = summary, ba_run_id = run_id, ba_success = success,
      ba_build_id = build_id, ba_tokens_input = input_tokens (cu_usage rollup),
      ba_tokens_output = output_tokens (cu_usage rollup), ba_cost_usd = cu_cost_usd rollup,
      ba_review_passed = (case review of None \<Rightarrow> True | Some r \<Rightarrow> rr_passed r),
      ba_review_findings = (case review of None \<Rightarrow> [] | Some r \<Rightarrow> map finding_summary (rr_findings r)),
      ba_review_blocking_count = length (blocking_findings review)\<rparr>"

section \<open>The environment of a build\<close>

datatype store_call =
    Call_Get_Plan | Call_Get_Pipeline | Call_Get_Build | Call_Create_Run | Call_Running | Call_Failed
  | Call_Upsert_Pipeline | Call_Attach_Run | Call_Create_Build | Call_Set_Current | Call_Mark_Built | Call_Success

datatype hook_exc = Hook_Execution_Error string | Other_Hook_Error string

type_synonym 'x lifecycle_hook = "(string \<times> json) list \<Rightarrow> (hook_exc, file_system \<times> 'x, unit) action"

record 'x build_env =
  be_project_dir :: path_parts
  be_os :: os_env
  be_diff :: diff_env
  be_validate :: finding_validator
  be_config_hash :: string
  be_env_target :: "string option"
  be_default_target :: "string option"
  be_client_ok :: bool
  be_delegation :: "'x delegation_env"
  be_registry :: "file_system \<times> 'x \<Rightarrow> string + (file_system \<times> 'x) registry"
  be_hooks :: "file_system \<times> 'x \<Rightarrow> string + (file_system \<times> 'x) hook_factory \<times> 'x lifecycle_hook option"
  be_loop_config :: "design \<Rightarrow> string \<Rightarrow> file_system \<times> 'x \<Rightarrow> string + (file_system \<times> 'x) loop_config"
  be_listing :: "path_parts \<Rightarrow> file_system \<times> 'x \<Rightarrow> (path_parts \<times> int) list"
  be_write_destination :: "design \<Rightarrow> string \<Rightarrow> string \<Rightarrow> (os_error, file_system \<times> 'x, path_parts option) action"
  be_store_up :: "store_call \<Rightarrow> bool"
  be_at :: "store_call \<Rightarrow> int"
  be_run_id :: string
  be_build_fresh :: string
  be_describe :: "subagent_error \<Rightarrow> string"
  be_is_agent_error :: "string \<Rightarrow> bool"
  be_text :: "build_exc \<Rightarrow> string"

type_synonym 'x build_state = "project \<times> file_system \<times> 'x"
type_synonym ('x, 'a) build_action = "(build_exc, 'x build_state, 'a) action"

definition store_call :: "'x build_env \<Rightarrow> store_call \<Rightarrow> (project \<Rightarrow> db_error + 'a \<times> project) \<Rightarrow> ('x, 'a) build_action" where
  "store_call env c f s =
     (if be_store_up env c
      then (case f (fst s) of
              Inl e \<Rightarrow> (Inl (Store_Failed e), s)
            | Inr (x, pd') \<Rightarrow> (Inr x, (pd', snd s)))
      else (Inl Store_Down, s))"

definition store_write :: "'x build_env \<Rightarrow> store_call \<Rightarrow> (project \<Rightarrow> db_error + project) \<Rightarrow> ('x, unit) build_action" where
  "store_write env c f = store_call env c (\<lambda>pd. bind_result (f pd) (\<lambda>pd'. Inr ((), pd')))"

definition store_read :: "'x build_env \<Rightarrow> store_call \<Rightarrow> (project \<Rightarrow> 'a) \<Rightarrow> ('x, 'a) build_action" where
  "store_read env c f = store_call env c (\<lambda>pd. Inr (f pd, pd))"

definition world :: "(build_exc, file_system \<times> 'x, 'a) action \<Rightarrow> ('x, 'a) build_action" where
  "world m = on_right m"

definition set_run :: "'x build_env \<Rightarrow> store_call \<Rightarrow> run_row_status \<Rightarrow> string option \<Rightarrow> ('x, unit) build_action" where
  "set_run env c status message =
     store_write env c (\<lambda>pd. on_store pd (update_run_status (pd_store pd) (be_run_id env) (be_at env c) status message))"

definition open_run :: "'x build_env \<Rightarrow> string \<Rightarrow> ('x, unit) build_action" where
  "open_run env plan_id =
     bind_act (store_write env Call_Create_Run (\<lambda>pd. on_store pd
       (create_run (pd_store pd) (be_run_id env) (be_at env Call_Create_Run) ''build'' plan_id None None None)))
       (\<lambda>_. set_run env Call_Running Run_Row_Running None)"

definition fail_run :: "'x build_env \<Rightarrow> string \<Rightarrow> ('x, unit) build_action" where
  "fail_run env message = set_run env Call_Failed Run_Row_Failed (Some message)"

section \<open>Recording a build\<close>

text \<open>The calls both paths make once the work is accepted, in their order.\<close>

definition persist_build ::
  "'x build_env \<Rightarrow> string \<Rightarrow> string \<Rightarrow> design \<Rightarrow> string \<Rightarrow> json \<Rightarrow> ('x, build) build_action" where
  "persist_build env plan_id name d target manifest =
     bind_act (store_write env Call_Upsert_Pipeline (\<lambda>pd. Inr
       (create_or_update_pipeline pd (be_at env Call_Upsert_Pipeline) name (design_description d) (''el/'' @ name)))) (\<lambda>_.
     bind_act (store_write env Call_Attach_Run (\<lambda>pd. on_store pd
       (attach_pipeline_to_run (pd_store pd) (be_run_id env) name))) (\<lambda>_.
     bind_act (store_call env Call_Create_Build (\<lambda>pd.
       create_build pd (be_at env Call_Create_Build) (be_build_fresh env) name plan_id target (Some manifest))) (\<lambda>b.
     bind_act (store_write env Call_Set_Current (\<lambda>pd.
       set_pipeline_current_build pd (be_at env Call_Set_Current) name (bd_id b))) (\<lambda>_.
     bind_act (store_write env Call_Mark_Built (\<lambda>pd. mark_plan_built pd plan_id name)) (\<lambda>_.
     bind_act (set_run env Call_Success Run_Row_Success None) (\<lambda>_. give b))))))"

definition fire_post_build :: "'x lifecycle_hook option \<Rightarrow> (string \<times> json) list \<Rightarrow> ('x, unit) build_action" where
  "fire_post_build hook payload =
     (case hook of
        None \<Rightarrow> give ()
      | Some h \<Rightarrow> world (attempt (h payload)
          (\<lambda>e. case e of Hook_Execution_Error _ \<Rightarrow> give () | Other_Hook_Error m \<Rightarrow> raise (Post_Hook_Raised m))))"

definition post_build_payload :: "string \<Rightarrow> string \<Rightarrow> string \<Rightarrow> string \<Rightarrow> string list \<Rightarrow> (string \<times> json) list" where
  "post_build_payload name build_id target plan_id files =
     [(''pipeline_name'', JString name), (''build_id'', JString build_id), (''target'', JString target),
      (''plan_id'', JString plan_id), (''files'', JList (map JString files))]"

section \<open>The multi-engine path\<close>

text \<open>The text of each planned file that exists, by its resolved path; a file that is no text is left out.\<close>

fun snapshot_files :: "'x build_env \<Rightarrow> string list \<Rightarrow> file_system \<Rightarrow> os_error + (path_parts \<rightharpoonup> string)" where
  "snapshot_files env [] fs = Inr Map.empty"
| "snapshot_files env (rel # rels) fs =
     (let p = os_resolve (be_os env) (join_path (be_project_dir env) rel)
      in if is_file_node (fs p)
         then bind_result (read_text (be_os env) p fs) (\<lambda>content.
              bind_result (snapshot_files env rels fs) (\<lambda>m.
                Inr (if df_text (be_diff env) content then m(p \<mapsto> content) else m)))
         else snapshot_files env rels fs)"

datatype gate_outcome = Gate_Blocked build_artifact | Gate_Shipped build review_result

definition read_registry :: "'x build_env \<Rightarrow> ('x, (file_system \<times> 'x) registry) build_action" where
  "read_registry env = world (bind_act (asks (be_registry env)) (\<lambda>r. with_error Setup_Failed (of_result r)))"

definition read_hooks ::
  "'x build_env \<Rightarrow> ('x, (file_system \<times> 'x) hook_factory \<times> 'x lifecycle_hook option) build_action" where
  "read_hooks env = world (bind_act (asks (be_hooks env)) (\<lambda>r. with_error Hooks_Malformed (of_result r)))"

text \<open>What the \<open>except\<close> clause around review and persistence re-raises as it is.\<close>

fun build_or_agent_error :: "'x build_env \<Rightarrow> build_exc \<Rightarrow> bool" where
  "build_or_agent_error env (Review_Raised (Review_Route _)) = True"
| "build_or_agent_error env (Review_Raised (Review_Failed (Delegation_Raised m))) = be_is_agent_error env m"
| "build_or_agent_error env _ = False"

definition review_and_persist ::
  "'x build_env \<Rightarrow> plan \<Rightarrow> sub_goal list \<Rightarrow> design \<Rightarrow> string \<Rightarrow> string \<Rightarrow>
     (file_system \<times> 'x) registry \<Rightarrow> (file_system \<times> 'x) hook_factory \<Rightarrow> (path_parts \<rightharpoonup> string) \<Rightarrow>
     cost_rollup \<Rightarrow> string list \<Rightarrow> ('x, gate_outcome) build_action" where
  "review_and_persist env p sub_goals d name target reg factory pre_build rollup authored =
     bind_act (world (with_error Review_Raised
       (run_review_fan_out (be_describe env) (be_validate env) (be_os env) (be_diff env) (be_project_dir env) reg
          (build_runner (be_delegation env) reg READ_ONLY (Some factory)) pre_build
          (map sg_classification sub_goals) authored (pl_goal p)))) (\<lambda>review.
     if \<not> rr_passed review then
       (let blockers = blocking_findings (Some review)
        in bind_act (fail_run env (''Review gate blocked the build: '' @ str_nat (length blockers)
                      @ '' blocker/major finding(s). '' @ summarize_findings blockers)) (\<lambda>_.
           give (Gate_Blocked (multi_engine_artifact (pl_id p) name target authored (summarize_findings blockers)
             (be_run_id env) False None rollup (Some review)))))
     else
       bind_act (persist_build env (pl_id p) name d target
         (JObject [(''files'', JList (map JString authored)), (''review'', review_manifest_block review)])) (\<lambda>b.
       give (Gate_Shipped b review)))"

definition run_guarded :: "'x build_env \<Rightarrow> (build_exc \<Rightarrow> build_exc) \<Rightarrow> ('x, 'a) build_action \<Rightarrow> ('x, 'a) build_action" where
  "run_guarded env rename m =
     attempt m (\<lambda>exc. bind_act (fail_run env (be_text env exc)) (\<lambda>_. raise (rename exc)))"

text \<open>What follows the engineers: their failure, or the gate, the record and the hook.\<close>

definition ship ::
  "plan \<Rightarrow> string \<Rightarrow> string \<Rightarrow> string \<Rightarrow> 'x lifecycle_hook option \<Rightarrow> cost_rollup \<Rightarrow> string list \<Rightarrow>
     gate_outcome \<Rightarrow> ('x, build_artifact) build_action" where
  "ship p run_id name target post_hook rollup authored outcome =
     (case outcome of
        Gate_Blocked artifact \<Rightarrow> give artifact
      | Gate_Shipped b review \<Rightarrow>
          bind_act (fire_post_build post_hook (post_build_payload name (bd_id b) target (pl_id p) authored)) (\<lambda>_.
          give (multi_engine_artifact (pl_id p) name target authored
            (let s = summarize_findings (rr_findings review) in if s = [] then ''Built; review clean.'' else s)
            run_id True (Some (bd_id b)) rollup (Some review))))"

definition gate_and_ship ::
  "'x build_env \<Rightarrow> plan \<Rightarrow> sub_goal list \<Rightarrow> design \<Rightarrow> string \<Rightarrow> string \<Rightarrow>
     (file_system \<times> 'x) registry \<Rightarrow> (file_system \<times> 'x) hook_factory \<Rightarrow> 'x lifecycle_hook option \<Rightarrow>
     (path_parts \<rightharpoonup> string) \<Rightarrow> delegation_result list \<Rightarrow> ('x, build_artifact) build_action" where
  "gate_and_ship env p sub_goals d name target reg factory post_hook pre_build results =
     (let rollup = roll_up_cost results; authored = union_files_changed results
      in case List.find (\<lambda>r. dr_status r \<noteq> ''succeeded'') results of
           Some failed \<Rightarrow>
             bind_act (fail_run env (''A build engineer returned status='' @ py_repr (dr_status failed)
               @ '' (not a usable authored slice): '' @ dr_summary failed)) (\<lambda>_.
             give (multi_engine_artifact (pl_id p) name target authored (dr_summary failed) (be_run_id env)
               False None rollup None))
         | None \<Rightarrow>
             bind_act (run_guarded env (\<lambda>exc. if build_or_agent_error env exc then exc else Wrapped exc)
               (review_and_persist env p sub_goals d name target reg factory pre_build rollup authored))
               (ship p (be_run_id env) name target post_hook rollup authored))"

definition author_and_gate ::
  "'x build_env \<Rightarrow> plan \<Rightarrow> sub_goal list \<Rightarrow> design \<Rightarrow> string \<Rightarrow> string \<Rightarrow>
     (file_system \<times> 'x) registry \<Rightarrow> (file_system \<times> 'x) hook_factory \<Rightarrow> 'x lifecycle_hook option \<Rightarrow>
     (path_parts \<rightharpoonup> string) \<Rightarrow> ('x, build_artifact) build_action" where
  "author_and_gate env p sub_goals d name target reg factory post_hook pre_build =
     bind_act (run_guarded env id (world (with_error Engine_Raised
       (run_engines reg (build_runner (be_delegation env) reg BUILD (Some factory)) BUILD sub_goals))))
       (gate_and_ship env p sub_goals d name target reg factory post_hook pre_build)"

definition build_multi_engine ::
  "'x build_env \<Rightarrow> plan \<Rightarrow> sub_goal list \<Rightarrow> design \<Rightarrow> string \<Rightarrow> string \<Rightarrow> ('x, build_artifact) build_action" where
  "build_multi_engine env p sub_goals d name target =
     bind_act (open_run env (pl_id p)) (\<lambda>_.
     bind_act (world (bind_act (asks (\<lambda>w. snapshot_files env (planned_files d) (fst w)))
       (\<lambda>r. with_error File_Failed (of_result r)))) (\<lambda>pre_build.
     bind_act (read_registry env) (\<lambda>reg.
     bind_act (read_hooks env) (\<lambda>hooks.
       author_and_gate env p sub_goals d name target reg (fst hooks) (snd hooks) pre_build))))"

section \<open>The single-agent path\<close>

text \<open>Files added, or with a later modification time, since the listing before.\<close>

definition changed_files :: "(path_parts \<times> int) list \<Rightarrow> (path_parts \<times> int) list \<Rightarrow> path_parts list" where
  "changed_files snapshot listing =
     map fst (filter (\<lambda>(p, t). case map_of snapshot p of None \<Rightarrow> True | Some t0 \<Rightarrow> t0 < t) listing)"

definition relative_to :: "path_parts \<Rightarrow> path_parts \<Rightarrow> build_exc + string" where
  "relative_to base p = (if prefix base p then Inr (relative_str (drop (length base) p)) else Inl (Outside_Project p))"

fun relative_all :: "path_parts \<Rightarrow> path_parts list \<Rightarrow> build_exc + string list" where
  "relative_all base [] = Inr []"
| "relative_all base (p # ps) =
     bind_result (relative_to base p) (\<lambda>s. bind_result (relative_all base ps) (\<lambda>ss. Inr (s # ss)))"

definition run_build_agent ::
  "'x build_env \<Rightarrow> string \<Rightarrow> (file_system \<times> 'x) loop_config \<Rightarrow> ('x, agent_result) build_action" where
  "run_build_agent env name cfg =
     world (\<lambda>w.
       case run_loop (de_client (be_delegation env)) cfg quiet_between
              (''Build the pipeline `'' @ name @ ''`. Write `el/'' @ name @ ''/main.py` and `el/'' @ name
                @ ''/requirements.txt` per the design preamble.'')
              (de_max_turns (be_delegation env)) (initial_state None None) w of
         (Inl e, s, w') \<Rightarrow> (Inl (Agent_Raised e), w')
       | (Inr res, s, w') \<Rightarrow> (Inr res, w'))"

definition write_requirements :: "'x build_env \<Rightarrow> path_parts \<Rightarrow> design \<Rightarrow> ('x, path_parts) build_action" where
  "write_requirements env dir d =
     (let p = dir @ [''requirements.txt'']
      in bind_act (world (on_left (with_error File_Failed
           (mkdir_and_write (be_os env) p (join_lines (extract_requirements d) @ [CHR 0x0A]))))) (\<lambda>_.
         give (os_resolve (be_os env) p)))"

definition single_artifact ::
  "'x build_env \<Rightarrow> string \<Rightarrow> string \<Rightarrow> string \<Rightarrow> string list \<Rightarrow> agent_result \<Rightarrow> bool \<Rightarrow> string option \<Rightarrow> build_artifact" where
  "single_artifact env plan_id name target files res success build_id =
     \<lparr>ba_plan_id = plan_id, ba_pipeline_name = name, ba_pipeline_dir = ''el/'' @ name, ba_target = target,
      ba_files_written = files, ba_summary = ar_text res, ba_run_id = be_run_id env, ba_success = success,
      ba_build_id = build_id, ba_tokens_input = input_tokens (ar_usage res),
      ba_tokens_output = output_tokens (ar_usage res),
      ba_cost_usd = compute_cost_usd (de_model (be_delegation env)) (ar_usage res),
      ba_review_passed = True, ba_review_findings = [], ba_review_blocking_count = 0\<rparr>"

definition build_single ::
  "'x build_env \<Rightarrow> plan \<Rightarrow> design \<Rightarrow> string \<Rightarrow> string \<Rightarrow> ('x, build_artifact) build_action" where
  "build_single env p d name target =
     (let dir = be_project_dir env @ [''el'', name]
      in bind_act (world (asks (be_listing env dir))) (\<lambda>snapshot.
         bind_act (open_run env (pl_id p)) (\<lambda>_.
         bind_act (read_hooks env) (\<lambda>_.
         bind_act (world (bind_act (asks (be_loop_config env d name)) (\<lambda>r. with_error Setup_Failed (of_result r)))) (\<lambda>cfg.
         bind_act (run_guarded env id (run_build_agent env name cfg)) (\<lambda>res.
         bind_act (world (asks (be_listing env dir))) (\<lambda>listing.
         let written = changed_files snapshot listing
         in if \<not> list_ex (\<lambda>q. last_part q = ''main.py'') written then
              bind_act (fail_run env ''Build agent finished without writing main.py.'') (\<lambda>_.
              bind_act (of_result (relative_all (be_project_dir env) written)) (\<lambda>files.
              give (single_artifact env (pl_id p) name target (sort files) res False None)))
            else
              bind_act (if list_ex (\<lambda>q. last_part q = ''requirements.txt'') written then give []
                        else bind_act (write_requirements env dir d) (\<lambda>q. give [q])) (\<lambda>req.
              bind_act (world (with_error File_Failed (be_write_destination env d name target))) (\<lambda>dest.
              bind_act (of_result (relative_all (be_project_dir env)
                (written @ req @ (case dest of None \<Rightarrow> [] | Some q \<Rightarrow> [q])))) (\<lambda>rels.
              let files = sort rels
              in bind_act (persist_build env (pl_id p) name d target (JObject [(''files'', JList (map JString files))])) (\<lambda>b.
                 bind_act (read_hooks env) (\<lambda>(_, post_hook).
                 bind_act (fire_post_build post_hook (post_build_payload name (bd_id b) target (pl_id p) files)) (\<lambda>_.
                 give (single_artifact env (pl_id p) name target files res True (Some (bd_id b))))))))))))))))"

section \<open>The entry point\<close>

fun present_files :: "'x build_env \<Rightarrow> file_system \<Rightarrow> json list \<Rightarrow> string list option" where
  "present_files env fs [] = Some []"
| "present_files env fs (JString f # items) =
     (if is_file_node (fs (os_resolve (be_os env) (join_path (be_project_dir env) f)))
      then map_option (\<lambda>rest. f # rest) (present_files env fs items) else None)"
| "present_files env fs (j # items) = None"

definition noop_artifact :: "'x build_env \<Rightarrow> plan \<Rightarrow> pipeline_row \<Rightarrow> build \<Rightarrow> file_system \<Rightarrow> build_artifact option" where
  "noop_artifact env p row b fs =
     (if bd_plan_id b \<noteq> pl_id p then None
      else
        (case map_of (case bd_manifest b of JObject kvs \<Rightarrow> kvs | _ \<Rightarrow> []) ''files'' of
           Some (JList files) \<Rightarrow>
             (if files = [] then None
              else map_option (\<lambda>rels.
                \<lparr>ba_plan_id = pl_id p, ba_pipeline_name = pp_name row,
                 ba_pipeline_dir = (if pp_pipeline_dir row \<noteq> [] then pp_pipeline_dir row else ''el/'' @ pp_name row),
                 ba_target = bd_target b, ba_files_written = sort rels,
                 ba_summary = ''Plan '' @ pl_id p @ '' already built against unchanged config; reused build ''
                   @ bd_id b @ '' (no-op).'',
                 ba_run_id = [], ba_success = True, ba_build_id = Some (bd_id b), ba_tokens_input = 0,
                 ba_tokens_output = 0, ba_cost_usd = 0, ba_review_passed = True, ba_review_findings = [],
                 ba_review_blocking_count = 0\<rparr>) (present_files env fs files))
         | _ \<Rightarrow> None))"

definition idempotent_noop_artifact :: "'x build_env \<Rightarrow> plan \<Rightarrow> ('x, build_artifact option) build_action" where
  "idempotent_noop_artifact env p =
     (case pl_pipeline_name p of
        None \<Rightarrow> give None
      | Some name \<Rightarrow>
          bind_act (store_read env Call_Get_Pipeline (\<lambda>pd. get_pipeline pd name)) (\<lambda>row.
          case row of
            None \<Rightarrow> give None
          | Some r \<Rightarrow>
              (case pp_current_build_id r of
                 None \<Rightarrow> give None
               | Some i \<Rightarrow>
                   bind_act (store_read env Call_Get_Build (\<lambda>pd. get_build pd i)) (\<lambda>b.
                   case b of
                     None \<Rightarrow> give None
                   | Some b' \<Rightarrow> asks (\<lambda>s. noop_artifact env p r b' (fst (snd s)))))))"

definition materialise ::
  "'x build_env \<Rightarrow> plan \<Rightarrow> string option \<Rightarrow> (string \<times> string) list \<Rightarrow> ('x, build_artifact) build_action" where
  "materialise env p cli_flag overrides =
     bind_act (of_result (load_plan_design p)) (\<lambda>design.
     let d = override_destination overrides design
     in bind_act (of_result (pipeline_name_from p d)) (\<lambda>name.
        bind_act (with_error Bad_Target (of_result
          (resolve_active_target cli_flag (be_env_target env) (be_default_target env)))) (\<lambda>target.
        bind_act (check (be_client_ok env) Client_Missing) (\<lambda>_.
        let sub_goals = reconstruct_sub_goals d
        in if sub_goals \<noteq> [] then build_multi_engine env p sub_goals d name target
           else build_single env p d name target))))"

definition build_plan ::
  "'x build_env \<Rightarrow> string \<Rightarrow> string option \<Rightarrow> bool \<Rightarrow> (string \<times> string) list \<Rightarrow> int \<Rightarrow> ('x, build_artifact) build_action" where
  "build_plan env plan_id cli_flag force overrides now =
     bind_act (store_read env Call_Get_Plan (\<lambda>pd. get_plan pd plan_id)) (\<lambda>found.
     case found of
       None \<Rightarrow> raise (Plan_Not_Found plan_id)
     | Some p \<Rightarrow>
         bind_act (check (pl_config_hash p = be_config_hash env)
           (Config_Drift plan_id (pl_config_hash p) (be_config_hash env))) (\<lambda>_.
         bind_act (check (\<not> pl_expires_at p < now) (Plan_Expired plan_id (pl_expires_at p))) (\<lambda>_.
         bind_act (if pl_phase p = Built \<and> \<not> force then idempotent_noop_artifact env p else give None) (\<lambda>existing.
         case existing of
           Some artifact \<Rightarrow> give artifact
         | None \<Rightarrow>
             bind_act (check (pl_phase p = Drafted \<or> force) (Wrong_Phase plan_id)) (\<lambda>_.
             materialise env p cli_flag overrides)))))"


section \<open>Store calls\<close>

definition all_up :: "'x build_env \<Rightarrow> bool" where
  "all_up env \<longleftrightarrow> be_store_up env = (\<lambda>_. True)"

lemma store_call_up: "be_store_up env c \<Longrightarrow> f (fst s) = Inr (x, pd') \<Longrightarrow> store_call env c f s = (Inr x, (pd', snd s))"
  by (simp add: store_call_def)

lemma store_write_up: "be_store_up env c \<Longrightarrow> f (fst s) = Inr pd' \<Longrightarrow> store_write env c f s = (Inr (), (pd', snd s))"
  by (simp add: store_write_def store_call_def)

lemma store_read_up: "be_store_up env c \<Longrightarrow> store_read env c f s = (Inr (f (fst s)), s)"
  by (simp add: store_read_def store_call_def)

lemma store_call_down: "\<not> be_store_up env c \<Longrightarrow> store_call env c f s = (Inl Store_Down, s)"
  by (simp add: store_call_def)

lemma all_up_call [simp]: "all_up env \<Longrightarrow> be_store_up env c"
  by (simp add: all_up_def)

lemma all_up_rest: "all_up env \<Longrightarrow> \<forall>c. c \<noteq> d \<longrightarrow> be_store_up env c"
  by simp

text \<open>The tables a build is about, and the status of its run.\<close>

definition design_tables :: "project \<Rightarrow> plan list \<times> pipeline_row list \<times> build list" where
  "design_tables pd = (pd_plans pd, pd_pipelines pd, pd_builds pd)"

definition run_status :: "'x build_env \<Rightarrow> project \<Rightarrow> run_row_status option" where
  "run_status env pd = map_option r_status (find_run (db_runs (pd_store pd)) (be_run_id env))"

definition in_state :: "'x build_env \<Rightarrow> plan list \<times> pipeline_row list \<times> build list \<Rightarrow> run_row_status \<Rightarrow> 'x build_state \<Rightarrow> bool" where
  "in_state env T st s \<longleftrightarrow> project_ok (fst s) \<and> design_tables (fst s) = T \<and> run_status env (fst s) = Some st"

lemma set_run_spec:
  assumes "be_store_up env c" and "run_status env (fst s) \<noteq> None" and "project_ok (fst s)"
  shows "\<exists>pd'. set_run env c st msg s = (Inr (), (pd', snd s)) \<and> project_ok pd' \<and>
    design_tables pd' = design_tables (fst s) \<and> run_status env pd' = Some st"
proof -
  let ?pd = "fst s" and ?f = "set_run_status st msg (be_at env c)"
  let ?pd' = "?pd\<lparr>pd_store := (pd_store ?pd)\<lparr>db_runs := update_run (be_run_id env) ?f (db_runs (pd_store ?pd))\<rparr>\<rparr>"
  obtain r where r: "find_run (db_runs (pd_store ?pd)) (be_run_id env) = Some r"
    using assms(2) by (auto simp: run_status_def)
  have "set_run env c st msg s = (Inr (), (?pd', snd s))"
    unfolding set_run_def using r assms(1)
    by (intro store_write_up) (simp_all add: on_store_def update_run_status_def)
  moreover have "project_ok ?pd'" by (rule update_runs_ok [OF assms(3)]) simp_all
  moreover have "run_status env ?pd' = Some st"
    using r by (simp add: run_status_def find_run_update) (simp add: set_run_status_def Let_def)
  ultimately show ?thesis by (simp add: design_tables_def)
qed

lemma set_run_in_state:
  assumes "be_store_up env c" and "in_state env T st0 s"
  shows "\<exists>s'. set_run env c st msg s = (Inr (), s') \<and> in_state env T st s' \<and> snd s' = snd s"
  using set_run_spec [OF assms(1), of s st msg] assms(2) by (fastforce simp: in_state_def)

lemma find_run_new: "i \<notin> r_id ` set rs \<Longrightarrow> r_id r = i \<Longrightarrow> find_run (rs @ [r]) i = Some r"
  unfolding find_run_def by (induction rs) auto

lemma create_run_project:
  assumes "project_ok pd" and "i \<notin> set (run_ids (pd_store pd))"
  shows "\<exists>pd'. on_store pd (create_run (pd_store pd) i t kind target_id None None None) = Inr pd' \<and>
    project_ok pd' \<and> design_tables pd' = design_tables pd \<and>
    (\<exists>r. find_run (db_runs (pd_store pd')) i = Some r \<and> r_status r = Run_Row_Queued)"
proof -
  obtain pd' where pd': "on_store pd (create_run (pd_store pd) i t kind target_id None None None) = Inr pd'"
    using assms(2) by (simp add: on_store_def create_run_def run_ids_def)
  moreover have "project_ok pd'" by (rule create_run_ok [OF assms(1) pd'])
  moreover have "\<exists>r. find_run (db_runs (pd_store pd')) i = Some r \<and> r_status r = Run_Row_Queued"
    using pd' find_run_new [where rs = "db_runs (pd_store pd)" and i = i] assms(2)
    by (auto simp: on_store_def create_run_def Let_def run_ids_def)
  moreover have "design_tables pd' = design_tables pd"
    using pd' by (auto simp: on_store_def create_run_def Let_def design_tables_def split: if_splits)
  ultimately show ?thesis by blast
qed

lemma open_run_spec:
  assumes up: "be_store_up env Call_Create_Run" "be_store_up env Call_Running"
    and ok: "project_ok (fst s)" and fresh: "be_run_id env \<notin> set (run_ids (pd_store (fst s)))"
  shows "\<exists>s'. open_run env plan_id s = (Inr (), s') \<and> snd s' = snd s \<and>
    in_state env (design_tables (fst s)) Run_Row_Running s'"
proof -
  obtain pd1 where pd1: "on_store (fst s) (create_run (pd_store (fst s)) (be_run_id env)
      (be_at env Call_Create_Run) ''build'' plan_id None None None) = Inr pd1"
      "project_ok pd1" "design_tables pd1 = design_tables (fst s)" "run_status env pd1 = Some Run_Row_Queued"
    using create_run_project [OF ok fresh, of "be_at env Call_Create_Run" "''build''" plan_id]
    by (auto simp: run_status_def)
  have first: "store_write env Call_Create_Run (\<lambda>pd. on_store pd (create_run (pd_store pd) (be_run_id env)
      (be_at env Call_Create_Run) ''build'' plan_id None None None)) s = (Inr (), (pd1, snd s))"
    using up(1) pd1(1) by (intro store_write_up) simp_all
  have "in_state env (design_tables (fst s)) Run_Row_Queued (pd1, snd s)" using pd1 by (simp add: in_state_def)
  from set_run_in_state [OF up(2) this, of Run_Row_Running None] first show ?thesis
    by (auto simp: open_run_def)
qed

section \<open>A recorded build\<close>

text \<open>What a recorded build leaves in the store.\<close>

definition shipped :: "'x build_env \<Rightarrow> string \<Rightarrow> string \<Rightarrow> string \<Rightarrow> json \<Rightarrow> build \<Rightarrow> 'x build_state \<Rightarrow> bool" where
  "shipped env plan_id name target manifest b s \<longleftrightarrow>
     project_ok (fst s) \<and>
     b = \<lparr>bd_id = ''build_'' @ be_build_fresh env, bd_pipeline_name = name, bd_plan_id = plan_id,
          bd_target = target, bd_created_at = be_at env Call_Create_Build, bd_manifest = manifest\<rparr> \<and>
     get_build (fst s) (bd_id b) = Some b \<and>
     map_option pp_current_build_id (get_pipeline (fst s) name) = Some (Some (bd_id b)) \<and>
     map_option pl_phase (get_plan (fst s) plan_id) = Some Built \<and>
     map_option pl_pipeline_name (get_plan (fst s) plan_id) = Some (Some name) \<and>
     run_status env (fst s) = Some Run_Row_Success"

lemma find_key_update_same:
  "(\<And>x. key (f x) = key x) \<Longrightarrow> find_key key (update_key key k f xs) k = map_option f (find_key key xs k)"
  by (simp add: find_key_update)

lemma upsert_pipeline:
  "\<exists>row. get_pipeline (create_or_update_pipeline pd t name desc dir) name = Some row"
  by (cases "get_pipeline pd name")
    (auto simp: create_or_update_pipeline_def get_pipeline_def find_key_new find_key_update_same)

lemma upsert_pipeline_rest [simp]:
  "pd_builds (create_or_update_pipeline pd t name desc dir) = pd_builds pd"
  "pd_plans (create_or_update_pipeline pd t name desc dir) = pd_plans pd"
  "db_runs (pd_store (create_or_update_pipeline pd t name desc dir)) = db_runs (pd_store pd)"
  by (simp_all add: create_or_update_pipeline_def split: option.split)

text \<open>The first four calls, which leave the plan alone.\<close>

lemma current_build_set:
  assumes ok: "project_ok pd" and row: "get_pipeline pd name = Some row"
    and plan: "get_plan pd plan_id = Some p" and fresh: "''build_'' @ fresh \<notin> set (map bd_id (pd_builds pd))"
  shows "\<exists>b pd1 pd2. create_build pd t fresh name plan_id target (Some m) = Inr (b, pd1) \<and>
    b = \<lparr>bd_id = ''build_'' @ fresh, bd_pipeline_name = name, bd_plan_id = plan_id, bd_target = target,
         bd_created_at = t, bd_manifest = m\<rparr> \<and>
    set_pipeline_current_build pd1 t' name (bd_id b) = Inr pd2 \<and> project_ok pd2 \<and>
    get_build pd2 (bd_id b) = Some b \<and>
    map_option pp_current_build_id (get_pipeline pd2 name) = Some (Some (bd_id b)) \<and>
    pd_plans pd2 = pd_plans pd \<and> pd_store pd2 = pd_store pd"
proof -
  define b where "b = \<lparr>bd_id = ''build_'' @ fresh, bd_pipeline_name = name, bd_plan_id = plan_id,
    bd_target = target, bd_created_at = t, bd_manifest = m\<rparr>"
  have keys: "name \<in> pp_name ` set (pd_pipelines pd)" "plan_id \<in> pl_id ` set (pd_plans pd)"
    using find_key_in [of pp_name "pd_pipelines pd" name] find_key_in [of pl_id "pd_plans pd" plan_id] row plan
    by (simp_all add: get_pipeline_def get_plan_def)
  let ?pd1 = "pd\<lparr>pd_builds := pd_builds pd @ [b]\<rparr>"
  let ?f = "\<lambda>p. p\<lparr>pp_current_build_id := Some (bd_id b), pp_updated_at := t'\<rparr>"
  let ?pd2 = "?pd1\<lparr>pd_pipelines := update_key pp_name name ?f (pd_pipelines pd)\<rparr>"
  have one: "create_build pd t fresh name plan_id target (Some m) = Inr (b, ?pd1)"
    using keys fresh by (simp add: create_build_def b_def Let_def Project_Store.or_else_def)
  have row1: "get_pipeline ?pd1 name = Some row" using row by (simp add: get_pipeline_def)
  have two: "set_pipeline_current_build ?pd1 t' name (bd_id b) = Inr ?pd2"
    by (simp add: set_pipeline_current_build_def row1)
  have ok2: "project_ok ?pd2" by (rule set_pipeline_current_build_ok [OF create_build_ok [OF ok one] two])
  have "find_key bd_id (pd_builds pd) (bd_id b) = None" using fresh by (simp add: find_key_None b_def)
  then have "get_build ?pd2 (bd_id b) = Some b" by (simp add: get_build_def find_key_new)
  moreover have "map_option pp_current_build_id (get_pipeline ?pd2 name) = Some (Some (bd_id b))"
    using row by (simp add: get_pipeline_def find_key_update_same)
  ultimately show ?thesis using one two ok2 b_def
    by (intro exI [of _ b] exI [of _ ?pd1] exI [of _ ?pd2]) simp
qed


text \<open>The calls up to the one that marks the plan.\<close>

lemma persist_until_mark:
  assumes up: "\<forall>c. c \<noteq> Call_Mark_Built \<longrightarrow> be_store_up env c" and st: "in_state env T Run_Row_Running s"
    and plan: "get_plan (fst s) plan_id = Some p"
    and fresh: "''build_'' @ be_build_fresh env \<notin> set (map bd_id (pd_builds (fst s)))"
  shows "\<exists>b pd4. persist_build env plan_id name d target m s =
      bind_act (store_write env Call_Mark_Built (\<lambda>pd. mark_plan_built pd plan_id name)) (\<lambda>_.
        bind_act (set_run env Call_Success Run_Row_Success None) (\<lambda>_. give b)) (pd4, snd s) \<and>
    b = \<lparr>bd_id = ''build_'' @ be_build_fresh env, bd_pipeline_name = name, bd_plan_id = plan_id,
         bd_target = target, bd_created_at = be_at env Call_Create_Build, bd_manifest = m\<rparr> \<and>
    project_ok pd4 \<and> get_build pd4 (bd_id b) = Some b \<and>
    map_option pp_current_build_id (get_pipeline pd4 name) = Some (Some (bd_id b)) \<and>
    pd_plans pd4 = pd_plans (fst s) \<and> run_status env pd4 = Some Run_Row_Running"
proof -
  have ok: "project_ok (fst s)" and running: "run_status env (fst s) = Some Run_Row_Running"
    using st by (simp_all add: in_state_def)
  define pd1 where "pd1 = create_or_update_pipeline (fst s) (be_at env Call_Upsert_Pipeline) name
    (design_description d) (''el/'' @ name)"
  have ok1: "project_ok pd1" unfolding pd1_def by (rule create_or_update_pipeline_ok [OF ok])
  obtain row where row: "get_pipeline pd1 name = Some row" unfolding pd1_def using upsert_pipeline by blast
  obtain r where r: "find_run (db_runs (pd_store pd1)) (be_run_id env) = Some r" "r_status r = Run_Row_Running"
    using running by (auto simp: run_status_def pd1_def)
  have name_in: "name \<in> set (db_pipelines (pd_store pd1))"
    using find_key_in [of pp_name "pd_pipelines pd1" name] row project_keys [OF ok1] by (simp add: get_pipeline_def)
  let ?f = "\<lambda>r. r\<lparr>r_pipeline_name := Some name\<rparr>"
  define pd2 where "pd2 = pd1\<lparr>pd_store := (pd_store pd1)\<lparr>db_runs := update_run (be_run_id env) ?f (db_runs (pd_store pd1))\<rparr>\<rparr>"
  have attach: "on_store pd1 (attach_pipeline_to_run (pd_store pd1) (be_run_id env) name) = Inr pd2"
    using r name_in by (simp add: on_store_def attach_pipeline_to_run_def pd2_def)
  have ok2: "project_ok pd2"
    using name_in unfolding pd2_def by (intro update_runs_ok [OF ok1]) (simp_all add: project_keys [OF ok1])
  have row2: "get_pipeline pd2 name = Some row" using row by (simp add: get_pipeline_def pd2_def)
  have plan2: "get_plan pd2 plan_id = Some p" using plan by (simp add: get_plan_def pd2_def pd1_def)
  have fresh2: "''build_'' @ be_build_fresh env \<notin> set (map bd_id (pd_builds pd2))"
    using fresh by (simp add: pd2_def pd1_def)
  obtain b pd3 pd4 where b: "create_build pd2 (be_at env Call_Create_Build) (be_build_fresh env) name plan_id
        target (Some m) = Inr (b, pd3)"
      "b = \<lparr>bd_id = ''build_'' @ be_build_fresh env, bd_pipeline_name = name, bd_plan_id = plan_id,
         bd_target = target, bd_created_at = be_at env Call_Create_Build, bd_manifest = m\<rparr>"
      "set_pipeline_current_build pd3 (be_at env Call_Set_Current) name (bd_id b) = Inr pd4" "project_ok pd4"
      "get_build pd4 (bd_id b) = Some b"
      "map_option pp_current_build_id (get_pipeline pd4 name) = Some (Some (bd_id b))"
      "pd_plans pd4 = pd_plans pd2" "pd_store pd4 = pd_store pd2"
    using current_build_set [OF ok2 row2 plan2 fresh2, where t = "be_at env Call_Create_Build" and
        target = target and m = m and t' = "be_at env Call_Set_Current"] by (elim exE conjE)
  have steps: "store_write env Call_Upsert_Pipeline (\<lambda>pd. Inr (create_or_update_pipeline pd
        (be_at env Call_Upsert_Pipeline) name (design_description d) (''el/'' @ name))) s = (Inr (), (pd1, snd s))"
      "store_write env Call_Attach_Run (\<lambda>pd. on_store pd (attach_pipeline_to_run (pd_store pd) (be_run_id env) name))
        (pd1, snd s) = (Inr (), (pd2, snd s))"
      "store_call env Call_Create_Build (\<lambda>pd. create_build pd (be_at env Call_Create_Build) (be_build_fresh env)
        name plan_id target (Some m)) (pd2, snd s) = (Inr b, (pd3, snd s))"
      "store_write env Call_Set_Current (\<lambda>pd. set_pipeline_current_build pd (be_at env Call_Set_Current) name (bd_id b))
        (pd3, snd s) = (Inr (), (pd4, snd s))"
    using up attach b(1,3) by (simp_all add: store_write_def store_call_def pd1_def)
  have "persist_build env plan_id name d target m s =
      bind_act (store_write env Call_Mark_Built (\<lambda>pd. mark_plan_built pd plan_id name)) (\<lambda>_.
        bind_act (set_run env Call_Success Run_Row_Success None) (\<lambda>_. give b)) (pd4, snd s)"
    unfolding persist_build_def using steps by simp
  moreover have "run_status env pd4 = Some Run_Row_Running"
    using r b(8) by (simp add: run_status_def pd2_def find_run_update)
  moreover have "pd_plans pd4 = pd_plans (fst s)" using b(7) by (simp add: pd2_def pd1_def)
  ultimately show ?thesis using b(2,4,5,6) by blast
qed

lemma persist_build_spec:
  assumes up: "all_up env" and st: "in_state env T Run_Row_Running s"
    and plan: "get_plan (fst s) plan_id = Some p"
    and fresh: "''build_'' @ be_build_fresh env \<notin> set (map bd_id (pd_builds (fst s)))"
  shows "\<exists>b s'. persist_build env plan_id name d target m s = (Inr b, s') \<and>
    shipped env plan_id name target m b s' \<and> snd s' = snd s"
proof -
  obtain b pd4 where b: "persist_build env plan_id name d target m s =
      bind_act (store_write env Call_Mark_Built (\<lambda>pd. mark_plan_built pd plan_id name)) (\<lambda>_.
        bind_act (set_run env Call_Success Run_Row_Success None) (\<lambda>_. give b)) (pd4, snd s)"
      "b = \<lparr>bd_id = ''build_'' @ be_build_fresh env, bd_pipeline_name = name, bd_plan_id = plan_id,
         bd_target = target, bd_created_at = be_at env Call_Create_Build, bd_manifest = m\<rparr>"
      "project_ok pd4" "get_build pd4 (bd_id b) = Some b"
      "map_option pp_current_build_id (get_pipeline pd4 name) = Some (Some (bd_id b))"
      "pd_plans pd4 = pd_plans (fst s)" "run_status env pd4 = Some Run_Row_Running"
    using persist_until_mark [OF all_up_rest [OF up] st plan fresh, where name = name and d = d and
        target = target and m = m] by (elim exE conjE)
  let ?g = "\<lambda>p. p\<lparr>pl_phase := Built, pl_pipeline_name := Some name\<rparr>"
  define pd5 where "pd5 = pd4\<lparr>pd_plans := update_key pl_id plan_id ?g (pd_plans pd4)\<rparr>"
  have plan4: "get_plan pd4 plan_id = Some p" using plan b(6) by (simp add: get_plan_def)
  have name4: "name \<in> set (map pp_name (pd_pipelines pd4))"
    using b(5) find_key_in [of pp_name "pd_pipelines pd4" name] by (auto simp: get_pipeline_def)
  have mark: "mark_plan_built pd4 plan_id name = Inr pd5"
    using plan4 name4 by (simp add: mark_plan_built_def pd5_def)
  have ok5: "project_ok pd5" by (rule mark_plan_built_ok [OF b(3) mark])
  have status5: "run_status env pd5 \<noteq> None" using b(7) by (auto simp: run_status_def pd5_def)
  obtain pd6 where ended: "set_run env Call_Success Run_Row_Success None (pd5, snd s) = (Inr (), (pd6, snd s))"
      "project_ok pd6" "design_tables pd6 = design_tables pd5" "run_status env pd6 = Some Run_Row_Success"
    using set_run_spec [of env Call_Success "(pd5, snd s)" Run_Row_Success None] up status5 ok5 by auto
  have "store_write env Call_Mark_Built (\<lambda>pd. mark_plan_built pd plan_id name) (pd4, snd s) = (Inr (), (pd5, snd s))"
    using up mark by (simp add: store_write_def store_call_def)
  then have result: "persist_build env plan_id name d target m s = (Inr b, (pd6, snd s))"
    using b(1) ended(1) by simp
  have tables: "pd_plans pd6 = pd_plans pd5" "pd_pipelines pd6 = pd_pipelines pd4" "pd_builds pd6 = pd_builds pd4"
    using ended(3) by (simp_all add: design_tables_def pd5_def)
  have "get_plan pd6 plan_id = Some (?g p)"
    using plan4 by (simp add: get_plan_def tables pd5_def find_key_update_same)
  then have "shipped env plan_id name target m b (pd6, snd s)"
    unfolding shipped_def using b(2,4,5) ended(2,4) by (simp add: get_build_def get_pipeline_def tables)
  then show ?thesis using result by auto
qed


section \<open>Outcomes\<close>

lemma fst_world [simp]: "fst (snd (world m s)) = fst s"
  by (simp add: world_def)

lemma in_state_fst: "fst s' = fst s \<Longrightarrow> in_state env T st s \<Longrightarrow> in_state env T st s'"
  by (simp add: in_state_def)

text \<open>Acting on the world leaves the store; what the action says of its value or exception is kept.\<close>

lemma holds_world:
  assumes "\<And>w x w'. m w = (Inr x, w') \<Longrightarrow> Q x" and "\<And>w e w'. m w = (Inl e, w') \<Longrightarrow> E e"
  shows "holds (in_state env T st) (world m) (\<lambda>x s. in_state env T st s \<and> Q x) (\<lambda>e s. in_state env T st s \<and> E e)"
proof (rule holdsI)
  fix s x s' assume *: "in_state env T st s" "world m s = (Inr x, s')"
  then have "fst s' = fst s" using fst_world [of m s] by simp
  moreover have "m (snd s) = (Inr x, snd s')"
    using *(2) by (auto simp: world_def on_right_def Let_def split: prod.splits)
  ultimately show "in_state env T st s' \<and> Q x" using in_state_fst *(1) assms(1) by blast
next
  fix s e s' assume *: "in_state env T st s" "world m s = (Inl e, s')"
  then have "fst s' = fst s" using fst_world [of m s] by simp
  moreover have "m (snd s) = (Inl e, snd s')"
    using *(2) by (auto simp: world_def on_right_def Let_def split: prod.splits)
  ultimately show "in_state env T st s' \<and> E e" using in_state_fst *(1) assms(2) by blast
qed

lemma holds_set_run:
  assumes "be_store_up env c"
  shows "holds (in_state env T st0) (set_run env c st msg) (\<lambda>_. in_state env T st) E"
proof (rule holdsI)
  fix s x s' assume "in_state env T st0 s" "set_run env c st msg s = (Inr x, s')"
  then show "in_state env T st s'" using set_run_in_state [OF assms, of T st0 s st msg] by auto
next
  fix s e s' assume "in_state env T st0 s" "set_run env c st msg s = (Inl e, s')"
  then show "E e s'" using set_run_in_state [OF assms, of T st0 s st msg] by auto
qed

lemma holds_fail_run:
  "all_up env \<Longrightarrow> holds (in_state env T st0) (fail_run env msg) (\<lambda>_. in_state env T Run_Row_Failed) E"
  unfolding fail_run_def by (rule holds_set_run) simp

lemma holds_fail_give:
  assumes "all_up env" and "\<And>s. in_state env T Run_Row_Failed s \<Longrightarrow> Q x s"
  shows "holds (in_state env T st0) (bind_act (fail_run env msg) (\<lambda>_. give x)) Q E"
  by (rule holds_bind [OF holds_fail_run [OF assms(1), where T = T]]) (simp add: holds_def assms(2))

lemma holds_guarded:
  assumes up: "all_up env" and m: "holds P m Q (\<lambda>e s. in_state env T Run_Row_Running s \<and> E e)"
  shows "holds P (run_guarded env rename m) Q
    (\<lambda>e s. in_state env T Run_Row_Failed s \<and> (\<exists>e0. E e0 \<and> e = rename e0))"
  unfolding run_guarded_def
proof (rule holds_attempt [OF m])
  fix e0
  show "holds (\<lambda>s. in_state env T Run_Row_Running s \<and> E e0)
      (bind_act (fail_run env (be_text env e0)) (\<lambda>_. raise (rename e0))) Q
      (\<lambda>e s. in_state env T Run_Row_Failed s \<and> (\<exists>e0. E e0 \<and> e = rename e0))"
  proof (cases "E e0")
    case True
    then show ?thesis
      by (intro holds_bind [where R = "\<lambda>_. in_state env T Run_Row_Failed"] holds_raise
          holds_weaken [OF holds_fail_run [OF up]]) auto
  next
    case False
    then show ?thesis by (simp add: holds_def)
  qed
qed

definition plan_in :: "plan list \<times> pipeline_row list \<times> build list \<Rightarrow> string \<Rightarrow> bool" where
  "plan_in T plan_id \<longleftrightarrow> find_key pl_id (fst T) plan_id \<noteq> None"

definition fresh_build :: "'x build_env \<Rightarrow> plan list \<times> pipeline_row list \<times> build list \<Rightarrow> bool" where
  "fresh_build env T \<longleftrightarrow> ''build_'' @ be_build_fresh env \<notin> set (map bd_id (snd (snd T)))"

lemma holds_persist:
  assumes "all_up env" and "plan_in T plan_id" and "fresh_build env T"
  shows "holds (in_state env T Run_Row_Running) (persist_build env plan_id name d target m)
    (\<lambda>b s. shipped env plan_id name target m b s) E"
proof -
  have *: "\<exists>b s'. persist_build env plan_id name d target m s = (Inr b, s') \<and> shipped env plan_id name target m b s'"
    if "in_state env T Run_Row_Running s" for s
  proof -
    have T: "T = design_tables (fst s)" using that by (simp add: in_state_def)
    obtain p where "get_plan (fst s) plan_id = Some p"
      using assms(2) by (auto simp: plan_in_def get_plan_def T design_tables_def)
    moreover have "''build_'' @ be_build_fresh env \<notin> set (map bd_id (pd_builds (fst s)))"
      using assms(3) by (simp add: fresh_build_def T design_tables_def)
    ultimately show ?thesis using persist_build_spec [OF assms(1) that] by blast
  qed
  show ?thesis by (rule holdsI) (use * in fastforce)+
qed

text \<open>What the multi-engine path has shown of the work it recorded.\<close>

definition gated :: "build_artifact \<Rightarrow> bool" where
  "gated art \<longleftrightarrow> ba_review_passed art \<and> ba_review_blocking_count art = 0"

lemma review_passed:
  assumes "run_review_fan_out de va os df dir reg runner pre cs files goal w = (Inr review, w')"
  shows "rr_passed review \<longleftrightarrow> blocking_findings (Some review) = []"
proof -
  have "\<exists>diff reviewers. review_fan_out va (reviewer_delegate de runner) diff goal reviewers w = (Inr review, w')"
    using assms by (auto simp: run_review_fan_out_def bind_act_Inr with_error_Inr)
  then obtain diff reviewers where
    "review_fan_out va (reviewer_delegate de runner) diff goal reviewers w = (Inr review, w')" by blast
  then have "\<exists>fs. rr_findings review = fs \<and> rr_passed review = (\<not> list_ex failing fs)"
    by (auto simp: review_fan_out_def Let_def split: prod.splits sum.splits)
  then show ?thesis by (auto simp: blocking_findings_def filter_empty_conv list_ex_iff)
qed

definition manifest_of :: "string list \<Rightarrow> review_result \<Rightarrow> json" where
  "manifest_of files review =
     JObject [(''files'', JList (map JString files)), (''review'', review_manifest_block review)]"

lemma holds_review_and_persist:
  assumes up: "all_up env" and plan: "plan_in T (pl_id p)" and fresh: "fresh_build env T"
  shows "holds (in_state env T Run_Row_Running)
    (review_and_persist env p gs d name target reg factory pre rollup authored)
    (\<lambda>out s. case out of
        Gate_Blocked art \<Rightarrow> in_state env T Run_Row_Failed s \<and> \<not> ba_success art \<and> ba_build_id art = None
      | Gate_Shipped b review \<Rightarrow> rr_passed review \<and> blocking_findings (Some review) = [] \<and>
          shipped env (pl_id p) name target (manifest_of authored review) b s)
    (\<lambda>e s. in_state env T Run_Row_Running s \<and> (\<exists>f. e = Review_Raised f))"
  unfolding review_and_persist_def
proof (rule holds_bind [where R = "\<lambda>review s. in_state env T Run_Row_Running s \<and>
    (rr_passed review \<longleftrightarrow> blocking_findings (Some review) = [])"], goal_cases)
  case 1
  show ?case by (rule holds_world) (auto simp: with_error_eq dest: review_passed split: prod.splits sum.splits)
next
  case (2 review)
  show ?case
  proof (cases "rr_passed review")
    case True
    have "holds (\<lambda>s. in_state env T Run_Row_Running s \<and> (rr_passed review \<longleftrightarrow> blocking_findings (Some review) = []))
        (persist_build env (pl_id p) name d target (manifest_of authored review))
        (\<lambda>b s. shipped env (pl_id p) name target (manifest_of authored review) b s \<and> blocking_findings (Some review) = [])
        (\<lambda>e s. in_state env T Run_Row_Running s \<and> (\<exists>f. e = Review_Raised f))"
      by (rule holds_weaken [OF holds_frame [OF holds_persist [OF up plan fresh, where E = "\<lambda>_ _. False"],
            of "blocking_findings (Some review) = []"]]) (use True in auto)
    then show ?thesis
      unfolding manifest_of_def [symmetric] using True
      by (simp add: Let_def) (rule holds_bind, assumption, simp add: holds_def)
  next
    case False
    then show ?thesis
      by (auto simp: Let_def multi_engine_artifact_def
          intro!: holds_bind [where R = "\<lambda>_. in_state env T Run_Row_Failed"] holds_give
            holds_weaken [OF holds_fail_run [OF up, where E = "\<lambda>_ _. False"]])
  qed
qed


section \<open>The outcomes of the multi-engine path\<close>

text \<open>The exceptions of the steps between the opening of the run and the first guarded step.\<close>

fun setup_error :: "build_exc \<Rightarrow> bool" where
  "setup_error (File_Failed _) = True"
| "setup_error (Setup_Failed _) = True"
| "setup_error (Hooks_Malformed _) = True"
| "setup_error _ = False"

fun post_hook_error :: "build_exc \<Rightarrow> bool" where
  "post_hook_error (Post_Hook_Raised _) = True"
| "post_hook_error _ = False"

definition untouched :: "'x build_env \<Rightarrow> plan list \<times> pipeline_row list \<times> build list \<Rightarrow> 'x build_state \<Rightarrow> bool" where
  "untouched env T s \<longleftrightarrow> project_ok (fst s) \<and> design_tables (fst s) = T \<and>
     be_run_id env \<notin> set (run_ids (pd_store (fst s)))"

definition multi_returns ::
  "'x build_env \<Rightarrow> plan list \<times> pipeline_row list \<times> build list \<Rightarrow> string \<Rightarrow> string \<Rightarrow> string \<Rightarrow>
     build_artifact \<Rightarrow> 'x build_state \<Rightarrow> bool" where
  "multi_returns env T plan_id name target art s \<longleftrightarrow>
     (if ba_success art
      then gated art \<and> (\<exists>b review. ba_build_id art = Some (bd_id b) \<and> rr_passed review \<and>
             shipped env plan_id name target (manifest_of (ba_files_written art) review) b s)
      else ba_build_id art = None \<and> in_state env T Run_Row_Failed s)"

definition multi_raises ::
  "'x build_env \<Rightarrow> plan list \<times> pipeline_row list \<times> build list \<Rightarrow> string \<Rightarrow> string \<Rightarrow> string \<Rightarrow>
     build_exc \<Rightarrow> 'x build_state \<Rightarrow> bool" where
  "multi_raises env T plan_id name target e s \<longleftrightarrow>
     (if setup_error e then in_state env T Run_Row_Running s
      else if post_hook_error e then \<exists>b m. shipped env plan_id name target m b s
      else in_state env T Run_Row_Failed s)"

lemma holds_open_run:
  assumes "all_up env"
  shows "holds (untouched env T) (open_run env plan_id) (\<lambda>_. in_state env T Run_Row_Running) E"
proof -
  have *: "\<exists>s'. open_run env plan_id s = (Inr (), s') \<and> in_state env T Run_Row_Running s'" if "untouched env T s" for s
    using open_run_spec [of env s plan_id] that assms by (auto simp: untouched_def)
  show ?thesis by (rule holdsI) (use * in fastforce)+
qed

lemma shipped_world: "shipped env i n t m b (pd, w) = shipped env i n t m b (pd, w')"
  by (simp only: shipped_def fst_conv)

lemma shipped_fst: "shipped env i n t m b s \<Longrightarrow> fst s' = fst s \<Longrightarrow> shipped env i n t m b s'"
  using shipped_world [of env i n t m b "fst s" "snd s" "snd s'"] by (metis prod.collapse)

lemma holds_fire_post_build:
  "holds (shipped env i n t m b) (fire_post_build hook payload) (\<lambda>_. shipped env i n t m b)
     (\<lambda>e s. shipped env i n t m b s \<and> post_hook_error e)"
proof (cases hook)
  case None
  then show ?thesis by (simp add: fire_post_build_def holds_def)
next
  case (Some h)
  have fst: "fst (snd (fire_post_build hook payload s)) = fst s" for s
    by (simp add: fire_post_build_def Some)
  have err: "post_hook_error e" if "fire_post_build hook payload s = (Inl e, s')" for s e s'
    using that
    by (auto simp: fire_post_build_def Some world_def on_right_def attempt_def Let_def
        split: prod.splits sum.splits hook_exc.splits)
  show ?thesis
    by (rule holdsI) (use fst err shipped_fst in \<open>metis snd_conv\<close>)+
qed

lemma multi_raises_failed:
  "in_state env T Run_Row_Failed s \<Longrightarrow> \<not> setup_error e \<Longrightarrow> \<not> post_hook_error e \<Longrightarrow>
     multi_raises env T plan_id name target e s"
  by (simp add: multi_raises_def)

lemma holds_ship:
  "holds (\<lambda>s. case out of
        Gate_Blocked art \<Rightarrow> in_state env T Run_Row_Failed s \<and> \<not> ba_success art \<and> ba_build_id art = None
      | Gate_Shipped b review \<Rightarrow> rr_passed review \<and> blocking_findings (Some review) = [] \<and>
          shipped env (pl_id p) name target (manifest_of authored review) b s)
    (ship p run_id name target hook rollup authored out)
    (multi_returns env T (pl_id p) name target) (multi_raises env T (pl_id p) name target)"
proof (cases out)
  case (Gate_Blocked art)
  then show ?thesis by (simp add: ship_def holds_def multi_returns_def)
next
  case (Gate_Shipped b review)
  let ?S = "shipped env (pl_id p) name target (manifest_of authored review) b"
    and ?c = "rr_passed review \<and> blocking_findings (Some review) = []"
  have fire: "holds (\<lambda>s. ?S s \<and> ?c) (fire_post_build hook payload) (\<lambda>_ s. ?S s \<and> ?c)
      (multi_raises env T (pl_id p) name target)" for payload
    by (rule holds_weaken [OF holds_frame [OF holds_fire_post_build]])
      (auto simp: multi_raises_def elim: post_hook_error.elims)
  show ?thesis
    unfolding ship_def Gate_Shipped gate_outcome.case
    by (rule holds_weaken [OF holds_bind [OF fire, where Q = "multi_returns env T (pl_id p) name target"]])
      (auto simp: holds_def multi_returns_def multi_engine_artifact_def gated_def)
qed

lemma holds_gate_and_ship:
  assumes up: "all_up env" and plan: "plan_in T (pl_id p)" and fresh: "fresh_build env T"
  shows "holds (in_state env T Run_Row_Running) (gate_and_ship env p gs d name target reg factory post_hook pre results)
    (multi_returns env T (pl_id p) name target) (multi_raises env T (pl_id p) name target)"
proof (cases "List.find (\<lambda>r. dr_status r \<noteq> ''succeeded'') results")
  case (Some failed)
  show ?thesis
    unfolding gate_and_ship_def Some option.case Let_def
    by (rule holds_fail_give [OF up]) (simp_all add: multi_returns_def multi_engine_artifact_def)
next
  case None
  show ?thesis
    unfolding gate_and_ship_def None option.case Let_def
  proof (rule holds_bind [OF _ holds_ship])
    show "holds (in_state env T Run_Row_Running)
        (run_guarded env (\<lambda>exc. if build_or_agent_error env exc then exc else Wrapped exc)
          (review_and_persist env p gs d name target reg factory pre (roll_up_cost results) (union_files_changed results)))
        (\<lambda>out s. case out of
            Gate_Blocked art \<Rightarrow> in_state env T Run_Row_Failed s \<and> \<not> ba_success art \<and> ba_build_id art = None
          | Gate_Shipped b review \<Rightarrow> rr_passed review \<and> blocking_findings (Some review) = [] \<and>
              shipped env (pl_id p) name target (manifest_of (union_files_changed results) review) b s)
        (multi_raises env T (pl_id p) name target)"
      by (rule holds_weaken [OF holds_guarded [OF up holds_review_and_persist [OF up plan fresh]]])
        (auto intro!: multi_raises_failed split: if_splits)
  qed
qed

lemma holds_author_and_gate:
  assumes up: "all_up env" and plan: "plan_in T (pl_id p)" and fresh: "fresh_build env T"
  shows "holds (in_state env T Run_Row_Running) (author_and_gate env p gs d name target reg factory post_hook pre)
    (multi_returns env T (pl_id p) name target) (multi_raises env T (pl_id p) name target)"
proof -
  have engines: "holds (in_state env T Run_Row_Running) (world (with_error Engine_Raised
      (run_engines reg (build_runner (be_delegation env) reg BUILD (Some factory)) BUILD gs)))
      (\<lambda>_. in_state env T Run_Row_Running)
      (\<lambda>e s. in_state env T Run_Row_Running s \<and> (\<exists>f. e = Engine_Raised f))"
    by (rule holds_weaken [OF holds_world [where Q = "\<lambda>_. True" and E = "\<lambda>e. \<exists>f. e = Engine_Raised f"]])
      (auto simp: with_error_Inl)
  show ?thesis
    unfolding author_and_gate_def
    by (rule holds_bind [OF holds_weaken [OF holds_guarded [OF up engines]] holds_gate_and_ship [OF up plan fresh]])
      (auto intro: multi_raises_failed)
qed

lemma holds_multi_engine:
  assumes up: "all_up env" and plan: "plan_in T (pl_id p)" and fresh: "fresh_build env T"
  shows "holds (untouched env T) (build_multi_engine env p gs d name target)
    (multi_returns env T (pl_id p) name target) (multi_raises env T (pl_id p) name target)"
proof -
  let ?run = "in_state env T Run_Row_Running" and ?E = "multi_raises env T (pl_id p) name target"
  have reads: "holds ?run (world m) (\<lambda>_. ?run) ?E" if "\<And>w e w'. m w = (Inl e, w') \<Longrightarrow> setup_error e" for m :: "(build_exc, file_system \<times> 'a, 'b) action"
    using that by (intro holds_weaken [OF holds_world [where Q = "\<lambda>_. True" and E = setup_error]])
      (auto simp: multi_raises_def)
  have pre: "holds ?run (world (bind_act (asks (\<lambda>w. snapshot_files env (planned_files d) (fst w)))
      (\<lambda>r. with_error File_Failed (of_result r)))) (\<lambda>_. ?run) ?E"
    by (rule reads) (auto simp: bind_act_Inl with_error_Inl)
  have reg: "holds ?run (read_registry env) (\<lambda>_. ?run) ?E"
    unfolding read_registry_def by (rule reads) (auto simp: bind_act_Inl with_error_Inl)
  have hooks: "holds ?run (read_hooks env) (\<lambda>_. ?run) ?E"
    unfolding read_hooks_def by (rule reads) (auto simp: bind_act_Inl with_error_Inl)
  show ?thesis
    unfolding build_multi_engine_def
    by (rule holds_bind [OF holds_open_run [OF up]] holds_bind [OF pre] holds_bind [OF reg] holds_bind [OF hooks]
        holds_author_and_gate [OF up plan fresh])+
qed


section \<open>What a success rests on\<close>

lemma run_guarded_Inr: "run_guarded env rename m s = (Inr x, s') \<longleftrightarrow> m s = (Inr x, s')"
  by (auto simp: run_guarded_def attempt_def bind_act_def split: prod.splits sum.splits)

lemma world_Inr: "world m s = (Inr x, s') \<longleftrightarrow> m (snd s) = (Inr x, snd s') \<and> fst s' = fst s"
  by (cases s; cases s') (auto simp: world_def on_right_def Let_def split: prod.splits)

text \<open>The engineers all succeeded and the reviewers found nothing that blocks.\<close>

definition work_accepted ::
  "'x build_env \<Rightarrow> plan \<Rightarrow> sub_goal list \<Rightarrow> (file_system \<times> 'x) registry \<Rightarrow> (file_system \<times> 'x) hook_factory \<Rightarrow>
     string list \<Rightarrow> bool" where
  "work_accepted env p gs reg factory authored \<longleftrightarrow>
     (\<exists>w1 results w2 pre review w3.
        run_engines reg (build_runner (be_delegation env) reg BUILD (Some factory)) BUILD gs w1 = (Inr results, w2) \<and>
        list_all (\<lambda>r. dr_status r = ''succeeded'') results \<and> length results = length gs \<and>
        authored = union_files_changed results \<and>
        run_review_fan_out (be_describe env) (be_validate env) (be_os env) (be_diff env) (be_project_dir env) reg
          (build_runner (be_delegation env) reg READ_ONLY (Some factory)) pre (map sg_classification gs) authored
          (pl_goal p) w2 = (Inr review, w3) \<and>
        rr_passed review)"

lemma review_and_persist_seen:
  assumes "review_and_persist env p gs d name target reg factory pre rollup authored s = (Inr outcome, s')"
  shows "(\<exists>a. outcome = Gate_Blocked a \<and> \<not> ba_success a) \<or>
    (\<exists>b review v. outcome = Gate_Shipped b review \<and> rr_passed review \<and>
       run_review_fan_out (be_describe env) (be_validate env) (be_os env) (be_diff env) (be_project_dir env) reg
         (build_runner (be_delegation env) reg READ_ONLY (Some factory)) pre (map sg_classification gs) authored
         (pl_goal p) (snd s) = (Inr review, v))"
  using assms unfolding review_and_persist_def
proof (rule bind_act_InrE, goal_cases)
  case (1 review s1)
  then show ?case
    by (cases "rr_passed review")
      (auto simp: world_Inr with_error_Inr Let_def bind_act_Inr multi_engine_artifact_def)
qed

lemma gate_and_ship_success:
  assumes "gate_and_ship env p gs d name target reg factory hook pre results s = (Inr art, s')" and "ba_success art"
  shows "list_all (\<lambda>r. dr_status r = ''succeeded'') results \<and> ba_files_written art = union_files_changed results \<and>
    (\<exists>review v. rr_passed review \<and>
       run_review_fan_out (be_describe env) (be_validate env) (be_os env) (be_diff env) (be_project_dir env) reg
         (build_runner (be_delegation env) reg READ_ONLY (Some factory)) pre (map sg_classification gs)
         (union_files_changed results) (pl_goal p) (snd s) = (Inr review, v))"
proof (cases "List.find (\<lambda>r. dr_status r \<noteq> ''succeeded'') results")
  case (Some failed)
  then show ?thesis
    using assms by (auto simp: gate_and_ship_def Let_def bind_act_Inr multi_engine_artifact_def)
next
  case None
  then have "list_all (\<lambda>r. dr_status r = ''succeeded'') results" by (auto simp: find_None_iff list_all_iff)
  moreover obtain outcome s1 where gate: "review_and_persist env p gs d name target reg factory pre
        (roll_up_cost results) (union_files_changed results) s = (Inr outcome, s1)"
    and last: "ship p (be_run_id env) name target hook (roll_up_cost results) (union_files_changed results) outcome s1 =
        (Inr art, s')"
    using assms(1) unfolding gate_and_ship_def None option.case Let_def
    by (rule bind_act_InrE) (simp only: run_guarded_Inr)
  ultimately show ?thesis
    using review_and_persist_seen [OF gate] last assms(2)
    by (auto simp: ship_def bind_act_Inr multi_engine_artifact_def)
qed

lemma author_and_gate_success:
  assumes "author_and_gate env p gs d name target reg factory post_hook pre s = (Inr art, s')" and "ba_success art"
  shows "work_accepted env p gs reg factory (ba_files_written art)"
proof -
  obtain results s1 where first: "run_guarded env id (world (with_error Engine_Raised (run_engines reg
        (build_runner (be_delegation env) reg BUILD (Some factory)) BUILD gs))) s = (Inr results, s1)"
    and rest: "gate_and_ship env p gs d name target reg factory post_hook pre results s1 = (Inr art, s')"
    using assms(1) unfolding author_and_gate_def by (rule bind_act_InrE)
  have engines: "run_engines reg (build_runner (be_delegation env) reg BUILD (Some factory)) BUILD gs
      (snd s) = (Inr results, snd s1)"
    using first by (simp only: run_guarded_Inr world_Inr with_error_Inr)
  have "length results = length gs" by (rule for_each_length [OF engines [unfolded run_engines_def]])
  then show ?thesis
    unfolding work_accepted_def using engines gate_and_ship_success [OF rest assms(2)] by metis
qed

lemma build_multi_engine_success:
  assumes "build_multi_engine env p gs d name target s = (Inr art, s')" and "ba_success art"
  shows "\<exists>reg factory. work_accepted env p gs reg factory (ba_files_written art)"
proof -
  obtain reg factory hook pre s1 where
    "author_and_gate env p gs d name target reg factory hook pre s1 = (Inr art, s')"
    using assms(1) by (auto simp: build_multi_engine_def bind_act_Inr)
  from author_and_gate_success [OF this assms(2)] show ?thesis by blast
qed

end
