(* ===== verification/Build_Outcomes.thy ===== *)
theory Build_Outcomes
  imports Build_Flow
begin

text \<open>
  The properties of \<open>carve build\<close>: the gates of \<open>build_plan\<close>, the outcomes of the path with several
  engineers, the reuse of a build and what a database failure in the middle of the record leaves.
\<close>

section \<open>Lemmas\<close>

lemma build_plan_found:
  assumes "be_store_up env Call_Get_Plan" and "get_plan (fst s) plan_id = Some p"
    and "pl_config_hash p = be_config_hash env" and "\<not> pl_expires_at p < now"
    and "pl_phase p = Built" and "idempotent_noop_artifact env p s = (Inr (Some art), s)"
  shows "build_plan env plan_id cli_flag False overrides now s = (Inr art, s)"
  unfolding build_plan_def using assms by (simp add: store_read_up check_def)

lemma present_files_all:
  "list_all (\<lambda>f. is_file_node (fs (os_resolve (be_os env) (join_path (be_project_dir env) f)))) files \<Longrightarrow>
     present_files env fs (map JString files) = Some files"
  by (induction files) simp_all

lemma noop_found:
  assumes up: "be_store_up env Call_Get_Pipeline" "be_store_up env Call_Get_Build"
    and ship: "shipped env plan_id name target (JObject ((''files'', JList (map JString files)) # rest)) b s"
    and plan: "get_plan (fst s) plan_id = Some p" and files: "files \<noteq> []"
    and there: "list_all (\<lambda>f. is_file_node (fst (snd s) (os_resolve (be_os env) (join_path (be_project_dir env) f)))) files"
  shows "\<exists>art. idempotent_noop_artifact env p s = (Inr (Some art), s) \<and> ba_build_id art = Some (bd_id b) \<and>
    ba_run_id art = [] \<and> ba_success art \<and> ba_files_written art = sort files \<and> ba_target art = target"
proof -
  have p: "pl_pipeline_name p = Some name" "pl_id p = plan_id"
    using ship plan find_key_Some [of pl_id "pd_plans (fst s)" plan_id p] by (auto simp: shipped_def get_plan_def)
  obtain row where row: "get_pipeline (fst s) name = Some row" "pp_current_build_id row = Some (bd_id b)"
    using ship by (auto simp: shipped_def)
  have b: "get_build (fst s) (bd_id b) = Some b" "bd_plan_id b = plan_id" "bd_target b = target"
      "bd_manifest b = JObject ((''files'', JList (map JString files)) # rest)"
    using ship by (auto simp: shipped_def)
  show ?thesis
    unfolding idempotent_noop_artifact_def
    using p row b files up present_files_all [OF there]
    by (simp add: store_read_up noop_artifact_def)
qed

section \<open>Properties\<close>

text \<open>
  \<open>force\<close> overrides the phase of a plan and nothing else. A plan that is not in the store, one
  made against another configuration and one that has expired are refused with their own errors,
  in this order, forced or not, and the refusal changes neither the store nor a file.
\<close>

theorem force_never_bypasses:
  assumes "be_store_up env Call_Get_Plan"
    and "case get_plan (fst s) plan_id of None \<Rightarrow> True
         | Some p \<Rightarrow> pl_config_hash p = be_config_hash env \<longrightarrow> pl_expires_at p < now"
  shows "build_plan env plan_id cli_flag force overrides now s =
    (Inl (case get_plan (fst s) plan_id of
            None \<Rightarrow> Plan_Not_Found plan_id
          | Some p \<Rightarrow>
              if pl_config_hash p \<noteq> be_config_hash env
              then Config_Drift plan_id (pl_config_hash p) (be_config_hash env)
              else Plan_Expired plan_id (pl_expires_at p)), s)"
  using assms by (cases "get_plan (fst s) plan_id") (auto simp: build_plan_def store_read_up check_def)

text \<open>
  C20: building a built plan again is a no-op. From any state a recorded build leaves, with the same
  configuration, before the plan expires and with every recorded file still there, \<open>carve build\<close>
  without \<open>--force\<close> answers with that build and its files, opens no run, calls no agent and changes
  neither the store nor a file.
\<close>

theorem rebuild_is_noop:
  assumes "all_up env"
    and "shipped env plan_id name target (JObject ((''files'', JList (map JString files)) # rest)) b s"
    and "get_plan (fst s) plan_id = Some p" and "pl_config_hash p = be_config_hash env" and "now \<le> pl_expires_at p"
    and "files \<noteq> []"
    and "list_all (\<lambda>f. is_file_node (fst (snd s) (os_resolve (be_os env) (join_path (be_project_dir env) f)))) files"
  shows "\<exists>art. build_plan env plan_id cli_flag False overrides now s = (Inr art, s) \<and>
    ba_build_id art = Some (bd_id b) \<and> ba_run_id art = [] \<and> ba_success art \<and>
    ba_files_written art = sort files \<and> ba_target art = target"
proof -
  have phase: "pl_phase p = Built" using assms(2,3) by (simp add: shipped_def)
  obtain art where "idempotent_noop_artifact env p s = (Inr (Some art), s)" "ba_build_id art = Some (bd_id b)"
      "ba_run_id art = []" "ba_success art" "ba_files_written art = sort files" "ba_target art = target"
    using noop_found [OF _ _ assms(2,3,6,7)] assms(1) by auto
  then show ?thesis
    using build_plan_found [OF _ assms(3,4) _ phase, where now = now] assms(1,5) by auto
qed


text \<open>
  C28: the calls that record a build are transactions of their own, so a database that fails at the
  call that marks the plan leaves the build behind: its row is there, the pipeline points to it,
  while the plan keeps its phase and the run ends as failed.
\<close>

theorem interrupted_build_ships:
  assumes "\<And>c. be_store_up env c = (c \<noteq> Call_Mark_Built)" and "in_state env T Run_Row_Running s"
    and "get_plan (fst s) plan_id = Some p" and "fresh_build env T"
  shows "\<exists>b s'. run_guarded env rename (persist_build env plan_id name d target m) s = (Inl (rename Store_Down), s') \<and>
    get_build (fst s') (bd_id b) = Some b \<and> bd_plan_id b = plan_id \<and>
    map_option pp_current_build_id (get_pipeline (fst s') name) = Some (Some (bd_id b)) \<and>
    get_plan (fst s') plan_id = Some p \<and> run_status env (fst s') = Some Run_Row_Failed"
proof -
  have up: "\<forall>c. c \<noteq> Call_Mark_Built \<longrightarrow> be_store_up env c" using assms(1) by simp
  have T: "T = design_tables (fst s)" using assms(2) by (simp add: in_state_def)
  have fresh: "''build_'' @ be_build_fresh env \<notin> set (map bd_id (pd_builds (fst s)))"
    using assms(4) by (simp add: fresh_build_def T design_tables_def)
  obtain b pd4 where b: "persist_build env plan_id name d target m s =
      bind_act (store_write env Call_Mark_Built (\<lambda>pd. mark_plan_built pd plan_id name)) (\<lambda>_.
        bind_act (set_run env Call_Success Run_Row_Success None) (\<lambda>_. give b)) (pd4, snd s)"
      "b = \<lparr>bd_id = ''build_'' @ be_build_fresh env, bd_pipeline_name = name, bd_plan_id = plan_id,
         bd_target = target, bd_created_at = be_at env Call_Create_Build, bd_manifest = m\<rparr>"
      "project_ok pd4" "get_build pd4 (bd_id b) = Some b"
      "map_option pp_current_build_id (get_pipeline pd4 name) = Some (Some (bd_id b))"
      "pd_plans pd4 = pd_plans (fst s)" "run_status env pd4 = Some Run_Row_Running"
    using persist_until_mark [OF up assms(2,3) fresh, where name = name and d = d and target = target and m = m]
    by (elim exE conjE)
  have down: "persist_build env plan_id name d target m s = (Inl Store_Down, (pd4, snd s))"
    using b(1) assms(1) by (simp add: store_write_def store_call_down bind_act_def)
  obtain pd5 where failed: "fail_run env (be_text env Store_Down) (pd4, snd s) = (Inr (), (pd5, snd s))"
      "design_tables pd5 = design_tables pd4" "run_status env pd5 = Some Run_Row_Failed"
    using set_run_spec [of env Call_Failed "(pd4, snd s)" Run_Row_Failed "Some (be_text env Store_Down)"]
      assms(1) b(3,7) by (auto simp: fail_run_def)
  have "run_guarded env rename (persist_build env plan_id name d target m) s = (Inl (rename Store_Down), (pd5, snd s))"
    using down failed(1) by (simp add: run_guarded_def attempt_def)
  moreover have "pd_plans pd5 = pd_plans (fst s)" "pd_pipelines pd5 = pd_pipelines pd4" "pd_builds pd5 = pd_builds pd4"
    using failed(2) b(6) by (simp_all add: design_tables_def)
  ultimately show ?thesis
    using b(2,4,5) failed(3) assms(3)
    by (intro exI [of _ b] exI [of _ "(pd5, snd s)"]) (simp add: get_build_def get_pipeline_def get_plan_def)
qed

section \<open>Samples\<close>

text \<open>
  A service that asks for an edit first and then answers every agent with a submitted result, whose
  outputs hold one finding of the given severity.
\<close>

definition build_service :: "string \<Rightarrow> (file_system \<times> nat) messages_api" where
  "build_service severity req w =
     (let usage = \<lparr>api_input = None, api_output = None, api_cache_creation = None, api_cache_read = None\<rparr>;
          say = (\<lambda>blocks stop. Responded \<lparr>resp_content = blocks, resp_stop = Some stop, resp_usage = usage\<rparr>)
      in if snd w = 0 then
           (say [Tool_Use_Block ''t1'' ''edit'' (Some sample_edit)] ''tool_use'', (fst w, 1))
         else
           (say [Tool_Use_Block ''t2'' ''submit_result''
              (Some [''status'' \<mapsto> JString ''succeeded'', ''summary'' \<mapsto> JString ''did'',
                     ''outputs'' \<mapsto> JObject [(''findings'', JList [JObject [(''severity'', JString severity),
                       (''message'', JString ''name'')]])]])] ''tool_use'', w))"

definition build_registry :: "(file_system \<times> nat) registry" where
  "build_registry =
     register (spec_from_agent_file (sample_engineer ''dlt-security'' ''review''))
       (register (spec_from_agent_file (sample_engineer ''dlt-qa'' ''review'')) engine_registry)"

definition sample_build_env :: "string \<Rightarrow> nat build_env" where
  "sample_build_env severity =
     \<lparr>be_project_dir = [''p''], be_os = plain_os,
      be_diff = \<lparr>df_unified = (\<lambda>path old new. old @ new), df_text = (\<lambda>_. True)\<rparr>,
      be_validate = sample_validate, be_config_hash = ''h'', be_env_target = None,
      be_default_target = Some ''dev'', be_client_ok = True,
      be_delegation = \<lparr>de_context = (\<lambda>_. sr_context sample_runner), de_client = build_service severity,
        de_model = ''claude-haiku-4-5'', de_model_tiers = [], de_approver = None, de_max_turns = 30\<rparr>,
      be_registry = (\<lambda>_. Inr build_registry), be_hooks = (\<lambda>_. Inr (\<lambda>_. (None, None), None)),
      be_loop_config = (\<lambda>_ _ _. Inl ''unused''), be_listing = (\<lambda>_ _. []),
      be_write_destination = (\<lambda>_ _ _. give None), be_store_up = (\<lambda>_. True),
      be_at = (\<lambda>_. 7), be_run_id = ''run_9'', be_build_fresh = ''b9'', be_describe = (\<lambda>_. ''subagent''),
      be_is_agent_error = (\<lambda>_. False), be_text = (\<lambda>_. ''error'')\<rparr>"

definition orders_design :: design where
  "orders_design =
     [(''pipeline_name'', JString ''orders''),
      (''planned_by_engine'', JList [JObject [(''sub_goal'', JString ''load orders''),
         (''classification'', JString ''new_pipeline''), (''files'', JList [JString ''f''])]])]"

definition drafted_plan :: plan where
  "drafted_plan =
     (sample_plan ''p3'' None 5)\<lparr>pl_phase := Drafted, pl_pipeline_name := None, pl_expires_at := 20,
       pl_task_graph := JObject [(''design'', JObject orders_design)]\<rparr>"

definition build_start :: "nat build_state" where
  "build_start = (sample_built\<lparr>pd_plans := pd_plans sample_built @ [drafted_plan]\<rparr>, sample_files, 0)"

definition running_start :: "nat build_state" where
  "running_start = snd (open_run (sample_build_env ''minor'') ''p3'' build_start)"

definition built_state :: "nat build_state" where
  "built_state = snd (persist_build (sample_build_env ''minor'') ''p3'' ''orders'' orders_design ''dev''
     (JObject [(''files'', JList [JString ''f''])]) running_start)"

definition interrupted_env :: "nat build_env" where
  "interrupted_env = (sample_build_env ''minor'')\<lparr>be_store_up := (\<lambda>c. c \<noteq> Call_Mark_Built)\<rparr>"

lemma sample_env_up: "all_up (sample_build_env sev)"
  by (simp add: all_up_def sample_build_env_def)

theorem force_never_bypasses_witness:
  "build_plan (sample_build_env ''minor'') ''p3'' None True [] 21 build_start =
     (Inl (Plan_Expired ''p3'' 20), build_start) \<and>
   build_plan (sample_build_env ''minor'') ''p4'' None True [] 10 build_start =
     (Inl (Plan_Not_Found ''p4''), build_start)"
proof -
  have up: "be_store_up (sample_build_env ''minor'') Call_Get_Plan" by (simp add: sample_build_env_def)
  have p: "get_plan (fst build_start) ''p3'' = Some drafted_plan" "get_plan (fst build_start) ''p4'' = None"
      "pl_expires_at drafted_plan = 20" "pl_config_hash drafted_plan = be_config_hash (sample_build_env ''minor'')"
    by code_simp+
  show ?thesis
    using force_never_bypasses [OF up, where s = build_start and plan_id = "''p3''" and now = 21 and force = True]
      force_never_bypasses [OF up, where s = build_start and plan_id = "''p4''" and now = 10 and force = True] by (simp add: p)
qed


theorem rebuild_is_noop_witness:
  "\<exists>art. build_plan (sample_build_env ''minor'') ''p3'' None False [] 12 built_state = (Inr art, built_state) \<and>
     ba_build_id art = Some ''build_b9'' \<and> ba_files_written art = [''f'']"
proof -
  let ?env = "sample_build_env ''minor''"
  let ?T = "design_tables (fst running_start)" and ?m = "JObject ((''files'', JList (map JString [''f''])) # [])"
  have pre: "in_state ?env ?T Run_Row_Running running_start" "get_plan (fst running_start) ''p3'' = Some drafted_plan"
      "''build_'' @ be_build_fresh ?env \<notin> set (map bd_id (pd_builds (fst running_start)))"
      "''build_'' @ be_build_fresh ?env = ''build_b9''" by code_simp+
  obtain b s' where b: "persist_build ?env ''p3'' ''orders'' orders_design ''dev'' ?m running_start = (Inr b, s')"
      "shipped ?env ''p3'' ''orders'' ''dev'' ?m b s'"
    using persist_build_spec [OF sample_env_up pre(1-3)] by blast
  have s': "s' = built_state" using b(1) by (simp add: built_state_def)
  have b': "bd_id b = ''build_b9''" using b(2) pre(4) by (simp add: shipped_def)
  have "case get_plan (fst built_state) ''p3'' of None \<Rightarrow> False
      | Some p \<Rightarrow> pl_config_hash p = be_config_hash ?env \<and> 12 \<le> pl_expires_at p" by code_simp
  then obtain p where p: "get_plan (fst built_state) ''p3'' = Some p" "pl_config_hash p = be_config_hash ?env"
      "12 \<le> pl_expires_at p" by (auto split: option.splits)
  have there: "list_all (\<lambda>f. is_file_node (fst (snd built_state)
      (os_resolve (be_os ?env) (join_path (be_project_dir ?env) f)))) [''f'']" by code_simp
  show ?thesis
    using rebuild_is_noop [OF sample_env_up b(2) [unfolded s'] p _ there, where cli_flag = None and overrides = "[]"] b'
    by fastforce
qed

theorem interrupted_build_ships_witness:
  "\<exists>(b :: build) s'. run_guarded interrupted_env Wrapped
       (persist_build interrupted_env ''p3'' ''orders'' orders_design ''dev'' JNull) running_start =
     (Inl (Wrapped Store_Down), s') \<and>
     map_option pp_current_build_id (get_pipeline (fst s') ''orders'') = Some (Some (bd_id b)) \<and>
     get_plan (fst s') ''p3'' = Some drafted_plan \<and> pl_phase drafted_plan = Drafted"
proof -
  let ?T = "design_tables (fst running_start)"
  have up: "be_store_up interrupted_env c = (c \<noteq> Call_Mark_Built)" for c by (simp add: interrupted_env_def)
  have pre: "in_state interrupted_env ?T Run_Row_Running running_start"
      "get_plan (fst running_start) ''p3'' = Some drafted_plan" "fresh_build interrupted_env ?T"
      "pl_phase drafted_plan = Drafted" by code_simp+
  show ?thesis
    using interrupted_build_ships [OF up pre(1-3), where rename = Wrapped and name = "''orders''" and d = orders_design
        and target = "''dev''" and m = JNull] pre(4) by (elim exE conjE) (intro exI conjI, assumption+)
qed

end
