(* ===== verification/Patterns.thy ===== *)
theory Patterns
  imports Prelude
begin

text \<open>
  The patterns of Python's \<open>re\<close> the code uses, on code points below 256: characters by a predicate,
  sequence, choice, repetition and \<open>\b\<close>. \<open>ends\<close> computes every position a match can end at; the
  greedy and the lazy order of \<open>re\<close> differ in which of them comes first, not in whether there is
  one, which is all \<open>match\<close>, \<open>search\<close> and \<open>fullmatch\<close> are asked for here. It is shown equal to the
  relation \<open>matches\<close>.
\<close>

section \<open>Characters\<close>

text \<open>\<open>\w\<close>: letters, digits, numerals and the underscore.\<close>

definition word_char :: "char \<Rightarrow> bool" where
  "word_char c = (let n = of_char c :: nat in
     (48 \<le> n \<and> n \<le> 57) \<or> (65 \<le> n \<and> n \<le> 90) \<or> n = 95 \<or> (97 \<le> n \<and> n \<le> 122) \<or>
     n \<in> {170, 178, 179, 181, 185, 186, 188, 189, 190} \<or> (192 \<le> n \<and> n \<noteq> 215 \<and> n \<noteq> 247))"

definition ascii_lower :: "char \<Rightarrow> char" where
  "ascii_lower c = (let n = of_char c :: nat in if 65 \<le> n \<and> n \<le> 90 then char_of (n + 32) else c)"

section \<open>Patterns and their positions\<close>

datatype pattern =
    Nothing
  | Char_In "char \<Rightarrow> bool"
  | Then pattern pattern
  | Either pattern pattern
  | Many pattern
  | Word_End

text \<open>
  A position is whether the character before it is a word character, and the text after it. An
  iteration of \<open>Many\<close> consumes something, so the search ends.
\<close>

type_synonym position = "bool \<times> string"

fun next_word :: "string \<Rightarrow> bool" where
  "next_word [] = False"
| "next_word (c # s) = word_char c"

function (sequential) ends :: "pattern \<Rightarrow> bool \<Rightarrow> string \<Rightarrow> position list" where
  "ends Nothing p s = [(p, s)]"
| "ends (Char_In f) p [] = []"
| "ends (Char_In f) p (c # s) = (if f c then [(word_char c, s)] else [])"
| "ends (Then a b) p s = concat (map (\<lambda>(q, t). ends b q t) (ends a p s))"
| "ends (Either a b) p s = ends a p s @ ends b p s"
| "ends (Many a) p s =
     (p, s) # concat (map (\<lambda>(q, t). if length t < length s then ends (Many a) q t else []) (ends a p s))"
| "ends Word_End p s = (if p \<noteq> next_word s then [(p, s)] else [])"
  by pat_completeness auto
termination by (relation "measures [\<lambda>(r, p, s). size r, \<lambda>(r, p, s). length s]") auto

declare ends.simps(6) [simp del]

lemma ends_Many:
  "(q, v) \<in> set (ends (Many a) p s) \<longleftrightarrow> (q, v) = (p, s) \<or>
     (\<exists>q1 t. (q1, t) \<in> set (ends a p s) \<and> length t < length s \<and> (q, v) \<in> set (ends (Many a) q1 t))"
  by (subst ends.simps(6)) (fastforce split: if_splits)

fun sequence :: "pattern list \<Rightarrow> pattern" where
  "sequence [] = Nothing"
| "sequence [r] = r"
| "sequence (r # rs) = Then r (sequence rs)"

fun one_of :: "pattern list \<Rightarrow> pattern" where
  "one_of [] = Char_In (\<lambda>_. False)"
| "one_of [r] = r"
| "one_of (r # rs) = Either r (one_of rs)"

definition some_of :: "pattern \<Rightarrow> pattern" where
  "some_of r = Then r (Many r)"

definition perhaps :: "pattern \<Rightarrow> pattern" where
  "perhaps r = Either r Nothing"

definition literal :: "string \<Rightarrow> pattern" where
  "literal s = sequence (map (\<lambda>c. Char_In (\<lambda>d. d = c)) s)"

definition any_case :: "string \<Rightarrow> pattern" where
  "any_case s = sequence (map (\<lambda>c. Char_In (\<lambda>d. ascii_lower d = ascii_lower c)) s)"

definition spaces :: pattern where
  "spaces = some_of (Char_In py_space)"

definition non_spaces :: pattern where
  "non_spaces = some_of (Char_In (\<lambda>c. \<not> py_space c))"

definition anything :: pattern where
  "anything = Many (Char_In (\<lambda>c. c \<noteq> CHR 0x0A))"

text \<open>\<open>match\<close>, \<open>fullmatch\<close> and \<open>search\<close>.\<close>

definition pattern_match :: "pattern \<Rightarrow> string \<Rightarrow> bool" where
  "pattern_match r s = (ends r False s \<noteq> [])"

definition pattern_fullmatch :: "pattern \<Rightarrow> string \<Rightarrow> bool" where
  "pattern_fullmatch r s = list_ex (\<lambda>(q, t). t = []) (ends r False s)"

fun search_from :: "pattern \<Rightarrow> bool \<Rightarrow> string \<Rightarrow> bool" where
  "search_from r p [] = (ends r p [] \<noteq> [])"
| "search_from r p (c # s) = (ends r p (c # s) \<noteq> [] \<or> search_from r (word_char c) s)"

definition pattern_search :: "pattern \<Rightarrow> string \<Rightarrow> bool" where
  "pattern_search r s = search_from r False s"

section \<open>The relation\<close>

definition last_word :: "bool \<Rightarrow> string \<Rightarrow> bool" where
  "last_word p u = (if u = [] then p else word_char (last u))"

lemma last_word_simps [simp]:
  "last_word p [] = p" "last_word p [c] = word_char c" "last_word p (u @ w) = last_word (last_word p u) w"
  by (simp_all add: last_word_def)

text \<open>\<open>matches r p u v\<close>: after a character with \<open>p\<close> and before the text \<open>v\<close>, the pattern takes \<open>u\<close>.\<close>

inductive matches :: "pattern \<Rightarrow> bool \<Rightarrow> string \<Rightarrow> string \<Rightarrow> bool" where
  nothing: "matches Nothing p [] v"
| char_in: "f c \<Longrightarrow> matches (Char_In f) p [c] v"
| then_both: "matches a p u (w @ v) \<Longrightarrow> matches b (last_word p u) w v \<Longrightarrow> matches (Then a b) p (u @ w) v"
| either_left: "matches a p u v \<Longrightarrow> matches (Either a b) p u v"
| either_right: "matches b p u v \<Longrightarrow> matches (Either a b) p u v"
| many_none: "matches (Many a) p [] v"
| many_more: "matches a p u (w @ v) \<Longrightarrow> matches (Many a) (last_word p u) w v \<Longrightarrow> matches (Many a) p (u @ w) v"
| word_end: "p \<noteq> next_word v \<Longrightarrow> matches Word_End p [] v"

inductive_cases matchesE:
  "matches Nothing p u v" "matches (Char_In f) p u v" "matches (Then a b) p u v"
  "matches (Either a b) p u v" "matches Word_End p u v"

lemma ends_sound: "(q, v) \<in> set (ends r p s) \<Longrightarrow> \<exists>u. s = u @ v \<and> q = last_word p u \<and> matches r p u v"
proof (induction r p s arbitrary: q v rule: ends.induct)
  case (4 a b p s)
  then obtain q1 t where 1: "(q1, t) \<in> set (ends a p s)" "(q, v) \<in> set (ends b q1 t)" by auto
  obtain u where u: "s = u @ t" "q1 = last_word p u" "matches a p u t" using "4.IH"(1) [OF 1(1)] by blast
  obtain w where w: "t = w @ v" "q = last_word q1 w" "matches b q1 w v" using "4.IH"(2) [OF 1(1) refl 1(2)] by blast
  show ?case using u w by (intro exI [of _ "u @ w"]) (auto intro: matches.then_both)
next
  case (5 a b p s)
  then consider "(q, v) \<in> set (ends a p s)" | "(q, v) \<in> set (ends b p s)" by auto
  then show ?case
  proof cases
    case 1
    then obtain u where "s = u @ v \<and> q = last_word p u \<and> matches a p u v" using "5.IH"(1) by blast
    then show ?thesis by (intro exI [of _ u]) (simp add: matches.either_left)
  next
    case 2
    then obtain u where "s = u @ v \<and> q = last_word p u \<and> matches b p u v" using "5.IH"(2) by blast
    then show ?thesis by (intro exI [of _ u]) (simp add: matches.either_right)
  qed
next
  case (6 a p s)
  show ?case
  proof (cases "(q, v) = (p, s)")
    case True
    then show ?thesis using matches.many_none [of a p v] by (intro exI [of _ "[]"]) simp
  next
    case False
    with ends_Many [THEN iffD1, OF "6.prems"] obtain q1 t where
      1: "(q1, t) \<in> set (ends a p s)" "length t < length s" "(q, v) \<in> set (ends (Many a) q1 t)"
      by blast
    obtain u where u: "s = u @ t" "q1 = last_word p u" "matches a p u t" using "6.IH"(1) [OF 1(1)] by blast
    obtain w where w: "t = w @ v" "q = last_word q1 w" "matches (Many a) q1 w v"
      using "6.IH"(2) [OF 1(1) refl 1(2,3)] by blast
    show ?thesis using u w by (intro exI [of _ "u @ w"]) (auto intro: matches.many_more)
  qed
qed (auto split: if_splits intro: matches.intros exI [of _ "[_]"])

lemma ends_complete: "matches r p u v \<Longrightarrow> (last_word p u, v) \<in> set (ends r p (u @ v))"
proof (induction rule: matches.induct)
  case (then_both a p u w v b)
  then show ?case by (auto intro: bexI [of _ "(last_word p u, w @ v)"])
next
  case (many_more a p u w v)
  show ?case
  proof (cases "u = []")
    case True
    then show ?thesis using many_more.IH(2) by simp
  next
    case False
    then have "length (w @ v) < length (u @ w @ v)" by simp
    then have "(last_word (last_word p u) w, v) \<in> set (ends (Many a) p (u @ w @ v))"
      using many_more.IH ends_Many by blast
    then show ?thesis by simp
  qed
next
  case (many_none a p v)
  then show ?case by (subst ends.simps(6)) simp
qed simp_all

end
