(* ===== verification/Ddl_Applier.thy ===== *)
theory Ddl_Applier
  imports Patterns Effects File_Tools
begin

text \<open>
  \<open>core/deploy/ddl_applier.py\<close> and \<open>core/deploy/identifiers.py\<close>: the statements of a DDL file, the
  allow-list they all have to pass before the first is executed, and their execution in order,
  possibly from the one an earlier attempt failed at.

  The splitting of a text into statements and the removal of comments are those of \<open>sqlparse\<close>, the
  record \<open>sql_library\<close>. Executing a statement is an action on the world that may raise.
\<close>

section \<open>Normalized heads\<close>

record sql_library =
  sq_split :: "string \<Rightarrow> string list"
  sq_uncomment :: "string \<Rightarrow> string"

text \<open>\<open>re.sub(r"\s+", " ", s)\<close>.\<close>

fun collapse_spaces :: "bool \<Rightarrow> string \<Rightarrow> string" where
  "collapse_spaces in_run [] = []"
| "collapse_spaces in_run (c # s) =
     (if py_space c then (if in_run then [] else '' '') @ collapse_spaces True s
      else c # collapse_spaces False s)"

text \<open>
  \<open>str.upper\<close>. Two letters below 256 have an upper case above; they stay, being word characters
  before and after.
\<close>

definition upper_letters :: "char \<Rightarrow> string" where
  "upper_letters c = (let n = of_char c :: nat in
     if n = 223 then ''SS''
     else if (97 \<le> n \<and> n \<le> 122) \<or> (224 \<le> n \<and> n \<le> 254 \<and> n \<noteq> 247) then [char_of (n - 32)]
     else [c])"

definition upper_text :: "string \<Rightarrow> string" where
  "upper_text s = concat (map upper_letters s)"

definition HEAD_LEN :: nat where
  "HEAD_LEN = 80"

definition normalize_head :: "sql_library \<Rightarrow> string \<Rightarrow> string" where
  "normalize_head sq stmt =
     upper_text (take HEAD_LEN (collapse_spaces False (py_strip (sq_uncomment sq stmt))))"

section \<open>The lists\<close>

definition if_not_exists :: pattern where
  "if_not_exists = sequence [literal ''IF'', spaces, literal ''NOT'', spaces, literal ''EXISTS'', Word_End]"

definition if_exists :: "pattern list \<Rightarrow> pattern" where
  "if_exists rest = sequence ([literal ''IF'', spaces, literal ''EXISTS''] @ rest)"

definition alter_table :: "pattern list \<Rightarrow> pattern" where
  "alter_table rest = sequence ([literal ''ALTER'', spaces, literal ''TABLE'', spaces, non_spaces, spaces] @ rest)"

definition ALLOW_PATTERNS :: "pattern list" where
  "ALLOW_PATTERNS =
     [sequence [literal ''CREATE'', spaces,
        perhaps (sequence [literal ''OR'', spaces, literal ''ALTER'', spaces]),
        one_of [literal ''TABLE'', literal ''VIEW'', literal ''SCHEMA'', literal ''STAGE'',
                sequence [literal ''FILE'', spaces, literal ''FORMAT''], literal ''DATABASE'', literal ''WAREHOUSE''],
        spaces, if_not_exists],
      sequence [literal ''GRANT'', Word_End],
      alter_table [literal ''ADD'', spaces, literal ''COLUMN'', spaces, if_not_exists],
      sequence [literal ''USE'', spaces,
        one_of [literal ''WAREHOUSE'', literal ''DATABASE'', literal ''SCHEMA'', literal ''ROLE''], Word_End],
      sequence [literal ''COMMENT'', spaces, literal ''ON'', Word_End],
      sequence [literal ''DROP'', spaces, literal ''TABLE'', spaces, if_exists [Word_End]],
      alter_table [literal ''DROP'', spaces, literal ''COLUMN'', spaces, if_exists [Word_End]],
      sequence [literal ''DROP'', spaces, literal ''SCHEMA'', spaces,
        if_exists [spaces, non_spaces, spaces, literal ''RESTRICT'', Word_End]]]"

definition FORBID_PATTERNS :: "(pattern \<times> string) list" where
  "FORBID_PATTERNS =
     [(sequence [literal ''CREATE'', spaces, literal ''OR'', spaces, literal ''REPLACE'', Word_End],
         ''CREATE OR REPLACE''),
      (alter_table [literal ''RENAME'', Word_End], ''ALTER TABLE ... RENAME''),
      (alter_table [literal ''ALTER'', spaces, literal ''COLUMN'', Word_End, anything, literal ''SET'', spaces,
         literal ''DATA'', spaces, literal ''TYPE'', Word_End], ''ALTER COLUMN SET DATA TYPE''),
      (sequence [literal ''INSERT'', Word_End], ''INSERT (DML)''),
      (sequence [literal ''UPDATE'', Word_End], ''UPDATE (DML)''),
      (sequence [literal ''DELETE'', Word_End], ''DELETE (DML)''),
      (sequence [literal ''MERGE'', Word_End], ''MERGE (DML)''),
      (sequence [literal ''TRUNCATE'', Word_End], ''TRUNCATE (DML)''),
      (sequence [literal ''DROP'', spaces, literal ''DATABASE'', Word_End], ''DROP DATABASE'')]"

definition classify_statement :: "sql_library \<Rightarrow> string \<Rightarrow> string option" where
  "classify_statement sq stmt =
     (let head = normalize_head sq stmt
      in case List.find (\<lambda>(r, label). pattern_match r head) FORBID_PATTERNS of
           Some (r, label) \<Rightarrow> Some label
         | None \<Rightarrow> if list_ex (\<lambda>r. pattern_match r head) ALLOW_PATTERNS then None else Some ''unrecognized DDL'')"

fun first_unsafe :: "sql_library \<Rightarrow> nat \<Rightarrow> string list \<Rightarrow> (nat \<times> string) option" where
  "first_unsafe sq index [] = None"
| "first_unsafe sq index (stmt # stmts) =
     (case classify_statement sq stmt of
        Some label \<Rightarrow> Some (index, label)
      | None \<Rightarrow> first_unsafe sq (Suc index) stmts)"

datatype ddl_error = Unsafe_Ddl nat string | Ddl_File os_error

definition validate_ddl_statements :: "sql_library \<Rightarrow> string list \<Rightarrow> ddl_error + unit" where
  "validate_ddl_statements sq stmts =
     (case first_unsafe sq 0 stmts of None \<Rightarrow> Inr () | Some (i, label) \<Rightarrow> Inl (Unsafe_Ddl i label))"

section \<open>Statements of a file\<close>

definition right_strip :: "string \<Rightarrow> string" where
  "right_strip s = rev (dropWhile py_space (rev s))"

definition strip_semicolons :: "string \<Rightarrow> string" where
  "strip_semicolons s = rev (dropWhile (\<lambda>c. c = CHR '';'') (rev (dropWhile (\<lambda>c. c = CHR '';'') s)))"

definition statement_text :: "sql_library \<Rightarrow> string \<Rightarrow> string option" where
  "statement_text sq raw =
     (let rendered = py_strip raw
      in if rendered = [] \<or> py_strip (strip_semicolons (py_strip (sq_uncomment sq rendered))) = [] then None
         else let shown = (if endswith rendered '';'' then right_strip (butlast rendered) else rendered)
              in if shown = [] then None else Some shown)"

definition parse_ddl_statements :: "sql_library \<Rightarrow> string \<Rightarrow> string list" where
  "parse_ddl_statements sq text = List.map_filter (statement_text sq) (sq_split sq text)"

section \<open>Execution\<close>

record ddl_failure =
  df_index :: nat
  df_sql :: string
  df_error :: string

record ddl_result =
  dl_executed :: nat
  dl_failure :: "ddl_failure option"
  dl_parsed :: "string list"

type_synonym 'w executor_fn = "string \<Rightarrow> (string, 'w, unit) action"

fun execute_statements ::
  "'w executor_fn \<Rightarrow> nat \<Rightarrow> nat \<Rightarrow> string list \<Rightarrow> nat \<Rightarrow> 'w \<Rightarrow> (nat \<times> ddl_failure option) \<times> 'w" where
  "execute_statements ex start index [] n w = ((n, None), w)"
| "execute_statements ex start index (stmt # stmts) n w =
     (if index < start then execute_statements ex start (Suc index) stmts n w
      else (case ex stmt w of
              (Inr u, w') \<Rightarrow> execute_statements ex start (Suc index) stmts (Suc n) w'
            | (Inl e, w') \<Rightarrow> ((n, Some \<lparr>df_index = index, df_sql = stmt, df_error = e\<rparr>), w')))"

definition apply_statements ::
  "sql_library \<Rightarrow> 'w executor_fn \<Rightarrow> string list \<Rightarrow> int \<Rightarrow> (ddl_error, 'w, ddl_result) action" where
  "apply_statements sq ex stmts start_index =
     bind_act (of_result (validate_ddl_statements sq stmts)) (\<lambda>_ w.
       if int (length stmts) \<le> max 0 start_index
       then (Inr \<lparr>dl_executed = 0, dl_failure = None, dl_parsed = stmts\<rparr>, w)
       else (case execute_statements ex (nat (max 0 start_index)) 0 stmts 0 w of
               ((n, failure), w') \<Rightarrow> (Inr \<lparr>dl_executed = n, dl_failure = failure, dl_parsed = stmts\<rparr>, w')))"

definition apply_ddl ::
  "sql_library \<Rightarrow> os_env \<Rightarrow> ('w \<Rightarrow> file_system) \<Rightarrow> 'w executor_fn \<Rightarrow> path_parts \<Rightarrow> int \<Rightarrow>
     (ddl_error, 'w, ddl_result) action" where
  "apply_ddl sq os files ex path start_index w =
     (if \<not> is_file_node (files w path) then
        (Inr \<lparr>dl_executed = 0,
              dl_failure = Some \<lparr>df_index = 0, df_sql = [], df_error = ''DDL file not found: '' @ path_str path\<rparr>,
              dl_parsed = []\<rparr>, w)
      else
        bind_act (of_result (case read_text os path (files w) of Inl e \<Rightarrow> Inl (Ddl_File e) | Inr t \<Rightarrow> Inr t))
          (\<lambda>text. apply_statements sq ex (parse_ddl_statements sq text) start_index) w)"

section \<open>Identifiers\<close>

text \<open>The pattern of an unquoted identifier, on the whole value.\<close>

definition ident_start :: "char \<Rightarrow> bool" where
  "ident_start c = (let n = of_char c :: nat in (65 \<le> n \<and> n \<le> 90) \<or> (97 \<le> n \<and> n \<le> 122) \<or> n = 95)"

definition ident_rest :: "char \<Rightarrow> bool" where
  "ident_rest c = (let n = of_char c :: nat in ident_start c \<or> (48 \<le> n \<and> n \<le> 57) \<or> n = 36)"

definition valid_identifier :: "string \<Rightarrow> bool" where
  "valid_identifier s = (s \<noteq> [] \<and> ident_start (hd s) \<and> list_all ident_rest (tl s) \<and> length s \<le> 255)"

section \<open>What the lists let through\<close>

lemma ends_literal: "(q, v) \<in> set (ends (literal w) p s) \<Longrightarrow> s = w @ v"
proof (induction w arbitrary: p s)
  case Nil
  then show ?case by (simp add: literal_def)
next
  case (Cons c w)
  show ?case
  proof (cases w)
    case Nil
    then show ?thesis using Cons.prems by (cases s) (auto simp: literal_def split: if_splits)
  next
    case (Cons d ds)
    then obtain q1 t where "(q1, t) \<in> set (ends (Char_In (\<lambda>d. d = c)) p s)" "(q, v) \<in> set (ends (literal w) q1 t)"
      using Cons.prems by (auto simp: literal_def)
    then show ?thesis using Cons.IH by (cases s) (auto split: if_splits)
  qed
qed

lemma match_literal: "pattern_match (Then (literal w) r) s \<Longrightarrow> prefix w s"
  unfolding pattern_match_def by (fastforce dest: ends_literal simp: neq_Nil_conv)

text \<open>The words an allowed statement can begin with.\<close>

definition DDL_VERBS :: "string list" where
  "DDL_VERBS = [''CREATE'', ''GRANT'', ''ALTER'', ''USE'', ''COMMENT'', ''DROP'']"

lemma allowed_verb:
  assumes "r \<in> set ALLOW_PATTERNS" and "pattern_match r head"
  shows "\<exists>verb \<in> set DDL_VERBS. prefix verb head"
proof -
  have "\<exists>verb \<in> set DDL_VERBS. \<exists>rest. r = Then (literal verb) rest"
    using assms(1) by (auto simp: ALLOW_PATTERNS_def DDL_VERBS_def alter_table_def if_exists_def)
  then show ?thesis using assms(2) match_literal by blast
qed

lemma classify_None:
  "classify_statement sq stmt = None \<longleftrightarrow>
     (\<forall>(r, label) \<in> set FORBID_PATTERNS. \<not> pattern_match r (normalize_head sq stmt)) \<and>
     (\<exists>r \<in> set ALLOW_PATTERNS. pattern_match r (normalize_head sq stmt))"
proof -
  let ?match = "\<lambda>r. pattern_match r (normalize_head sq stmt)"
  have "classify_statement sq stmt = None \<longleftrightarrow>
      List.find (\<lambda>(r, label). ?match r) FORBID_PATTERNS = None \<and> list_ex ?match ALLOW_PATTERNS"
    by (auto simp: classify_statement_def Let_def split: option.split)
  then show ?thesis unfolding find_None_iff list_ex_iff by auto
qed

lemma first_unsafe_None: "first_unsafe sq i stmts = None \<longleftrightarrow> list_all (\<lambda>s. classify_statement sq s = None) stmts"
  by (induction stmts arbitrary: i) (auto split: option.split)

section \<open>Execution\<close>

text \<open>The statements one after another until one raises.\<close>

fun run_statements :: "'w executor_fn \<Rightarrow> string list \<Rightarrow> 'w \<Rightarrow> string option \<times> 'w" where
  "run_statements ex [] w = (None, w)"
| "run_statements ex (stmt # stmts) w =
     (case ex stmt w of (Inr u, w') \<Rightarrow> run_statements ex stmts w' | (Inl e, w') \<Rightarrow> (Some e, w'))"

definition executed :: "'w executor_fn \<Rightarrow> string list \<Rightarrow> nat \<Rightarrow> ddl_failure option \<Rightarrow> 'w \<Rightarrow> 'w \<Rightarrow> bool" where
  "executed ex todo n failure w w' \<longleftrightarrow>
     (case failure of
        None \<Rightarrow> n = length todo \<and> run_statements ex todo w = (None, w')
      | Some f \<Rightarrow> n < length todo \<and> df_sql f = todo ! n \<and>
          run_statements ex (take (Suc n) todo) w = (Some (df_error f), w'))"

lemma execute_statements_from:
  assumes "execute_statements ex start index stmts n w = ((m, failure), w')" and "start \<le> index"
  shows "n \<le> m \<and> executed ex stmts (m - n) failure w w' \<and>
    (\<forall>f. failure = Some f \<longrightarrow> df_index f = index + (m - n))"
  using assms
proof (induction stmts arbitrary: index n w)
  case Nil
  then show ?case by (simp add: executed_def)
next
  case (Cons stmt stmts)
  obtain r w1 where ex: "ex stmt w = (r, w1)" by (metis surj_pair)
  show ?case
  proof (cases r)
    case (Inl e)
    then show ?thesis using Cons.prems ex by (auto simp: executed_def)
  next
    case (Inr u)
    then have "execute_statements ex start (Suc index) stmts (Suc n) w1 = ((m, failure), w')"
      using Cons.prems ex by simp
    from Cons.IH [OF this] Cons.prems(2) have rest: "Suc n \<le> m" "executed ex stmts (m - Suc n) failure w1 w'"
        "\<forall>f. failure = Some f \<longrightarrow> df_index f = Suc index + (m - Suc n)"
      by simp_all
    have "m - n = Suc (m - Suc n)" using rest(1) by simp
    then show ?thesis using rest ex Inr by (auto simp: executed_def split: option.splits)
  qed
qed

lemma execute_statements_skip:
  "execute_statements ex (index + k) index stmts n w = execute_statements ex (index + k) (index + k) (drop k stmts) n w"
proof (induction k arbitrary: index stmts)
  case 0
  then show ?case by simp
next
  case (Suc k)
  show ?case
  proof (cases stmts)
    case Nil
    then show ?thesis by simp
  next
    case (Cons stmt rest)
    then show ?thesis using Suc.IH [of "Suc index" rest] by simp
  qed
qed

lemma apply_statements_Inr:
  assumes "apply_statements sq ex stmts start w = (Inr res, w')"
  shows "dl_parsed res = stmts \<and> list_all (\<lambda>s. classify_statement sq s = None) stmts \<and>
    executed ex (drop (nat start) stmts) (dl_executed res) (dl_failure res) w w' \<and>
    (\<forall>f. dl_failure res = Some f \<longrightarrow> df_index f = nat start + dl_executed res)"
proof -
  have start: "nat (max 0 start) = nat start" by simp
  have safe: "first_unsafe sq 0 stmts = None"
    using assms by (auto simp: apply_statements_def validate_ddl_statements_def bind_act_def split: option.splits)
  show ?thesis
  proof (cases "int (length stmts) \<le> max 0 start")
    case True
    then have "drop (nat start) stmts = []" by simp
    then show ?thesis using assms safe True
      by (auto simp: apply_statements_def validate_ddl_statements_def bind_act_def first_unsafe_None executed_def)
  next
    case False
    obtain m failure w1 where run: "execute_statements ex (nat start) 0 stmts 0 w = ((m, failure), w1)"
      by (metis surj_pair)
    then have "execute_statements ex (nat start) (nat start) (drop (nat start) stmts) 0 w = ((m, failure), w1)"
      using execute_statements_skip [of ex 0 "nat start" stmts 0 w] by simp
    from execute_statements_from [OF this] have out: "executed ex (drop (nat start) stmts) m failure w w1"
        "\<forall>f. failure = Some f \<longrightarrow> df_index f = nat start + m"
      by simp_all
    have "res = \<lparr>dl_executed = m, dl_failure = failure, dl_parsed = stmts\<rparr>" "w' = w1"
      using assms safe False run start
      by (simp_all add: apply_statements_def validate_ddl_statements_def bind_act_def)
    then show ?thesis using out safe by (simp add: first_unsafe_None)
  qed
qed

section \<open>Properties\<close>


text \<open>
  C18: resuming a file at the statement that failed completes it. When the file is unchanged and the
  second attempt starts at the failing index and succeeds, the statements before it were executed
  by the first attempt, those from it on by the second, none is skipped, and the counts of the two
  add up to the length of the file.
\<close>

theorem resumed_ddl_is_complete:
  assumes "apply_ddl sq os files ex path 0 w = (Inr first, w1)" and "dl_failure first = Some f"
    and "files w path = files w1 path" and "is_file_node (files w path)"
    and "apply_ddl sq os files ex path (int (df_index f)) w1 = (Inr second, w2)" and "dl_failure second = None"
  shows "dl_parsed second = dl_parsed first \<and> df_index f = dl_executed first \<and>
    dl_executed first + dl_executed second = length (dl_parsed first) \<and>
    run_statements ex (take (Suc (df_index f)) (dl_parsed first)) w = (Some (df_error f), w1) \<and>
    run_statements ex (drop (df_index f) (dl_parsed first)) w1 = (None, w2)"
proof -
  obtain sql where sql: "read_text os path (files w) = Inr sql"
      "apply_statements sq ex (parse_ddl_statements sq sql) 0 w = (Inr first, w1)"
    using assms(1,4) by (auto simp: apply_ddl_def bind_act_Inr split: sum.splits)
  have "read_text os path (files w1) = Inr sql" using sql(1) assms(3) by (simp add: read_text_def)
  then have again: "apply_statements sq ex (parse_ddl_statements sq sql) (int (df_index f)) w1 = (Inr second, w2)"
    using assms(3,4,5) by (auto simp: apply_ddl_def bind_act_Inr)
  show ?thesis
    using apply_statements_Inr [OF sql(2)] apply_statements_Inr [OF again] assms(2,6)
    by (auto simp: executed_def)
qed

section \<open>Samples\<close>

text \<open>A splitter at semicolons and a warehouse that refuses a statement once.\<close>

fun split_semicolons :: "string \<Rightarrow> string list" where
  "split_semicolons [] = [[]]"
| "split_semicolons (c # s) =
     (if c = CHR '';'' then [c] # split_semicolons s
      else (case split_semicolons s of [] \<Rightarrow> [[c]] | t # ts \<Rightarrow> (c # t) # ts))"

definition sample_sql :: sql_library where
  "sample_sql = \<lparr>sq_split = split_semicolons, sq_uncomment = id\<rparr>"

definition sample_executor :: "string \<Rightarrow> (string, file_system \<times> string list, unit) action" where
  "sample_executor sql w =
     (if prefix ''GRANT'' sql \<and> sql \<notin> set (snd w) then (Inl ''no role'', (fst w, snd w @ [sql]))
      else (Inr (), (fst w, snd w @ [sql])))"

definition sample_ddl :: file_system where
  "sample_ddl = [[''p'', ''d.sql''] \<mapsto>
     File_Node ''create table  if not exists t (i int); GRANT select on t to r;use role r;'']"


theorem resumed_ddl_is_complete_witness:
  "case apply_ddl sample_sql plain_os fst sample_executor [''p'', ''d.sql''] 0 (sample_ddl, []) of
     (Inl e, w1) \<Rightarrow> False
   | (Inr first, w1) \<Rightarrow>
       (case apply_ddl sample_sql plain_os fst sample_executor [''p'', ''d.sql''] 1 w1 of
          (Inl e, w2) \<Rightarrow> False
        | (Inr second, w2) \<Rightarrow> dl_executed first + dl_executed second = length (dl_parsed first) \<and>
            run_statements sample_executor (drop 1 (dl_parsed first)) w1 = (None, w2))"
proof -
  let ?go = "\<lambda>i. apply_ddl sample_sql plain_os fst sample_executor [''p'', ''d.sql''] i"
  have "case ?go 0 (sample_ddl, []) of
      (Inl e, w1) \<Rightarrow> False
    | (Inr first, w1) \<Rightarrow> map_option df_index (dl_failure first) = Some 1 \<and>
        fst w1 [''p'', ''d.sql''] = sample_ddl [''p'', ''d.sql''] \<and>
        (case ?go 1 w1 of (Inl e, w2) \<Rightarrow> False | (Inr second, w2) \<Rightarrow> (case dl_failure second of None \<Rightarrow> True | Some _ \<Rightarrow> False))"
    by code_simp
  then obtain first w1 f second w2 where run: "?go 0 (sample_ddl, []) = (Inr first, w1)" "dl_failure first = Some f"
      "df_index f = 1" "fst (sample_ddl, [] :: string list) [''p'', ''d.sql''] = fst w1 [''p'', ''d.sql'']"
      "?go 1 w1 = (Inr second, w2)" "dl_failure second = None"
    by (auto split: prod.splits sum.splits option.splits)
  have there: "is_file_node (fst (sample_ddl, [] :: string list) [''p'', ''d.sql''])" by code_simp
  have "?go (int (df_index f)) w1 = (Inr second, w2)" using run(3,5) by simp
  note out = resumed_ddl_is_complete [where files = fst, OF run(1,2,4) there this run(6), unfolded run(3)]
  show ?thesis by (simp only: run(1,5) prod.case sum.case) (use out in blast)
qed

end
