(* ===== verification/Spec2Isabelle.thy ===== *)
theory Spec2Isabelle
  imports Job_Lifecycle Api_Idempotency Webhooks Pagination Archiver Build_Outcomes Ddl_Applier
begin

text \<open>
  Carve runs data pipelines and lets language-model agents build and repair them. This library
  models the Python package under \<^verbatim>\<open>src/src/carve\<close>: the permission boundary every agent
  action passes, the agent loop and the delegation built on it, the runtime that schedules,
  queues and executes pipelines over a SQL store, the orchestration that turns a plan into a
  recorded build, and the HTTP service before it.

  \<^bold>\<open>Parts and how they interact.\<close> An agent runs in \<open>core/agents/loop.py\<close>: the loop calls the
  language-model service, hands each tool use to the permission gate
  (\<open>core/agents/permissions\<close>) and runs the tools the gate lets through. A delegation
  (\<open>core/agents/delegation.py\<close>) looks an agent up in the registry, builds a policy at the weaker of
  the parent's mode and the agent's capability, binds the granted tools and runs a loop. On the
  runtime side the scheduler (\<open>runtime/scheduler.py\<close>) turns due schedules into jobs of the queue
  (\<open>core/state/job_queue.py\<close>), workers (\<open>runtime/worker.py\<close>) claim jobs and execute their pipeline
  (\<open>runtime/execute_pipeline.py\<close>) wave by wave along its graph (\<open>runtime/pipeline_dag.py\<close>), and the
  reaper returns the jobs of dead workers to the queue; the archiver (\<open>runtime/archiver.py\<close>) moves
  rows at rest out of the tables. A goal is decomposed into sub-goals, each routed to an engineer
  (\<open>cli/orchestrator/goal_decomposer.py\<close>, \<open>delegation_run.py\<close>); \<open>carve build\<close>
  (\<open>cli/orchestrator/builder.py\<close>) lets the engineers of a plan write, has their work reviewed
  (\<open>review_wiring.py\<close>) and records the build in the repository (\<open>core/state/repository.py\<close>). A request to the service passes the
  authentication (\<open>api/auth.py\<close>), then the replay cache (\<open>api/idempotency.py\<close>), then a router; the
  publisher (\<open>api/webhooks.py\<close>) posts the events of the store to the subscribers.

  \<^bold>\<open>Theories.\<close>
  \<^item> \<open>Prelude\<close>: shared lemmas on lists, options and association lists, dictionaries, the
    collections \<open>branches\<close> and the like.
  \<^item> \<open>Permission_Modes\<close> (\<open>modes.py\<close>, \<open>warehouse_roles.py\<close>), \<open>Permission_Policy\<close> (\<open>policy.py\<close>),
    \<open>Bash_Gate\<close> (\<open>bash_gate.py\<close> and the part of \<open>shlex\<close> it relies on), \<open>Permission_Gate\<close>
    (\<open>gate.py\<close>): the ordered modes, the policy of a session, the tiering of a shell command and
    the decision about a tool call. The lemmas show what an allowed call can be.
  \<^item> \<open>Agent_Loop\<close> (\<open>loop.py\<close>, \<open>pricing.py\<close>, \<open>cancel.py\<close>, \<open>steering.py\<close>, \<open>compaction.py\<close>): a state
    record per run; the service is a function from requests and a world to outcomes, tools
    are functions on the world. The lemmas show that blocked calls reach no tool, that
    transcripts are well paired and how runs end.
  \<^item> \<open>File_Tools\<close> (\<open>fs_tools.py\<close>, \<open>m1_tools.py\<close>, \<open>secrets_denylist.py\<close>, \<open>bash_tool.py\<close>): tools over
    a file system that maps paths to files and directories.
  \<^item> \<open>Agent_Files\<close> (\<open>loader.py\<close>, \<open>discovery.py\<close>, \<open>subagent_registry.py\<close>, \<open>routing.py\<close>, \<open>lint.py\<close>),
    \<open>Delegation\<close> (\<open>delegation.py\<close>, \<open>tool_binding.py\<close>, \<open>submit_result.py\<close>), \<open>Review\<close>
    (\<open>verification.py\<close>, \<open>review_fan_out.py\<close>).
  \<^item> \<open>Component_Locator\<close>, \<open>Dfs_Cycle\<close>, \<open>Pipeline_Schema\<close>, \<open>Pipeline_DAG\<close>, \<open>Execute_Pipeline\<close>:
    from the names of components to the result of a run.
  \<^item> \<open>State_Store\<close>, \<open>Job_Queue\<close>, \<open>Scheduler\<close>, \<open>Worker\<close>, \<open>Queue_System\<close>: the tables as lists of
    rows, each operation one transaction, a worker as a machine whose steps are its store
    calls, and the interleaving of workers, users, scheduler and reaper as an inductive
    relation, over which the invariants of the queue are proved. \<open>Job_Lifecycle\<close> states the contract
    of the queue as the life of one job and shows that every transaction refines it.
  \<^item> \<open>Project_Store\<close> (the rest of \<open>repository.py\<close>): plans, pipelines, builds, logs and workspaces with
    their references; every operation keeps the constraints. \<open>Archiver\<close> (\<open>archiver.py\<close>, the durations
    of \<open>schema.py\<close>): the batches and passes; the lemmas account for every row.
  \<^item> \<open>Effects\<close>: actions that raise or return over a state, with rules for triples of a
    precondition and the two postconditions. \<open>Goal_Routing\<close> (\<open>goal_classifier.py\<close>,
    \<open>goal_decomposer.py\<close>, \<open>delegation_run.py\<close>, \<open>review_wiring.py\<close>, \<open>cost_rollup.py\<close>,
    \<open>core/targets\<close>), \<open>Build_Flow\<close> (\<open>builder.py\<close>) and \<open>Build_Outcomes\<close>: the orchestration as such
    actions over the store, the files and the world; the lemmas say in which state each exit leaves
    the store.
  \<^item> \<open>Patterns\<close>: the regular expressions of \<open>re\<close> as a datatype with a matcher, equal to a relation.
    \<open>Ddl_Applier\<close> (\<open>core/deploy/ddl_applier.py\<close>, \<open>identifiers.py\<close>): the lists a DDL file has to pass and the execution of
    its statements, resumed at a failure.
  \<^item> \<open>Api_Tokens\<close> (\<open>core/state/tokens.py\<close>, \<open>api/auth.py\<close>, \<open>api/errors.py\<close>, \<open>routers/tokens.py\<close>),
    \<open>Api_Idempotency\<close> (\<open>core/state/idempotency.py\<close>, \<open>api/idempotency.py\<close>, the order of
    \<open>api/main.py\<close>), \<open>Pagination\<close> (\<open>api/pagination.py\<close>, \<open>routers/jobs.py\<close>): requests, tokens, cached
    answers and cursors; a handler is a function on the rest of the state.
  \<^item> \<open>Web_Address\<close> and \<open>Webhooks\<close> (\<open>core/state/webhooks.py\<close>, \<open>api/webhooks.py\<close>,
    \<open>routers/webhooks.py\<close>): the address guard over 32 and 128 bit words, the ledger of deliveries and the publisher as a fold
    over its passes; what the subscribers and the resolver answer is a function of the posts so far.

  \<^bold>\<open>Interfaces.\<close> Where one component relies on another, or several operations share a contract,
  the laws are a locale, interpreted on the model of the provider: \<open>mode_indexed_authority\<close> (what
  a mode permits grows with the mode) on the tool sets, the built policies and the bash tiers;
  \<open>step_graph\<close> (what the run walk needs of a graph) on the constructed graph; \<open>owned_rows\<close> (a
  write guarded by ownership) on the guarded writes of the queue; \<open>step_invariant\<close> on the
  step relation of the queue system, four times; \<open>run_invariant\<close> (what every tool keeps, a run
  keeps) on the loop with the file tools; \<open>batch_seams\<close> (what a batch of the archiver needs of
  its insert and its delete) on the statements of the store.

  \<^bold>\<open>Bounds and fuel.\<close> The wave loop of \<open>execute_pipeline\<close> takes the number of waves as fuel; it
  is proved that as many waves as the pipeline has steps always suffice. A run of an agent
  recurses over \<open>max_turns\<close>, a service call over \<open>max_retries\<close>, the verification loop over its
  iterations, as the loops of the code do. A worker alone ends after at most nine store calls,
  for which \<open>run_once\<close> has twelve inputs. A delivery is settled after at most seven passes that
  attempt it. The walk over the parents of a plan is a partial function; it is proved to return
  when parents are older than their children, and not to when a plan is its own parent.

  \<^bold>\<open>Parameters.\<close> The language model, YAML and TOML parsing, the cron library, the template engine,
  the operating system, password hashing, message digests, text encodings, the resolver and the bodies of steps and injected tools are arguments; what is
  assumed of them stands in the statements.

  \<^bold>\<open>Not modelled.\<close> Prompts and rendering, subprocesses, network clients and database drivers,
  the command line and the orchestration of the planner and recovery agents behind it, the remaining HTTP
  routers, which read the tables or start that orchestration, run streams, deployment, hooks, the
  registry of targets, skills and memory, the dbt and dlt project parsers, telemetry. They are
  effects on external programs, or not done yet.
\<close>

end
